(* ===== verification/Prelude.thy ===== *)
theory Prelude
  imports Main "HOL-Library.Word" "HOL-Library.AList" "HOL-Library.List_Lexorder" "HOL-Library.Char_ord"
begin

text \<open>
  The shared vocabulary of the development: machine integers, Rust's \<open>Result\<close>, panics,
  the error kinds of \<open>std::io\<close> and the status codes of tonic and axum that the sources use,
  the standard library's \<open>HashMap\<close>, \<open>BTreeMap\<close> and number formatting, and the lemma
  collections the component theories extend.

  A \<open>HashMap\<close> is an association list with distinct keys; the order of the list stands for
  the arbitrary iteration order, so that a statement about iteration holds for every order.
  A \<open>BTreeMap\<close> is an association list sorted by its keys. The laws both promise their clients
  are the locale \<open>kv_map\<close>, interpreted here for each of them.
\<close>

section \<open>Machine integers and results\<close>

type_synonym u8 = "8 word"
type_synonym u32 = "32 word"
type_synonym u64 = "64 word"
type_synonym bytes = "u8 list"

datatype ('a, 'e) result = Ok 'a | Err 'e

text \<open>A call either returns to its caller or unwinds with a panic.\<close>

datatype 'a exec = Ret 'a | Panic

datatype io_error_kind =
    NotFound | AlreadyExists | InvalidInput | InvalidData | StorageFull
  | WriteZero | UnexpectedEof | HostUnreachable | TimedOut | OtherError

type_synonym 'a io = "('a, io_error_kind) result"

text \<open>What \<open>tokio::time::timeout\<close> reports of a fallible call.\<close>

datatype ('t, 'e) attempt = Answered "('t, 'e) result" | Elapsed

text \<open>The codes of \<open>tonic::Status\<close> that the services return (messages are not modelled).\<close>

datatype code =
    Code_NotFound | Code_AlreadyExists | Code_Internal | Code_Unavailable
  | Code_InvalidArgument | Code_FailedPrecondition | Code_ResourceExhausted

type_synonym 'a rpc = "('a, code) result"

fun is_ok :: "('a, 'e) result \<Rightarrow> bool" where
  "is_ok (Ok _) = True"
| "is_ok (Err _) = False"

section \<open>Lemma collections\<close>

named_theorems file_simps \<open>equations of the file model\<close>
named_theorems slot_rules \<open>how the slot layout survives file updates\<close>
named_theorems keeps_invar \<open>operations that keep the invariant of their component\<close>
named_theorems op_defs \<open>the operations of a component, to be unfolded together\<close>

section \<open>Metrics: a family of counters and gauges\<close>

type_synonym 'l metrics = "'l \<Rightarrow> int"

definition metric_add :: "'l \<Rightarrow> int \<Rightarrow> 'l metrics \<Rightarrow> 'l metrics" where
  "metric_add l n m = m(l := m l + n)"

definition metric_set :: "'l \<Rightarrow> int \<Rightarrow> 'l metrics \<Rightarrow> 'l metrics" where
  "metric_set l n m = m(l := n)"

abbreviation metric_inc :: "'l \<Rightarrow> 'l metrics \<Rightarrow> 'l metrics" where
  "metric_inc l m \<equiv> metric_add l 1 m"

section \<open>HashMap and BTreeMap\<close>

type_synonym ('k, 'v) hashmap = "('k \<times> 'v) list"
type_synonym ('k, 'v) btreemap = "('k \<times> 'v) list"

abbreviation hm_get :: "('k, 'v) hashmap \<Rightarrow> 'k \<Rightarrow> 'v option" where
  "hm_get \<equiv> map_of"

abbreviation hm_insert :: "'k \<Rightarrow> 'v \<Rightarrow> ('k, 'v) hashmap \<Rightarrow> ('k, 'v) hashmap" where
  "hm_insert \<equiv> AList.update"

abbreviation hm_remove :: "'k \<Rightarrow> ('k, 'v) hashmap \<Rightarrow> ('k, 'v) hashmap" where
  "hm_remove \<equiv> AList.delete"

abbreviation hm_keys :: "('k, 'v) hashmap \<Rightarrow> 'k list" where
  "hm_keys \<equiv> map fst"

abbreviation hm_values :: "('k, 'v) hashmap \<Rightarrow> 'v list" where
  "hm_values \<equiv> map snd"

abbreviation hm_contains :: "('k, 'v) hashmap \<Rightarrow> 'k \<Rightarrow> bool" where
  "hm_contains m k \<equiv> map_of m k \<noteq> None"

abbreviation hm_invar :: "('k, 'v) hashmap \<Rightarrow> bool" where
  "hm_invar m \<equiv> distinct (map fst m)"

fun bt_insert :: "'k::linorder \<Rightarrow> 'v \<Rightarrow> ('k, 'v) btreemap \<Rightarrow> ('k, 'v) btreemap" where
  "bt_insert k v [] = [(k, v)]"
| "bt_insert k v ((k', v') # m) =
     (if k < k' then (k, v) # (k', v') # m
      else if k = k' then (k, v) # m
      else (k', v') # bt_insert k v m)"

abbreviation bt_invar :: "('k::linorder, 'v) btreemap \<Rightarrow> bool" where
  "bt_invar m \<equiv> sorted (map fst m) \<and> distinct (map fst m)"

text \<open>\<open>retain\<close> of both maps.\<close>

definition map_retain :: "('k \<Rightarrow> 'v \<Rightarrow> bool) \<Rightarrow> ('k \<times> 'v) list \<Rightarrow> ('k \<times> 'v) list" where
  "map_retain P m = filter (\<lambda>(k, v). P k v) m"

section \<open>The CRC-32 hasher\<close>

text \<open>
  \<open>crc32fast::Hasher\<close> is a third-party crate: its three calls are a parameter of every
  definition that hashes. What the streaming upload relies on is the hypothesis
  \<open>crc_streams\<close>: feeding two pieces one after the other is feeding their concatenation.
\<close>

record 'h crc32 =
  h_new :: 'h
  h_update :: "'h \<Rightarrow> bytes \<Rightarrow> 'h"
  h_finalize :: "'h \<Rightarrow> u32"

definition compute_checksum :: "'h crc32 \<Rightarrow> bytes \<Rightarrow> u32" where
  "compute_checksum H data = h_finalize H (h_update H (h_new H) data)"

definition crc_streams :: "'h crc32 \<Rightarrow> bool" where
  "crc_streams H \<longleftrightarrow> (\<forall>h a b. h_update H (h_update H h a) b = h_update H h (a @ b)) \<and>
     (\<forall>h. h_update H h [] = h)"

section \<open>Decimal formatting\<close>

fun show_nat :: "nat \<Rightarrow> string" where
  "show_nat n =
     (if n < 10 then [char_of (48 + n)] else show_nat (n div 10) @ [char_of (48 + n mod 10)])"

declare show_nat.simps [simp del]

section \<open>The map interface\<close>

locale kv_map =
  fixes ins :: "'k \<Rightarrow> 'v \<Rightarrow> ('k \<times> 'v) list \<Rightarrow> ('k \<times> 'v) list"
    and invar :: "('k \<times> 'v) list \<Rightarrow> bool"
  assumes invar_empty: "invar []"
    and invar_distinct: "invar m \<Longrightarrow> distinct (map fst m)"
    and invar_filter: "invar m \<Longrightarrow> invar (filter P m)"
    and invar_ins: "invar m \<Longrightarrow> invar (ins k v m)"
    and get_ins: "invar m \<Longrightarrow> map_of (ins k v m) = (map_of m)(k \<mapsto> v)"
begin

lemma mem_iff_get: "invar m \<Longrightarrow> (k, v) \<in> set m \<longleftrightarrow> map_of m k = Some v"
  using invar_distinct by (simp add: map_of_eq_Some_iff)

lemma invar_retain: "invar m \<Longrightarrow> invar (map_retain P m)"
  by (simp add: map_retain_def invar_filter)

lemma get_retain:
  assumes "invar m"
  shows "map_of (map_retain P m) k =
    (case map_of m k of None \<Rightarrow> None | Some v \<Rightarrow> if P k v then Some v else None)"
proof -
  have m: "\<And>v. (k, v) \<in> set m \<longleftrightarrow> map_of m k = Some v" using assms by (rule mem_iff_get)
  have r: "\<And>v. (k, v) \<in> set (map_retain P m) \<longleftrightarrow> map_of (map_retain P m) k = Some v"
    using assms invar_retain mem_iff_get by blast
  show ?thesis
  proof (cases "map_of (map_retain P m) k")
    case None
    then have "\<And>v. (k, v) \<in> set m \<Longrightarrow> \<not> P k v"
      using r by (auto simp: map_retain_def)
    then have "\<And>v. map_of m k = Some v \<Longrightarrow> \<not> P k v" using m by blast
    then show ?thesis using None by (auto split: option.split)
  next
    case (Some v)
    then have "(k, v) \<in> set m \<and> P k v" using r by (auto simp: map_retain_def)
    then show ?thesis using Some m by simp
  qed
qed

lemma retain_values:
  assumes "invar m"
  shows "v \<in> set (map snd (map_retain P m)) \<longleftrightarrow> (\<exists>k. map_of m k = Some v \<and> P k v)"
  by (force simp: map_retain_def mem_iff_get [OF assms, symmetric])

lemma invar_fold_ins: "invar m \<Longrightarrow> invar (fold (\<lambda>(k, v). ins k v) es m)"
  by (induction es arbitrary: m) (auto simp: invar_ins)

lemma get_fold_ins:
  "invar m \<Longrightarrow> map_of (fold (\<lambda>(k, v). ins k v) es m) = map_of m ++ map_of (rev es)"
proof (induction es arbitrary: m)
  case Nil
  then show ?case by simp
next
  case (Cons e es)
  obtain k v where e: "e = (k, v)" by (cases e)
  have "map_of (fold (\<lambda>(k, v). ins k v) es (ins k v m)) = map_of (ins k v m) ++ map_of (rev es)"
    using Cons.prems by (intro Cons.IH invar_ins)
  also have "\<dots> = map_of m ++ map_of (rev es @ [(k, v)])"
    using Cons.prems by (simp add: get_ins)
  finally show ?case using e by simp
qed

end

lemma bt_keys: "fst ` set (bt_insert k v m) = insert k (fst ` set m)"
  by (induction k v m rule: bt_insert.induct) (simp_all add: insert_commute)

lemma bt_invar_insert: "bt_invar m \<Longrightarrow> bt_invar (bt_insert k v m)"
  by (induction k v m rule: bt_insert.induct) (fastforce simp: bt_keys)+

lemma bt_get_insert: "map_of (bt_insert k v m) = (map_of m)(k \<mapsto> v)"
  by (induction k v m rule: bt_insert.induct) (auto simp: fun_eq_iff)

interpretation hm: kv_map AList.update "hm_invar"
  by unfold_locales (auto simp: distinct_map_filter distinct_update update_conv')

interpretation bt: kv_map bt_insert "bt_invar"
  by unfold_locales
    (auto simp: distinct_map_filter sorted_filter bt_invar_insert [THEN conjunct1]
      bt_invar_insert [THEN conjunct2] bt_get_insert)

section \<open>Lemmas on the library containers\<close>

lemmas [simp] = update_conv' delete_conv'

lemma hm_invar_remove [simp]: "hm_invar m \<Longrightarrow> hm_invar (hm_remove k m)"
  by (rule distinct_delete)

lemma hm_invar_insert [simp]: "hm_invar m \<Longrightarrow> hm_invar (hm_insert k v m)"
  by (rule distinct_update)

lemma hm_values_iff: "hm_invar m \<Longrightarrow> v \<in> set (hm_values m) \<longleftrightarrow> (\<exists>k. hm_get m k = Some v)"
  by force

lemma hm_insert_new: "hm_get m k = None \<Longrightarrow> hm_insert k v m = m @ [(k, v)]"
  by (induction m) auto

lemma hm_values_remove:
  assumes "hm_invar m" and "distinct (hm_values m)" and "hm_get m k = Some v"
  shows "set (hm_values (hm_remove k m)) = set (hm_values m) - {v}"
    and "distinct (hm_values (hm_remove k m))"
proof -
  have sub: "hm_remove k m = filter (\<lambda>p. k \<noteq> fst p) m" by (simp add: AList.delete_eq case_prod_unfold)
  show "distinct (hm_values (hm_remove k m))" using assms(2) by (simp add: sub distinct_map_filter)
  have kv: "(k, v) \<in> set m" using assms(3) by (rule map_of_SomeD)
  have "a = k \<longleftrightarrow> w = v" if "(a, w) \<in> set m" for a w
    using assms(1,2) kv that unfolding distinct_map inj_on_def by (metis fst_conv snd_conv)
  then show "set (hm_values (hm_remove k m)) = set (hm_values m) - {v}"
    by (force simp: sub)
qed

lemma hm_length_insert_new: "hm_get m k = None \<Longrightarrow> length (hm_insert k v m) = Suc (length m)"
  by (induction m) auto

lemma hm_length_remove: "hm_invar m \<Longrightarrow> hm_contains m k \<Longrightarrow> Suc (length (hm_remove k m)) = length m"
proof (induction m)
  case Nil
  then show ?case by simp
next
  case (Cons p m)
  show ?case
  proof (cases "fst p = k")
    case True
    then have "hm_remove k m = m"
      using Cons.prems(1) by (cases p) (auto intro: delete_idem)
    with True show ?thesis by (cases p) (simp add: AList.delete_eq)
  next
    case False
    with Cons show ?thesis by (auto simp: AList.delete_eq)
  qed
qed

lemma result_exhaust_unit: "r = Ok () \<or> (\<exists>e. r = Err e)" for r :: "(unit, 'e) result"
  by (cases r) auto

lemma is_ok_iff: "is_ok r \<longleftrightarrow> (\<exists>v. r = Ok v)"
  by (cases r) auto

end
