(* ===== verification/FileIO.thy ===== *)
theory FileIO
  imports Prelude
begin

text \<open>
  The backing file of a chunk store (\<open>std::fs::File\<close> with \<open>FileExt\<close>) and the two loops of
  \<^verbatim>\<open>storage-node/src/chunk_store.rs\<close> over positional reads and writes.

  A file has its visible contents \<open>fdata\<close> (unwritten bytes read as 0), its length, the contents
  \<open>fdisk\<close> that survive a crash, and \<open>fplan\<close>: what the operating system answers to the next
  system calls. \<open>Xfer n\<close> lets a transfer move at most \<open>n\<close> bytes, \<open>Fault k\<close> fails with error
  kind \<open>k\<close>, and past the end of the plan every call is served in full. A statement for every
  plan is a statement for every sequence of short transfers and I/O errors.
\<close>

section \<open>The file\<close>

datatype syscall = Xfer nat | Fault io_error_kind

record os_file =
  fdata :: "nat \<Rightarrow> u8"
  flen :: nat
  fdisk :: "nat \<Rightarrow> u8"
  fplan :: "syscall list"

definition fsplice :: "os_file \<Rightarrow> nat \<Rightarrow> bytes \<Rightarrow> os_file" where
  "fsplice f off bs = f\<lparr>
     fdata := (\<lambda>i. if off \<le> i \<and> i < off + length bs then bs ! (i - off) else fdata f i),
     flen := (if bs = [] then flen f else max (flen f) (off + length bs))\<rparr>"

definition fslice :: "os_file \<Rightarrow> nat \<Rightarrow> nat \<Rightarrow> bytes" where
  "fslice f off n = map (fdata f) [off..<off + n]"

fun write_at :: "os_file \<Rightarrow> bytes \<Rightarrow> u64 \<Rightarrow> nat io \<times> os_file" where
  "write_at f buf off =
     (case fplan f of
        [] \<Rightarrow> (Ok (length buf), fsplice f (unat off) buf)
      | Xfer n # p \<Rightarrow>
          (Ok (min n (length buf)), (fsplice f (unat off) (take n buf))\<lparr>fplan := p\<rparr>)
      | Fault e # p \<Rightarrow> (Err e, f\<lparr>fplan := p\<rparr>))"

fun read_at :: "os_file \<Rightarrow> nat \<Rightarrow> u64 \<Rightarrow> bytes io \<times> os_file" where
  "read_at f n off =
     (let avail = min n (flen f - unat off) in
      case fplan f of
        [] \<Rightarrow> (Ok (fslice f (unat off) avail), f)
      | Xfer k # p \<Rightarrow> (Ok (fslice f (unat off) (min k avail)), f\<lparr>fplan := p\<rparr>)
      | Fault e # p \<Rightarrow> (Err e, f\<lparr>fplan := p\<rparr>))"

fun sync_data :: "os_file \<Rightarrow> unit io \<times> os_file" where
  "sync_data f =
     (case fplan f of
        [] \<Rightarrow> (Ok (), f\<lparr>fdisk := fdata f\<rparr>)
      | Xfer _ # p \<Rightarrow> (Ok (), f\<lparr>fdisk := fdata f, fplan := p\<rparr>)
      | Fault e # p \<Rightarrow> (Err e, f\<lparr>fplan := p\<rparr>))"

fun set_len :: "os_file \<Rightarrow> u64 \<Rightarrow> unit io \<times> os_file" where
  "set_len f n =
     (let g = f\<lparr>fdata := (\<lambda>i. if i < min (unat n) (flen f) then fdata f i else 0),
                fdisk := (\<lambda>i. if i < min (unat n) (flen f) then fdisk f i else 0),
                flen := unat n\<rparr> in
      case fplan f of
        [] \<Rightarrow> (Ok (), g)
      | Xfer _ # p \<Rightarrow> (Ok (), g\<lparr>fplan := p\<rparr>)
      | Fault e # p \<Rightarrow> (Err e, f\<lparr>fplan := p\<rparr>))"

text \<open>A power failure: what was not synced is lost.\<close>

definition crash :: "os_file \<Rightarrow> os_file" where
  "crash f = f\<lparr>fdata := fdisk f, fplan := []\<rparr>"

section \<open>Whole-buffer transfers\<close>

function write_all_at :: "os_file \<Rightarrow> bytes \<Rightarrow> u64 \<Rightarrow> unit io \<times> os_file" where
  "write_all_at f buf off =
     (if buf = [] then (Ok (), f)
      else case write_at f buf off of
             (Err e, f') \<Rightarrow> (Err e, f')
           | (Ok written, f') \<Rightarrow>
               if written = 0 then (Err WriteZero, f')
               else write_all_at f' (drop written buf) (off + of_nat written))"
  by pat_completeness auto
termination
  by (relation "measure (\<lambda>(f, buf, off). length buf)") auto

declare write_all_at.simps [simp del]

function read_exact_at :: "os_file \<Rightarrow> nat \<Rightarrow> u64 \<Rightarrow> bytes io \<times> os_file" where
  "read_exact_at f n off =
     (if n = 0 then (Ok [], f)
      else case read_at f n off of
             (Err e, f') \<Rightarrow> (Err e, f')
           | (Ok got, f') \<Rightarrow>
               if length got = 0 then (Err UnexpectedEof, f')
               else case read_exact_at f' (n - length got) (off + of_nat (length got)) of
                      (Err e, f'') \<Rightarrow> (Err e, f'')
                    | (Ok rest, f'') \<Rightarrow> (Ok (got @ rest), f''))"
  by pat_completeness auto
termination
  by (relation "measure (\<lambda>(f, n, off). n)") auto

declare read_exact_at.simps [simp del]

section \<open>Lemmas on the file model\<close>

lemma fplan_fsplice [simp, file_simps]: "fplan (fsplice f off bs) = fplan f"
  and fdisk_fsplice [simp, file_simps]: "fdisk (fsplice f off bs) = fdisk f"
  by (simp_all add: fsplice_def)

lemma fdata_fsplice [file_simps]:
  "fdata (fsplice f off bs) i = (if off \<le> i \<and> i < off + length bs then bs ! (i - off) else fdata f i)"
  by (simp add: fsplice_def)

lemma flen_fsplice [file_simps]: "off + length bs \<le> flen f \<Longrightarrow> flen (fsplice f off bs) = flen f"
  by (auto simp: fsplice_def max_def)

lemma flen_splice_mono: "flen f \<le> flen (fsplice f off bs)"
  by (simp add: fsplice_def)

lemma fsplice_Nil [simp]: "fsplice f off [] = f"
  by (rule os_file.equality) (auto simp: fsplice_def fun_eq_iff)

lemma fplan_same: "fplan f = p \<Longrightarrow> f\<lparr>fplan := p\<rparr> = f"
  by auto

lemma fsplice_plan: "fsplice (f\<lparr>fplan := p\<rparr>) off bs = (fsplice f off bs)\<lparr>fplan := p\<rparr>"
  by (rule os_file.equality) (auto simp: fsplice_def)

lemma fsplice_append:
  "fsplice (fsplice f off a) (off + length a) b = fsplice f off (a @ b)"
  by (cases "a = []"; cases "b = []")
    (auto simp: fsplice_def fun_eq_iff nth_append max_def intro!: os_file.equality)

lemma length_fslice [simp]: "length (fslice f off n) = n"
  by (simp add: fslice_def)

lemma fslice_0 [simp]: "fslice f off 0 = []"
  by (simp add: fslice_def)

lemma fslice_eq_Nil [simp]: "fslice f off n = [] \<longleftrightarrow> n = 0"
  by (auto simp: fslice_def)

lemma fslice_plan [simp]: "fslice (f\<lparr>fplan := p\<rparr>) off n = fslice f off n"
  by (simp add: fslice_def)

lemma fslice_disk [simp]: "fslice (f\<lparr>fdisk := p\<rparr>) off n = fslice f off n"
  by (simp add: fslice_def)

lemma fslice_append: "fslice f off a @ fslice f (off + a) b = fslice f off (a + b)"
  by (simp add: fslice_def map_append [symmetric] upt_add_eq_append [symmetric] del: map_append)
     (metis add.assoc le_add1 upt_add_eq_append)

lemma fslice_fsplice_same: "fslice (fsplice f off bs) off (length bs) = bs"
  by (rule nth_equalityI) (simp_all add: fslice_def fdata_fsplice)

lemma fslice_fsplice_other:
  "off + n \<le> off' \<or> off' + length bs \<le> off \<Longrightarrow> fslice (fsplice f off' bs) off n = fslice f off n"
  by (auto simp: fslice_def fdata_fsplice)

lemma take_fslice: "m \<le> n \<Longrightarrow> take m (fslice f off n) = fslice f off m"
  by (simp add: fslice_def take_map)

lemma drop_fslice: "drop m (fslice f off n) = fslice f (off + m) (n - m)"
  by (cases "m \<le> n") (simp_all add: fslice_def drop_map)

lemma fslice_cong: "(\<And>i. off \<le> i \<Longrightarrow> i < off + n \<Longrightarrow> fdata f i = fdata g i) \<Longrightarrow> fslice f off n = fslice g off n"
  by (simp add: fslice_def)

lemma unat_add_of_nat:
  assumes "unat (off :: u64) + n < 2 ^ 64"
  shows "unat (off + of_nat n) = unat off + n"
proof -
  have "unat (of_nat n :: u64) = n mod 2 ^ LENGTH(64)" by (rule unat_of_nat)
  also have "\<dots> = n" using assms by (intro mod_less) simp
  finally have n: "unat (of_nat n :: u64) = n" .
  have "unat (off + of_nat n) = (unat off + unat (of_nat n :: u64)) mod 2 ^ LENGTH(64)"
    by (rule unat_word_ariths(1))
  also have "\<dots> = unat off + n" unfolding n using assms by (intro mod_less) simp
  finally show ?thesis .
qed

section \<open>What the loops do\<close>

text \<open>
  Whatever the plan, a whole-buffer write leaves the file as if a prefix of the buffer had been
  written at the offset, and that prefix is the whole buffer when the write reports success.
\<close>

lemma write_at_prefix:
  assumes "write_at f buf off = (r, f')"
  shows "\<exists>n p. n \<le> length buf \<and> f' = (fsplice f (unat off) (take n buf))\<lparr>fplan := p\<rparr> \<and>
    (\<forall>w. r = Ok w \<longrightarrow> w = n)"
proof (cases "fplan f")
  case Nil
  with assms have "r = Ok (length buf)" and f': "f' = fsplice f (unat off) buf" by auto
  moreover have "f' = (fsplice f (unat off) (take (length buf) buf))\<lparr>fplan := []\<rparr>"
    using f' Nil by (simp add: fsplice_plan [symmetric] fplan_same)
  ultimately show ?thesis by (intro exI [of _ "length buf"] exI [of _ "[]"]) simp
next
  case (Cons c p)
  show ?thesis
  proof (cases c)
    case (Xfer n)
    have "take (min n (length buf)) buf = take n buf" by (simp add: min_def)
    with Cons Xfer assms show ?thesis
      by (intro exI [of _ "min n (length buf)"] exI [of _ p]) auto
  next
    case (Fault e)
    with Cons assms show ?thesis
      by (intro exI [of _ 0] exI [of _ p]) auto
  qed
qed

lemma write_all_at_prefix:
  assumes "write_all_at f buf off = (r, f')" and "unat off + length buf < 2 ^ 64"
  shows "\<exists>n p. n \<le> length buf \<and> f' = (fsplice f (unat off) (take n buf))\<lparr>fplan := p\<rparr> \<and>
    (r = Ok () \<longrightarrow> n = length buf)"
  using assms
proof (induction f buf off rule: write_all_at.induct)
  case (1 f buf off)
  show ?case
  proof (cases "buf = []")
    case True
    with "1.prems" show ?thesis
      by (intro exI [of _ 0] exI [of _ "fplan f"]) (simp add: write_all_at.simps [of f "[]" off])
  next
    case False
    obtain r1 f1 where w: "write_at f buf off = (r1, f1)" by fastforce
    then obtain n p where n: "n \<le> length buf"
      and f1: "f1 = (fsplice f (unat off) (take n buf))\<lparr>fplan := p\<rparr>" and r1: "\<And>w. r1 = Ok w \<Longrightarrow> w = n"
      using write_at_prefix [OF w] by auto
    note unf = write_all_at.simps [of f buf off]
    show ?thesis
    proof (cases "r1 = Ok n \<and> n \<noteq> 0")
      case True
      have off: "unat (off + of_nat n) = unat off + n"
        using "1.prems"(2) n by (intro unat_add_of_nat) simp
      have "write_all_at f1 (drop n buf) (off + of_nat n) = (r, f')"
        using "1.prems"(1) False w True by (simp add: unf)
      moreover have "unat (off + of_nat n) + length (drop n buf) < 2 ^ 64"
        using "1.prems"(2) n off by simp
      ultimately obtain m q where m: "m \<le> length (drop n buf)"
        and f': "f' = (fsplice f1 (unat (off + of_nat n)) (take m (drop n buf)))\<lparr>fplan := q\<rparr>"
        and ok: "r = Ok () \<longrightarrow> m = length (drop n buf)"
        using "1.IH" [OF False w [symmetric]] True by auto
      have len: "length (take n buf) = n" using n by simp
      have "fsplice f1 (unat (off + of_nat n)) (take m (drop n buf)) =
          (fsplice (fsplice f (unat off) (take n buf)) (unat off + length (take n buf))
            (take m (drop n buf)))\<lparr>fplan := p\<rparr>"
        unfolding f1 off len by (simp add: fsplice_plan)
      also have "\<dots> = (fsplice f (unat off) (take (n + m) buf))\<lparr>fplan := p\<rparr>"
        by (simp only: fsplice_append take_add)
      finally show ?thesis
        using m f' ok n by (intro exI [of _ "n + m"] exI [of _ q]) auto
    next
      case stop: False
      have "(\<exists>e. r = Err e) \<and> f' = f1"
        using "1.prems"(1) False w stop r1 by (cases r1) (auto simp: unf split: if_splits)
      then show ?thesis using n f1 by auto
    qed
  qed
qed

lemma write_all_at_no_faults:
  "fplan f = [] \<Longrightarrow> write_all_at f buf off = (Ok (), fsplice f (unat off) buf)"
  by (cases "buf = []") (simp_all add: write_all_at.simps [of f buf off]
      write_all_at.simps [of _ "[]"])

text \<open>
  A whole-buffer read changes nothing but the plan; success means the bytes at the offset.
\<close>

lemma read_at_frame:
  assumes "read_at f n off = (r, f')"
  shows "\<exists>p. f' = f\<lparr>fplan := p\<rparr> \<and>
    (\<forall>got. r = Ok got \<longrightarrow> got = fslice f (unat off) (length got) \<and> length got \<le> n \<and>
       (got \<noteq> [] \<longrightarrow> unat off + length got \<le> flen f))"
proof (cases "fplan f")
  case Nil
  then show ?thesis using assms
    by (intro exI [of _ "[]"]) (auto simp: Let_def min_def fplan_same split: if_splits)
next
  case (Cons c p)
  with assms show ?thesis
    by (intro exI [of _ p]) (cases c; auto simp: Let_def min_def split: if_splits)
qed

lemma read_exact_at_frame:
  assumes "read_exact_at f n off = (r, f')" and "unat off + n < 2 ^ 64"
  shows "\<exists>p. f' = f\<lparr>fplan := p\<rparr> \<and>
    (\<forall>bs. r = Ok bs \<longrightarrow> bs = fslice f (unat off) n \<and> (0 < n \<longrightarrow> unat off + n \<le> flen f))"
  using assms
proof (induction f n off arbitrary: r f' rule: read_exact_at.induct)
  case (1 f n off)
  note unf = read_exact_at.simps [of f n off]
  show ?case
  proof (cases "n = 0")
    case True
    with "1.prems" show ?thesis
      by (intro exI [of _ "fplan f"]) (auto simp: read_exact_at.simps [of f 0 off])
  next
    case False
    obtain r1 f1 where rd: "read_at f n off = (r1, f1)" by fastforce
    then obtain p where f1: "f1 = f\<lparr>fplan := p\<rparr>"
      and got: "\<And>got. r1 = Ok got \<Longrightarrow> got = fslice f (unat off) (length got) \<and> length got \<le> n \<and>
        (got \<noteq> [] \<longrightarrow> unat off + length got \<le> flen f)"
      using read_at_frame [OF rd] by auto
    show ?thesis
    proof (cases "\<exists>got. r1 = Ok got \<and> got \<noteq> []")
      case True
      then obtain got where r1: "r1 = Ok got" "got \<noteq> []" by blast
      define k where "k = length got"
      have k: "got = fslice f (unat off) k" "k \<le> n" "unat off + k \<le> flen f" "0 < k"
        using got [OF r1(1)] r1(2) by (auto simp: k_def)
      obtain r2 f2 where rest: "read_exact_at f1 (n - k) (off + of_nat k) = (r2, f2)" by fastforce
      have off: "unat (off + of_nat k) = unat off + k"
        using "1.prems"(2) k by (intro unat_add_of_nat) simp
      have "unat (off + of_nat k) + (n - k) < 2 ^ 64" using "1.prems"(2) k off by simp
      then obtain q where f2: "f2 = f1\<lparr>fplan := q\<rparr>"
        and r2: "\<forall>bs. r2 = Ok bs \<longrightarrow> bs = fslice f1 (unat (off + of_nat k)) (n - k) \<and>
          (0 < n - k \<longrightarrow> unat (off + of_nat k) + (n - k) \<le> flen f1)"
        using "1.IH" [OF False rd [symmetric] r1(1) _ rest [unfolded k_def]] r1(2)
        unfolding k_def by (metis length_0_conv)
      have eq: "(r, f') = (case r2 of Err e \<Rightarrow> (Err e, f2) | Ok rest \<Rightarrow> (Ok (got @ rest), f2))"
        using "1.prems"(1) False rd r1 rest by (simp add: unf k_def)
      show ?thesis
      proof (cases r2)
        case (Ok bs)
        have "got @ bs = fslice f (unat off) n"
          using k r2 Ok off fslice_append [of f "unat off" k "n - k"] by (simp add: f1)
        then show ?thesis
          using eq Ok f2 f1 r2 off k by (intro exI [of _ q]) auto
      next
        case (Err e)
        then show ?thesis using eq f2 f1 by (intro exI [of _ q]) auto
      qed
    next
      case stop: False
      have "(\<exists>e. r = Err e) \<and> f' = f1"
        using "1.prems"(1) False rd stop by (cases r1) (auto simp: unf)
      then show ?thesis using f1 by auto
    qed
  qed
qed

lemma read_exact_at_no_faults:
  assumes "fplan f = []" and "unat off + n \<le> flen f"
  shows "read_exact_at f n off = (Ok (fslice f (unat off) n), f)"
proof (cases "n = 0")
  case True
  then show ?thesis by (simp add: read_exact_at.simps [of f 0 off])
next
  case False
  with assms show ?thesis
    by (simp add: read_exact_at.simps [of f n off] Let_def read_exact_at.simps [of f 0])
qed

end
