(* ===== verification/ChunkService.thy ===== *)
theory ChunkService
  imports Prelude
begin

text \<open>
  The contract between a holder of chunks and its clients. The chunk store of a storage node and
  the gRPC service in front of it both promise it, the replication cycle and the gateway rely
  on it. The state \<open>'s\<close> is abstracted by a map from chunk ids to their bytes.

  \<open>chunk_service\<close> is what holds whatever the operating system answers: an operation that
  reports failure changes nothing a client can read, and a read never returns anything but the
  stored bytes. \<open>live_chunk_service\<close> adds that a healthy service answers.
\<close>

datatype chunk_op = OpPut u64 bytes | OpGet u64 | OpDelete u64

fun service_step ::
  "(u64 \<Rightarrow> bytes \<Rightarrow> 's \<Rightarrow> 'p \<times> 's) \<Rightarrow> (u64 \<Rightarrow> 's \<Rightarrow> 'g \<times> 's) \<Rightarrow> (u64 \<Rightarrow> 's \<Rightarrow> 'd \<times> 's)
     \<Rightarrow> chunk_op \<Rightarrow> 's \<Rightarrow> 's" where
  "service_step put get del (OpPut i d) s = snd (put i d s)"
| "service_step put get del (OpGet i) s = snd (get i s)"
| "service_step put get del (OpDelete i) s = snd (del i s)"

locale chunk_service =
  fixes abs :: "'s \<Rightarrow> u64 \<Rightarrow> bytes option"
    and invar :: "'s \<Rightarrow> bool"
    and put :: "u64 \<Rightarrow> bytes \<Rightarrow> 's \<Rightarrow> 'p \<times> 's"
    and get :: "u64 \<Rightarrow> 's \<Rightarrow> 'g \<times> 's"
    and del :: "u64 \<Rightarrow> 's \<Rightarrow> 'd \<times> 's"
    and stored :: "'p \<Rightarrow> bool"
    and fetched :: "'g \<Rightarrow> bytes option"
    and removed :: "'d \<Rightarrow> bool"
  assumes put_invar: "invar s \<Longrightarrow> put i d s = (p, s') \<Longrightarrow> invar s'"
    and get_invar: "invar s \<Longrightarrow> get i s = (g, s') \<Longrightarrow> invar s'"
    and del_invar: "invar s \<Longrightarrow> del i s = (r, s') \<Longrightarrow> invar s'"
    and put_abs: "invar s \<Longrightarrow> put i d s = (p, s') \<Longrightarrow>
      abs s' = (if stored p then (abs s)(i \<mapsto> d) else abs s)"
    and put_fresh: "invar s \<Longrightarrow> put i d s = (p, s') \<Longrightarrow> stored p \<Longrightarrow> abs s i = None"
    and get_abs: "invar s \<Longrightarrow> get i s = (g, s') \<Longrightarrow> abs s' = abs s"
    and get_sound: "invar s \<Longrightarrow> get i s = (g, s') \<Longrightarrow> fetched g = Some d \<Longrightarrow> abs s i = Some d"
    and del_abs: "invar s \<Longrightarrow> del i s = (r, s') \<Longrightarrow>
      abs s' = abs s \<or> abs s' = (abs s)(i := None)"
    and del_removed: "invar s \<Longrightarrow> del i s = (r, s') \<Longrightarrow> removed r \<Longrightarrow> abs s' i = None"
begin

lemma step_invar: "invar s \<Longrightarrow> invar (service_step put get del c s)"
  by (cases c) (auto intro: put_invar get_invar del_invar prod.collapse [symmetric])

lemma run_invar: "invar s \<Longrightarrow> invar (fold (service_step put get del) cs s)"
  by (induction cs arbitrary: s) (auto simp: step_invar)

lemma step_keeps:
  assumes "invar s" and "abs s i = Some d" and "c \<noteq> OpDelete i"
  shows "abs (service_step put get del c s) i = Some d"
proof (cases c)
  case (OpPut j e)
  obtain p s' where p: "put j e s = (p, s')" by fastforce
  have "stored p \<Longrightarrow> j \<noteq> i" using put_fresh [OF assms(1) p] assms(2) by auto
  then show ?thesis using put_abs [OF assms(1) p] OpPut p assms(2) by auto
next
  case (OpGet j)
  then show ?thesis using get_abs [OF assms(1), of j] assms(2) by (cases "get j s") simp
next
  case (OpDelete j)
  obtain r s' where r: "del j s = (r, s')" by fastforce
  show ?thesis using del_abs [OF assms(1) r] OpDelete r assms(2,3) by auto
qed

lemma run_keeps:
  "invar s \<Longrightarrow> abs s i = Some d \<Longrightarrow> OpDelete i \<notin> set cs \<Longrightarrow> abs (fold (service_step put get del) cs s) i = Some d"
  by (induction cs arbitrary: s) (auto simp: step_invar step_keeps)

lemma step_absent:
  assumes "invar s" and "abs s i = None" and "\<forall>d. c \<noteq> OpPut i d"
  shows "abs (service_step put get del c s) i = None"
proof (cases c)
  case (OpPut j e)
  then show ?thesis using put_abs [OF assms(1), of j e] assms(2,3) by (cases "put j e s") auto
next
  case (OpGet j)
  then show ?thesis using get_abs [OF assms(1), of j] assms(2) by (cases "get j s") simp
next
  case (OpDelete j)
  obtain r s' where r: "del j s = (r, s')" by fastforce
  show ?thesis using del_abs [OF assms(1) r] OpDelete r assms(2) by auto
qed

lemma run_absent:
  "invar s \<Longrightarrow> abs s i = None \<Longrightarrow> (\<And>d. OpPut i d \<notin> set cs) \<Longrightarrow> abs (fold (service_step put get del) cs s) i = None"
proof (induction cs arbitrary: s)
  case (Cons c cs)
  then have "abs (service_step put get del c s) i = None" by (intro step_absent) auto
  with Cons show ?case by (simp add: step_invar)
qed simp

text \<open>Read after write, through any interleaving that does not delete the chunk.\<close>

lemma read_after_write:
  assumes "invar s" "put i d s = (p, s1)" "stored p" "OpDelete i \<notin> set cs"
    and "get i (fold (service_step put get del) cs s1) = (g, s2)" "fetched g = Some d'"
  shows "d' = d"
proof -
  have s1: "invar s1" "abs s1 i = Some d" using put_invar put_abs assms(1-3) by auto
  then have "abs (fold (service_step put get del) cs s1) i = Some d" using assms(4) by (rule run_keeps)
  then show ?thesis using get_sound [OF run_invar [OF s1(1)] assms(5,6)] by simp
qed

lemma no_resurrection:
  assumes "invar s" "del i s = (r, s1)" "removed r" "\<And>d. OpPut i d \<notin> set cs"
    and "get i (fold (service_step put get del) cs s1) = (g, s2)"
  shows "fetched g = None"
proof -
  have s1: "invar s1" "abs s1 i = None" using del_invar del_removed assms(1-3) by auto
  then have "abs (fold (service_step put get del) cs s1) i = None" using assms(4) by (rule run_absent)
  then show ?thesis using get_sound [OF run_invar [OF s1(1)] assms(5)] by (cases "fetched g") auto
qed

end

locale live_chunk_service = chunk_service +
  fixes live :: "'a \<Rightarrow> bool" and fits :: "bytes \<Rightarrow> bool"
  assumes live_put: "invar s \<Longrightarrow> live s \<Longrightarrow> fits d \<Longrightarrow> live (snd (put i d s))"
    and live_get: "invar s \<Longrightarrow> live s \<Longrightarrow> live (snd (get i s))"
    and live_del: "invar s \<Longrightarrow> live s \<Longrightarrow> live (snd (del i s))"
    and get_answers: "invar s \<Longrightarrow> live s \<Longrightarrow> fetched (fst (get i s)) = abs s i"
    and del_answers: "invar s \<Longrightarrow> live s \<Longrightarrow> removed (fst (del i s))"
begin

lemma step_live: "invar s \<Longrightarrow> live s \<Longrightarrow> (\<And>i d. c = OpPut i d \<Longrightarrow> fits d) \<Longrightarrow> live (service_step put get del c s)"
  by (cases c) (auto intro: live_put live_get live_del)

lemma run_live:
  "invar s \<Longrightarrow> live s \<Longrightarrow> (\<And>i d. OpPut i d \<in> set cs \<Longrightarrow> fits d) \<Longrightarrow> live (fold (service_step put get del) cs s)"
proof (induction cs arbitrary: s)
  case (Cons c cs)
  then have "live (service_step put get del c s)" by (intro step_live) auto
  moreover have "\<And>i d. OpPut i d \<in> set cs \<Longrightarrow> fits d" using Cons.prems(3) by (meson list.set_intros(2))
  ultimately show ?case using Cons.IH [of "service_step put get del c s"] Cons.prems(1) by (simp add: step_invar)
qed simp

lemma write_then_read:
  assumes "invar s" "live s" "put i d s = (p, s1)" "stored p" "fits d"
    and "OpDelete i \<notin> set cs" "\<And>j e. OpPut j e \<in> set cs \<Longrightarrow> fits e"
  shows "fetched (fst (get i (fold (service_step put get del) cs s1))) = Some d"
proof -
  have s1: "invar s1" "abs s1 i = Some d" "live s1"
    using put_invar put_abs live_put [OF assms(1,2,5), of i] assms(1,3,4) by auto
  have "abs (fold (service_step put get del) cs s1) i = Some d" using s1(1,2) assms(6) by (rule run_keeps)
  then show ?thesis using get_answers [OF run_invar [OF s1(1)] run_live [OF s1(1,3) assms(7)]] by simp
qed

end

end
