(* ===== verification/ChunkStore.thy ===== *)
theory ChunkStore
  imports FileIO ChunkService
begin

text \<open>
  The chunk store of a storage node, \<^verbatim>\<open>storage-node/src/chunk_store.rs\<close>: the on-disk header,
  the slot file, the index from chunk ids to slots and the stack of free slots.

  Every public operation of the source holds the \<open>index\<close> lock from its first to its last access
  (\<open>free_slots\<close> is only locked under it), so each is one atomic state transformer here. A panic
  under the write guard poisons that lock (\<open>index_poisoned\<close>), and every later \<open>unwrap\<close> of it
  panics too. \<open>Vec\<close> pushes and pops at the end of the list.
\<close>

unbundle bit_operations_syntax

section \<open>Constants and the slot header\<close>

definition SLOT_SIZE :: nat where
  "SLOT_SIZE = 8 * 1024 * 1024"

definition MAGIC :: u32 where
  "MAGIC = 0x43484B01"

text \<open>\<open>size_of\<close> of a \<open>repr(C)\<close> struct from the size and alignment of its fields.\<close>

definition align_up :: "nat \<Rightarrow> nat \<Rightarrow> nat" where
  "align_up n a = (n + a - 1) div a * a"

fun repr_c_size :: "(nat \<times> nat) list \<Rightarrow> nat \<Rightarrow> nat \<Rightarrow> nat" where
  "repr_c_size [] end al = align_up end al"
| "repr_c_size ((sz, a) # fs) end al = repr_c_size fs (align_up end a + sz) (max al a)"

definition CHUNK_HEADER_SIZE :: nat where
  "CHUNK_HEADER_SIZE = repr_c_size [(4, 4), (8, 8), (4, 4), (4, 4)] 0 1"

definition SLOT_DATA_SIZE :: nat where
  "SLOT_DATA_SIZE = SLOT_SIZE - CHUNK_HEADER_SIZE"

definition ALLOCATED_ARENA_SIZE :: u64 where
  "ALLOCATED_ARENA_SIZE = 2048"

definition DEFAULT_FSYNC_EVERY_N_WRITES :: u64 where
  "DEFAULT_FSYNC_EVERY_N_WRITES = 1"

record ChunkHeader =
  magic :: u32
  hid :: u64
  checksum :: u32
  data_len :: u32

definition ChunkHeader_new :: "u64 \<Rightarrow> u32 \<Rightarrow> u32 \<Rightarrow> ChunkHeader" where
  "ChunkHeader_new i c n = \<lparr>magic = MAGIC, hid = i, checksum = c, data_len = n\<rparr>"

definition to_le_bytes :: "nat \<Rightarrow> 'a::len word \<Rightarrow> bytes" where
  "to_le_bytes n w = map (\<lambda>i. ucast (drop_bit (8 * i) w)) [0..<n]"

fun from_le_bytes :: "bytes \<Rightarrow> 'a::len word" where
  "from_le_bytes [] = 0"
| "from_le_bytes (b # bs) = ucast b OR push_bit 8 (from_le_bytes bs)"

definition to_bytes :: "ChunkHeader \<Rightarrow> bytes" where
  "to_bytes h = to_le_bytes 4 (magic h) @ to_le_bytes 8 (hid h) @ to_le_bytes 4 (checksum h)
     @ to_le_bytes 4 (data_len h) @ replicate (CHUNK_HEADER_SIZE - 20) 0"

definition from_bytes :: "bytes \<Rightarrow> ChunkHeader" where
  "from_bytes buf = \<lparr>
     magic = from_le_bytes (take 4 buf),
     hid = from_le_bytes (take 8 (drop 4 buf)),
     checksum = from_le_bytes (take 4 (drop 12 buf)),
     data_len = from_le_bytes (take 4 (drop 16 buf))\<rparr>"

section \<open>Slot input and output\<close>

definition write_chunk_at ::
  "os_file \<Rightarrow> u64 \<Rightarrow> ChunkHeader \<Rightarrow> bytes \<Rightarrow> bool \<Rightarrow> unit io exec \<times> os_file" where
  "write_chunk_at f slot_index header bs fsync =
     (if \<not> length bs \<le> SLOT_DATA_SIZE then (Panic, f)
      else let header_bytes = to_bytes header; offset = slot_index * of_nat SLOT_SIZE in
        case write_all_at f header_bytes offset of
          (Err e, f1) \<Rightarrow> (Ret (Err e), f1)
        | (Ok _, f1) \<Rightarrow>
            case (if bs \<noteq> [] then write_all_at f1 bs (offset + of_nat CHUNK_HEADER_SIZE)
                  else (Ok (), f1)) of
              (Err e, f2) \<Rightarrow> (Ret (Err e), f2)
            | (Ok _, f2) \<Rightarrow>
                if fsync then (case sync_data f2 of (r, f3) \<Rightarrow> (Ret r, f3))
                else (Ret (Ok ()), f2))"

definition read_chunk_header :: "os_file \<Rightarrow> u64 \<Rightarrow> ChunkHeader io \<times> os_file" where
  "read_chunk_header f slot_index =
     (let offset = slot_index * of_nat SLOT_SIZE in
      case read_exact_at f CHUNK_HEADER_SIZE offset of
        (Err e, f1) \<Rightarrow> (Err e, f1)
      | (Ok header_bytes, f1) \<Rightarrow> (Ok (from_bytes header_bytes), f1))"

definition read_chunk_optimized ::
  "os_file \<Rightarrow> u64 \<Rightarrow> (ChunkHeader \<times> bytes) io \<times> os_file" where
  "read_chunk_optimized f slot_index =
     (case read_chunk_header f slot_index of
        (Err e, f1) \<Rightarrow> (Err e, f1)
      | (Ok header, f1) \<Rightarrow>
          if magic header \<noteq> MAGIC then (Ok (header, []), f1)
          else let len = unat (data_len header) in
            if len > 0 then
              let data_offset = slot_index * of_nat SLOT_SIZE + of_nat CHUNK_HEADER_SIZE in
              case read_exact_at f1 len data_offset of
                (Err e, f2) \<Rightarrow> (Err e, f2)
              | (Ok data, f2) \<Rightarrow> (Ok (header, data), f2)
            else (Ok (header, []), f1))"

section \<open>The store\<close>

record ChunkStoreOptions =
  opt_fsync_every_n_writes :: "u64 option"
  opt_fsync_on_delete :: bool
  opt_fast_recover :: bool

definition ChunkStoreOptions_default :: ChunkStoreOptions where
  "ChunkStoreOptions_default = \<lparr>
     opt_fsync_every_n_writes = Some DEFAULT_FSYNC_EVERY_N_WRITES,
     opt_fsync_on_delete = True,
     opt_fast_recover = False\<rparr>"

record chunk_store =
  store_file :: os_file
  index :: "(u64, u64) hashmap"
  free_slots :: "u64 list"
  total_slots :: u64
  fsync_every_n_writes :: "u64 option"
  fsync_on_delete :: bool
  write_counter :: u64
  index_poisoned :: bool

text \<open>
  \<open>open\<close> works on the file behind the path: an existing one, or \<open>empty_file\<close> when the path is
  created. \<open>OpenOptions::open\<close> is the first system call, \<open>set_len\<close> the second.
\<close>

definition empty_file :: os_file where
  "empty_file = \<lparr>fdata = (\<lambda>_. 0), flen = 0, fdisk = (\<lambda>_. 0), fplan = []\<rparr>"

fun open_call :: "os_file \<Rightarrow> unit io \<times> os_file" where
  "open_call f =
     (case fplan f of
        [] \<Rightarrow> (Ok (), f)
      | Xfer _ # p \<Rightarrow> (Ok (), f\<lparr>fplan := p\<rparr>)
      | Fault e # p \<Rightarrow> (Err e, f\<lparr>fplan := p\<rparr>))"

definition cs_open ::
  "os_file \<Rightarrow> u64 option \<Rightarrow> ChunkStoreOptions \<Rightarrow> chunk_store io \<times> os_file" where
  "cs_open f allocated_slots options =
     (case open_call f of
        (Err e, f1) \<Rightarrow> (Err e, f1)
      | (Ok _, f1) \<Rightarrow>
          let allocated_arena_size =
                (case allocated_slots of Some n \<Rightarrow> n | None \<Rightarrow> ALLOCATED_ARENA_SIZE);
              file_bytes = of_nat SLOT_SIZE * allocated_arena_size in
          case set_len f1 file_bytes of
            (Err e, f2) \<Rightarrow> (Err e, f2)
          | (Ok _, f2) \<Rightarrow>
              (Ok \<lparr>store_file = f2, index = [],
                   free_slots = map of_nat [0..<unat allocated_arena_size],
                   total_slots = allocated_arena_size,
                   fsync_every_n_writes = opt_fsync_every_n_writes options,
                   fsync_on_delete = opt_fsync_on_delete options,
                   write_counter = 0, index_poisoned = False\<rparr>, f2))"

definition find_slot :: "chunk_store \<Rightarrow> u64 option \<times> chunk_store" where
  "find_slot st =
     (if free_slots st = [] then (None, st)
      else (Some (last (free_slots st)), st\<lparr>free_slots := butlast (free_slots st)\<rparr>))"

definition clear_slot :: "u64 \<Rightarrow> chunk_store \<Rightarrow> unit io exec \<times> chunk_store" where
  "clear_slot slot_index st =
     (if \<not> slot_index < total_slots st then (Panic, st)
      else (Ret (Ok ()), st\<lparr>free_slots := free_slots st @ [slot_index]\<rparr>))"

definition should_fsync_write :: "chunk_store \<Rightarrow> bool \<times> chunk_store" where
  "should_fsync_write st =
     (case fsync_every_n_writes st of
        Some n \<Rightarrow>
          if n > 0 then
            let count = write_counter st + 1 in (count mod n = 0, st\<lparr>write_counter := count\<rparr>)
          else (False, st)
      | None \<Rightarrow> (False, st))"

definition cs_put_chunk ::
  "'h crc32 \<Rightarrow> u64 \<Rightarrow> bytes \<Rightarrow> chunk_store \<Rightarrow> unit io exec \<times> chunk_store" where
  "cs_put_chunk H i data st =
     (if index_poisoned st then (Panic, st)
      else if hm_contains (index st) i then (Ret (Err AlreadyExists), st)
      else case find_slot st of
          (None, st1) \<Rightarrow> (Ret (Err StorageFull), st1)
        | (Some slot_idx, st1) \<Rightarrow>
            let checksum = compute_checksum H data;
                header = ChunkHeader_new i checksum (of_nat (length data)) in
            case should_fsync_write st1 of (fsync, st2) \<Rightarrow>
            case write_chunk_at (store_file st2) slot_idx header data fsync of
              (Panic, f) \<Rightarrow> (Panic, st2\<lparr>store_file := f, index_poisoned := True\<rparr>)
            | (Ret (Err e), f) \<Rightarrow>
                (case clear_slot slot_idx (st2\<lparr>store_file := f\<rparr>) of
                   (Panic, st3) \<Rightarrow> (Panic, st3\<lparr>index_poisoned := True\<rparr>)
                 | (Ret _, st3) \<Rightarrow> (Ret (Err e), st3))
            | (Ret (Ok _), f) \<Rightarrow>
                (Ret (Ok ()), st2\<lparr>store_file := f, index := hm_insert i slot_idx (index st2)\<rparr>))"

definition cs_get_chunk ::
  "'h crc32 \<Rightarrow> u64 \<Rightarrow> chunk_store \<Rightarrow> (bytes \<times> u32) io exec \<times> chunk_store" where
  "cs_get_chunk H i st =
     (if index_poisoned st then (Panic, st)
      else case hm_get (index st) i of
          None \<Rightarrow> (Ret (Err NotFound), st)
        | Some slot_idx \<Rightarrow>
            (case read_chunk_optimized (store_file st) slot_idx of
               (Err e, f) \<Rightarrow> (Ret (Err e), st\<lparr>store_file := f\<rparr>)
             | (Ok (header, data), f) \<Rightarrow>
                 if magic header \<noteq> MAGIC then (Ret (Err InvalidData), st\<lparr>store_file := f\<rparr>)
                 else let computed_checksum = compute_checksum H data in
                   if checksum header \<noteq> computed_checksum
                   then (Ret (Err InvalidData), st\<lparr>store_file := f\<rparr>)
                   else (Ret (Ok (data, checksum header)), st\<lparr>store_file := f\<rparr>)))"

definition cs_delete_chunk :: "u64 \<Rightarrow> chunk_store \<Rightarrow> unit io exec \<times> chunk_store" where
  "cs_delete_chunk i st =
     (if index_poisoned st then (Panic, st)
      else case hm_get (index st) i of
          None \<Rightarrow> (Ret (Ok ()), st)
        | Some slot_idx \<Rightarrow>
            let st1 = st\<lparr>index := hm_remove i (index st)\<rparr>;
                zero_header = replicate CHUNK_HEADER_SIZE 0;
                offset = slot_idx * of_nat SLOT_SIZE in
            case write_all_at (store_file st1) zero_header offset of
              (Err e, f) \<Rightarrow> (Ret (Err e), st1\<lparr>store_file := f\<rparr>)
            | (Ok _, f) \<Rightarrow>
                case (if fsync_on_delete st1 then sync_data f else (Ok (), f)) of
                  (Err e, f') \<Rightarrow> (Ret (Err e), st1\<lparr>store_file := f'\<rparr>)
                | (Ok _, f') \<Rightarrow>
                    case clear_slot slot_idx (st1\<lparr>store_file := f'\<rparr>) of
                      (Panic, st2) \<Rightarrow> (Panic, st2\<lparr>index_poisoned := True\<rparr>)
                    | (Ret r, st2) \<Rightarrow> (Ret r, st2))"

text \<open>\<open>File::metadata\<close>: one system call that reports the length.\<close>

fun metadata_len :: "os_file \<Rightarrow> nat io \<times> os_file" where
  "metadata_len f =
     (case fplan f of
        [] \<Rightarrow> (Ok (flen f), f)
      | Xfer _ # p \<Rightarrow> (Ok (flen f), f\<lparr>fplan := p\<rparr>)
      | Fault e # p \<Rightarrow> (Err e, f\<lparr>fplan := p\<rparr>))"

fun recover_slots ::
  "'h crc32 \<Rightarrow> bool \<Rightarrow> u64 list \<Rightarrow> os_file \<Rightarrow> (u64, u64) hashmap \<Rightarrow> u64 list
     \<Rightarrow> unit io \<times> os_file \<times> (u64, u64) hashmap \<times> u64 list" where
  "recover_slots H fast_recover [] f idx free = (Ok (), f, idx, free)"
| "recover_slots H fast_recover (i # is) f idx free =
     (case read_chunk_header f i of
        (Err e, f1) \<Rightarrow> (Err e, f1, idx, free)
      | (Ok header, f1) \<Rightarrow>
          if magic header = MAGIC then
            if unat (data_len header) > SLOT_DATA_SIZE then
              recover_slots H fast_recover is f1 idx (free @ [i])
            else if fast_recover then
              recover_slots H fast_recover is f1 (hm_insert (hid header) i idx) free
            else case read_chunk_optimized f1 i of
                (Err e, f2) \<Rightarrow> (Err e, f2, idx, free)
              | (Ok (_, data), f2) \<Rightarrow>
                  let computed_checksum = compute_checksum H data in
                  if checksum header \<noteq> computed_checksum then
                    recover_slots H fast_recover is f2 idx (free @ [i])
                  else
                    recover_slots H fast_recover is f2 (hm_insert (hid header) i idx) free
          else recover_slots H fast_recover is f1 idx (free @ [i]))"

definition cs_recover_index :: "'h crc32 \<Rightarrow> bool \<Rightarrow> chunk_store \<Rightarrow> unit io exec \<times> chunk_store" where
  "cs_recover_index H fast_recover st =
     (case metadata_len (store_file st) of
        (Err e, f) \<Rightarrow> (Ret (Err e), st\<lparr>store_file := f\<rparr>)
      | (Ok file_len, f) \<Rightarrow>
          let slot_count = file_len div SLOT_SIZE in
          if index_poisoned st then (Panic, st\<lparr>store_file := f\<rparr>)
          else case recover_slots H fast_recover (map of_nat [0..<slot_count]) f [] [] of
              (r, f', idx, free) \<Rightarrow>
                (Ret r, st\<lparr>store_file := f', index := idx, free_slots := free\<rparr>))"

definition cs_free_slots :: "chunk_store \<Rightarrow> u64" where
  "cs_free_slots st = of_nat (length (free_slots st))"

definition get_chunk_size :: "chunk_store \<Rightarrow> u64" where
  "get_chunk_size st = of_nat SLOT_DATA_SIZE"

section \<open>The on-disk layout\<close>

text \<open>What a slot holds, as a property of the file alone.\<close>

definition slot_base :: "u64 \<Rightarrow> nat" where
  "slot_base s = unat s * SLOT_SIZE"

definition slot_header :: "os_file \<Rightarrow> u64 \<Rightarrow> ChunkHeader" where
  "slot_header f s = from_bytes (fslice f (slot_base s) CHUNK_HEADER_SIZE)"

definition slot_data :: "os_file \<Rightarrow> u64 \<Rightarrow> nat \<Rightarrow> bytes" where
  "slot_data f s n = fslice f (slot_base s + CHUNK_HEADER_SIZE) n"

definition holds :: "'h crc32 \<Rightarrow> os_file \<Rightarrow> u64 \<Rightarrow> u64 \<Rightarrow> bytes \<Rightarrow> bool" where
  "holds H f s i data \<longleftrightarrow> length data \<le> SLOT_DATA_SIZE \<and>
     slot_header f s = ChunkHeader_new i (compute_checksum H data) (of_nat (length data)) \<and>
     slot_data f s (length data) = data"

text \<open>The file keeps its length and changes only inside slot \<open>s\<close>.\<close>

definition changes_only :: "u64 \<Rightarrow> os_file \<Rightarrow> os_file \<Rightarrow> bool" where
  "changes_only s f f' \<longleftrightarrow> flen f' = flen f \<and>
     (\<forall>i. i < slot_base s \<or> slot_base s + SLOT_SIZE \<le> i \<longrightarrow> fdata f' i = fdata f i)"

definition chunks_of :: "chunk_store \<Rightarrow> u64 \<Rightarrow> bytes option" where
  "chunks_of st i =
     (case hm_get (index st) i of
        None \<Rightarrow> None
      | Some s \<Rightarrow> Some (slot_data (store_file st) s (unat (data_len (slot_header (store_file st) s)))))"

definition cs_invar :: "'h crc32 \<Rightarrow> chunk_store \<Rightarrow> bool" where
  "cs_invar H st \<longleftrightarrow>
     unat (total_slots st) * SLOT_SIZE < 2 ^ 64 \<and>
     flen (store_file st) = unat (total_slots st) * SLOT_SIZE \<and>
     hm_invar (index st) \<and> distinct (hm_values (index st)) \<and> distinct (free_slots st) \<and>
     set (free_slots st) \<inter> set (hm_values (index st)) = {} \<and>
     (\<forall>s \<in> set (free_slots st) \<union> set (hm_values (index st)). s < total_slots st) \<and>
     (\<forall>i s. hm_get (index st) i = Some s \<longrightarrow> (\<exists>data. holds H (store_file st) s i data))"

section \<open>Lemmas: the header codec\<close>

lemma CHUNK_HEADER_SIZE_eq [simp]: "CHUNK_HEADER_SIZE = 24"
  by (simp add: CHUNK_HEADER_SIZE_def align_up_def)

lemma SLOT_SIZE_eq: "SLOT_SIZE = 8388608"
  by (simp add: SLOT_SIZE_def)

lemma SLOT_DATA_SIZE_eq: "SLOT_DATA_SIZE = 8388584"
  by (simp add: SLOT_DATA_SIZE_def SLOT_SIZE_def)

lemma header_fits [simp]: "24 \<le> SLOT_SIZE"
  by (simp add: SLOT_SIZE_eq)

lemma data_fits: "n \<le> SLOT_DATA_SIZE \<longleftrightarrow> 24 + n \<le> SLOT_SIZE"
  by (simp add: SLOT_DATA_SIZE_eq SLOT_SIZE_eq)

lemma length_to_le_bytes [simp]: "length (to_le_bytes n w) = n"
  by (simp add: to_le_bytes_def)

lemma length_to_bytes [simp]: "length (to_bytes h) = 24"
  by (simp add: to_bytes_def)

lemma bit_from_le_bytes:
  "bit (from_le_bytes bs :: 'a::len word) i \<longleftrightarrow>
     i < LENGTH('a) \<and> i < 8 * length bs \<and> bit (bs ! (i div 8)) (i mod 8)"
proof (induction bs arbitrary: i)
  case Nil
  then show ?case by simp
next
  case (Cons b bs)
  have "8 \<le> i \<Longrightarrow> (i - 8) div 8 = i div 8 - 1" "8 \<le> i \<Longrightarrow> (i - 8) mod 8 = i mod 8" "8 \<le> i \<Longrightarrow> 0 < i div 8"
    by (simp_all add: le_div_geq le_mod_geq)
  moreover have "i < 8 \<Longrightarrow> i div 8 = 0 \<and> i mod 8 = i" by simp
  moreover have "8 \<le> i \<Longrightarrow> i - 8 < 8 * length bs \<longleftrightarrow> i < 8 + 8 * length bs" by arith
  moreover have "8 \<le> i \<Longrightarrow> \<not> bit b i"
    using bit_imp_le_length [of b i] by auto
  ultimately show ?case
    by (cases "i < 8") (auto simp: Cons.IH bit_simps nth_Cons' bit_imp_le_length less_imp_diff_less)
qed

lemma from_to_le_bytes:
  assumes "LENGTH('a) = 8 * n"
  shows "from_le_bytes (to_le_bytes n w) = (w :: 'a::len word)"
proof (rule bit_word_eqI)
  fix i assume i: "i < LENGTH('a)"
  then have "i div 8 < n" "8 * (i div 8) + i mod 8 = i" using assms by auto
  then show "bit (from_le_bytes (to_le_bytes n w) :: 'a word) i \<longleftrightarrow> bit w i"
    using i assms by (simp add: bit_from_le_bytes to_le_bytes_def bit_simps)
qed

lemma from_to_bytes: "from_bytes (to_bytes h) = h"
proof -
  have "from_le_bytes (to_le_bytes 4 (magic h)) = magic h"
    "from_le_bytes (to_le_bytes 8 (hid h)) = hid h"
    "from_le_bytes (to_le_bytes 4 (checksum h)) = checksum h"
    "from_le_bytes (to_le_bytes 4 (data_len h)) = data_len h"
    by (simp_all add: from_to_le_bytes)
  then show ?thesis by (simp add: from_bytes_def to_bytes_def)
qed

lemma from_le_bytes_zeros: "from_le_bytes (replicate n 0) = 0"
  by (induction n) simp_all

lemma zero_header_not_magic: "magic (from_bytes (replicate 24 0)) \<noteq> MAGIC"
  by (simp add: from_bytes_def from_le_bytes_zeros MAGIC_def)

section \<open>Lemmas: slot geometry\<close>

lemma slot_offset:
  assumes "slot_base s + SLOT_SIZE \<le> 2 ^ 64"
  shows "unat (s * of_nat SLOT_SIZE :: u64) = slot_base s"
    and "unat (s * of_nat SLOT_SIZE + of_nat CHUNK_HEADER_SIZE :: u64) = slot_base s + 24"
proof -
  have S: "unat (of_nat SLOT_SIZE :: u64) = SLOT_SIZE"
    by (simp add: SLOT_SIZE_eq unat_of_nat)
  have "unat (s * of_nat SLOT_SIZE :: u64) = (unat s * SLOT_SIZE) mod 2 ^ LENGTH(64)"
    by (simp add: unat_word_ariths(2) S)
  also have "\<dots> = unat s * SLOT_SIZE"
    using assms by (intro mod_less) (simp add: slot_base_def SLOT_SIZE_eq)
  finally show 1: "unat (s * of_nat SLOT_SIZE :: u64) = slot_base s" by (simp add: slot_base_def)
  show "unat (s * of_nat SLOT_SIZE + of_nat CHUNK_HEADER_SIZE :: u64) = slot_base s + 24"
    using assms unat_add_of_nat [of "s * of_nat SLOT_SIZE" CHUNK_HEADER_SIZE]
    unfolding 1 CHUNK_HEADER_SIZE_eq by (simp add: SLOT_SIZE_eq)
qed

lemma slots_disjoint:
  assumes "s \<noteq> t"
  shows "slot_base s + SLOT_SIZE \<le> slot_base t \<or> slot_base t + SLOT_SIZE \<le> slot_base s"
proof -
  have "unat s < unat t \<or> unat t < unat s"
    using assms by (metis nat_neq_iff word_unat_eq_iff)
  then have "Suc (unat s) * SLOT_SIZE \<le> unat t * SLOT_SIZE \<or> Suc (unat t) * SLOT_SIZE \<le> unat s * SLOT_SIZE"
    by (auto simp only: intro: mult_le_mono1 Suc_leI)
  then show ?thesis by (simp add: slot_base_def add.commute)
qed

lemma slot_in_range:
  assumes "s < t" and "unat t * SLOT_SIZE < 2 ^ 64"
  shows "slot_base s + SLOT_SIZE \<le> unat t * SLOT_SIZE"
    and "slot_base s + SLOT_SIZE < 2 ^ 64"
proof -
  have "Suc (unat s) \<le> unat t" using assms(1) by (simp add: word_less_nat_alt)
  then have "Suc (unat s) * SLOT_SIZE \<le> unat t * SLOT_SIZE" by (rule mult_le_mono1)
  then show "slot_base s + SLOT_SIZE \<le> unat t * SLOT_SIZE" by (simp add: slot_base_def)
  then show "slot_base s + SLOT_SIZE < 2 ^ 64" using assms(2) by linarith
qed

lemma changes_only_refl [slot_rules]: "changes_only s f (f\<lparr>fplan := p\<rparr>)"
  by (simp add: changes_only_def)

lemma changes_only_trans:
  "changes_only s f g \<Longrightarrow> changes_only s g h \<Longrightarrow> changes_only s f h"
  by (simp add: changes_only_def)

lemma changes_only_disk [slot_rules]:
  "changes_only s f g \<Longrightarrow> changes_only s f (g\<lparr>fdisk := d\<rparr>)"
  "changes_only s f g \<Longrightarrow> changes_only s f (g\<lparr>fplan := p\<rparr>)"
  by (simp_all add: changes_only_def)

lemma changes_only_splice:
  assumes "slot_base s \<le> off" and "off + length bs \<le> slot_base s + SLOT_SIZE"
    and "slot_base s + SLOT_SIZE \<le> flen f"
  shows "changes_only s f (fsplice f off bs)"
  using assms by (auto simp: changes_only_def fdata_fsplice flen_fsplice)

lemma holds_other_slot:
  assumes "changes_only s f f'" and "t \<noteq> s"
  shows "holds H f' t i data \<longleftrightarrow> holds H f t i data"
proof -
  have "fslice f' off n = fslice f off n"
    if "slot_base t \<le> off" "off + n \<le> slot_base t + SLOT_SIZE" for off n
    using assms(1) slots_disjoint [OF assms(2)] that
    by (intro fslice_cong) (auto simp: changes_only_def)
  then have "slot_header f' t = slot_header f t"
    "\<And>n. n \<le> SLOT_DATA_SIZE \<Longrightarrow> slot_data f' t n = slot_data f t n"
    by (simp_all add: slot_header_def slot_data_def SLOT_DATA_SIZE_eq SLOT_SIZE_eq)
  then show ?thesis by (auto simp: holds_def)
qed

lemma holds_plan [simp]:
  "holds H (f\<lparr>fplan := p\<rparr>) s i data = holds H f s i data"
  "holds H (f\<lparr>fdisk := d\<rparr>) s i data = holds H f s i data"
  by (simp_all add: holds_def slot_header_def slot_data_def)

lemma holds_unique: "holds H f s i data \<Longrightarrow> holds H f s j data' \<Longrightarrow> j = i \<and> data' = data"
proof -
  assume a: "holds H f s i data" "holds H f s j data'"
  then have hdr: "j = i" "(of_nat (length data) :: u32) = of_nat (length data')"
    and len: "length data \<le> 8388584" "length data' \<le> 8388584"
    by (auto simp: holds_def ChunkHeader_new_def SLOT_DATA_SIZE_eq)
  have "length data = length data'"
    using arg_cong [OF hdr(2), of unat] len by (simp add: unat_of_nat)
  then show ?thesis using a hdr(1) by (metis holds_def)
qed

lemma holds_data_len: "holds H f s i data \<Longrightarrow> unat (data_len (slot_header f s)) = length data"
  by (auto simp: holds_def ChunkHeader_new_def SLOT_DATA_SIZE_eq unat_of_nat)

section \<open>Lemmas: writing and reading a slot\<close>

lemma write_all_in_slot:
  assumes w: "write_all_at f buf off = (r, f')"
    and inside: "slot_base s \<le> unat off" "unat off + length buf \<le> slot_base s + SLOT_SIZE"
    and range: "slot_base s + SLOT_SIZE \<le> flen f" "slot_base s + SLOT_SIZE < 2 ^ 64"
  shows "changes_only s f f'"
    and "r = Ok () \<Longrightarrow> \<exists>p. f' = (fsplice f (unat off) buf)\<lparr>fplan := p\<rparr>"
    and "fplan f = [] \<Longrightarrow> r = Ok () \<and> fplan f' = []"
proof -
  have "unat off + length buf < 2 ^ 64" using inside(2) range(2) by linarith
  then obtain n p where n: "n \<le> length buf" "f' = (fsplice f (unat off) (take n buf))\<lparr>fplan := p\<rparr>"
    "r = Ok () \<longrightarrow> n = length buf"
    using write_all_at_prefix [OF w] by blast
  have "changes_only s f (fsplice f (unat off) (take n buf))"
    using inside range(1) n(1) by (intro changes_only_splice) auto
  then show "changes_only s f f'" unfolding n(2) by (rule changes_only_disk)
  show "r = Ok () \<Longrightarrow> \<exists>p. f' = (fsplice f (unat off) buf)\<lparr>fplan := p\<rparr>"
    using n by auto
  show "fplan f = [] \<Longrightarrow> r = Ok () \<and> fplan f' = []"
    using w by (auto simp: write_all_at_no_faults)
qed

lemma holds_after_writes:
  assumes "length data \<le> SLOT_DATA_SIZE"
  shows "holds H (fsplice (fsplice f (slot_base s)
      (to_bytes (ChunkHeader_new i (compute_checksum H data) (of_nat (length data)))))
      (slot_base s + 24) data) s i data"
proof -
  let ?h = "ChunkHeader_new i (compute_checksum H data) (of_nat (length data))"
  let ?f1 = "fsplice f (slot_base s) (to_bytes ?h)"
  have "fslice (fsplice ?f1 (slot_base s + 24) data) (slot_base s) 24 = to_bytes ?h"
    using fslice_fsplice_same [of f "slot_base s" "to_bytes ?h"] by (simp add: fslice_fsplice_other)
  then show ?thesis
    using assms by (simp add: holds_def slot_header_def slot_data_def from_to_bytes fslice_fsplice_same)
qed

lemma sync_data_effect:
  assumes "sync_data f = (r, f')"
  shows "\<exists>d p. f' = f\<lparr>fdisk := d, fplan := p\<rparr> \<and> (r = Ok () \<longrightarrow> d = fdata f)"
    and "fplan f = [] \<Longrightarrow> r = Ok () \<and> fplan f' = []"
proof -
  show "\<exists>d p. f' = f\<lparr>fdisk := d, fplan := p\<rparr> \<and> (r = Ok () \<longrightarrow> d = fdata f)"
  proof (cases "fplan f")
    case Nil
    with assms show ?thesis by (intro exI [of _ "fdata f"] exI [of _ "[]"]) auto
  next
    case (Cons c p)
    with assms show ?thesis
      by (cases c) (force intro: exI [of _ "fdata f"] exI [of _ "fdisk f"] exI [of _ p])+
  qed
  show "fplan f = [] \<Longrightarrow> r = Ok () \<and> fplan f' = []" using assms by auto
qed

declare sync_data.simps [simp del]

text \<open>
  The whole slot write, for every plan: nothing outside the slot changes; it panics exactly on
  oversized data; success means the slot holds the chunk, durably when it synced.
\<close>

lemma write_chunk_at_effect:
  assumes w: "write_chunk_at f s (ChunkHeader_new i (compute_checksum H data) (of_nat (length data)))
      data fsync = (r, f')"
    and range: "slot_base s + SLOT_SIZE \<le> flen f" "slot_base s + SLOT_SIZE < 2 ^ 64"
    and fits: "length data \<le> SLOT_DATA_SIZE"
  shows "changes_only s f f' \<and> r \<noteq> Panic \<and>
    (r = Ret (Ok ()) \<longrightarrow> holds H f' s i data \<and> (fsync \<longrightarrow> fdisk f' = fdata f')) \<and>
    (fplan f = [] \<longrightarrow> r = Ret (Ok ()) \<and> fplan f' = [])"
proof -
  let ?h = "to_bytes (ChunkHeader_new i (compute_checksum H data) (of_nat (length data)))"
  let ?off = "s * of_nat SLOT_SIZE :: u64"
  note off = slot_offset [OF less_imp_le [OF range(2)]]
  obtain r1 f1 where w1: "write_all_at f ?h ?off = (r1, f1)" by fastforce
  have "slot_base s \<le> unat ?off" "unat ?off + length ?h \<le> slot_base s + SLOT_SIZE"
    unfolding off by simp_all
  note e1 = write_all_in_slot [OF w1 this range, unfolded off]
  have len1: "flen f1 = flen f" "changes_only s f f1"
    using e1(1) by (auto simp: changes_only_def)
  obtain r2 f2 where w2: "write_all_at f1 data (?off + of_nat CHUNK_HEADER_SIZE) = (r2, f2)"
    by fastforce
  have range1: "slot_base s + SLOT_SIZE \<le> flen f1" using range(1) len1 by simp
  have "slot_base s \<le> unat (?off + of_nat CHUNK_HEADER_SIZE)"
    "unat (?off + of_nat CHUNK_HEADER_SIZE) + length data \<le> slot_base s + SLOT_SIZE"
    using fits unfolding off data_fits by simp_all
  note e2 = write_all_in_slot [OF w2 this range1 range(2), unfolded off]
  have w2': "(if data \<noteq> [] then write_all_at f1 data (?off + of_nat CHUNK_HEADER_SIZE) else (Ok (), f1))
      = (r2, f2)"
    using w2 by (auto simp: write_all_at.simps [of f1 "[]"])
  have c2: "changes_only s f f2"
    using changes_only_trans [OF len1(2) e2(1)] .
  obtain r3 f3 where w3: "sync_data f2 = (r3, f3)" by fastforce
  note e3 = sync_data_effect [OF w3]
  have c3: "changes_only s f f3" using e3(1) c2 by (auto simp: changes_only_def)
  have ok: "holds H f2 s i data" if r12: "r1 = Ok ()" "r2 = Ok ()"
  proof -
    obtain p where "f1 = (fsplice f (slot_base s) ?h)\<lparr>fplan := p\<rparr>"
      using e1(2) r12(1) by auto
    moreover obtain q where "f2 = (fsplice f1 (slot_base s + 24) data)\<lparr>fplan := q\<rparr>"
      using e2(2) r12(2) by auto
    ultimately show ?thesis using holds_after_writes [OF fits] by (simp add: fsplice_plan)
  qed
  have eq: "(r, f') = (case r1 of Err e \<Rightarrow> (Ret (Err e), f1)
      | Ok _ \<Rightarrow> case r2 of Err e \<Rightarrow> (Ret (Err e), f2)
      | Ok _ \<Rightarrow> if fsync then (Ret r3, f3) else (Ret (Ok ()), f2))"
    using w fits w1 w2' w3 by (auto simp: write_chunk_at_def Let_def split: result.splits)
  have p1: "fplan f = [] \<Longrightarrow> r1 = Ok () \<and> fplan f1 = []" by (rule e1(3))
  have p2: "fplan f1 = [] \<Longrightarrow> r2 = Ok () \<and> fplan f2 = []" by (rule e2(3))
  show ?thesis
    using eq len1(2) c2 c3 ok p1 p2 e3 by (cases r1; cases r2) (auto split: if_splits)
qed

lemma write_chunk_at_oversized:
  "SLOT_DATA_SIZE < length data \<Longrightarrow> write_chunk_at f s h data fsync = (Panic, f)"
  by (simp add: write_chunk_at_def)

lemma read_chunk_header_effect:
  assumes "read_chunk_header f s = (r, f')" and "slot_base s + SLOT_SIZE < 2 ^ 64"
  shows "\<exists>p. f' = f\<lparr>fplan := p\<rparr> \<and> (\<forall>h. r = Ok h \<longrightarrow> h = slot_header f s)"
    and "fplan f = [] \<Longrightarrow> slot_base s + SLOT_SIZE \<le> flen f \<Longrightarrow> r = Ok (slot_header f s) \<and> f' = f"
proof -
  note off = slot_offset [OF less_imp_le [OF assms(2)]]
  obtain r1 f1 where rd: "read_exact_at f CHUNK_HEADER_SIZE (s * of_nat SLOT_SIZE) = (r1, f1)"
    by fastforce
  have "slot_base s + 24 < 2 ^ 64" using assms(2) header_fits by linarith
  then obtain p where "f1 = f\<lparr>fplan := p\<rparr>" "\<forall>bs. r1 = Ok bs \<longrightarrow> bs = fslice f (slot_base s) 24"
    using read_exact_at_frame [OF rd] unfolding off by auto
  then show "\<exists>p. f' = f\<lparr>fplan := p\<rparr> \<and> (\<forall>h. r = Ok h \<longrightarrow> h = slot_header f s)"
    using assms(1) rd by (intro exI [of _ p]) (auto simp: read_chunk_header_def slot_header_def split: result.splits)
  show "fplan f = [] \<Longrightarrow> slot_base s + SLOT_SIZE \<le> flen f \<Longrightarrow> r = Ok (slot_header f s) \<and> f' = f"
    using assms(1) read_exact_at_no_faults [of f "s * of_nat SLOT_SIZE" 24] header_fits
    by (auto simp: read_chunk_header_def slot_header_def off)
qed

definition slot_contents :: "os_file \<Rightarrow> u64 \<Rightarrow> bytes" where
  "slot_contents f s =
     (if magic (slot_header f s) = MAGIC then slot_data f s (unat (data_len (slot_header f s))) else [])"

lemma read_chunk_optimized_effect:
  assumes rd: "read_chunk_optimized f s = (r, f')" and range: "slot_base s + SLOT_SIZE < 2 ^ 64"
    and len: "unat (data_len (slot_header f s)) \<le> SLOT_DATA_SIZE"
  shows "\<exists>p. f' = f\<lparr>fplan := p\<rparr> \<and> (\<forall>x. r = Ok x \<longrightarrow> x = (slot_header f s, slot_contents f s))"
    and "fplan f = [] \<Longrightarrow> slot_base s + SLOT_SIZE \<le> flen f \<Longrightarrow>
      r = Ok (slot_header f s, slot_contents f s) \<and> f' = f"
proof -
  let ?n = "unat (data_len (slot_header f s))"
  let ?off = "s * of_nat SLOT_SIZE + of_nat CHUNK_HEADER_SIZE :: u64"
  note off = slot_offset [OF less_imp_le [OF range]]
  obtain r1 f1 where h: "read_chunk_header f s = (r1, f1)" by fastforce
  obtain p where f1: "f1 = f\<lparr>fplan := p\<rparr>" and r1: "\<And>x. r1 = Ok x \<Longrightarrow> x = slot_header f s"
    using read_chunk_header_effect(1) [OF h range] by auto
  obtain r2 f2 where d: "read_exact_at f1 ?n ?off = (r2, f2)" by fastforce
  have bound: "unat ?off + ?n < 2 ^ 64" using len range unfolding off data_fits by linarith
  obtain q where f2: "f2 = f1\<lparr>fplan := q\<rparr>"
    and r2: "\<And>bs. r2 = Ok bs \<Longrightarrow> bs = slot_data f s ?n"
    using read_exact_at_frame [OF d bound] unfolding off by (auto simp: f1 slot_data_def)
  have eq: "(r, f') = (case r1 of Err e \<Rightarrow> (Err e, f1)
     | Ok x \<Rightarrow> if magic x \<noteq> MAGIC then (Ok (x, []), f1)
       else if ?n > 0 then (case r2 of Err e \<Rightarrow> (Err e, f2) | Ok data \<Rightarrow> (Ok (x, data), f2))
       else (Ok (x, []), f1))"
    using rd h d r1 by (cases r1) (auto simp: read_chunk_optimized_def Let_def split: result.splits)
  show "\<exists>p. f' = f\<lparr>fplan := p\<rparr> \<and> (\<forall>x. r = Ok x \<longrightarrow> x = (slot_header f s, slot_contents f s))"
  proof (cases "f' = f1")
    case True
    then show ?thesis using eq f1 f2 r1 r2
      by (intro exI [of _ p])
        (cases r1; cases r2; auto simp: slot_contents_def slot_data_def split: if_splits)
  next
    case False
    then show ?thesis using eq f1 f2 r1 r2
      by (intro exI [of _ q]) (cases r1; cases r2; auto simp: slot_contents_def split: if_splits)
  qed
  show "r = Ok (slot_header f s, slot_contents f s) \<and> f' = f"
    if "fplan f = []" "slot_base s + SLOT_SIZE \<le> flen f"
  proof -
    have 1: "r1 = Ok (slot_header f s)" "f1 = f" using read_chunk_header_effect(2) [OF h range that] by auto
    have "unat ?off + ?n \<le> flen f" using len that(2) unfolding off data_fits by linarith
    then have "r2 = Ok (slot_data f s ?n) \<and> f2 = f"
      using d that(1) read_exact_at_no_faults [of f ?off ?n] unfolding 1(2) off slot_data_def by auto
    then show ?thesis using eq 1 by (auto simp: slot_contents_def slot_data_def split: if_splits)
  qed
qed

lemma holds_contents: "holds H f s i data \<Longrightarrow> slot_contents f s = data \<and>
    magic (slot_header f s) = MAGIC \<and> hid (slot_header f s) = i \<and>
    checksum (slot_header f s) = compute_checksum H data \<and>
    unat (data_len (slot_header f s)) \<le> SLOT_DATA_SIZE"
  using holds_data_len [of H f s i data]
  by (auto simp: slot_contents_def holds_def ChunkHeader_new_def)

section \<open>The invariant and the abstract contents\<close>

lemma cs_invar_slot:
  assumes "cs_invar H st" and "s \<in> set (free_slots st) \<union> set (hm_values (index st))"
  shows "slot_base s + SLOT_SIZE \<le> flen (store_file st)" and "slot_base s + SLOT_SIZE < 2 ^ 64"
  using assms slot_in_range [of s "total_slots st"] by (auto simp: cs_invar_def)

lemma index_value: "hm_get (index st) i = Some s \<Longrightarrow> s \<in> set (hm_values (index st))"
  by (metis image_eqI image_set map_of_SomeD snd_conv)

lemma cs_invar_holds:
  assumes "cs_invar H st" and "hm_get (index st) i = Some s"
  obtains data where "holds H (store_file st) s i data" "chunks_of st i = Some data"
proof -
  obtain data where h: "holds H (store_file st) s i data"
    using assms unfolding cs_invar_def by blast
  then have "chunks_of st i = Some data"
    using assms(2) by (simp add: chunks_of_def holds_data_len) (simp add: holds_def)
  with h show ?thesis by (rule that)
qed

lemma chunks_of_eq: "hm_get (index st) i = Some s \<Longrightarrow> holds H (store_file st) s i data \<Longrightarrow>
    chunks_of st i = Some data"
  by (simp add: chunks_of_def holds_data_len) (simp add: holds_def)

lemma chunks_of_None: "chunks_of st i = None \<longleftrightarrow> hm_get (index st) i = None"
  by (simp add: chunks_of_def split: option.split)

lemma file_step:
  assumes inv: "cs_invar H st" and ch: "changes_only s (store_file st) f"
    and s: "s \<notin> set (hm_values (index st))"
  shows "cs_invar H (st\<lparr>store_file := f\<rparr>)" and "chunks_of (st\<lparr>store_file := f\<rparr>) = chunks_of st"
proof -
  have keep: "holds H f t i data \<longleftrightarrow> holds H (store_file st) t i data"
    if "hm_get (index st) i = Some t" for t i data
    using holds_other_slot [OF ch] index_value [OF that] s by metis
  then have "\<forall>i t. hm_get (index st) i = Some t \<longrightarrow> (\<exists>data. holds H f t i data)"
    using inv unfolding cs_invar_def by blast
  then show "cs_invar H (st\<lparr>store_file := f\<rparr>)"
    using inv ch unfolding cs_invar_def changes_only_def by (simp del: map_of_eq_Some_iff)
  show "chunks_of (st\<lparr>store_file := f\<rparr>) = chunks_of st"
  proof
    fix i
    show "chunks_of (st\<lparr>store_file := f\<rparr>) i = chunks_of st i"
    proof (cases "hm_get (index st) i")
      case None
      then show ?thesis by (simp add: chunks_of_def)
    next
      case (Some t)
      obtain data where "holds H (store_file st) t i data" "chunks_of st i = Some data"
        using cs_invar_holds [OF inv Some] .
      moreover from this have "chunks_of (st\<lparr>store_file := f\<rparr>) i = Some data"
        using Some keep by (intro chunks_of_eq [where s = t and H = H]) simp_all
      ultimately show ?thesis by simp
    qed
  qed
qed

lemma should_fsync_frame:
  "should_fsync_write (st\<lparr>free_slots := fs\<rparr>) =
     (fst (should_fsync_write st),
      st\<lparr>free_slots := fs, write_counter := write_counter (snd (should_fsync_write st))\<rparr>)"
  by (auto simp: should_fsync_write_def Let_def split: option.split)

text \<open>The outcomes of a put, one per branch of the source.\<close>

lemma put_chunk_cases [consumes 2, case_names Poisoned Exists Full Oversized Faulted Stored]:
  assumes inv: "cs_invar H st" and put: "cs_put_chunk H i data st = (r, st')"
  obtains
    (Poisoned) "index_poisoned st" "r = Panic" "st' = st"
  | (Exists) "\<not> index_poisoned st" "hm_contains (index st) i" "r = Ret (Err AlreadyExists)" "st' = st"
  | (Full) "\<not> index_poisoned st" "hm_get (index st) i = None" "free_slots st = []"
      "r = Ret (Err StorageFull)" "st' = st"
  | (Oversized) c where "\<not> index_poisoned st" "hm_get (index st) i = None" "free_slots st \<noteq> []"
      "SLOT_DATA_SIZE < length data" "r = Panic"
      "st' = st\<lparr>free_slots := butlast (free_slots st), write_counter := c, index_poisoned := True\<rparr>"
  | (Faulted) e f c where "\<not> index_poisoned st" "hm_get (index st) i = None" "free_slots st \<noteq> []"
      "length data \<le> SLOT_DATA_SIZE" "r = Ret (Err e)" "fplan (store_file st) \<noteq> []"
      "changes_only (last (free_slots st)) (store_file st) f"
      "st' = st\<lparr>store_file := f, write_counter := c\<rparr>"
  | (Stored) f c where "\<not> index_poisoned st" "hm_get (index st) i = None" "free_slots st \<noteq> []"
      "length data \<le> SLOT_DATA_SIZE" "r = Ret (Ok ())"
      "changes_only (last (free_slots st)) (store_file st) f"
      "holds H f (last (free_slots st)) i data"
      "fst (should_fsync_write st) \<longrightarrow> fdisk f = fdata f"
      "fplan (store_file st) = [] \<longrightarrow> fplan f = []"
      "st' = st\<lparr>store_file := f, index := hm_insert i (last (free_slots st)) (index st),
         free_slots := butlast (free_slots st), write_counter := c\<rparr>"
proof -
  define s where "s = last (free_slots st)"
  define c where "c = write_counter (snd (should_fsync_write st))"
  define b where "b = fst (should_fsync_write st)"
  define h where "h = ChunkHeader_new i (compute_checksum H data) (of_nat (length data))"
  obtain wr f where w: "write_chunk_at (store_file st) s h data b = (wr, f)" by fastforce
  have unf: "cs_put_chunk H i data st =
      (case wr of
         Panic \<Rightarrow> (Panic, st\<lparr>free_slots := butlast (free_slots st), write_counter := c,
            store_file := f, index_poisoned := True\<rparr>)
       | Ret (Err e) \<Rightarrow>
           (case clear_slot s (st\<lparr>free_slots := butlast (free_slots st), write_counter := c,
                store_file := f\<rparr>) of
              (Panic, st3) \<Rightarrow> (Panic, st3\<lparr>index_poisoned := True\<rparr>)
            | (Ret _, st3) \<Rightarrow> (Ret (Err e), st3))
       | Ret (Ok _) \<Rightarrow> (Ret (Ok ()), st\<lparr>free_slots := butlast (free_slots st), write_counter := c,
            store_file := f, index := hm_insert i s (index st)\<rparr>))"
    if "\<not> index_poisoned st" "hm_get (index st) i = None" "free_slots st \<noteq> []"
  proof -
    have "find_slot st = (Some s, st\<lparr>free_slots := butlast (free_slots st)\<rparr>)"
      using that(3) by (simp add: find_slot_def s_def)
    moreover have "should_fsync_write (st\<lparr>free_slots := butlast (free_slots st)\<rparr>) =
        (b, st\<lparr>free_slots := butlast (free_slots st), write_counter := c\<rparr>)"
      by (simp only: should_fsync_frame b_def c_def)
    moreover have "(\<exists>e. wr = Ret (Err e)) \<or> wr = Ret (Ok ()) \<or> wr = Panic"
      by (metis exec.exhaust result_exhaust_unit)
    ultimately show ?thesis
      using that(1,2) w [unfolded h_def] by (elim disjE exE) (simp_all add: cs_put_chunk_def Let_def)
  qed
  consider (p) "index_poisoned st" | (e) "\<not> index_poisoned st" "hm_contains (index st) i"
    | (n) "\<not> index_poisoned st" "hm_get (index st) i = None" "free_slots st = []"
    | (w) "\<not> index_poisoned st" "hm_get (index st) i = None" "free_slots st \<noteq> []"
    by blast
  then show ?thesis
  proof cases
    case p
    then show ?thesis using put by (intro Poisoned) (simp_all add: cs_put_chunk_def)
  next
    case e
    then show ?thesis using put by (intro Exists) (simp_all add: cs_put_chunk_def)
  next
    case n
    then show ?thesis using put by (intro Full) (simp_all add: cs_put_chunk_def find_slot_def)
  next
    case pre: w
    show ?thesis
    proof (cases "length data \<le> SLOT_DATA_SIZE")
      case False
      then have "wr = Panic" "f = store_file st" using w by (auto simp: write_chunk_at_def)
      then show ?thesis using put unf [OF pre] False pre by (intro Oversized [of c]) auto
    next
      case fits: True
      have s: "s \<in> set (free_slots st) \<union> set (hm_values (index st))" using pre(3) by (simp add: s_def)
      then have lt: "s < total_slots st" using inv unfolding cs_invar_def by blast
      note eff = write_chunk_at_effect [OF w [unfolded h_def] cs_invar_slot [OF inv s] fits]
      show ?thesis
      proof (cases wr)
        case Panic
        with eff show ?thesis by simp
      next
        case (Ret x)
        show ?thesis
        proof (cases x)
          case (Ok u)
          then show ?thesis using put unf [OF pre] eff fits pre Ret
            by (intro Stored [of f c]) (auto simp: s_def b_def)
        next
          case (Err e)
          have "butlast (free_slots st) @ [s] = free_slots st"
            using pre(3) by (simp add: s_def)
          then show ?thesis using put unf [OF pre] eff fits pre Ret Err lt
            by (intro Faulted [of e f c]) (auto simp: s_def clear_slot_def)
        qed
      qed
    qed
  qed
qed


lemma clear_magic: "magic (slot_header ((fsplice f (slot_base s) (replicate 24 0))\<lparr>fplan := p\<rparr>) s) \<noteq> MAGIC"
  using zero_header_not_magic fslice_fsplice_same [of f "slot_base s" "replicate 24 0"]
  by (simp add: slot_header_def)

lemma slot_header_disk [simp]:
  "slot_header (f\<lparr>fdisk := d\<rparr>) s = slot_header f s" "slot_header (f\<lparr>fplan := p\<rparr>) s = slot_header f s"
  by (simp_all add: slot_header_def)

text \<open>The outcomes of a delete.\<close>

lemma delete_chunk_cases [consumes 2, case_names Poisoned Absent Faulted Deleted]:
  assumes inv: "cs_invar H st" and del: "cs_delete_chunk i st = (r, st')"
  obtains
    (Poisoned) "index_poisoned st" "r = Panic" "st' = st"
  | (Absent) "\<not> index_poisoned st" "hm_get (index st) i = None" "r = Ret (Ok ())" "st' = st"
  | (Faulted) s e f where "\<not> index_poisoned st" "hm_get (index st) i = Some s"
      "fplan (store_file st) \<noteq> []" "r = Ret (Err e)" "changes_only s (store_file st) f"
      "st' = st\<lparr>index := hm_remove i (index st), store_file := f\<rparr>"
  | (Deleted) s f where "\<not> index_poisoned st" "hm_get (index st) i = Some s" "r = Ret (Ok ())"
      "changes_only s (store_file st) f" "magic (slot_header f s) \<noteq> MAGIC"
      "fsync_on_delete st \<longrightarrow> fdisk f = fdata f" "fplan (store_file st) = [] \<longrightarrow> fplan f = []"
      "st' = st\<lparr>index := hm_remove i (index st), store_file := f,
         free_slots := free_slots st @ [s]\<rparr>"
proof -
  consider (p) "index_poisoned st" | (n) "\<not> index_poisoned st" "hm_get (index st) i = None"
    | (d) s where "\<not> index_poisoned st" "hm_get (index st) i = Some s"
    by blast
  then show ?thesis
  proof cases
    case p
    then show ?thesis using del by (intro Poisoned) (simp_all add: cs_delete_chunk_def)
  next
    case n
    then show ?thesis using del by (intro Absent) (simp_all add: cs_delete_chunk_def)
  next
    case d
    let ?off = "s * of_nat SLOT_SIZE :: u64"
    have s: "s \<in> set (free_slots st) \<union> set (hm_values (index st))" using index_value [OF d(2)] by simp
    then have lt: "s < total_slots st" using inv unfolding cs_invar_def by blast
    note range = cs_invar_slot [OF inv s]
    note off = slot_offset [OF less_imp_le [OF range(2)]]
    obtain r1 f1 where w1: "write_all_at (store_file st) (replicate 24 0) ?off = (r1, f1)" by fastforce
    have "slot_base s \<le> unat ?off" "unat ?off + length (replicate 24 (0::u8)) \<le> slot_base s + SLOT_SIZE"
      unfolding off by simp_all
    note e1 = write_all_in_slot [OF w1 this range, unfolded off]
    obtain r2 f2 where w2: "(if fsync_on_delete st then sync_data f1 else (Ok (), f1)) = (r2, f2)"
      by fastforce
    have e2: "\<exists>d p. f2 = f1\<lparr>fdisk := d, fplan := p\<rparr> \<and> (fsync_on_delete st \<longrightarrow> r2 = Ok () \<longrightarrow> d = fdata f1)"
      "fplan f1 = [] \<Longrightarrow> r2 = Ok () \<and> fplan f2 = []"
      using w2 sync_data_effect [of f1 r2 f2]
      by (auto split: if_splits intro!: exI [of _ "fdisk f1"] exI [of _ "fplan f1"])
    have ch2: "changes_only s (store_file st) f2" using e1(1) e2(1) by (auto simp: changes_only_def)
    have eq: "(r, st') = (case r1 of Err e \<Rightarrow> (Ret (Err e), st\<lparr>index := hm_remove i (index st), store_file := f1\<rparr>)
       | Ok _ \<Rightarrow> case r2 of Err e \<Rightarrow> (Ret (Err e), st\<lparr>index := hm_remove i (index st), store_file := f2\<rparr>)
       | Ok _ \<Rightarrow> (Ret (Ok ()), st\<lparr>index := hm_remove i (index st), store_file := f2,
           free_slots := free_slots st @ [s]\<rparr>))"
      using del d w1 w2 lt
      by (cases r1; cases r2) (simp_all add: cs_delete_chunk_def Let_def clear_slot_def)
    show ?thesis
    proof (cases r1)
      case (Err e)
      then show ?thesis using eq e1 d by (intro Faulted [of s e f1]) auto
    next
      case Ok1: (Ok u)
      show ?thesis
      proof (cases r2)
        case (Err e)
        then show ?thesis using eq e1 e2 ch2 d Ok1 by (intro Faulted [of s e f2]) auto
      next
        case (Ok v)
        obtain p where "f1 = (fsplice (store_file st) (slot_base s) (replicate 24 0))\<lparr>fplan := p\<rparr>"
          using e1(2) Ok1 by auto
        then have "magic (slot_header f2 s) \<noteq> MAGIC" using e2(1) clear_magic by auto
        then show ?thesis using eq e1 e2 ch2 d Ok1 Ok by (intro Deleted [of s f2]) auto
      qed
    qed
  qed
qed

text \<open>The outcomes of a get: the state changes by its plan of system calls only.\<close>

lemma get_chunk_cases [consumes 2, case_names Poisoned Absent Faulted Found]:
  assumes inv: "cs_invar H st" and get: "cs_get_chunk H i st = (r, st')"
  obtains
    (Poisoned) "index_poisoned st" "r = Panic" "st' = st"
  | (Absent) "\<not> index_poisoned st" "chunks_of st i = None" "r = Ret (Err NotFound)" "st' = st"
  | (Faulted) e p where "\<not> index_poisoned st" "chunks_of st i \<noteq> None" "fplan (store_file st) \<noteq> []"
      "r = Ret (Err e)" "st' = st\<lparr>store_file := (store_file st)\<lparr>fplan := p\<rparr>\<rparr>"
  | (Found) data p where "\<not> index_poisoned st" "chunks_of st i = Some data"
      "r = Ret (Ok (data, compute_checksum H data))" "fplan (store_file st) = [] \<longrightarrow> p = []"
      "st' = st\<lparr>store_file := (store_file st)\<lparr>fplan := p\<rparr>\<rparr>"
proof -
  consider (p) "index_poisoned st" | (n) "\<not> index_poisoned st" "hm_get (index st) i = None"
    | (d) s where "\<not> index_poisoned st" "hm_get (index st) i = Some s"
    by blast
  then show ?thesis
  proof cases
    case p
    then show ?thesis using get by (intro Poisoned) (simp_all add: cs_get_chunk_def)
  next
    case n
    then show ?thesis using get by (intro Absent) (simp_all add: cs_get_chunk_def chunks_of_None)
  next
    case d
    obtain data where h: "holds H (store_file st) s i data" "chunks_of st i = Some data"
      using cs_invar_holds [OF inv d(2)] .
    note hc = holds_contents [OF h(1)]
    have "s \<in> set (free_slots st) \<union> set (hm_values (index st))" using index_value [OF d(2)] by simp
    note range = cs_invar_slot [OF inv this]
    obtain r1 f1 where rd: "read_chunk_optimized (store_file st) s = (r1, f1)" by fastforce
    have len: "unat (data_len (slot_header (store_file st) s)) \<le> SLOT_DATA_SIZE" using hc by simp
    note e = read_chunk_optimized_effect [OF rd range(2) len]
    obtain p where f1: "f1 = (store_file st)\<lparr>fplan := p\<rparr>"
      and r1: "\<And>x. r1 = Ok x \<Longrightarrow> x = (slot_header (store_file st) s, data)"
      using e(1) hc by auto
    have ne: "fplan (store_file st) = [] \<Longrightarrow> r1 = Ok (slot_header (store_file st) s, data) \<and> p = []"
      using e(2) range(1) hc f1 by (metis os_file.select_convs(4) os_file.surjective os_file.update_convs(4))
    show ?thesis
    proof (cases r1)
      case (Err e)
      then show ?thesis using get d rd f1 h(2) ne
        by (intro Faulted [of e p]) (auto simp: cs_get_chunk_def)
    next
      case (Ok x)
      then have "r = Ret (Ok (data, compute_checksum H data))" "st' = st\<lparr>store_file := f1\<rparr>"
        using get d rd hc r1 [OF Ok] by (simp_all add: cs_get_chunk_def)
      then show ?thesis using d h(2) ne f1 by (intro Found [of data p]) auto
    qed
  qed
qed

section \<open>Every operation keeps the invariant and refines the map of chunks\<close>

lemma hd_free: "cs_invar H st \<Longrightarrow> free_slots st \<noteq> [] \<Longrightarrow> last (free_slots st) \<notin> set (hm_values (index st))"
  using last_in_set [of "free_slots st"] unfolding cs_invar_def by blast

lemma plan_only:
  "cs_invar H (st\<lparr>store_file := (store_file st)\<lparr>fplan := p\<rparr>\<rparr>) = cs_invar H st"
  "chunks_of (st\<lparr>store_file := (store_file st)\<lparr>fplan := p\<rparr>\<rparr>) = chunks_of st"
  by (simp_all add: cs_invar_def chunks_of_def fun_eq_iff slot_data_def split: option.split)

lemma counters_only [simp]:
  "cs_invar H (st\<lparr>write_counter := c\<rparr>) = cs_invar H st"
  "cs_invar H (st\<lparr>index_poisoned := b\<rparr>) = cs_invar H st"
  "chunks_of (st\<lparr>write_counter := c\<rparr>) = chunks_of st"
  "chunks_of (st\<lparr>index_poisoned := b\<rparr>) = chunks_of st"
  "chunks_of (st\<lparr>free_slots := fs\<rparr>) = chunks_of st"
  by (simp_all add: cs_invar_def chunks_of_def fun_eq_iff split: option.split)

lemma drop_free_slot:
  assumes "cs_invar H st" shows "cs_invar H (st\<lparr>free_slots := butlast (free_slots st)\<rparr>)"
  using assms in_set_butlastD [of _ "free_slots st"] unfolding cs_invar_def
  by (auto simp: distinct_butlast)

lemma index_new_chunk:
  assumes inv: "cs_invar H st" and new: "hm_get (index st) i = None" and ne: "free_slots st \<noteq> []"
    and h: "holds H (store_file st) (last (free_slots st)) i data"
  shows "cs_invar H (st\<lparr>index := hm_insert i (last (free_slots st)) (index st),
      free_slots := butlast (free_slots st)\<rparr>)" (is "cs_invar H ?st")
    and "chunks_of (st\<lparr>index := hm_insert i (last (free_slots st)) (index st),
      free_slots := butlast (free_slots st)\<rparr>) = (chunks_of st)(i \<mapsto> data)"
proof -
  let ?s = "last (free_slots st)"
  have idx: "hm_insert i ?s (index st) = index st @ [(i, ?s)]" using new by (rule hm_insert_new)
  have fs: "set (butlast (free_slots st)) \<subseteq> set (free_slots st) - {?s}"
    "distinct (butlast (free_slots st))"
    using inv ne by (auto simp: cs_invar_def distinct_butlast dest: in_set_butlastD)
      (metis append_butlast_last_id distinct_append disjoint_iff list.set_intros(1))
  have s: "?s \<notin> set (hm_values (index st))" using hd_free [OF inv ne] .
  have lt: "?s < total_slots st" using inv ne unfolding cs_invar_def by auto
  have "\<forall>j t. hm_get (hm_insert i ?s (index st)) j = Some t \<longrightarrow> (\<exists>data. holds H (store_file st) t j data)"
    using inv h unfolding cs_invar_def by auto
  moreover have "hm_invar (hm_insert i ?s (index st))" using inv by (simp add: cs_invar_def)
  moreover have "distinct (hm_values (hm_insert i ?s (index st)))"
    "set (hm_values (hm_insert i ?s (index st))) = insert ?s (set (hm_values (index st)))"
    using inv s by (auto simp: idx cs_invar_def)
  moreover have "set (butlast (free_slots st)) \<inter> insert ?s (set (hm_values (index st))) = {}"
    "\<forall>t \<in> set (butlast (free_slots st)) \<union> insert ?s (set (hm_values (index st))). t < total_slots st"
    using inv fs s lt unfolding cs_invar_def by blast+
  ultimately show "cs_invar H ?st"
    using inv fs(2) unfolding cs_invar_def by (simp del: update_conv' set_map)
  show "chunks_of ?st = (chunks_of st)(i \<mapsto> data)"
    using chunks_of_eq [of ?st i ?s H data] h by (auto simp: fun_eq_iff chunks_of_def split: option.split)
qed

lemma unindex_chunk:
  assumes inv: "cs_invar H st" and s: "hm_get (index st) i = Some s"
  shows "cs_invar H (st\<lparr>index := hm_remove i (index st)\<rparr>)"
    and "s \<notin> set (hm_values (hm_remove i (index st)))"
    and "chunks_of (st\<lparr>index := hm_remove i (index st)\<rparr>) = (chunks_of st)(i := None)"
proof -
  have "hm_invar (index st)" "distinct (hm_values (index st))" using inv by (auto simp: cs_invar_def)
  note v = hm_values_remove [OF this s]
  show "s \<notin> set (hm_values (hm_remove i (index st)))" using v(1) by simp
  have "\<forall>j t. hm_get (hm_remove i (index st)) j = Some t \<longrightarrow> (\<exists>data. holds H (store_file st) t j data)"
    using inv unfolding cs_invar_def by auto
  moreover have "hm_invar (hm_remove i (index st))" using inv by (simp add: cs_invar_def)
  moreover have "set (free_slots st) \<inter> set (hm_values (hm_remove i (index st))) = {}"
    "\<forall>t \<in> set (free_slots st) \<union> set (hm_values (hm_remove i (index st))). t < total_slots st"
    using inv v(1) unfolding cs_invar_def by blast+
  ultimately show "cs_invar H (st\<lparr>index := hm_remove i (index st)\<rparr>)"
    using inv v(2) unfolding cs_invar_def by (simp del: delete_conv' set_map)
  show "chunks_of (st\<lparr>index := hm_remove i (index st)\<rparr>) = (chunks_of st)(i := None)"
    by (auto simp: chunks_of_def fun_eq_iff split: option.split)
qed

lemma put_chunk_refines:
  assumes inv: "cs_invar H st" and put: "cs_put_chunk H i data st = (r, st')"
  shows "cs_invar H st' \<and>
    (if r = Ret (Ok ()) then chunks_of st i = None \<and> chunks_of st' = (chunks_of st)(i \<mapsto> data)
     else chunks_of st' = chunks_of st)"
  using inv put
proof (cases rule: put_chunk_cases)
  case (Oversized c)
  then show ?thesis using drop_free_slot [OF inv] by simp
next
  case (Faulted e f c)
  then show ?thesis using file_step [OF inv _ hd_free [OF inv]] by simp
next
  case (Stored f c)
  note fs = file_step [OF inv Stored(6) hd_free [OF inv Stored(3)]]
  have st': "st' = (st\<lparr>store_file := f\<rparr>)\<lparr>index := hm_insert i (last (free_slots st)) (index st),
      free_slots := butlast (free_slots st)\<rparr>\<lparr>write_counter := c\<rparr>"
    using Stored(10) by simp
  have "cs_invar H ((st\<lparr>store_file := f\<rparr>)\<lparr>index := hm_insert i (last (free_slots st)) (index st),
      free_slots := butlast (free_slots st)\<rparr>)"
    using index_new_chunk(1) [OF fs(1)] Stored by simp
  moreover have "chunks_of ((st\<lparr>store_file := f\<rparr>)\<lparr>index := hm_insert i (last (free_slots st)) (index st),
      free_slots := butlast (free_slots st)\<rparr>) = (chunks_of st)(i \<mapsto> data)"
    using index_new_chunk(2) [OF fs(1)] Stored fs(2) by simp
  ultimately show ?thesis using Stored(2,5) unfolding st' by (simp add: chunks_of_None)
qed (use inv in auto)

lemma delete_chunk_refines:
  assumes inv: "cs_invar H st" and del: "cs_delete_chunk i st = (r, st')"
  shows "cs_invar H st' \<and>
    chunks_of st' = (if r = Panic then chunks_of st else (chunks_of st)(i := None))"
  using inv del
proof (cases rule: delete_chunk_cases)
  case Absent
  then show ?thesis using inv by (auto simp: fun_eq_iff chunks_of_None)
next
  case (Faulted s e f)
  note u = unindex_chunk [OF inv Faulted(2)]
  have "changes_only s (store_file (st\<lparr>index := hm_remove i (index st)\<rparr>)) f" using Faulted(5) by simp
  from file_step [OF u(1) this] u show ?thesis using Faulted by simp
next
  case (Deleted s f)
  note u = unindex_chunk [OF inv Deleted(2)]
  have "changes_only s (store_file (st\<lparr>index := hm_remove i (index st)\<rparr>)) f" using Deleted(4) by simp
  note f = file_step [OF u(1) this]
  have "s \<notin> set (free_slots st)" "s < total_slots st"
    using inv index_value [OF Deleted(2)] unfolding cs_invar_def by blast+
  with f u Deleted(3) show ?thesis unfolding Deleted(8) by (auto simp: cs_invar_def)
qed (use inv in auto)

lemma get_chunk_refines:
  assumes inv: "cs_invar H st" and get: "cs_get_chunk H i st = (r, st')"
  shows "cs_invar H st' \<and> chunks_of st' = chunks_of st \<and>
    (\<forall>data c. r = Ret (Ok (data, c)) \<longrightarrow> chunks_of st i = Some data \<and> c = compute_checksum H data)"
  using inv get by (cases rule: get_chunk_cases) (auto simp: plan_only inv)

lemmas chunk_store_refines = put_chunk_refines delete_chunk_refines get_chunk_refines

end
