(* ===== verification/ChunkRecovery.thy ===== *)
theory ChunkRecovery
  imports ChunkStore
begin

text \<open>
  What the chunk store promises over whole histories: it implements the chunk contract under
  every plan of system-call answers, it answers like a bounded map when no call fails, and with
  the default options a crash followed by \<open>open\<close> and \<open>recover_index\<close> restores exactly the chunks
  that were stored.
\<close>

section \<open>The contract\<close>

definition cs_stored :: "unit io exec \<Rightarrow> bool" where
  "cs_stored r \<longleftrightarrow> r = Ret (Ok ())"

fun cs_fetched :: "(bytes \<times> u32) io exec \<Rightarrow> bytes option" where
  "cs_fetched (Ret (Ok (data, _))) = Some data"
| "cs_fetched _ = None"

text \<open>No slot is lost: each is free or indexed, and a free slot does not look like a chunk.\<close>

definition cs_clean :: "chunk_store \<Rightarrow> bool" where
  "cs_clean st \<longleftrightarrow>
     (\<forall>s \<in> set (free_slots st). magic (slot_header (store_file st) s) \<noteq> MAGIC) \<and>
     (\<forall>s < total_slots st. s \<in> set (free_slots st) \<union> set (hm_values (index st)))"

text \<open>The process has not panicked and the operating system serves every further call.\<close>

definition cs_live :: "chunk_store \<Rightarrow> bool" where
  "cs_live st \<longleftrightarrow> \<not> index_poisoned st \<and> fplan (store_file st) = []"

definition cs_fits :: "bytes \<Rightarrow> bool" where
  "cs_fits data \<longleftrightarrow> length data \<le> SLOT_DATA_SIZE"

lemma cs_fetched_Some: "cs_fetched r = Some d \<longleftrightarrow> (\<exists>c. r = Ret (Ok (d, c)))"
  by (cases r rule: cs_fetched.cases) auto

lemma put_live:
  assumes "cs_invar H st" "cs_live st" "cs_fits d"
  shows "cs_live (snd (cs_put_chunk H i d st))"
proof -
  obtain r st' where p: "cs_put_chunk H i d st = (r, st')" by fastforce
  show ?thesis using assms(1) p
    by (cases rule: put_chunk_cases) (use assms p in \<open>auto simp: cs_live_def cs_fits_def\<close>)
qed

lemma get_live:
  assumes "cs_invar H st" "cs_live st"
  shows "cs_live (snd (cs_get_chunk H i st)) \<and> cs_fetched (fst (cs_get_chunk H i st)) = chunks_of st i"
proof -
  obtain r st' where p: "cs_get_chunk H i st = (r, st')" by fastforce
  show ?thesis using assms(1) p
    by (cases rule: get_chunk_cases) (use assms p in \<open>auto simp: cs_live_def\<close>)
qed

lemma delete_live:
  assumes "cs_invar H st" "cs_live st"
  shows "cs_live (snd (cs_delete_chunk i st)) \<and> fst (cs_delete_chunk i st) = Ret (Ok ())"
proof -
  obtain r st' where p: "cs_delete_chunk i st = (r, st')" by fastforce
  show ?thesis using assms(1) p
    by (cases rule: delete_chunk_cases) (use assms p in \<open>auto simp: cs_live_def\<close>)
qed

interpretation cs: live_chunk_service chunks_of "cs_invar H" "cs_put_chunk H" "cs_get_chunk H"
  cs_delete_chunk cs_stored cs_fetched cs_stored cs_live cs_fits
  for H :: "'h crc32"
proof unfold_locales
  fix s p s' i d assume a: "cs_invar H s" "cs_put_chunk H i d s = (p, s')"
  note r = put_chunk_refines [OF a]
  show "cs_invar H s'" using r by simp
  show "chunks_of s' = (if cs_stored p then (chunks_of s)(i \<mapsto> d) else chunks_of s)"
    using r by (auto simp: cs_stored_def split: if_splits)
  show "cs_stored p \<Longrightarrow> chunks_of s i = None" using r by (auto simp: cs_stored_def)
next
  fix s r s' i assume a: "cs_invar H s" "cs_delete_chunk i s = (r, s')"
  note r = delete_chunk_refines [OF a]
  show "cs_invar H s'" using r by simp
  show "chunks_of s' = chunks_of s \<or> chunks_of s' = (chunks_of s)(i := None)" using r by auto
  show "cs_stored r \<Longrightarrow> chunks_of s' i = None" using r by (auto simp: cs_stored_def)
next
  fix s g s' i assume a: "cs_invar H s" "cs_get_chunk H i s = (g, s')"
  note r = get_chunk_refines [OF a]
  show "cs_invar H s'" "chunks_of s' = chunks_of s" using r by auto
  show "cs_fetched g = Some d \<Longrightarrow> chunks_of s i = Some d" for d using r by (auto simp: cs_fetched_Some)
qed (auto simp: put_live get_live delete_live cs_stored_def)

section \<open>A bounded map\<close>

lemma slot_header_other:
  assumes "changes_only s f f'" and "t \<noteq> s"
  shows "slot_header f' t = slot_header f t"
  using assms(1) slots_disjoint [OF assms(2)]
  by (auto simp: slot_header_def changes_only_def SLOT_SIZE_eq intro!: arg_cong [of _ _ from_bytes] fslice_cong)

lemma put_clean:
  assumes inv: "cs_invar H st" and clean: "cs_clean st" and p: "cs_put_chunk H i d st = (r, st')"
    and live: "cs_live st" "cs_fits d"
  shows "cs_clean st'"
  using inv p
proof (cases rule: put_chunk_cases)
  case (Stored f c)
  let ?s = "last (free_slots st)"
  have nb: "?s \<notin> set (butlast (free_slots st))"
    using inv Stored(3) by (metis append_butlast_last_id cs_invar_def distinct_append disjoint_iff list.set_intros(1))
  have "slot_header f t = slot_header (store_file st) t" if "t \<in> set (butlast (free_slots st))" for t
    using slot_header_other [OF Stored(6)] that nb by metis
  moreover have "set (free_slots st) = insert ?s (set (butlast (free_slots st)))"
    by (metis Stored(3) append_butlast_last_id list.set(2) rotate1.simps(2) set_rotate1)
  ultimately show ?thesis using clean unfolding Stored(10) cs_clean_def
    by (auto simp: hm_insert_new [OF Stored(2)] dest: in_set_butlastD)
qed (use clean live in \<open>auto simp: cs_live_def cs_fits_def\<close>)

lemma delete_clean:
  assumes inv: "cs_invar H st" and clean: "cs_clean st" and p: "cs_delete_chunk i st = (r, st')"
    and live: "cs_live st"
  shows "cs_clean st'"
  using inv p
proof (cases rule: delete_chunk_cases)
  case (Deleted s f)
  note slot_header_other [OF Deleted(4)]
  moreover have "hm_invar (index st)" "distinct (hm_values (index st))" using inv by (auto simp: cs_invar_def)
  note hm_values_remove(1) [OF this Deleted(2)]
  ultimately show ?thesis using clean Deleted(5) unfolding Deleted(8) cs_clean_def
    by (simp del: set_map) (metis Un_iff Diff_iff empty_iff insert_iff)
qed (use clean live in \<open>auto simp: cs_live_def\<close>)

lemma get_clean:
  assumes "cs_invar H st" and "cs_clean st" and "cs_get_chunk H i st = (r, st')"
  shows "cs_clean st'"
  using assms(1,3) by (cases rule: get_chunk_cases) (use assms(2) in \<open>auto simp: cs_clean_def\<close>)


lemma dom_chunks: "dom (chunks_of st) = set (hm_keys (index st))"
  by (auto simp: chunks_of_def dom_def map_of_eq_None_iff split: option.splits)

lemma card_chunks: "cs_invar H st \<Longrightarrow> card (dom (chunks_of st)) = length (index st)"
  using distinct_card [of "hm_keys (index st)"] by (simp add: dom_chunks cs_invar_def del: set_map)

lemma word_below: "{s. s < (n :: u64)} = of_nat ` {0..<unat n}"
proof (rule set_eqI)
  fix s :: u64
  show "s \<in> {s. s < n} \<longleftrightarrow> s \<in> of_nat ` {0..<unat n}"
    by (auto simp: word_less_nat_alt unat_of_nat intro!: image_eqI [of _ _ "unat s"])
qed

lemma card_word_below: "card {s. s < (n :: u64)} = unat n"
proof -
  have "inj_on (of_nat :: nat \<Rightarrow> u64) {0..<unat n}"
  proof (rule inj_onI)
    fix a b assume ab: "a \<in> {0..<unat n}" "b \<in> {0..<unat n}" "(of_nat a :: u64) = of_nat b"
    have "unat n < 2 ^ LENGTH(64)" by (rule unsigned_less)
    moreover have "a < unat n" "b < unat n" using ab(1,2) by auto
    ultimately have "a < 2 ^ LENGTH(64)" "b < 2 ^ LENGTH(64)" by (metis less_trans)+
    then have "unat (of_nat a :: u64) = a" "unat (of_nat b :: u64) = b"
      by (simp_all only: of_nat_inverse [OF refl])
    then show "a = b" using ab(3) by metis
  qed
  then show ?thesis by (simp add: word_below card_image)
qed

text \<open>Free and used slots always add up to the arena.\<close>

lemma slots_add_up:
  assumes inv: "cs_invar H st" and clean: "cs_clean st"
  shows "length (free_slots st) + card (dom (chunks_of st)) = unat (total_slots st)"
proof -
  have d: "distinct (free_slots st @ hm_values (index st))" using inv by (auto simp: cs_invar_def)
  have "set (free_slots st @ hm_values (index st)) = {s. s < total_slots st}"
    using inv clean unfolding cs_invar_def cs_clean_def by auto
  then have "length (free_slots st @ hm_values (index st)) = unat (total_slots st)"
    using distinct_card [OF d] by (simp only: card_word_below)
  then show ?thesis using card_chunks [OF inv] by simp
qed

text \<open>
  The specification: a map of at most \<open>cap\<close> chunks. On a healthy store every operation returns
  what the map says, errors included.
\<close>

datatype chunk_answer =
    Put_answer "unit io exec" | Get_answer "(bytes \<times> u32) io exec" | Delete_answer "unit io exec"

fun spec_op :: "'h crc32 \<Rightarrow> nat \<Rightarrow> chunk_op \<Rightarrow> (u64 \<Rightarrow> bytes option)
    \<Rightarrow> chunk_answer \<times> (u64 \<Rightarrow> bytes option)" where
  "spec_op H cap (OpPut i d) m =
     (if m i \<noteq> None then (Put_answer (Ret (Err AlreadyExists)), m)
      else if card (dom m) = cap then (Put_answer (Ret (Err StorageFull)), m)
      else (Put_answer (Ret (Ok ())), m(i \<mapsto> d)))"
| "spec_op H cap (OpGet i) m =
     (Get_answer (Ret (case m i of None \<Rightarrow> Err NotFound | Some d \<Rightarrow> Ok (d, compute_checksum H d))), m)"
| "spec_op H cap (OpDelete i) m = (Delete_answer (Ret (Ok ())), m(i := None))"

fun cs_op :: "'h crc32 \<Rightarrow> chunk_op \<Rightarrow> chunk_store \<Rightarrow> chunk_answer \<times> chunk_store" where
  "cs_op H (OpPut i d) st = (case cs_put_chunk H i d st of (r, st') \<Rightarrow> (Put_answer r, st'))"
| "cs_op H (OpGet i) st = (case cs_get_chunk H i st of (r, st') \<Rightarrow> (Get_answer r, st'))"
| "cs_op H (OpDelete i) st = (case cs_delete_chunk i st of (r, st') \<Rightarrow> (Delete_answer r, st'))"

fun run_ops :: "('c \<Rightarrow> 's \<Rightarrow> 'a \<times> 's) \<Rightarrow> 'c list \<Rightarrow> 's \<Rightarrow> 'a list \<times> 's" where
  "run_ops f [] s = ([], s)"
| "run_ops f (c # cs) s = (case f c s of (a, s') \<Rightarrow> case run_ops f cs s' of (as, s'') \<Rightarrow> (a # as, s''))"

definition cs_good :: "'h crc32 \<Rightarrow> chunk_store \<Rightarrow> bool" where
  "cs_good H st \<longleftrightarrow> cs_invar H st \<and> cs_clean st \<and> cs_live st"

fun op_fits :: "chunk_op \<Rightarrow> bool" where
  "op_fits (OpPut i d) = cs_fits d"
| "op_fits _ = True"

lemma total_slots_const:
  "cs_invar H st \<Longrightarrow> cs_op H c st = (a, st') \<Longrightarrow> total_slots st' = total_slots st"
proof (cases c)
  case (OpPut i d)
  assume a: "cs_invar H st" "cs_op H c st = (a, st')"
  obtain r where p: "cs_put_chunk H i d st = (r, st')" using a(2) OpPut by (auto split: prod.splits)
  show ?thesis using a(1) p by (cases rule: put_chunk_cases) auto
next
  case (OpGet i)
  assume a: "cs_invar H st" "cs_op H c st = (a, st')"
  obtain r where p: "cs_get_chunk H i st = (r, st')" using a(2) OpGet by (auto split: prod.splits)
  show ?thesis using a(1) p by (cases rule: get_chunk_cases) auto
next
  case (OpDelete i)
  assume a: "cs_invar H st" "cs_op H c st = (a, st')"
  obtain r where p: "cs_delete_chunk i st = (r, st')" using a(2) OpDelete by (auto split: prod.splits)
  show ?thesis using a(1) p by (cases rule: delete_chunk_cases) auto
qed

lemma cs_op_good:
  assumes "cs_good H st" and "op_fits c" and "cs_op H c st = (a, st')"
  shows "cs_good H st'"
proof (cases c)
  case (OpPut i d)
  obtain r where p: "cs_put_chunk H i d st = (r, st')"
    using assms(3) OpPut by (auto split: prod.splits)
  show ?thesis
    using put_live [of H st d i] put_chunk_refines [OF _ p] put_clean [OF _ _ p] assms(1,2) OpPut p
    by (simp add: cs_good_def)
next
  case (OpGet i)
  obtain r where p: "cs_get_chunk H i st = (r, st')"
    using assms(3) OpGet by (auto split: prod.splits)
  show ?thesis
    using get_live [of H st i] get_chunk_refines [OF _ p] get_clean [OF _ _ p] assms(1) p
    by (simp add: cs_good_def)
next
  case (OpDelete i)
  obtain r where p: "cs_delete_chunk i st = (r, st')"
    using assms(3) OpDelete by (auto split: prod.splits)
  show ?thesis
    using delete_live [of H st i] delete_chunk_refines [of H, OF _ p] delete_clean [of H, OF _ _ p] assms(1) p
    by (simp add: cs_good_def)
qed

lemma cs_op_refines:
  assumes good: "cs_good H st" and fits: "op_fits c" and op: "cs_op H c st = (a, st')"
  shows "spec_op H (unat (total_slots st)) c (chunks_of st) = (a, chunks_of st')"
proof (cases c)
  case (OpPut i d)
  obtain r where p: "cs_put_chunk H i d st = (r, st')" and a: "a = Put_answer r"
    using op OpPut by (auto split: prod.splits)
  have inv: "cs_invar H st" using good by (simp add: cs_good_def)
  have full: "card (dom (chunks_of st)) = unat (total_slots st) \<longleftrightarrow> free_slots st = []"
    using slots_add_up [of H st] good by (auto simp: cs_good_def)
  note r = put_chunk_refines [OF inv p]
  have live: "\<not> index_poisoned st" "fplan (store_file st) = []" "length d \<le> SLOT_DATA_SIZE"
    using good fits OpPut by (auto simp: cs_good_def cs_live_def cs_fits_def)
  show ?thesis using inv p
  proof (cases rule: put_chunk_cases)
    case Exists
    then show ?thesis using OpPut a by (auto simp: chunks_of_None [symmetric] simp del: map_of_eq_None_iff)
  next
    case Full
    then show ?thesis using OpPut a full by (simp add: chunks_of_None [symmetric])
  next
    case (Stored f c)
    then show ?thesis using OpPut a r full by simp
  qed (use live in auto)
next
  case (OpGet i)
  obtain r where p: "cs_get_chunk H i st = (r, st')" and a: "a = Get_answer r"
    using op OpGet by (auto split: prod.splits)
  have inv: "cs_invar H st" using good by (simp add: cs_good_def)
  have live: "\<not> index_poisoned st" "fplan (store_file st) = []"
    using good by (auto simp: cs_good_def cs_live_def)
  have same: "chunks_of st' = chunks_of st" using get_chunk_refines [OF inv p] by simp
  show ?thesis using inv p
    by (cases rule: get_chunk_cases) (use live OpGet a same in auto)
next
  case (OpDelete i)
  obtain r where p: "cs_delete_chunk i st = (r, st')" and a: "a = Delete_answer r"
    using op OpDelete by (auto split: prod.splits)
  have inv: "cs_invar H st" using good by (simp add: cs_good_def)
  have "r = Ret (Ok ())" using delete_live [OF inv, of i] good p by (simp add: cs_good_def)
  then show ?thesis using delete_chunk_refines [OF inv p] OpDelete a by simp
qed

lemma run_ops_refines:
  assumes "cs_good H st" and "list_all op_fits cs" and "run_ops (cs_op H) cs st = (as, st')"
  shows "run_ops (spec_op H (unat (total_slots st))) cs (chunks_of st) = (as, chunks_of st') \<and> cs_good H st'"
  using assms
proof (induction cs arbitrary: st as)
  case (Cons c cs)
  obtain a s1 where op: "cs_op H c st = (a, s1)" by fastforce
  obtain as' where rest: "run_ops (cs_op H) cs s1 = (as', st')" "as = a # as'"
    using Cons.prems(3) op by (auto split: prod.splits)
  have fits: "op_fits c" "list_all op_fits cs" using Cons.prems(2) by auto
  have "total_slots s1 = total_slots st"
    using total_slots_const op Cons.prems(1) unfolding cs_good_def by blast
  then show ?case
    using Cons.IH [OF cs_op_good [OF Cons.prems(1) fits(1) op] fits(2) rest(1)]
      cs_op_refines [OF Cons.prems(1) fits(1) op] rest(2) by simp
qed simp

section \<open>Opening and recovering\<close>

definition slot_valid :: "'h crc32 \<Rightarrow> bool \<Rightarrow> os_file \<Rightarrow> u64 \<Rightarrow> bool" where
  "slot_valid H fast f s \<longleftrightarrow> magic (slot_header f s) = MAGIC \<and>
     unat (data_len (slot_header f s)) \<le> SLOT_DATA_SIZE \<and>
     (fast \<or> checksum (slot_header f s) = compute_checksum H (slot_contents f s))"

text \<open>The scan of a readable file indexes exactly the valid slots and frees the others.\<close>

lemma recover_slots_eq:
  assumes "fplan f = []"
    and "\<And>s. s \<in> set is \<Longrightarrow> slot_base s + SLOT_SIZE \<le> flen f \<and> slot_base s + SLOT_SIZE < 2 ^ 64"
  shows "recover_slots H fast is f idx free =
    (Ok (), f, fold (\<lambda>s. hm_insert (hid (slot_header f s)) s) (filter (slot_valid H fast f) is) idx,
     free @ filter (\<lambda>s. \<not> slot_valid H fast f s) is)"
  using assms(2)
proof (induction "is" arbitrary: idx free)
  case (Cons s ss)
  have range: "slot_base s + SLOT_SIZE \<le> flen f" "slot_base s + SLOT_SIZE < 2 ^ 64"
    using Cons.prems [of s] by simp_all
  have hd: "read_chunk_header f s = (Ok (slot_header f s), f)"
    using read_chunk_header_effect(2) [OF _ range(2) assms(1) range(1)] by (cases "read_chunk_header f s") auto
  have opt: "read_chunk_optimized f s = (Ok (slot_header f s, slot_contents f s), f)"
    if "unat (data_len (slot_header f s)) \<le> SLOT_DATA_SIZE"
    using read_chunk_optimized_effect(2) [OF _ range(2) that assms(1) range(1)]
    by (cases "read_chunk_optimized f s") auto
  note IH = Cons.IH [OF Cons.prems [OF list.set_intros(2)]]
  show ?case using IH
    by (cases fast; cases "unat (data_len (slot_header f s)) \<le> SLOT_DATA_SIZE")
      (simp_all add: hd opt slot_valid_def [of H _ f s])
qed simp

lemma slot_agree:
  assumes "\<And>i. slot_base s \<le> i \<Longrightarrow> i < slot_base s + SLOT_SIZE \<Longrightarrow> fdata f' i = fdata f i"
  shows "slot_header f' s = slot_header f s"
    and "n \<le> SLOT_DATA_SIZE \<Longrightarrow> slot_data f' s n = slot_data f s n"
    and "holds H f' s i data = holds H f s i data"
proof -
  show h: "slot_header f' s = slot_header f s"
    unfolding slot_header_def using assms
    by (intro arg_cong [of _ _ from_bytes] fslice_cong) (simp add: SLOT_SIZE_eq)
  show d: "slot_data f' s n = slot_data f s n" if "n \<le> SLOT_DATA_SIZE" for n
    unfolding slot_data_def using assms that
    by (intro fslice_cong) (simp add: SLOT_SIZE_eq SLOT_DATA_SIZE_eq)
  show "holds H f' s i data = holds H f s i data" using h d by (auto simp: holds_def)
qed

lemma cs_open_no_faults:
  assumes "fplan f = []" and "unat n * SLOT_SIZE < 2 ^ 64"
  shows "cs_open f (Some n) opts =
    (let f' = f\<lparr>fdata := (\<lambda>i. if i < min (unat n * SLOT_SIZE) (flen f) then fdata f i else 0),
        fdisk := (\<lambda>i. if i < min (unat n * SLOT_SIZE) (flen f) then fdisk f i else 0),
        flen := unat n * SLOT_SIZE\<rparr> in
     (Ok \<lparr>store_file = f', index = [], free_slots = map of_nat [0..<unat n], total_slots = n,
        fsync_every_n_writes = opt_fsync_every_n_writes opts, fsync_on_delete = opt_fsync_on_delete opts,
        write_counter = 0, index_poisoned = False\<rparr>, f'))"
proof -
  have "unat (of_nat SLOT_SIZE :: u64) = SLOT_SIZE" by (simp add: SLOT_SIZE_eq unat_of_nat)
  then have "unat (of_nat SLOT_SIZE * n :: u64) = (SLOT_SIZE * unat n) mod 2 ^ LENGTH(64)"
    by (simp only: unat_word_ariths(2))
  also have "\<dots> = unat n * SLOT_SIZE" using assms(2) by (simp add: mult.commute)
  finally have "unat (of_nat SLOT_SIZE * n :: u64) = unat n * SLOT_SIZE" .
  then show ?thesis using assms(1) by (simp add: cs_open_def Let_def)
qed

text \<open>Scanning a clean store finds the index it had.\<close>

lemma valid_slots:
  assumes inv: "cs_invar H st" and clean: "cs_clean st"
    and same: "\<And>s. s < total_slots st \<Longrightarrow> slot_header f s = slot_header (store_file st) s"
      "\<And>s i d. s < total_slots st \<Longrightarrow> holds H f s i d = holds H (store_file st) s i d"
    and s: "s < total_slots st"
  shows "slot_valid H fast f s \<and> hid (slot_header f s) = i \<longleftrightarrow> hm_get (index st) i = Some s"
proof
  assume "hm_get (index st) i = Some s"
  then obtain d where "holds H (store_file st) s i d" using cs_invar_holds [OF inv] by metis
  then have "holds H f s i d" using same(2) [OF s] by simp
  then show "slot_valid H fast f s \<and> hid (slot_header f s) = i"
    using holds_contents [of H f s i d] by (auto simp: slot_valid_def)
next
  assume v: "slot_valid H fast f s \<and> hid (slot_header f s) = i"
  then have "s \<notin> set (free_slots st)"
    using clean same(1) [OF s] by (auto simp: cs_clean_def slot_valid_def)
  then have "s \<in> set (hm_values (index st))" using clean s by (auto simp: cs_clean_def)
  then obtain j where j: "hm_get (index st) j = Some s"
    using inv by (auto simp: cs_invar_def)
  then obtain d where "holds H (store_file st) s j d" using cs_invar_holds [OF inv] by metis
  then have "hid (slot_header (store_file st) s) = j" using holds_contents by metis
  then show "hm_get (index st) i = Some s" using v j same(1) [OF s] by simp
qed

lemma recovered_index:
  fixes fast :: bool
  assumes inv: "cs_invar H st" and clean: "cs_clean st"
    and same: "\<And>s. s < total_slots st \<Longrightarrow> slot_header f s = slot_header (store_file st) s"
      "\<And>s i d. s < total_slots st \<Longrightarrow> holds H f s i d = holds H (store_file st) s i d"
    and xs: "set xs = {s. s < total_slots st}" "distinct xs"
  defines "idx \<equiv> fold (\<lambda>s. hm_insert (hid (slot_header f s)) s) (filter (slot_valid H fast f) xs) []"
  shows "hm_invar idx" and "hm_get idx = hm_get (index st)"
    and "set (filter (\<lambda>s. \<not> slot_valid H fast f s) xs) = set (free_slots st)"
proof -
  let ?es = "map (\<lambda>s. (hid (slot_header f s), s)) (filter (slot_valid H fast f) xs)"
  note v = valid_slots [OF inv clean same]
  have idx: "idx = fold (\<lambda>(k, v). hm_insert k v) ?es []"
    by (simp add: idx_def fold_map comp_def)
  show "hm_invar idx" unfolding idx by (rule hm.invar_fold_ins) simp
  have mem: "(i, s) \<in> set ?es \<longleftrightarrow> hm_get (index st) i = Some s" for i s
  proof -
    have "s < total_slots st" if "hm_get (index st) i = Some s"
      using inv index_value [OF that] unfolding cs_invar_def by blast
    moreover have "(i, s) \<in> set ?es \<longleftrightarrow>
        s < total_slots st \<and> slot_valid H fast f s \<and> hid (slot_header f s) = i"
      using xs(1) by auto
    ultimately show ?thesis using v [of s fast i] by blast
  qed
  have inj: "inj_on (\<lambda>s. hid (slot_header f s)) (set (filter (slot_valid H fast f) xs))"
  proof (rule inj_onI)
    fix s t assume "s \<in> set (filter (slot_valid H fast f) xs)" "t \<in> set (filter (slot_valid H fast f) xs)"
      and h: "hid (slot_header f s) = hid (slot_header f t)"
    then have "hm_get (index st) (hid (slot_header f t)) = Some s" "hm_get (index st) (hid (slot_header f t)) = Some t"
      using v [of s fast "hid (slot_header f t)"] v [of t fast "hid (slot_header f t)"] xs(1) by auto
    then show "s = t" by simp
  qed
  have "hm_get idx = map_of (rev ?es)" unfolding idx by (subst hm.get_fold_ins) simp_all
  moreover have d: "distinct (map fst (rev ?es))"
    using inj xs(2) by (simp add: rev_map [symmetric] comp_def distinct_map)
  ultimately have "hm_get idx i = Some s \<longleftrightarrow> hm_get (index st) i = Some s" for i s
    by (simp only: map_of_eq_Some_iff [OF d] set_rev mem)
  then show "hm_get idx = hm_get (index st)" by (intro ext) (metis not_None_eq)
  show "set (filter (\<lambda>s. \<not> slot_valid H fast f s) xs) = set (free_slots st)"
  proof (rule set_eqI)
    fix s
    have "s \<in> set (free_slots st) \<longleftrightarrow> s < total_slots st \<and> s \<notin> set (hm_values (index st))"
      using inv clean unfolding cs_invar_def cs_clean_def by blast
    moreover have "s \<in> set (hm_values (index st)) \<longleftrightarrow> (\<exists>i. hm_get (index st) i = Some s)"
      using inv unfolding cs_invar_def by (intro hm_values_iff) blast
    ultimately show "s \<in> set (filter (\<lambda>s. \<not> slot_valid H fast f s) xs) \<longleftrightarrow> s \<in> set (free_slots st)"
      using v [of s] xs(1) by auto
  qed
qed

text \<open>
  The start-up of a storage node, \<open>StorageNodeImpl::construct\<close>: open the arena, and rebuild the
  index when the file was there before. \<open>exists\<close> is the answer of \<open>std::fs::exists\<close>.
\<close>

definition construct ::
  "'h crc32 \<Rightarrow> bool io \<Rightarrow> os_file \<Rightarrow> u64 option \<Rightarrow> ChunkStoreOptions \<Rightarrow> chunk_store io exec" where
  "construct H exists f allocated_slots options =
     (let recover = (case exists of Ok b \<Rightarrow> b | Err _ \<Rightarrow> False) in
      case cs_open f allocated_slots options of
        (Err e, _) \<Rightarrow> Ret (Err e)
      | (Ok st, _) \<Rightarrow>
          if recover then
            (case cs_recover_index H (opt_fast_recover options) st of
               (Panic, _) \<Rightarrow> Panic
             | (Ret (Err e), _) \<Rightarrow> Ret (Err e)
             | (Ret (Ok _), st') \<Rightarrow> Ret (Ok st'))
          else Ret (Ok st))"

lemma distinct_slots: "distinct (map (of_nat :: nat \<Rightarrow> u64) [0..<unat (n :: u64)])"
  using card_word_below [of n] by (intro card_distinct) (simp add: word_below)

lemma restart_same_chunks:
  assumes inv: "cs_invar H st" and clean: "cs_clean st"
    and f: "flen f = flen (store_file st)" "fdata f = fdata (store_file st)" "fplan f = []"
  shows "\<exists>st'. construct H (Ok True) f (Some (total_slots st)) opts = Ret (Ok st') \<and> cs_good H st' \<and>
    chunks_of st' = chunks_of st \<and> total_slots st' = total_slots st \<and>
    (fdisk f = fdata f \<longrightarrow> fdisk (store_file st') = fdata (store_file st')) \<and>
    fsync_every_n_writes st' = opt_fsync_every_n_writes opts \<and> fsync_on_delete st' = opt_fsync_on_delete opts"
proof -
  define n where "n = total_slots st"
  have N: "unat n * SLOT_SIZE < 2 ^ 64" "flen f = unat n * SLOT_SIZE"
    using inv f(1) by (auto simp: cs_invar_def n_def)
  define g where "g = f\<lparr>fdata := (\<lambda>i. if i < unat n * SLOT_SIZE then fdata f i else 0),
        fdisk := (\<lambda>i. if i < unat n * SLOT_SIZE then fdisk f i else 0), flen := unat n * SLOT_SIZE\<rparr>"
  let ?xs = "map of_nat [0..<unat n] :: u64 list"
  let ?fast = "opt_fast_recover opts"
  have xs: "set ?xs = {s. s < total_slots st}" "distinct ?xs"
    using word_below [of n] distinct_slots [of n] by (auto simp: n_def)
  have rng: "slot_base s + SLOT_SIZE \<le> unat n * SLOT_SIZE" "slot_base s + SLOT_SIZE < 2 ^ 64"
    if "s < n" for s using slot_in_range [OF that N(1)] by auto
  have agree: "fdata g i = fdata (store_file st) i" if "s < n" "i < slot_base s + SLOT_SIZE" for s i
    using rng(1) [OF that(1)] that(2) f(2) by (simp add: g_def)
  have hdr: "slot_header g s = slot_header (store_file st) s" if "s < n" for s
    using agree [OF that] by (intro slot_agree(1)) auto
  have hold: "holds H g s i d = holds H (store_file st) s i d" if "s < n" for s i d
    using agree [OF that] by (intro slot_agree(3)) auto
  note rec = recovered_index [OF inv clean hdr [unfolded n_def] hold [unfolded n_def] xs]
  define idx where
    "idx = fold (\<lambda>s. hm_insert (hid (slot_header g s)) s) (filter (slot_valid H ?fast g) ?xs) []"
  define free where "free = filter (\<lambda>s. \<not> slot_valid H ?fast g s) ?xs"
  have idx: "hm_invar idx" "hm_get idx = hm_get (index st)" and free: "set free = set (free_slots st)"
    using rec [where fast = ?fast] by (auto simp: idx_def free_def)
  have scan: "recover_slots H ?fast ?xs g [] [] = (Ok (), g, idx, free)"
    using recover_slots_eq [of g ?xs H ?fast "[]" "[]"] f(3) rng xs(1)
    by (auto simp: g_def idx_def free_def n_def [symmetric])
  define st' where "st' = \<lparr>store_file = g, index = idx, free_slots = free, total_slots = n,
      fsync_every_n_writes = opt_fsync_every_n_writes opts, fsync_on_delete = opt_fsync_on_delete opts,
      write_counter = 0, index_poisoned = False\<rparr>"
  have "flen g div SLOT_SIZE = unat n" "fplan g = []" using f(3) by (simp_all add: g_def SLOT_SIZE_eq)
  then have run: "construct H (Ok True) f (Some (total_slots st)) opts = Ret (Ok st')"
    using scan cs_open_no_faults [OF f(3) N(1), of opts] N(2)
    by (simp add: construct_def n_def [symmetric] g_def [symmetric] Let_def cs_recover_index_def st'_def)
  have vals: "set (hm_values idx) = set (hm_values (index st))"
    using idx inv by (auto simp: cs_invar_def) (metis image_eqI map_of_eq_Some_iff snd_conv)+
  have len: "length idx = length (index st)"
    using idx inv
    by (metis cs_invar_def distinct_card dom_map_of_conv_image_fst length_map list.set_map)
  have "s < n" if "hm_get idx i = Some s" for i s
    using index_value [of st i s] that idx(2) inv unfolding cs_invar_def n_def by auto
  then have held: "\<exists>d. holds H g s i d \<and> chunks_of st i = Some d" if "hm_get idx i = Some s" for i s
    using that idx(2) hold cs_invar_holds [OF inv] by metis
  have chunks: "chunks_of st' = chunks_of st"
  proof
    fix i show "chunks_of st' i = chunks_of st i"
      using held [of i] chunks_of_eq [of st' i _ H] chunks_of_None [of st i] chunks_of_None [of st' i] idx(2)
      by (cases "hm_get idx i") (auto simp: st'_def)
  qed
  have dv: "distinct (hm_values idx)"
    using vals len inv by (metis card_distinct cs_invar_def distinct_card length_map)
  have "cs_invar H st'"
  proof -
    have "\<forall>i s. hm_get idx i = Some s \<longrightarrow> (\<exists>d. holds H g s i d)" using held by blast
    moreover have "distinct free" "flen g = unat n * SLOT_SIZE"
      using xs(2) by (simp_all add: free_def g_def distinct_filter)
    moreover have "set free \<inter> set (hm_values idx) = {}" "\<forall>s \<in> set free \<union> set (hm_values idx). s < n"
      using vals free inv unfolding cs_invar_def n_def by auto
    ultimately show ?thesis
      using dv idx(1) N(1)
      unfolding cs_invar_def st'_def by (simp del: map_of_eq_Some_iff set_map)
  qed
  moreover have "cs_clean st'"
    using clean vals free hdr inv unfolding cs_clean_def cs_invar_def st'_def by (auto simp: n_def)
  moreover have "cs_live st'" using f(3) by (simp add: cs_live_def st'_def g_def)
  ultimately show ?thesis
    using run chunks by (intro exI [of _ st']) (auto simp: cs_good_def st'_def n_def g_def)
qed

section \<open>Durability with the default options\<close>

definition cs_synced :: "chunk_store \<Rightarrow> bool" where
  "cs_synced st \<longleftrightarrow> fdisk (store_file st) = fdata (store_file st) \<and>
     fsync_every_n_writes st = Some 1 \<and> fsync_on_delete st"

lemma should_fsync_always: "fsync_every_n_writes st = Some 1 \<Longrightarrow> fst (should_fsync_write st)"
  by (simp add: should_fsync_write_def Let_def)

lemma cs_op_synced:
  assumes good: "cs_good H st" and fits: "op_fits c" and sync: "cs_synced st"
    and op: "cs_op H c st = (a, st')"
  shows "cs_synced st'"
proof (cases c)
  case (OpPut i d)
  obtain r where p: "cs_put_chunk H i d st = (r, st')" using op OpPut by (auto split: prod.splits)
  have live: "fplan (store_file st) = []" using good by (simp add: cs_good_def cs_live_def)
  have "cs_invar H st" using good by (simp add: cs_good_def)
  from this p show ?thesis
    by (cases rule: put_chunk_cases)
      (use sync live should_fsync_always [of st] in \<open>auto simp: cs_synced_def\<close>)
next
  case (OpGet i)
  obtain r where p: "cs_get_chunk H i st = (r, st')" using op OpGet by (auto split: prod.splits)
  have "cs_invar H st" using good by (simp add: cs_good_def)
  from this p show ?thesis
    by (cases rule: get_chunk_cases) (use sync in \<open>auto simp: cs_synced_def\<close>)
next
  case (OpDelete i)
  obtain r where p: "cs_delete_chunk i st = (r, st')" using op OpDelete by (auto split: prod.splits)
  have live: "fplan (store_file st) = []" using good by (simp add: cs_good_def cs_live_def)
  have "cs_invar H st" using good by (simp add: cs_good_def)
  from this p show ?thesis
    by (cases rule: delete_chunk_cases) (use sync live in \<open>auto simp: cs_synced_def\<close>)
qed

lemma run_ops_synced:
  "cs_good H st \<Longrightarrow> list_all op_fits cs \<Longrightarrow> cs_synced st \<Longrightarrow>
     run_ops (cs_op H) cs st = (as, st') \<Longrightarrow> cs_synced st' \<and> total_slots st' = total_slots st"
proof (induction cs arbitrary: st as)
  case (Cons c cs)
  obtain a s1 where op: "cs_op H c st = (a, s1)" by fastforce
  obtain as' where rest: "run_ops (cs_op H) cs s1 = (as', st')"
    using Cons.prems(4) op by (auto split: prod.splits)
  have fits: "op_fits c" "list_all op_fits cs" using Cons.prems(2) by auto
  have "cs_invar H st" using Cons.prems(1) by (simp add: cs_good_def)
  then have "total_slots s1 = total_slots st" using total_slots_const op by blast
  then show ?case
    using Cons.IH [OF cs_op_good [OF Cons.prems(1) fits(1) op] fits(2)
        cs_op_synced [OF Cons.prems(1) fits(1) Cons.prems(3) op] rest] by simp
qed simp

text \<open>A newly created arena is empty.\<close>

definition fresh_store :: "ChunkStoreOptions \<Rightarrow> u64 \<Rightarrow> chunk_store" where
  "fresh_store opts n = \<lparr>store_file = empty_file\<lparr>flen := unat n * SLOT_SIZE\<rparr>, index = [],
     free_slots = map of_nat [0..<unat n], total_slots = n,
     fsync_every_n_writes = opt_fsync_every_n_writes opts, fsync_on_delete = opt_fsync_on_delete opts,
     write_counter = 0, index_poisoned = False\<rparr>"

lemma fresh_arena:
  assumes "unat n * SLOT_SIZE < 2 ^ 64"
  shows "construct H (Ok False) empty_file (Some n) opts = Ret (Ok (fresh_store opts n))"
    and "cs_good H (fresh_store opts n)"
    and "chunks_of (fresh_store opts n) = Map.empty"
proof -
  let ?f = "empty_file\<lparr>flen := unat n * SLOT_SIZE\<rparr>"
  have "slot_header ?f s = from_bytes (replicate 24 0)" for s
    by (simp add: slot_header_def fslice_def empty_file_def map_replicate_const)
  then have "cs_clean (fresh_store opts n)"
    using word_below [of n] zero_header_not_magic by (auto simp: cs_clean_def fresh_store_def)
  moreover have "cs_invar H (fresh_store opts n)"
    using assms word_below [of n] distinct_slots [of n] by (auto simp: cs_invar_def fresh_store_def)
  ultimately show "cs_good H (fresh_store opts n)"
    by (simp add: cs_good_def cs_live_def fresh_store_def empty_file_def)
  show "construct H (Ok False) empty_file (Some n) opts = Ret (Ok (fresh_store opts n))"
    using assms by (simp add: construct_def cs_open_no_faults empty_file_def Let_def fresh_store_def cong: if_cong)
  show "chunks_of (fresh_store opts n) = Map.empty"
    by (simp add: chunks_of_def fun_eq_iff fresh_store_def)
qed

section \<open>Properties\<close>

text \<open>An additive hasher, to run the definitions on concrete inputs.\<close>

definition sum_crc :: "u32 crc32" where
  "sum_crc = \<lparr>h_new = 0, h_update = (\<lambda>h bs. h + sum_list (map ucast bs)), h_finalize = (\<lambda>h. h)\<rparr>"

text \<open>
  C2. From a newly created arena of \<open>n\<close> slots, on a disk without faults, every sequence of puts,
  gets and deletes of chunks that fit a slot returns exactly the answers of a map of at most
  \<open>n\<close> chunks, errors included, and leaves exactly the chunks of that map.
\<close>

theorem store_is_bounded_map:
  assumes "unat n * SLOT_SIZE < 2 ^ 64" and "list_all op_fits cs"
  shows "\<exists>st st'. construct H (Ok False) empty_file (Some n) opts = Ret (Ok st) \<and>
    run_ops (cs_op H) cs st = (fst (run_ops (spec_op H (unat n)) cs Map.empty), st') \<and>
    chunks_of st' = snd (run_ops (spec_op H (unat n)) cs Map.empty)"
proof -
  let ?st = "fresh_store opts n"
  note st = fresh_arena [OF assms(1)]
  have n: "total_slots ?st = n" by (simp add: fresh_store_def)
  obtain as st' where run: "run_ops (cs_op H) cs ?st = (as, st')" by fastforce
  show ?thesis using run_ops_refines [OF st(2) assms(2) run] st n run by auto
qed

theorem store_is_bounded_map_witness:
  "\<exists>st st'. construct sum_crc (Ok False) empty_file (Some 1) ChunkStoreOptions_default = Ret (Ok st) \<and>
    run_ops (cs_op sum_crc) [OpPut 7 [1, 2], OpPut 7 [3], OpPut 8 [3], OpGet 7, OpDelete 7, OpGet 7] st =
      ([Put_answer (Ret (Ok ())), Put_answer (Ret (Err AlreadyExists)), Put_answer (Ret (Err StorageFull)),
        Get_answer (Ret (Ok ([1, 2], 3))), Delete_answer (Ret (Ok ())), Get_answer (Ret (Err NotFound))], st') \<and>
    chunks_of st' = Map.empty"
  using store_is_bounded_map [of 1 "[OpPut 7 [1, 2], OpPut 7 [3], OpPut 8 [3], OpGet 7, OpDelete 7, OpGet 7]"
      sum_crc ChunkStoreOptions_default]
  by (simp add: SLOT_SIZE_eq SLOT_DATA_SIZE_eq cs_fits_def compute_checksum_def sum_crc_def fun_upd_idem_iff)

text \<open>
  C3. With the default options nothing acknowledged is lost: after any such sequence a power
  failure, followed by opening the same file and recovering the index (verifying checksums or
  not), gives back exactly the chunks of the map.
\<close>

theorem crash_recovery:
  assumes "unat n * SLOT_SIZE < 2 ^ 64" and "list_all op_fits cs"
    and "opt_fsync_every_n_writes opts = opt_fsync_every_n_writes ChunkStoreOptions_default"
    and "opt_fsync_on_delete opts = opt_fsync_on_delete ChunkStoreOptions_default"
  shows "\<exists>st as st' st''. construct H (Ok False) empty_file (Some n) opts = Ret (Ok st) \<and>
    run_ops (cs_op H) cs st = (as, st') \<and>
    construct H (Ok True) (crash (store_file st')) (Some n) opts = Ret (Ok st'') \<and>
    chunks_of st'' = snd (run_ops (spec_op H (unat n)) cs Map.empty) \<and> cs_good H st''"
proof -
  define st where "st = fresh_store opts n"
  have st: "construct H (Ok False) empty_file (Some n) opts = Ret (Ok st)" "cs_good H st"
    "chunks_of st = Map.empty" "total_slots st = n"
    by (simp_all add: st_def fresh_arena [OF assms(1)]) (simp add: fresh_store_def)
  have sync: "cs_synced st"
    using assms(3,4) by (simp add: st_def cs_synced_def fresh_store_def empty_file_def
        ChunkStoreOptions_default_def DEFAULT_FSYNC_EVERY_N_WRITES_def)
  obtain as st' where run: "run_ops (cs_op H) cs st = (as, st')" by fastforce
  note r = run_ops_refines [OF st(2) assms(2) run] and s = run_ops_synced [OF st(2) assms(2) sync run]
  let ?f = "crash (store_file st')"
  have "cs_invar H st'" "cs_clean st'" using r by (auto simp: cs_good_def)
  moreover have "flen ?f = flen (store_file st')" "fdata ?f = fdata (store_file st')" "fplan ?f = []"
    using s by (simp_all add: crash_def cs_synced_def)
  ultimately obtain st'' where "construct H (Ok True) ?f (Some n) opts = Ret (Ok st'')" "cs_good H st''"
    "chunks_of st'' = chunks_of st'"
    using restart_same_chunks [of H st' ?f opts] s st(4) by auto
  then show ?thesis using r run st(1,3,4) by auto
qed

theorem crash_recovery_witness:
  "\<exists>st as st' st''. construct sum_crc (Ok False) empty_file (Some 4) ChunkStoreOptions_default = Ret (Ok st) \<and>
    run_ops (cs_op sum_crc) [OpPut 7 [1, 2], OpPut 8 [3], OpDelete 7] st = (as, st') \<and>
    construct sum_crc (Ok True) (crash (store_file st')) (Some 4) ChunkStoreOptions_default = Ret (Ok st'') \<and>
    chunks_of st'' = [8 \<mapsto> [3]] \<and> cs_good sum_crc st''"
proof -
  have "snd (run_ops (spec_op sum_crc (unat (4 :: u64))) [OpPut 7 [1, 2], OpPut 8 [3], OpDelete 7] Map.empty)
      = [8 \<mapsto> [3]]"
    by (auto simp: fun_eq_iff)
  then show ?thesis
    using crash_recovery [of 4 "[OpPut 7 [1, 2], OpPut 8 [3], OpDelete 7]"
        ChunkStoreOptions_default sum_crc]
    by (simp add: SLOT_SIZE_eq SLOT_DATA_SIZE_eq cs_fits_def)
qed

text \<open>
  C4. Whatever the operating system answers, short transfers and errors included, put keeps the
  store consistent, stores exactly the given chunk when it reports success, and changes no
  readable chunk when it fails or panics.
\<close>

theorem put_chunk_correct:
  assumes "cs_invar H st" and "cs_put_chunk H i data st = (r, st')"
  shows "cs_invar H st' \<and>
    (if r = Ret (Ok ()) then chunks_of st i = None \<and> chunks_of st' = (chunks_of st)(i \<mapsto> data)
     else chunks_of st' = chunks_of st)"
  using assms by (rule put_chunk_refines)

theorem put_chunk_correct_witness:
  "let st = (fresh_store ChunkStoreOptions_default 2)\<lparr>store_file := empty_file\<lparr>flen := 2 * SLOT_SIZE, fplan := [Xfer 3, Fault OtherError]\<rparr>\<rparr>
   in fst (cs_put_chunk sum_crc 7 [1, 2] st) = Ret (Err OtherError) \<and>
      cs_invar sum_crc (snd (cs_put_chunk sum_crc 7 [1, 2] st)) \<and>
      chunks_of (snd (cs_put_chunk sum_crc 7 [1, 2] st)) = Map.empty"
proof -
  define p where "p = [Xfer 3, Fault OtherError]"
  define st where "st = (fresh_store ChunkStoreOptions_default 2)\<lparr>store_file := empty_file\<lparr>flen := 2 * SLOT_SIZE, fplan := p\<rparr>\<rparr>"
  have st: "st = (fresh_store ChunkStoreOptions_default 2)\<lparr>store_file :=
      (store_file (fresh_store ChunkStoreOptions_default 2))\<lparr>fplan := p\<rparr>\<rparr>"
    by (simp add: st_def fresh_store_def)
  have inv: "cs_invar sum_crc st" and none: "chunks_of st = Map.empty"
    unfolding st plan_only using fresh_arena(2) [of 2 sum_crc ChunkStoreOptions_default] fresh_arena(3) [of 2 ChunkStoreOptions_default]
    by (simp_all add: cs_good_def SLOT_SIZE_eq)
  obtain r st' where put: "cs_put_chunk sum_crc 7 [1, 2] st = (r, st')" by fastforce
  have ne: "to_bytes h \<noteq> []" for h using length_to_bytes [of h] by (metis list.size(3) zero_neq_numeral)
  have upt: "[0..<2] = [0, 1 :: nat]" by (simp add: upt_rec)
  have "fst (cs_put_chunk sum_crc 7 [1, 2] st) = Ret (Err OtherError)"
    by (simp add: st_def p_def fresh_store_def cs_put_chunk_def find_slot_def should_fsync_write_def Let_def
        ChunkStoreOptions_default_def DEFAULT_FSYNC_EVERY_N_WRITES_def write_chunk_at_def SLOT_DATA_SIZE_eq
        write_all_at.simps ne clear_slot_def upt)
  then show ?thesis
    using put_chunk_correct [OF inv put] put none unfolding st_def p_def Let_def by simp
qed

end
