(* ===== verification/StorageNode.thy ===== *)
theory StorageNode
  imports ChunkRecovery RustStd
begin

text \<open>
  The storage node process around its chunk store: \<^verbatim>\<open>storage-node/src/config.rs\<close>,
  \<^verbatim>\<open>grpc_utils.rs\<close>, the gRPC handlers of \<^verbatim>\<open>main.rs\<close> with the metrics they keep, and the
  connection loop of \<open>main\<close>. A panic in a handler's blocking task is a join error, which the
  handler reports as an internal status.
\<close>

section \<open>Configuration\<close>

record StorageNodeConfig =
  metadata_addresses :: "string list"
  port :: nat
  metrics_port :: nat
  chunk_store_path :: string
  allocated_slots :: "u64 option"
  cfg_fsync_every_n_writes :: "u64 option"
  cfg_fsync_on_delete :: bool
  cfg_fast_recover :: bool

definition StorageNodeConfig_default :: StorageNodeConfig where
  "StorageNodeConfig_default = \<lparr>
     metadata_addresses = [''http://localhost:3001''],
     port = 3000,
     metrics_port = 9092,
     chunk_store_path = ''chunkstore.dat'',
     allocated_slots = None,
     cfg_fsync_every_n_writes = Some DEFAULT_FSYNC_EVERY_N_WRITES,
     cfg_fsync_on_delete = True,
     cfg_fast_recover = False\<rparr>"

definition normalize_address :: "string \<Rightarrow> string" where
  "normalize_address addr =
     (if starts_with addr ''http://'' \<or> starts_with addr ''https://'' then addr
      else ''http://'' @ addr)"

definition validate :: "StorageNodeConfig \<Rightarrow> (unit, string) result" where
  "validate c =
     (if metadata_addresses c = [] then Err ''metadata-addresses cannot be empty''
      else if \<exists>addr \<in> set (metadata_addresses c). str_trim addr = []
      then Err ''metadata-addresses cannot contain empty strings''
      else if port c = 0 then Err ''port cannot be 0''
      else if metrics_port c = 0 then Err ''metrics-port cannot be 0''
      else Ok ())"

text \<open>One override: the variable is set and parses.\<close>

definition env_override ::
  "(string \<Rightarrow> string option) \<Rightarrow> string \<Rightarrow> (string \<Rightarrow> 'a option) \<Rightarrow> ('a \<Rightarrow> 'c \<Rightarrow> 'c) \<Rightarrow> 'c \<Rightarrow> 'c" where
  "env_override env var parse upd c =
     (case env var of
        None \<Rightarrow> c
      | Some s \<Rightarrow> (case parse s of None \<Rightarrow> c | Some v \<Rightarrow> upd v c))"

definition apply_env_overrides ::
  "(string \<Rightarrow> string option) \<Rightarrow> StorageNodeConfig \<Rightarrow> StorageNodeConfig" where
  "apply_env_overrides env c =
     (let c1 = (case env ''METADATA_URLS'' of
                  Some urls \<Rightarrow> c\<lparr>metadata_addresses :=
                    map (\<lambda>s. normalize_address (str_trim s)) (str_split (CHR '','') urls)\<rparr>
                | None \<Rightarrow> c);
          c2 = env_override env ''GRPC_PORT'' (parse_uint (2 ^ 16)) (\<lambda>p c. c\<lparr>port := p\<rparr>) c1;
          c3 = env_override env ''METRICS_PORT'' (parse_uint (2 ^ 16)) (\<lambda>p c. c\<lparr>metrics_port := p\<rparr>) c2;
          c4 = env_override env ''ALLOCATED_SLOTS'' (parse_uint (2 ^ 64))
                 (\<lambda>n c. c\<lparr>allocated_slots := Some (of_nat n)\<rparr>) c3;
          c5 = env_override env ''FSYNC_EVERY_N_WRITES'' (parse_uint (2 ^ 64))
                 (\<lambda>n c. c\<lparr>cfg_fsync_every_n_writes := Some (of_nat n)\<rparr>) c4;
          c6 = env_override env ''FSYNC_ON_DELETE'' parse_bool (\<lambda>b c. c\<lparr>cfg_fsync_on_delete := b\<rparr>) c5
      in env_override env ''FAST_RECOVER'' parse_bool (\<lambda>b c. c\<lparr>cfg_fast_recover := b\<rparr>) c6)"

datatype config_error = Read_failed io_error_kind | Yaml_error | Invalid_config string

text \<open>\<open>contents\<close> is what reading the file gives, \<open>from_yaml\<close> the parser of serde.\<close>

definition load ::
  "(string \<Rightarrow> StorageNodeConfig option) \<Rightarrow> (string \<Rightarrow> string option) \<Rightarrow> string io
     \<Rightarrow> (StorageNodeConfig, config_error) result" where
  "load from_yaml env contents =
     (case contents of
        Err e \<Rightarrow> Err (Read_failed e)
      | Ok text \<Rightarrow>
          case from_yaml text of
            None \<Rightarrow> Err Yaml_error
          | Some config \<Rightarrow>
              let config1 = config\<lparr>metadata_addresses := map normalize_address (metadata_addresses config)\<rparr>;
                  config2 = apply_env_overrides env config1 in
              case validate config2 of
                Err e \<Rightarrow> Err (Invalid_config e)
              | Ok _ \<Rightarrow> Ok config2)"

definition chunk_store_options :: "StorageNodeConfig \<Rightarrow> ChunkStoreOptions" where
  "chunk_store_options c = \<lparr>
     opt_fsync_every_n_writes = cfg_fsync_every_n_writes c,
     opt_fsync_on_delete = cfg_fsync_on_delete c,
     opt_fast_recover = cfg_fast_recover c\<rparr>"

section \<open>Calls with a timeout and retries\<close>

text \<open>Durations are in milliseconds.\<close>

record RetryConfig =
  max_attempts :: nat
  timeout_per_attempt :: nat
  delay_between_attempts :: nat

definition RetryConfig_default :: RetryConfig where
  "RetryConfig_default = \<lparr>max_attempts = 3, timeout_per_attempt = 10000, delay_between_attempts = 2000\<rparr>"

datatype 'e CallWithRetryError = Timeout | OperationFailed 'e

text \<open>
  The loop over the attempts left, with the last error and the time slept so far; \<open>operation\<close>
  takes the state of the world through one attempt.
\<close>

fun retry_loop ::
  "('s \<Rightarrow> ('t, 'e) attempt \<times> 's) \<Rightarrow> nat \<Rightarrow> nat \<Rightarrow> 'e option \<Rightarrow> nat \<Rightarrow> 's
     \<Rightarrow> ('t, 'e CallWithRetryError) result \<times> nat \<times> 's" where
  "retry_loop operation delay 0 last_error slept s =
     ((case last_error of Some e \<Rightarrow> Err (OperationFailed e) | None \<Rightarrow> Err Timeout), slept, s)"
| "retry_loop operation delay (Suc left) last_error slept s =
     (let pause = (if left > 0 then delay else 0) in
      case operation s of
        (Answered (Ok v), s') \<Rightarrow> (Ok v, slept, s')
      | (Answered (Err e), s') \<Rightarrow> retry_loop operation delay left (Some e) (slept + pause) s'
      | (Elapsed, s') \<Rightarrow>
          (case last_error of
             None \<Rightarrow> (Err Timeout, slept, s')
           | Some e \<Rightarrow> retry_loop operation delay left (Some e) (slept + pause) s'))"

definition call_with_retry ::
  "('s \<Rightarrow> ('t, 'e) attempt \<times> 's) \<Rightarrow> RetryConfig \<Rightarrow> 's
     \<Rightarrow> ('t, 'e CallWithRetryError) result \<times> nat \<times> 's" where
  "call_with_retry operation config s =
     retry_loop operation (delay_between_attempts config) (max_attempts config) None 0 s"

text \<open>
  The connection loop of \<open>main\<close>: each round tries the addresses in order; after a failed round
  with \<open>attempts \<ge> max\<close> the process exits (\<open>None\<close>), otherwise it sleeps 2 s and tries again.
\<close>

fun connect_round :: "(string \<Rightarrow> 's \<Rightarrow> 'c option \<times> 's) \<Rightarrow> string list \<Rightarrow> 's \<Rightarrow> 'c option \<times> 's" where
  "connect_round connect [] s = (None, s)"
| "connect_round connect (a # as) s =
     (case connect a s of (Some c, s') \<Rightarrow> (Some c, s') | (None, s') \<Rightarrow> connect_round connect as s')"

fun connect_metadata ::
  "(string \<Rightarrow> 's \<Rightarrow> 'c option \<times> 's) \<Rightarrow> string list \<Rightarrow> nat \<Rightarrow> 's \<Rightarrow> 'c option \<times> 's" where
  "connect_metadata connect addrs retries s =
     (case connect_round connect addrs s of
        (Some c, s') \<Rightarrow> (Some c, s')
      | (None, s') \<Rightarrow>
          (case retries of 0 \<Rightarrow> (None, s') | Suc r \<Rightarrow> connect_metadata connect addrs r s'))"

definition MAX_CONNECT_ATTEMPTS :: nat where
  "MAX_CONNECT_ATTEMPTS = 5"

section \<open>The gRPC service\<close>

datatype sn_metric =
    Grpc_requests_total string string | Chunks_written_total | Chunks_read_total
  | Chunks_deleted_total | Bytes_written_total | Bytes_read_total | Free_slots

record StorageNodeImpl =
  store :: chunk_store
  sn_metrics :: "sn_metric metrics"

definition write_chunk_status :: "io_error_kind \<Rightarrow> code" where
  "write_chunk_status k =
     (case k of AlreadyExists \<Rightarrow> Code_AlreadyExists | StorageFull \<Rightarrow> Code_ResourceExhausted
      | _ \<Rightarrow> Code_Internal)"

definition sn_write_chunk ::
  "'h crc32 \<Rightarrow> u64 \<Rightarrow> bytes \<Rightarrow> StorageNodeImpl \<Rightarrow> u64 rpc \<times> StorageNodeImpl" where
  "sn_write_chunk H chunk_id chunk_bytes sn =
     (case cs_put_chunk H chunk_id chunk_bytes (store sn) of
        (Panic, st) \<Rightarrow> (Err Code_Internal, sn\<lparr>store := st\<rparr>)
      | (Ret (Err e), st) \<Rightarrow> (Err (write_chunk_status e), sn\<lparr>store := st\<rparr>)
      | (Ret (Ok _), st) \<Rightarrow>
          let m1 = metric_inc Chunks_written_total (sn_metrics sn);
              m2 = metric_add Bytes_written_total (int (length chunk_bytes)) m1;
              m3 = metric_inc (Grpc_requests_total ''write_chunk'' ''ok'') m2;
              m4 = metric_set Free_slots (uint (cs_free_slots st)) m3 in
          (Ok chunk_id, sn\<lparr>store := st, sn_metrics := m4\<rparr>))"

definition sn_read_chunk ::
  "'h crc32 \<Rightarrow> u64 \<Rightarrow> StorageNodeImpl \<Rightarrow> (u64 \<times> bytes \<times> u32) rpc \<times> StorageNodeImpl" where
  "sn_read_chunk H chunk_id sn =
     (case cs_get_chunk H chunk_id (store sn) of
        (Panic, st) \<Rightarrow> (Err Code_Internal, sn\<lparr>store := st\<rparr>)
      | (Ret (Err e), st) \<Rightarrow>
          (Err (if e = NotFound then Code_NotFound else Code_Internal), sn\<lparr>store := st\<rparr>)
      | (Ret (Ok (chunk_bytes, c)), st) \<Rightarrow>
          let m1 = metric_inc Chunks_read_total (sn_metrics sn);
              m2 = metric_add Bytes_read_total (int (length chunk_bytes)) m1;
              m3 = metric_inc (Grpc_requests_total ''read_chunk'' ''ok'') m2 in
          (Ok (chunk_id, chunk_bytes, c), sn\<lparr>store := st, sn_metrics := m3\<rparr>))"

definition sn_delete_chunk :: "u64 \<Rightarrow> StorageNodeImpl \<Rightarrow> u64 rpc \<times> StorageNodeImpl" where
  "sn_delete_chunk chunk_id sn =
     (case cs_delete_chunk chunk_id (store sn) of
        (Panic, st) \<Rightarrow> (Err Code_Internal, sn\<lparr>store := st\<rparr>)
      | (Ret (Err e), st) \<Rightarrow> (Err Code_Internal, sn\<lparr>store := st\<rparr>)
      | (Ret (Ok _), st) \<Rightarrow>
          let m1 = metric_inc Chunks_deleted_total (sn_metrics sn);
              m2 = metric_inc (Grpc_requests_total ''delete_chunk'' ''ok'') m1;
              m3 = metric_set Free_slots (uint (cs_free_slots st)) m2 in
          (Ok chunk_id, sn\<lparr>store := st, sn_metrics := m3\<rparr>))"

definition sn_get_free_chunks :: "StorageNodeImpl \<Rightarrow> u64 rpc" where
  "sn_get_free_chunks sn = Ok (cs_free_slots (store sn))"

definition sn_get_chunk_size :: "StorageNodeImpl \<Rightarrow> u64 rpc" where
  "sn_get_chunk_size sn = Ok (get_chunk_size (store sn))"

definition sn_check_health :: "StorageNodeImpl \<Rightarrow> bool rpc" where
  "sn_check_health sn = Ok True"

section \<open>The service keeps the chunk contract\<close>

fun sn_fetched :: "(u64 \<times> bytes \<times> u32) rpc \<Rightarrow> bytes option" where
  "sn_fetched (Ok (_, data, _)) = Some data"
| "sn_fetched (Err _) = None"

abbreviation sn_chunks :: "StorageNodeImpl \<Rightarrow> u64 \<Rightarrow> bytes option" where
  "sn_chunks sn \<equiv> chunks_of (store sn)"

abbreviation sn_invar :: "'h crc32 \<Rightarrow> StorageNodeImpl \<Rightarrow> bool" where
  "sn_invar H sn \<equiv> cs_invar H (store sn)"

abbreviation sn_step :: "'h crc32 \<Rightarrow> chunk_op \<Rightarrow> StorageNodeImpl \<Rightarrow> StorageNodeImpl" where
  "sn_step H \<equiv> service_step (sn_write_chunk H) (sn_read_chunk H) sn_delete_chunk"

lemma sn_write_store:
  "store (snd (sn_write_chunk H i d sn)) = snd (cs_put_chunk H i d (store sn))"
  "is_ok (fst (sn_write_chunk H i d sn)) \<longleftrightarrow> cs_stored (fst (cs_put_chunk H i d (store sn)))"
  by (auto simp: sn_write_chunk_def cs_stored_def Let_def split: prod.split exec.split result.split)

lemma sn_read_store:
  "store (snd (sn_read_chunk H i sn)) = snd (cs_get_chunk H i (store sn))"
  "sn_fetched (fst (sn_read_chunk H i sn)) = cs_fetched (fst (cs_get_chunk H i (store sn)))"
  by (auto simp: sn_read_chunk_def Let_def split: prod.split exec.split result.split)

lemma sn_delete_store:
  "store (snd (sn_delete_chunk i sn)) = snd (cs_delete_chunk i (store sn))"
  "is_ok (fst (sn_delete_chunk i sn)) \<longleftrightarrow> cs_stored (fst (cs_delete_chunk i (store sn)))"
  by (auto simp: sn_delete_chunk_def cs_stored_def Let_def split: prod.split exec.split result.split)

lemmas sn_stores = sn_write_store sn_read_store sn_delete_store

text \<open>The handlers inherit every law from the store behind them.\<close>

interpretation sn: live_chunk_service sn_chunks "sn_invar H" "sn_write_chunk H" "sn_read_chunk H"
  sn_delete_chunk is_ok sn_fetched is_ok "\<lambda>sn. cs_live (store sn)" cs_fits
  for H :: "'h crc32"
proof unfold_locales
  fix s p s' i d assume a: "sn_invar H s" "sn_write_chunk H i d s = (p, s')"
  obtain r st where st: "cs_put_chunk H i d (store s) = (r, st)" by fastforce
  have e: "store s' = st" "is_ok p \<longleftrightarrow> cs_stored r" using sn_write_store [of H i d s] a(2) st by auto
  show "sn_invar H s'" using cs.put_invar [OF a(1) st] e by simp
  show "sn_chunks s' = (if is_ok p then (sn_chunks s)(i \<mapsto> d) else sn_chunks s)"
    using cs.put_abs [OF a(1) st] e by simp
  show "is_ok p \<Longrightarrow> sn_chunks s i = None" using cs.put_fresh [OF a(1) st] e by simp
next
  fix s g s' i assume a: "sn_invar H s" "sn_read_chunk H i s = (g, s')"
  obtain r st where st: "cs_get_chunk H i (store s) = (r, st)" by fastforce
  have e: "store s' = st" "sn_fetched g = cs_fetched r" using sn_read_store [of H i s] a(2) st by auto
  show "sn_invar H s'" using cs.get_invar [OF a(1) st] e by simp
  show "sn_chunks s' = sn_chunks s" using cs.get_abs [OF a(1) st] e by simp
  show "sn_fetched g = Some d \<Longrightarrow> sn_chunks s i = Some d" for d using cs.get_sound [OF a(1) st] e by simp
next
  fix s r s' i assume a: "sn_invar H s" "sn_delete_chunk i s = (r, s')"
  obtain q st where st: "cs_delete_chunk i (store s) = (q, st)" by fastforce
  have e: "store s' = st" "is_ok r \<longleftrightarrow> cs_stored q" using sn_delete_store [of i s] a(2) st by auto
  show "sn_invar H s'" using cs.del_invar [OF a(1) st] e by simp
  show "sn_chunks s' = sn_chunks s \<or> sn_chunks s' = (sn_chunks s)(i := None)"
    using cs.del_abs [OF a(1) st] e by simp
  show "is_ok r \<Longrightarrow> sn_chunks s' i = None" using cs.del_removed [OF a(1) st] e by simp
qed (auto simp: sn_stores cs.live_put cs.live_get cs.live_del cs.get_answers cs.del_answers)

section \<open>Lemmas: a poisoned store\<close>

lemma poisoned_stays:
  assumes "index_poisoned (store sn)"
  shows "sn_write_chunk H i d sn = (Err Code_Internal, sn)"
    and "sn_read_chunk H i sn = (Err Code_Internal, sn)"
    and "sn_delete_chunk i sn = (Err Code_Internal, sn)"
  using assms
  by (simp_all add: sn_write_chunk_def sn_read_chunk_def sn_delete_chunk_def
      cs_put_chunk_def cs_get_chunk_def cs_delete_chunk_def)

lemma oversized_poisons:
  assumes "cs_invar H (store sn)" "\<not> index_poisoned (store sn)" "sn_chunks sn i = None"
    and "free_slots (store sn) \<noteq> []" "SLOT_DATA_SIZE < length d"
    and "sn_write_chunk H i d sn = (r, sn')"
  shows "r = Err Code_Internal \<and> index_poisoned (store sn') \<and>
    length (free_slots (store sn')) = length (free_slots (store sn)) - 1"
proof -
  obtain q st where p: "cs_put_chunk H i d (store sn) = (q, st)" by fastforce
  have "q = Panic \<and> index_poisoned st \<and> length (free_slots st) = length (free_slots (store sn)) - 1"
    using assms(1) p
    by (cases rule: put_chunk_cases) (use assms(2-5) in \<open>auto simp: chunks_of_None\<close>)
  then show ?thesis using assms(6) p by (auto simp: sn_write_chunk_def)
qed

section \<open>Lemmas: retries\<close>

text \<open>An operation that answers from a script of outcomes.\<close>

fun scripted :: "('t, 'e) attempt list \<Rightarrow> ('t, 'e) attempt \<times> ('t, 'e) attempt list" where
  "scripted [] = (Elapsed, [])"
| "scripted (a # as) = (a, as)"

lemma retry_loop_success:
  "length es < n \<Longrightarrow>
   retry_loop scripted delay n le slept (map (\<lambda>e. Answered (Err e)) es @ Answered (Ok v) # rest) =
     (Ok v, slept + length es * delay, rest)"
proof (induction es arbitrary: n le slept)
  case Nil
  then show ?case by (cases n) (auto simp: Let_def)
next
  case (Cons e es)
  then obtain m where "n = Suc m" "length es < m" by (cases n) auto
  with Cons.IH [OF this(2)] show ?case by (auto simp: Let_def)
qed

lemma retry_loop_failure:
  "es \<noteq> [] \<Longrightarrow> retry_loop scripted delay (length es) le slept (map (\<lambda>e. Answered (Err e)) es @ rest) =
     (Err (OperationFailed (last es)), slept + (length es - 1) * delay, rest)"
proof (induction es arbitrary: le slept)
  case (Cons e es)
  then show ?case by (cases es) (auto simp: Let_def)
qed simp

section \<open>Lemmas: configuration\<close>

lemma normalize_has_scheme: "starts_with (normalize_address a) ''http://'' \<or> starts_with (normalize_address a) ''https://''"
  by (simp add: normalize_address_def)

lemma normalize_not_blank: "str_trim (normalize_address a) \<noteq> []"
proof -
  have "CHR ''h'' \<in> set (normalize_address a)"
    using normalize_has_scheme [of a] by (auto simp: starts_with_iff)
  moreover have "\<not> is_ascii_space (CHR ''h'')" by (simp add: is_ascii_space_def Let_def)
  ultimately show ?thesis using str_trim_Nil_iff by blast
qed

lemma env_override_keeps:
  "(\<And>v c. P c \<Longrightarrow> P (upd v c)) \<Longrightarrow> P c \<Longrightarrow> P (env_override env var parse upd c)"
  by (auto simp: env_override_def split: option.split)

lemma env_override_same:
  "(\<And>v c. g (upd v c) = g c) \<Longrightarrow> g (env_override env var parse upd c) = g c"
  by (auto simp: env_override_def split: option.split)

lemma overridden_addresses:
  "metadata_addresses (apply_env_overrides env c) =
     (case env ''METADATA_URLS'' of
        Some urls \<Rightarrow> map (\<lambda>s. normalize_address (str_trim s)) (str_split (CHR '','') urls)
      | None \<Rightarrow> metadata_addresses c)"
  by (auto simp: apply_env_overrides_def Let_def env_override_same split: option.split)

lemma loaded_addresses:
  "set (metadata_addresses (apply_env_overrides env
      (config\<lparr>metadata_addresses := map normalize_address (metadata_addresses config)\<rparr>)))
    \<subseteq> range normalize_address"
  by (auto simp: overridden_addresses split: option.split)

section \<open>Properties\<close>

definition fresh_node :: "u64 \<Rightarrow> StorageNodeImpl" where
  "fresh_node n = \<lparr>store = fresh_store ChunkStoreOptions_default n, sn_metrics = (\<lambda>_. 0)\<rparr>"

lemma fresh_node_ok:
  assumes "unat n * SLOT_SIZE < 2 ^ 64"
  shows "sn_invar H (fresh_node n) \<and> cs_live (store (fresh_node n))"
  using fresh_arena(2) [OF assms, of H ChunkStoreOptions_default] by (simp add: fresh_node_def cs_good_def)


lemma fresh_write:
  "\<exists>sn1. sn_write_chunk sum_crc 7 [1, 2] (fresh_node 2) = (Ok 7, sn1)"
proof -
  have "fst (sn_write_chunk sum_crc 7 [1, 2] (fresh_node 2)) = Ok 7"
    by (simp add: sn_write_chunk_def fresh_node_def fresh_store_def ChunkStoreOptions_default_def
        DEFAULT_FSYNC_EVERY_N_WRITES_def cs_put_chunk_def find_slot_def should_fsync_write_def
        write_chunk_at_def SLOT_DATA_SIZE_eq write_all_at_no_faults empty_file_def Let_def sync_data.simps)
  then show ?thesis by (metis prod.collapse)
qed

lemma fresh_node_2: "sn_invar sum_crc (fresh_node 2)" "cs_live (store (fresh_node 2))"
  using fresh_node_ok [of 2 sum_crc] by (auto simp: SLOT_SIZE_eq)


text \<open>
  C6. A node never serves wrong bytes: under every plan of short transfers and I/O errors, and
  whatever other clients do in between, a successful read after an acknowledged write of a chunk
  that was not deleted returns the written bytes.
\<close>

theorem reads_are_never_stale:
  assumes "sn_invar H sn" and "sn_write_chunk H i d sn = (Ok j, sn1)" and "OpDelete i \<notin> set cs"
    and "sn_read_chunk H i (fold (sn_step H) cs sn1) = (Ok (k, d', c), sn2)"
  shows "d' = d"
  using sn.read_after_write [OF assms(1,2) _ assms(3,4)] by simp

theorem reads_are_never_stale_witness:
  "\<exists>sn1 k c sn2. sn_write_chunk sum_crc 7 [1, 2] (fresh_node 2) = (Ok 7, sn1) \<and>
     sn_read_chunk sum_crc 7 (fold (sn_step sum_crc) [OpPut 8 [5], OpDelete 8] sn1) = (Ok (k, [1, 2], c), sn2)"
proof -
  obtain sn1 where w: "sn_write_chunk sum_crc 7 [1, 2] (fresh_node 2) = (Ok 7, sn1)"
    using fresh_write by blast
  obtain g sn2 where g: "sn_read_chunk sum_crc 7 (fold (sn_step sum_crc) [OpPut 8 [5], OpDelete 8] sn1) = (g, sn2)"
    by fastforce
  have "sn_fetched (fst (sn_read_chunk sum_crc 7 (fold (sn_step sum_crc) [OpPut 8 [5], OpDelete 8] sn1))) = Some [1, 2]"
    by (rule sn.write_then_read [OF fresh_node_2 w]) (auto simp: cs_fits_def SLOT_DATA_SIZE_eq)
  then obtain k d' c where "g = Ok (k, d', c)" unfolding g by (cases g) auto
  with g reads_are_never_stale [OF fresh_node_2(1) w, of "[OpPut 8 [5], OpDelete 8]" k d' c sn2] w
  show ?thesis by auto
qed

text \<open>
  C7. A deleted chunk stays deleted: after an acknowledged delete no read of the chunk succeeds
  until it is written again, under every plan of system-call answers.
\<close>

theorem deleted_chunk_stays_deleted:
  assumes "sn_invar H sn" and "sn_delete_chunk i sn = (Ok j, sn1)" and "\<forall>e. OpPut i e \<notin> set cs"
  shows "\<not> is_ok (fst (sn_read_chunk H i (fold (sn_step H) cs sn1)))"
proof -
  obtain g sn2 where g: "sn_read_chunk H i (fold (sn_step H) cs sn1) = (g, sn2)" by fastforce
  have "sn_fetched g = None" using sn.no_resurrection [OF assms(1,2) _ _ g] assms(3) by simp
  then show ?thesis using g by (cases g) auto
qed

theorem deleted_chunk_stays_deleted_witness:
  "\<exists>sn1. sn_delete_chunk 7 (fresh_node 2) = (Ok 7, sn1) \<and>
     \<not> is_ok (fst (sn_read_chunk sum_crc 7 (fold (sn_step sum_crc) [OpPut 8 [5], OpGet 7] sn1)))"
proof -
  have "fst (sn_delete_chunk 7 (fresh_node 2)) = Ok 7"
    by (simp add: sn_delete_chunk_def cs_delete_chunk_def fresh_node_def fresh_store_def Let_def)
  then obtain sn1 where d: "sn_delete_chunk 7 (fresh_node 2) = (Ok 7, sn1)" by (metis prod.collapse)
  then show ?thesis
    using deleted_chunk_stays_deleted [OF fresh_node_2(1) d, of "[OpPut 8 [5], OpGet 7]"] by auto
qed

text \<open>
  C30. A write larger than a slot, which the gRPC limit of 16 MiB lets through, takes the node
  down for good: it panics under the index lock, so that it and every later write, read and
  delete of any chunk fails, while the health check keeps answering that the node is healthy.
\<close>

theorem oversized_write_disables_node:
  assumes "sn_invar H sn" and "\<not> index_poisoned (store sn)" and "sn_chunks sn i = None"
    and "free_slots (store sn) \<noteq> []" and "SLOT_DATA_SIZE < length d"
  shows "\<exists>sn'. sn_write_chunk H i d sn = (Err Code_Internal, sn') \<and>
    fold (sn_step H) cs sn' = sn' \<and>
    fst (sn_write_chunk H j e sn') = Err Code_Internal \<and> fst (sn_read_chunk H j sn') = Err Code_Internal \<and>
    fst (sn_delete_chunk j sn') = Err Code_Internal \<and> sn_check_health sn' = Ok True"
proof -
  obtain r sn' where w: "sn_write_chunk H i d sn = (r, sn')" by fastforce
  have p: "r = Err Code_Internal" "index_poisoned (store sn')"
    using oversized_poisons [OF assms w] by auto
  have "sn_step H c sn' = sn'" for c by (cases c) (simp_all add: poisoned_stays [OF p(2)])
  then have "fold (sn_step H) cs sn' = sn'" by (induction cs) simp_all
  then show ?thesis using w p(1) by (simp add: sn_check_health_def poisoned_stays [OF p(2)])
qed

theorem oversized_write_disables_node_witness:
  "\<exists>sn'. sn_write_chunk sum_crc 7 (replicate 8388585 0) (fresh_node 2) = (Err Code_Internal, sn') \<and>
    fold (sn_step sum_crc) [OpPut 8 [1]] sn' = sn' \<and>
    fst (sn_write_chunk sum_crc 9 [1] sn') = Err Code_Internal \<and>
    fst (sn_read_chunk sum_crc 9 sn') = Err Code_Internal \<and>
    fst (sn_delete_chunk 9 sn') = Err Code_Internal \<and> sn_check_health sn' = Ok True"
  by (rule oversized_write_disables_node [OF fresh_node_2(1)])
    (simp_all add: fresh_node_def fresh_store_def chunks_of_def SLOT_DATA_SIZE_eq)

text \<open>
  A retried call returns the first success among its first \<open>max_attempts\<close> answers, having
  slept once after each failed attempt but the last; when they all fail it returns the error of
  the last permitted attempt, having called the operation exactly \<open>max_attempts\<close> times.
\<close>

theorem retry_outcome:
  "call_with_retry scripted cfg (map (\<lambda>e. Answered (Err e)) es @ Answered (Ok v) # rest) =
     (let n = max_attempts cfg; delay = delay_between_attempts cfg in
      if length es < n then (Ok v, length es * delay, rest)
      else if n = 0 then (Err Timeout, 0, map (\<lambda>e. Answered (Err e)) es @ Answered (Ok v) # rest)
      else (Err (OperationFailed (es ! (n - 1))), (n - 1) * delay,
            map (\<lambda>e. Answered (Err e)) (drop n es) @ Answered (Ok v) # rest))"
proof (cases "length es < max_attempts cfg \<or> max_attempts cfg = 0")
  case True
  then show ?thesis by (auto simp: call_with_retry_def Let_def retry_loop_success)
next
  case False
  let ?n = "max_attempts cfg"
  have ne: "take ?n es \<noteq> []" using False by auto
  then have es: "take ?n es \<noteq> []" "length (take ?n es) = ?n" "last (take ?n es) = es ! (?n - 1)"
    using False by (auto simp: last_conv_nth [OF ne] min_def)
  have "map (\<lambda>e. Answered (Err e)) es @ Answered (Ok v) # rest =
      map (\<lambda>e. Answered (Err e)) (take ?n es) @ map (\<lambda>e. Answered (Err e)) (drop ?n es) @ Answered (Ok v) # rest"
    by (metis append_assoc append_take_drop_id map_append)
  then show ?thesis
    using retry_loop_failure [OF es(1), of "delay_between_attempts cfg" None 0
        "map (\<lambda>e. Answered (Err e)) (drop ?n es) @ Answered (Ok v) # rest"] es False
    by (simp only: call_with_retry_def Let_def) simp
qed

text \<open>
  A time-out of the first attempt is not retried: the call gives up at once without
  sleeping, although its error says that all attempts timed out.
\<close>

theorem first_timeout_gives_up:
  "call_with_retry scripted (cfg\<lparr>max_attempts := Suc n\<rparr>) (Elapsed # rest) = (Err Timeout, 0, rest)"
  by (simp add: call_with_retry_def Let_def)

text \<open>
  C32. A configuration that loads has at least one metadata address, each with an explicit
  scheme, and non-zero ports; and since addresses get their scheme before they are validated,
  the check for blank addresses never rejects a configuration.
\<close>

theorem loaded_config_is_valid:
  assumes "load from_yaml env (Ok text) = r"
  shows "(\<forall>c. r = Ok c \<longrightarrow> metadata_addresses c \<noteq> [] \<and> 0 < port c \<and> 0 < metrics_port c \<and>
      list_all (\<lambda>a. starts_with a ''http://'' \<or> starts_with a ''https://'') (metadata_addresses c)) \<and>
    r \<noteq> Err (Invalid_config ''metadata-addresses cannot contain empty strings'')"
proof (cases "from_yaml text")
  case None
  then show ?thesis using assms by (auto simp: load_def)
next
  case (Some config)
  let ?c = "apply_env_overrides env
    (config\<lparr>metadata_addresses := map normalize_address (metadata_addresses config)\<rparr>)"
  have r: "r = (case validate ?c of Err e \<Rightarrow> Err (Invalid_config e) | Ok _ \<Rightarrow> Ok ?c)"
    using assms Some by (simp add: load_def Let_def)
  have rng: "\<forall>a \<in> set (metadata_addresses ?c). \<exists>b. a = normalize_address b"
    using loaded_addresses by (meson imageE subsetD)
  then have blank: "\<not> (\<exists>a \<in> set (metadata_addresses ?c). str_trim a = [])"
    using normalize_not_blank by metis
  have scheme: "list_all (\<lambda>a. starts_with a ''http://'' \<or> starts_with a ''https://'') (metadata_addresses ?c)"
    using rng normalize_has_scheme unfolding list_all_iff by metis
  show ?thesis using r blank scheme by (auto simp: validate_def split: if_splits)
qed

theorem loaded_config_is_valid_witness:
  "load (\<lambda>_. Some StorageNodeConfig_default) (\<lambda>v. if v = ''METADATA_URLS'' then Some ''meta:1, '' else None) (Ok '''')
     = Ok (StorageNodeConfig_default\<lparr>metadata_addresses := [''http://meta:1'', ''http://'']\<rparr>) \<and>
   metadata_addresses (StorageNodeConfig_default\<lparr>metadata_addresses := [''http://meta:1'', ''http://'']\<rparr>) \<noteq> []"
proof -
  have "load (\<lambda>_. Some StorageNodeConfig_default) (\<lambda>v. if v = ''METADATA_URLS'' then Some ''meta:1, '' else None) (Ok '''')
     = Ok (StorageNodeConfig_default\<lparr>metadata_addresses := [''http://meta:1'', ''http://'']\<rparr>)"
    by (simp add: load_def apply_env_overrides_def env_override_def StorageNodeConfig_default_def
        normalize_address_def str_trim_def is_ascii_space_def validate_def Let_def)
  from loaded_config_is_valid [OF this] this show ?thesis by blast
qed

end
