(* ===== verification/HashRing.thy ===== *)
theory HashRing
  imports RustStd
begin

text \<open>
  The consistent-hashing ring, \<^verbatim>\<open>storage-metadata/src/hash_ring.rs\<close>: a \<open>BTreeMap\<close> from the
  positions of virtual nodes to node ids. The hash \<open>xxh3_64\<close> is a third-party function and a
  parameter. The locale \<open>placement\<close> states what the routing code relies on: every key has an owner
  among the members, and a membership change moves only the keys it must.
\<close>

section \<open>Definitions\<close>

type_synonym ring = "(u64, string) btreemap"

definition VNODES_PER_NODE :: nat where
  "VNODES_PER_NODE = 150"

definition HashRing_new :: ring where
  "HashRing_new = []"

definition vnode_key :: "string \<Rightarrow> nat \<Rightarrow> string" where
  "vnode_key node_id i = node_id @ ''-vnode-'' @ show_nat i"

definition add_node :: "(string \<Rightarrow> u64) \<Rightarrow> string \<Rightarrow> ring \<Rightarrow> ring" where
  "add_node xxh3_64 node_id r =
     fold (\<lambda>i r. bt_insert (xxh3_64 (vnode_key node_id i)) node_id r) [0..<VNODES_PER_NODE] r"

definition remove_node :: "string \<Rightarrow> ring \<Rightarrow> ring" where
  "remove_node node_id r = map_retain (\<lambda>_ v. v \<noteq> node_id) r"

definition hash_key :: "(string \<Rightarrow> u64) \<Rightarrow> string \<Rightarrow> u64" where
  "hash_key xxh3_64 key = xxh3_64 key"

text \<open>The owner of a position: \<open>range(hash..).next()\<close>, else the first vnode of the ring.\<close>

definition owner_at :: "ring \<Rightarrow> u64 \<Rightarrow> string option" where
  "owner_at r hash =
     (if r = [] then None
      else case find (\<lambda>(p, _). hash \<le> p) r of
             Some (_, node_id) \<Rightarrow> Some node_id
           | None \<Rightarrow> Some (snd (hd r)))"

definition get_owner :: "(string \<Rightarrow> u64) \<Rightarrow> ring \<Rightarrow> string \<Rightarrow> string option" where
  "get_owner xxh3_64 r key = owner_at r (xxh3_64 key)"

text \<open>The ranges of the \<open>i\<close>-th vnode.\<close>

definition vnode_ranges :: "ring \<Rightarrow> nat \<Rightarrow> (u64 \<times> u64) list" where
  "vnode_ranges r i =
     (let pos = fst (r ! i);
          prev_pos = (if i = 0 then fst (r ! (length r - 1)) else fst (r ! (i - 1))) in
      if prev_pos < pos then [(prev_pos + 1, pos + 1)]
      else [(prev_pos + 1, - 1), (0, pos + 1)])"

definition get_owned_ranges :: "ring \<Rightarrow> string \<Rightarrow> (u64 \<times> u64) list" where
  "get_owned_ranges r node_id =
     (if r = [] then []
      else concat (map (\<lambda>i. if snd (r ! i) \<noteq> node_id then [] else vnode_ranges r i) [0..<length r]))"

fun hash_in_ranges :: "u64 \<Rightarrow> (u64 \<times> u64) list \<Rightarrow> bool" where
  "hash_in_ranges hash [] = False"
| "hash_in_ranges hash ((start, end) # ranges) =
     (if (if start \<le> end then hash \<ge> start \<and> hash < end else hash \<ge> start \<or> hash < end)
      then True else hash_in_ranges hash ranges)"

definition ring_nodes :: "ring \<Rightarrow> string list" where
  "ring_nodes r = remdups_adj (sort (hm_values r))"

definition node_count :: "ring \<Rightarrow> nat" where
  "node_count r = length (remdups_adj (sort (hm_values r)))"

definition ring_is_empty :: "ring \<Rightarrow> bool" where
  "ring_is_empty r \<longleftrightarrow> r = []"

section \<open>The placement interface\<close>

locale placement =
  fixes owner :: "'r \<Rightarrow> u64 \<Rightarrow> string option"
    and members :: "'r \<Rightarrow> string set"
    and join :: "string \<Rightarrow> 'r \<Rightarrow> 'r"
    and leave :: "string \<Rightarrow> 'r \<Rightarrow> 'r"
    and invar :: "'r \<Rightarrow> bool"
  assumes invar_join: "invar r \<Longrightarrow> invar (join n r)"
    and invar_leave: "invar r \<Longrightarrow> invar (leave n r)"
    and owner_total: "invar r \<Longrightarrow> owner r h = None \<longleftrightarrow> members r = {}"
    and owner_member: "invar r \<Longrightarrow> owner r h = Some m \<Longrightarrow> m \<in> members r"
    and members_join: "invar r \<Longrightarrow> members (join n r) \<subseteq> insert n (members r)"
    and join_member: "invar r \<Longrightarrow> n \<in> members (join n r)"
    and members_leave: "invar r \<Longrightarrow> members (leave n r) = members r - {n}"
    and join_minimal: "invar r \<Longrightarrow> owner (join n r) h \<noteq> Some n \<Longrightarrow> owner (join n r) h = owner r h"
    and leave_minimal: "invar r \<Longrightarrow> owner r h \<noteq> Some n \<Longrightarrow> owner (leave n r) h = owner r h"
begin

lemma invar_joins: "invar r \<Longrightarrow> invar (fold join ns r)"
  by (induction ns arbitrary: r) (auto simp: invar_join)

lemma invar_leaves: "invar r \<Longrightarrow> invar (fold leave ns r)"
  by (induction ns arbitrary: r) (auto simp: invar_leave)

lemma joins_minimal:
  "invar r \<Longrightarrow> owner (fold join ns r) h = owner r h \<or> (\<exists>n \<in> set ns. owner (fold join ns r) h = Some n)"
proof (induction ns arbitrary: r)
  case (Cons n ns)
  then show ?case using Cons.IH [OF invar_join [OF Cons.prems], of n] join_minimal [OF Cons.prems, of n h]
    by auto
qed simp

lemma leaves_minimal:
  "invar r \<Longrightarrow> owner r h = Some m \<Longrightarrow> m \<notin> set ns \<Longrightarrow> owner (fold leave ns r) h = Some m"
  by (induction ns arbitrary: r) (auto simp: invar_leave leave_minimal)

lemma leave_reassigns:
  assumes "invar r" and "owner (leave n r) h = Some m"
  shows "m \<noteq> n \<and> m \<in> members r"
  using owner_member [OF invar_leave [OF assms(1)] assms(2)] members_leave [OF assms(1), of n] by blast

end

section \<open>Lemmas: successor positions\<close>

definition is_succ :: "u64 set \<Rightarrow> u64 \<Rightarrow> u64 \<Rightarrow> bool" where
  "is_succ K h s \<longleftrightarrow> s \<in> K \<and>
     (if \<exists>p \<in> K. h \<le> p then h \<le> s \<and> (\<forall>p \<in> K. h \<le> p \<longrightarrow> s \<le> p) else \<forall>p \<in> K. s \<le> p)"

lemma is_succ_unique: "is_succ K h s \<Longrightarrow> is_succ K h t \<Longrightarrow> s = t"
  unfolding is_succ_def by (auto split: if_splits intro: antisym)

lemma is_succ_sub:
  assumes "is_succ B h s" and "S \<subseteq> B" and "s \<in> S" shows "is_succ S h s"
  using assms unfolding is_succ_def by (auto split: if_splits)

lemma find_sorted:
  assumes "sorted (map fst r)" and "find (\<lambda>(p, _). h \<le> p) r = Some (s, v)"
  shows "(s, v) \<in> set r \<and> h \<le> s \<and> (\<forall>p \<in> fst ` set r. h \<le> p \<longrightarrow> s \<le> p)"
  using assms by (induction r) (auto split: if_splits)

lemma owner_at_succ:
  assumes "bt_invar r" and "r \<noteq> []"
  obtains s v where "is_succ (fst ` set r) h s" "(s, v) \<in> set r" "owner_at r h = Some v"
proof (cases "find (\<lambda>(p, _). h \<le> p) r")
  case None
  obtain s v r' where r: "r = (s, v) # r'" using assms(2) by (cases r) auto
  have "\<not> (\<exists>p \<in> fst ` set r. h \<le> p)" using None by (auto simp: find_None_iff)
  moreover have "\<forall>p \<in> fst ` set r. s \<le> p" using assms(1) by (auto simp: r)
  ultimately have "is_succ (fst ` set r) h s" by (auto simp: is_succ_def r)
  then show ?thesis using None by (intro that [of s v]) (simp_all add: r owner_at_def)
next
  case (Some x)
  obtain s v where x: "x = (s, v)" by (cases x)
  have f: "(s, v) \<in> set r \<and> h \<le> s \<and> (\<forall>p \<in> fst ` set r. h \<le> p \<longrightarrow> s \<le> p)"
    using assms(1) Some x by (intro find_sorted) auto
  then have "is_succ (fst ` set r) h s" by (force simp: is_succ_def)
  then show ?thesis using f Some x assms(2) by (intro that [of s v]) (simp_all add: owner_at_def)
qed

lemma owner_at_iff:
  assumes "bt_invar r"
  shows "owner_at r h = Some v \<longleftrightarrow> (\<exists>s. is_succ (fst ` set r) h s \<and> (s, v) \<in> set r)"
proof (cases "r = []")
  case True
  then show ?thesis by (simp add: owner_at_def)
next
  case False
  obtain s w where s: "is_succ (fst ` set r) h s" "(s, w) \<in> set r" "owner_at r h = Some w"
    using owner_at_succ [OF assms False] .
  have "w = v" if "(s, v) \<in> set r" using assms that s(2) by (metis bt.mem_iff_get option.inject)
  then show ?thesis using s is_succ_unique [OF s(1)] by (metis option.inject)
qed

section \<open>Lemmas: membership changes\<close>

definition vnodes_of :: "(string \<Rightarrow> u64) \<Rightarrow> string \<Rightarrow> (u64 \<times> string) list" where
  "vnodes_of xxh3_64 n = map (\<lambda>i. (xxh3_64 (vnode_key n i), n)) [0..<VNODES_PER_NODE]"

lemma add_node_fold: "add_node x n r = fold (\<lambda>(k, v). bt_insert k v) (vnodes_of x n) r"
  by (simp add: add_node_def vnodes_of_def fold_map comp_def)

lemma add_node_invar: "bt_invar r \<Longrightarrow> bt_invar (add_node x n r)"
  unfolding add_node_fold by (rule bt.invar_fold_ins)

lemma remove_node_invar: "bt_invar r \<Longrightarrow> bt_invar (remove_node n r)"
  unfolding remove_node_def by (rule bt.invar_retain)

lemma add_node_get:
  assumes "bt_invar r"
  shows "map_of (add_node x n r) p = (if p \<in> fst ` set (vnodes_of x n) then Some n else map_of r p)"
proof -
  have "map_of (add_node x n r) = map_of r ++ map_of (rev (vnodes_of x n))"
    unfolding add_node_fold using assms by (rule bt.get_fold_ins)
  moreover have "map_of (rev (vnodes_of x n)) p = (if p \<in> fst ` set (vnodes_of x n) then Some n else None)"
  proof (cases "map_of (rev (vnodes_of x n)) p")
    case None
    then show ?thesis by (simp add: map_of_eq_None_iff)
  next
    case (Some m)
    then have "(p, m) \<in> set (vnodes_of x n)" using map_of_SomeD by fastforce
    moreover from this have "m = n" by (auto simp: vnodes_of_def)
    ultimately show ?thesis using Some by force
  qed
  ultimately show ?thesis by (simp add: map_add_def)
qed

lemma vnodes_of_not_Nil: "vnodes_of x n \<noteq> []"
  by (simp add: vnodes_of_def VNODES_PER_NODE_def)

lemma add_node_entries:
  assumes "bt_invar r"
  shows "(p, v) \<in> set (add_node x n r) \<longleftrightarrow>
    (if p \<in> fst ` set (vnodes_of x n) then v = n else (p, v) \<in> set r)"
  using bt.mem_iff_get [OF add_node_invar [OF assms]] bt.mem_iff_get [OF assms] add_node_get [OF assms]
  by auto

lemma add_node_present: "bt_invar r \<Longrightarrow> \<exists>p. (p, n) \<in> set (add_node x n r)"
proof -
  assume inv: "bt_invar r"
  obtain p where "p \<in> fst ` set (vnodes_of x n)" using vnodes_of_not_Nil [of x n] by (cases "vnodes_of x n") auto
  then show ?thesis using add_node_entries [OF inv, of p n x n] by auto
qed

lemma remove_node_entries: "(p, v) \<in> set (remove_node n r) \<longleftrightarrow> (p, v) \<in> set r \<and> v \<noteq> n"
  by (auto simp: remove_node_def map_retain_def)

lemma add_node_minimal:
  assumes inv: "bt_invar r" and other: "owner_at (add_node x n r) h \<noteq> Some n"
  shows "owner_at (add_node x n r) h = owner_at r h"
proof -
  let ?r = "add_node x n r"
  note inv' = add_node_invar [OF inv, of x n] and ent = add_node_entries [OF inv, of _ _ x n]
  have "?r \<noteq> []" using add_node_present [OF inv, of n x] by auto
  then obtain s v where s: "is_succ (fst ` set ?r) h s" "(s, v) \<in> set ?r" "owner_at ?r h = Some v"
    using owner_at_succ [OF inv'] by metis
  have sv: "(s, v) \<in> set r" using s(2,3) other ent [of s v] by (auto split: if_splits)
  have "fst ` set r \<subseteq> fst ` set ?r"
  proof
    fix p assume "p \<in> fst ` set r"
    then obtain w where "(p, w) \<in> set r" by auto
    then show "p \<in> fst ` set ?r" using ent [of p w] ent [of p n] by (force split: if_splits)
  qed
  moreover have "s \<in> fst ` set r" using sv by force
  ultimately have "is_succ (fst ` set r) h s" using s(1) by (blast intro: is_succ_sub)
  then have "owner_at r h = Some v" using owner_at_iff [OF inv] sv by blast
  then show ?thesis using s(3) by simp
qed

lemma remove_node_minimal:
  assumes inv: "bt_invar r" and other: "owner_at r h \<noteq> Some n"
  shows "owner_at (remove_node n r) h = owner_at r h"
proof (cases "r = []")
  case True
  then show ?thesis by (simp add: remove_node_def map_retain_def)
next
  case False
  obtain s v where s: "is_succ (fst ` set r) h s" "(s, v) \<in> set r" "owner_at r h = Some v"
    using owner_at_succ [OF inv False] .
  have sv: "(s, v) \<in> set (remove_node n r)" using s other by (simp add: remove_node_entries)
  have "fst ` set (remove_node n r) \<subseteq> fst ` set r" by (auto simp: remove_node_def map_retain_def)
  moreover have "s \<in> fst ` set (remove_node n r)" using sv by force
  ultimately have "is_succ (fst ` set (remove_node n r)) h s" using s(1) by (blast intro: is_succ_sub)
  then have "owner_at (remove_node n r) h = Some v"
    using owner_at_iff [OF remove_node_invar [OF inv]] sv by blast
  then show ?thesis using s(3) by simp
qed

interpretation ring: placement owner_at "\<lambda>r. set (hm_values r)" "add_node x" remove_node bt_invar
  for x :: "string \<Rightarrow> u64"
proof unfold_locales
  fix r :: ring and n h
  assume inv: "bt_invar r"
  show "bt_invar (add_node x n r)" using inv by (rule add_node_invar)
  show "bt_invar (remove_node n r)" using inv by (rule remove_node_invar)
  show "owner_at r h = None \<longleftrightarrow> set (hm_values r) = {}"
    by (auto simp: owner_at_def split: option.split)
  show "set (hm_values (add_node x n r)) \<subseteq> insert n (set (hm_values r))"
  proof
    fix m assume "m \<in> set (hm_values (add_node x n r))"
    then obtain p where "(p, m) \<in> set (add_node x n r)" by auto
    then show "m \<in> insert n (set (hm_values r))"
      using add_node_entries [OF inv, of p m x n] by (force split: if_splits)
  qed
  show "n \<in> set (hm_values (add_node x n r))"
    using add_node_present [OF inv, of n x] by force
  show "set (hm_values (remove_node n r)) = set (hm_values r) - {n}"
    by (force simp: remove_node_def map_retain_def)
  show "owner_at (add_node x n r) h \<noteq> Some n \<Longrightarrow> owner_at (add_node x n r) h = owner_at r h"
    using inv by (rule add_node_minimal)
  show "owner_at r h \<noteq> Some n \<Longrightarrow> owner_at (remove_node n r) h = owner_at r h"
    using inv by (rule remove_node_minimal)
  show "owner_at r h = Some m \<Longrightarrow> m \<in> set (hm_values r)" for m
    using owner_at_iff [OF inv] by force
qed

lemma sorted_remdups_adj_distinct: "sorted xs \<Longrightarrow> distinct (remdups_adj xs)" for xs :: "'a::linorder list"
  by (induction xs rule: remdups_adj.induct) auto

section \<open>Lemmas: the owned ranges\<close>

lemma hash_in_ranges_iff:
  "hash_in_ranges h rs \<longleftrightarrow>
     (\<exists>(s, e) \<in> set rs. if s \<le> e then s \<le> h \<and> h < e else s \<le> h \<or> h < e)"
  by (induction h rs rule: hash_in_ranges.induct) auto

lemma hash_in_ranges_append [simp]:
  "hash_in_ranges h (rs @ ts) \<longleftrightarrow> hash_in_ranges h rs \<or> hash_in_ranges h ts"
  by (auto simp: hash_in_ranges_iff)

lemma hash_in_concat: "hash_in_ranges h (concat rss) \<longleftrightarrow> (\<exists>rs \<in> set rss. hash_in_ranges h rs)"
  by (induction rss) auto

text \<open>The index of the vnode a position belongs to.\<close>

definition succ_index :: "ring \<Rightarrow> u64 \<Rightarrow> nat" where
  "succ_index r h = length (takeWhile (\<lambda>(p, _). p < h) r)"

lemma succ_index_le: "succ_index r h \<le> length r"
  by (simp add: succ_index_def length_takeWhile_le)

lemma le_pos_iff:
  assumes "sorted (map fst r)" and "i < length r"
  shows "h \<le> fst (r ! i) \<longleftrightarrow> succ_index r h \<le> i"
proof
  assume le: "h \<le> fst (r ! i)"
  show "succ_index r h \<le> i"
  proof (rule ccontr)
    assume "\<not> succ_index r h \<le> i"
    then have i: "i < length (takeWhile (\<lambda>(p, _). p < h) r)" by (simp add: succ_index_def)
    then have "r ! i \<in> set (takeWhile (\<lambda>(p, _). p < h) r)" by (metis nth_mem takeWhile_nth)
    then have "fst (r ! i) < h" by (auto dest!: set_takeWhileD simp: case_prod_unfold)
    with le show False by simp
  qed
next
  assume k: "succ_index r h \<le> i"
  then have "succ_index r h < length r" using assms(2) by simp
  then have "h \<le> fst (r ! succ_index r h)"
    using nth_length_takeWhile [of "\<lambda>(p, _). p < h" r] by (simp add: succ_index_def case_prod_unfold not_less)
  also have "\<dots> \<le> fst (r ! i)"
    using sorted_nth_mono [OF assms(1) k] assms(2) \<open>succ_index r h < length r\<close> by simp
  finally show "h \<le> fst (r ! i)" .
qed

lemma owner_at_index:
  assumes "bt_invar r" and "r \<noteq> []"
  shows "owner_at r h = Some (snd (r ! (succ_index r h mod length r)))"
proof (cases "succ_index r h < length r")
  case True
  have "find (\<lambda>(p, _). h \<le> p) r = Some (r ! succ_index r h)"
    unfolding find_Some_iff using True le_pos_iff [of r _ h] assms(1)
    by (intro exI [of _ "succ_index r h"]) (auto simp: case_prod_unfold)
  then show ?thesis using True assms(2) by (simp add: owner_at_def case_prod_unfold)
next
  case False
  then have k: "succ_index r h = length r" using succ_index_le [of r h] by simp
  have "find (\<lambda>(p, _). h \<le> p) r = None"
    using le_pos_iff [of r _ h] assms(1) k by (auto simp: find_None_iff in_set_conv_nth case_prod_unfold)
      (metis fst_conv not_less)
  then show ?thesis using k assms(2) by (simp add: owner_at_def hd_conv_nth)
qed

lemma word_succ_cmp:
  fixes p h :: u64
  assumes "p \<noteq> - 1"
  shows "p + 1 \<le> h \<longleftrightarrow> p < h" and "h < p + 1 \<longleftrightarrow> h \<le> p"
proof -
  have "unat p \<noteq> unat (- 1 :: u64)" using assms by (metis word_unat_eq_iff)
  moreover have "unat p \<le> unat (- 1 :: u64)" using word_n1_ge [of p] by (simp add: word_le_nat_alt)
  ultimately have "unat p < unat (- 1 :: u64)" by simp
  then have "unat p + 1 < 2 ^ 64" by (simp add: unsigned_minus_1_eq_mask mask_eq_exp_minus_1)
  then have u: "unat (p + 1) = unat p + 1"
    using unat_word_ariths(1) [of p 1] by simp
  show "p + 1 \<le> h \<longleftrightarrow> p < h" "h < p + 1 \<longleftrightarrow> h \<le> p"
    unfolding word_le_nat_alt word_less_nat_alt u by auto
qed

lemma vnode_ranges_index:
  assumes inv: "bt_invar r" and i: "i < length r" and nomax: "\<And>p. p \<in> fst ` set r \<Longrightarrow> p \<noteq> - 1"
    and h: "h \<noteq> - 1"
  shows "hash_in_ranges h (vnode_ranges r i) \<longleftrightarrow> succ_index r h mod length r = i"
proof -
  have nm: "fst (r ! j) \<noteq> - 1" if "j < length r" for j using nomax that by simp
  note cmp = word_succ_cmp [OF nm]
  have idx: "h \<le> fst (r ! j) \<longleftrightarrow> succ_index r h \<le> j" if "j < length r" for j
    using le_pos_iff [OF _ that] inv by simp
  have lt: "fst (r ! j) < h \<longleftrightarrow> j < succ_index r h" if "j < length r" for j
    using idx [OF that] by auto
  have hm: "h < - 1" using h by (metis antisym not_le word_n1_ge)
  show ?thesis
  proof (cases "i = 0")
    case True
    have l: "length r - 1 < length r" using i by simp
    have "fst (r ! 0) \<le> fst (r ! (length r - 1))"
      using inv i l sorted_nth_mono [of "map fst r" 0 "length r - 1"] nth_map [of 0 r fst] True by auto
    then have "\<not> fst (r ! (length r - 1)) < fst (r ! 0)" by simp
    then have "hash_in_ranges h (vnode_ranges r i) \<longleftrightarrow>
        length r - 1 < succ_index r h \<or> succ_index r h \<le> 0"
      using True hm cmp [OF l, of h] cmp [OF i, of h] lt [OF l] idx [OF i] cmp(1) [OF l, of "- 1"]
      by (auto simp: vnode_ranges_def Let_def)
    moreover have "length r - 1 < succ_index r h \<longleftrightarrow> succ_index r h = length r"
      using succ_index_le [of r h] i by auto
    ultimately show ?thesis
      using succ_index_le [of r h] i True by (cases "succ_index r h = length r") (auto simp: mod_less)
  next
    case False
    then have p: "i - 1 < length r" using i by simp
    have "fst (r ! (i - 1)) < fst (r ! i)"
      using inv i False sorted_wrt_nth_less [of "(<)" "map fst r" "i - 1" i]
      by (simp add: strict_sorted_iff)
    moreover from this have "fst (r ! (i - 1)) + 1 \<le> fst (r ! i) + 1"
      using cmp(1) [OF p, of "fst (r ! i) + 1"] cmp(2) [OF i, of "fst (r ! (i - 1))"] by simp
    ultimately have "hash_in_ranges h (vnode_ranges r i) \<longleftrightarrow> i - 1 < succ_index r h \<and> succ_index r h \<le> i"
      using False cmp [OF p, of h] cmp [OF i, of h] lt [OF p] idx [OF i]
      by (simp add: vnode_ranges_def Let_def)
    also have "\<dots> \<longleftrightarrow> succ_index r h mod length r = i"
      using False i succ_index_le [of r h] by (cases "succ_index r h = length r") auto
    finally show ?thesis .
  qed
qed

lemma owned_ranges_owner:
  assumes "bt_invar r" and "- 1 \<notin> fst ` set r" and "h \<noteq> - 1"
  shows "hash_in_ranges h (get_owned_ranges r n) \<longleftrightarrow> owner_at r h = Some n"
proof (cases "r = []")
  case True
  then show ?thesis by (simp add: get_owned_ranges_def owner_at_def)
next
  case False
  have v: "hash_in_ranges h (vnode_ranges r i) \<longleftrightarrow> succ_index r h mod length r = i" if "i < length r" for i
    using vnode_ranges_index [OF assms(1) that _ assms(3)] assms(2) by auto
  have "hash_in_ranges h (get_owned_ranges r n) \<longleftrightarrow>
      (\<exists>i < length r. snd (r ! i) = n \<and> hash_in_ranges h (vnode_ranges r i))"
    using False by (auto simp: get_owned_ranges_def hash_in_concat)
  also have "\<dots> \<longleftrightarrow> snd (r ! (succ_index r h mod length r)) = n"
    using v False by (auto intro!: exI [of _ "succ_index r h mod length r"])
  finally show ?thesis using owner_at_index [OF assms(1) False, of h] by simp
qed

section \<open>Properties\<close>

text \<open>
  C22. Consistent hashing: when nodes join, a key either keeps its owner or moves to one of the
  nodes that joined, and when nodes leave, every key of a node that stays keeps its owner.
\<close>

theorem membership_moves_only_needed_keys:
  assumes "bt_invar r"
  shows "(get_owner x (fold (add_node x) ns r) key = get_owner x r key \<or>
      (\<exists>n \<in> set ns. get_owner x (fold (add_node x) ns r) key = Some n)) \<and>
    (get_owner x r key = Some m \<longrightarrow> m \<notin> set ns \<longrightarrow> get_owner x (fold remove_node ns r) key = Some m)"
  using ring.joins_minimal [OF assms, of x ns "x key"] ring.leaves_minimal [OF assms, of "x key" m ns]
  unfolding get_owner_def by blast

definition two_rings :: ring where
  "two_rings = [(10, ''a''), (20, ''b''), (30, ''a'')]"

theorem membership_moves_only_needed_keys_witness:
  "bt_invar two_rings \<and> get_owner (\<lambda>_. 25) two_rings ''k'' = Some ''a'' \<and>
   get_owner (\<lambda>_. 25) (fold remove_node [''b''] two_rings) ''k'' = Some ''a''"
proof -
  have inv: "bt_invar two_rings" by (simp add: two_rings_def)
  have o: "get_owner (\<lambda>_. 25) two_rings ''k'' = Some ''a''"
    by (simp add: two_rings_def get_owner_def owner_at_def)
  show ?thesis
    using inv o membership_moves_only_needed_keys [OF inv, of "\<lambda>_. 25" "[''b'']" "''k''" "''a''"] by simp
qed

text \<open>
  C23. The ranges a node asks its peers for during migration are exactly the positions it owns:
  outside the last position, and as long as no vnode sits there, a hash is in the owned ranges
  of a node if and only if the ring assigns it to that node.
\<close>

theorem owned_ranges_are_ownership:
  assumes "bt_invar r" and "- 1 \<notin> fst ` set r" and "h \<noteq> - 1"
  shows "hash_in_ranges h (get_owned_ranges r n) \<longleftrightarrow> owner_at r h = Some n"
  using assms by (rule owned_ranges_owner)

theorem owned_ranges_are_ownership_witness:
  "hash_in_ranges 35 (get_owned_ranges two_rings ''a'') \<and> \<not> hash_in_ranges 35 (get_owned_ranges two_rings ''b'')"
proof -
  have inv: "bt_invar two_rings" "- 1 \<notin> fst ` set two_rings" "(35 :: u64) \<noteq> - 1"
    by (simp_all add: two_rings_def)
  have "owner_at two_rings 35 = Some ''a''" by (simp add: two_rings_def owner_at_def)
  then show ?thesis
    using owned_ranges_are_ownership [OF inv, of "''a''"] owned_ranges_are_ownership [OF inv, of "''b''"] by simp
qed

text \<open>
  C31. The last position of the ring is lost to migration: with no vnode there it belongs to the
  owner of the first vnode, yet it is in the owned ranges of no node at all.
\<close>

theorem last_position_never_migrates:
  assumes "bt_invar r" and "r \<noteq> []" and "- 1 \<notin> fst ` set r"
  shows "owner_at r (- 1) = Some (snd (hd r)) \<and> \<not> hash_in_ranges (- 1) (get_owned_ranges r n)"
proof
  have lt: "p < - 1" if "p \<in> fst ` set r" for p
    using that assms(3) by (metis antisym not_le word_n1_ge)
  then have "find (\<lambda>(p, _). - 1 \<le> p) r = None" by (force simp: find_None_iff)
  then show "owner_at r (- 1) = Some (snd (hd r))" using assms(2) by (simp add: owner_at_def)
  have "\<not> hash_in_ranges (- 1) (vnode_ranges r i)" if "i < length r" for i
  proof -
    have "fst (r ! j) \<noteq> - 1" if "j < length r" for j using lt [of "fst (r ! j)"] that by auto
    note c = word_succ_cmp [OF this]
    have l: "length r - 1 < length r" "i - 1 < length r" using that by auto
    show ?thesis
      using c [OF that, of "- 1"] c [OF l(1), of "- 1"] c [OF l(2), of "- 1"] lt [of "fst (r ! i)"]
        lt [of "fst (r ! (length r - 1))"] lt [of "fst (r ! (i - 1))"] that l
        c(1) [OF l(1), of "fst (r ! i) + 1"] c(1) [OF l(2), of "fst (r ! i) + 1"]
        c(2) [OF that, of "fst (r ! (i - 1))"] c(2) [OF that, of "fst (r ! (length r - 1))"]
      by (auto simp: vnode_ranges_def Let_def not_le split: if_splits)
  qed
  then show "\<not> hash_in_ranges (- 1) (get_owned_ranges r n)"
    using assms(2) by (auto simp: get_owned_ranges_def hash_in_concat)
qed

theorem last_position_never_migrates_witness:
  "owner_at two_rings (- 1) = Some ''a'' \<and> \<not> hash_in_ranges (- 1) (get_owned_ranges two_rings ''a'')"
  using last_position_never_migrates [of two_rings "''a''"] by (simp add: two_rings_def)

text \<open>
  \<open>nodes()\<close> lists the members of the ring in order without duplicates, \<open>node_count()\<close>
  counts them, and after a join and a leave they are the members one expects.
\<close>

theorem ring_nodes_correct:
  assumes "bt_invar r"
  shows "set (ring_nodes r) = set (hm_values r) \<and> sorted (ring_nodes r) \<and> distinct (ring_nodes r) \<and>
    node_count r = card (set (hm_values r)) \<and>
    n \<in> set (ring_nodes (add_node x n r)) \<and> set (ring_nodes (remove_node n r)) = set (ring_nodes r) - {n}"
proof -
  have d: "distinct (ring_nodes r)" for r
    by (simp add: ring_nodes_def sorted_remdups_adj_distinct)
  have s: "set (ring_nodes r) = set (hm_values r)" for r by (simp add: ring_nodes_def)
  have "node_count r = card (set (hm_values r))"
    using distinct_card [OF d, of r] s by (simp add: node_count_def ring_nodes_def)
  then show ?thesis
    using d s ring.join_member [OF assms, of n x] ring.members_leave [OF assms, of n]
    by (simp add: ring_nodes_def sorted_remdups_adj)
qed

theorem ring_nodes_correct_witness:
  "set (ring_nodes two_rings) = {''a'', ''b''} \<and> node_count two_rings = 2"
  using ring_nodes_correct [of two_rings "''a''" "\<lambda>_. 0"]
  by (auto simp: two_rings_def insert_commute card_insert_if)

end
