(* ===== verification/MetadataStore.thy ===== *)
theory MetadataStore
  imports HashRing
begin

text \<open>
  The metadata store, \<^verbatim>\<open>storage-metadata/src/metadata_store.rs\<close>: objects, their chunks, the
  registered storage nodes, and the snapshot file that every mutation rewrites.

  Third-party code is a parameter: the JSON encoder \<open>ser\<close> and decoder \<open>de\<close> of serde, the URI parser
  \<open>valid_uri\<close> and the random number generator. The record carries, beside the four fields of the
  source, the environment its methods use: the file system and the generator's state. The file
  system answers each call from a plan, as in the file model of the chunk store: \<open>Failed e n\<close>
  fails with \<open>e\<close>, a write after \<open>n\<close> bytes.
\<close>

section \<open>Data\<close>

record MetaStorageNode =
  msn_id :: u64
  msn_address :: string

datatype ChunkStatus = Pending | Confirmed

definition ChunkStatus_default :: ChunkStatus where
  "ChunkStatus_default = Confirmed"

instantiation ChunkStatus :: default
begin

definition default_ChunkStatus :: ChunkStatus where
  "default_ChunkStatus = ChunkStatus_default"

instance ..

end

record MetaChunk =
  mc_id :: u64
  mc_object_name :: string
  mc_checksum :: u32
  mc_storage_nodes :: "u64 list"
  mc_status :: ChunkStatus

record MetaObject =
  mo_name :: string
  mo_checksum :: u32
  mo_chunks :: "u64 list"
  mo_total_size :: u64

definition PERSISTENT_STATE_VERSION :: u32 where
  "PERSISTENT_STATE_VERSION = 1"

record PersistentState =
  ps_version :: u32
  ps_objects :: "(string, MetaObject) hashmap"
  ps_chunks :: "(u64, MetaChunk) hashmap"

section \<open>The environment\<close>

datatype fs_answer = Served | Failed io_error_kind nat

record fs =
  fs_files :: "string \<Rightarrow> string option"
  fs_plan :: "fs_answer list"

definition fs_next :: "fs \<Rightarrow> fs_answer \<times> fs" where
  "fs_next d = (case fs_plan d of [] \<Rightarrow> (Served, d) | a # p \<Rightarrow> (a, d\<lparr>fs_plan := p\<rparr>))"

definition fs_set :: "string \<Rightarrow> string option \<Rightarrow> fs \<Rightarrow> fs" where
  "fs_set p c d = d\<lparr>fs_files := (fs_files d)(p := c)\<rparr>"

text \<open>A call that changes nothing (open for reading, metadata, \<open>sync_data\<close>).\<close>

definition fs_probe :: "fs \<Rightarrow> unit io \<times> fs" where
  "fs_probe d = (case fs_next d of (Served, d') \<Rightarrow> (Ok (), d') | (Failed e _, d') \<Rightarrow> (Err e, d'))"

definition fs_open_truncate :: "string \<Rightarrow> fs \<Rightarrow> unit io \<times> fs" where
  "fs_open_truncate p d =
     (case fs_next d of (Served, d') \<Rightarrow> (Ok (), fs_set p (Some []) d') | (Failed e _, d') \<Rightarrow> (Err e, d'))"

definition fs_write_all :: "string \<Rightarrow> string \<Rightarrow> fs \<Rightarrow> unit io \<times> fs" where
  "fs_write_all p bs d =
     (case fs_next d of
        (Served, d') \<Rightarrow> (Ok (), fs_set p (Some bs) d')
      | (Failed e n, d') \<Rightarrow> (Err e, fs_set p (Some (take n bs)) d'))"

definition fs_rename :: "string \<Rightarrow> string \<Rightarrow> fs \<Rightarrow> unit io \<times> fs" where
  "fs_rename p q d =
     (case fs_next d of
        (Served, d') \<Rightarrow> (Ok (), fs_set q (fs_files d' p) (fs_set p None d'))
      | (Failed e _, d') \<Rightarrow> (Err e, d'))"

text \<open>\<open>PathBuf::with_extension\<close>: the file name up to its last dot, unless that dot starts it.\<close>

definition with_extension :: "string \<Rightarrow> string \<Rightarrow> string" where
  "with_extension path ext =
     (let name = rev (takeWhile (\<lambda>c. c \<noteq> CHR ''/'') (rev path));
          dir = take (length path - length name) path;
          tail = rev (takeWhile (\<lambda>c. c \<noteq> CHR ''.'') (rev name));
          stem = (if length tail + 1 < length name then take (length name - length tail - 1) name
                  else name) in
      dir @ stem @ CHR ''.'' # ext)"

record 'g rand =
  rand_u64 :: "'g \<Rightarrow> u64 \<times> 'g"
  rand_choose :: "nat \<Rightarrow> 'g \<Rightarrow> nat \<times> 'g"

record 'g MetadataStore =
  ms_path :: string
  ms_objects :: "(string, MetaObject) hashmap"
  ms_chunks :: "(u64, MetaChunk) hashmap"
  ms_storage_nodes :: "(u64, MetaStorageNode) hashmap"
  ms_disk :: fs
  ms_rng :: 'g

type_synonym json_ser = "PersistentState \<Rightarrow> string option"
type_synonym json_de = "string \<Rightarrow> PersistentState option"

section \<open>Constructors and small methods\<close>

definition MetaStorageNode_new :: "(string \<Rightarrow> bool) \<Rightarrow> u64 \<Rightarrow> string \<Rightarrow> MetaStorageNode io" where
  "MetaStorageNode_new valid_uri i address =
     (if valid_uri address then Ok \<lparr>msn_id = i, msn_address = address\<rparr> else Err InvalidInput)"

datatype health_error = Health_timeout | Health_transport code

definition node_check_health ::
  "(string \<Rightarrow> ('c, code) attempt) \<Rightarrow> ('c \<Rightarrow> (bool, code) attempt) \<Rightarrow> MetaStorageNode
     \<Rightarrow> (bool, health_error) result" where
  "node_check_health connect rpc node =
     (case connect (msn_address node) of
        Elapsed \<Rightarrow> Err Health_timeout
      | Answered (Err e) \<Rightarrow> Err (Health_transport e)
      | Answered (Ok client) \<Rightarrow>
          (case rpc client of
             Elapsed \<Rightarrow> Err Health_timeout
           | Answered (Err e) \<Rightarrow> Err (Health_transport e)
           | Answered (Ok healthy) \<Rightarrow> Ok healthy))"

definition MetaChunk_new :: "u64 \<Rightarrow> u32 \<Rightarrow> string \<Rightarrow> MetaChunk" where
  "MetaChunk_new i c object_name =
     \<lparr>mc_id = i, mc_object_name = object_name, mc_checksum = c, mc_storage_nodes = [],
      mc_status = Confirmed\<rparr>"

definition MetaChunk_new_pending :: "u64 \<Rightarrow> string \<Rightarrow> MetaChunk" where
  "MetaChunk_new_pending i object_name =
     \<lparr>mc_id = i, mc_object_name = object_name, mc_checksum = 0, mc_storage_nodes = [],
      mc_status = Pending\<rparr>"

definition add_storage_node :: "u64 \<Rightarrow> MetaChunk \<Rightarrow> MetaChunk" where
  "add_storage_node n c = c\<lparr>mc_storage_nodes := mc_storage_nodes c @ [n]\<rparr>"

definition MetaObject_new :: "string \<Rightarrow> u32 \<Rightarrow> MetaObject" where
  "MetaObject_new name c = \<lparr>mo_name = name, mo_checksum = c, mo_chunks = [], mo_total_size = 0\<rparr>"

definition add_chunk :: "u64 \<Rightarrow> MetaObject \<Rightarrow> MetaObject" where
  "add_chunk i ob = ob\<lparr>mo_chunks := mo_chunks ob @ [i]\<rparr>"

section \<open>Loading and saving\<close>

text \<open>\<open>exists\<close> is the answer of \<open>Path::exists\<close>, which reports false on an error too.\<close>

definition ms_load :: "json_de \<Rightarrow> bool \<Rightarrow> string \<Rightarrow> fs
    \<Rightarrow> ((string, MetaObject) hashmap \<times> (u64, MetaChunk) hashmap) io \<times> fs" where
  "ms_load de exists path d =
     (if exists then
        case fs_probe d of
          (Err e, d1) \<Rightarrow> (Err e, d1)
        | (Ok _, d1) \<Rightarrow>
            case fs_probe d1 of
              (Err e, d2) \<Rightarrow> (Err e, d2)
            | (Ok _, d2) \<Rightarrow>
                let contents = (case fs_files d2 path of Some c \<Rightarrow> c | None \<Rightarrow> []) in
                if length contents > 0 then
                  case fs_probe d2 of
                    (Err e, d3) \<Rightarrow> (Err e, d3)
                  | (Ok _, d3) \<Rightarrow>
                      (case de contents of
                         Some state \<Rightarrow> (Ok (ps_objects state, ps_chunks state), d3)
                       | None \<Rightarrow> (Ok ([], []), d3))
                else (Ok ([], []), d2)
      else (Ok ([], []), d))"

definition ms_new :: "json_de \<Rightarrow> bool \<Rightarrow> string \<Rightarrow> fs \<Rightarrow> 'g \<Rightarrow> 'g MetadataStore io \<times> fs" where
  "ms_new de exists path d g =
     (case ms_load de exists path d of
        (Err e, d') \<Rightarrow> (Err e, d')
      | (Ok (objs, chs), d') \<Rightarrow>
          (Ok \<lparr>ms_path = path, ms_objects = objs, ms_chunks = chs, ms_storage_nodes = [],
               ms_disk = d', ms_rng = g\<rparr>, d'))"

definition ms_new_with_node ::
  "json_de \<Rightarrow> bool \<Rightarrow> string \<Rightarrow> string \<Rightarrow> fs \<Rightarrow> 'g \<Rightarrow> 'g MetadataStore io \<times> fs" where
  "ms_new_with_node de exists data_dir node_id d g =
     ms_new de exists (data_dir @ ''/metadata-'' @ node_id @ ''.dat'') d g"

definition persistent_state :: "'g MetadataStore \<Rightarrow> PersistentState" where
  "persistent_state st =
     \<lparr>ps_version = PERSISTENT_STATE_VERSION, ps_objects = ms_objects st, ps_chunks = ms_chunks st\<rparr>"

definition ms_save :: "json_ser \<Rightarrow> 'g MetadataStore \<Rightarrow> unit io \<times> 'g MetadataStore" where
  "ms_save ser st =
     (case ser (persistent_state st) of
        None \<Rightarrow> (Err OtherError, st)
      | Some json \<Rightarrow>
          let tmp_path = with_extension (ms_path st) ''tmp'' in
          case fs_open_truncate tmp_path (ms_disk st) of
            (Err e, d1) \<Rightarrow> (Err e, st\<lparr>ms_disk := d1\<rparr>)
          | (Ok _, d1) \<Rightarrow>
              case fs_write_all tmp_path json d1 of
                (Err e, d2) \<Rightarrow> (Err e, st\<lparr>ms_disk := d2\<rparr>)
              | (Ok _, d2) \<Rightarrow>
                  case fs_probe d2 of
                    (Err e, d3) \<Rightarrow> (Err e, st\<lparr>ms_disk := d3\<rparr>)
                  | (Ok _, d3) \<Rightarrow>
                      case fs_rename tmp_path (ms_path st) d3 of
                        (r, d4) \<Rightarrow> (r, st\<lparr>ms_disk := d4\<rparr>))"

section \<open>Ids and nodes\<close>

text \<open>The loop may never draw an unused id: \<open>None\<close> is not returning.\<close>

partial_function (option) generate_unique_id ::
  "('g \<Rightarrow> u64 \<times> 'g) \<Rightarrow> (u64, 'v) hashmap \<Rightarrow> 'g \<Rightarrow> (u64 \<times> 'g) option" where
  "generate_unique_id gen id_map g =
     (let (i, g') = gen g in
      if hm_contains id_map i then generate_unique_id gen id_map g' else Some (i, g'))"

definition construct_storage_node ::
  "'g rand \<Rightarrow> (string \<Rightarrow> bool) \<Rightarrow> string \<Rightarrow> 'g MetadataStore \<Rightarrow> (u64 io \<times> 'g MetadataStore) option" where
  "construct_storage_node R valid_uri address st =
     (case generate_unique_id (rand_u64 R) (ms_storage_nodes st) (ms_rng st) of
        None \<Rightarrow> None
      | Some (i, g) \<Rightarrow>
          (case MetaStorageNode_new valid_uri i address of
             Err e \<Rightarrow> Some (Err e, st\<lparr>ms_rng := g\<rparr>)
           | Ok node \<Rightarrow>
               Some (Ok i, st\<lparr>ms_rng := g, ms_storage_nodes := hm_insert i node (ms_storage_nodes st)\<rparr>)))"

definition choose_storage_node ::
  "'g rand \<Rightarrow> 'g MetadataStore \<Rightarrow> MetaStorageNode option \<times> 'g MetadataStore" where
  "choose_storage_node R st =
     (if ms_storage_nodes st = [] then (None, st)
      else case rand_choose R (length (ms_storage_nodes st)) (ms_rng st) of
             (k, g) \<Rightarrow> (Some (hm_values (ms_storage_nodes st) ! k), st\<lparr>ms_rng := g\<rparr>))"

definition get_storage_node :: "u64 \<Rightarrow> 'g MetadataStore \<Rightarrow> string io" where
  "get_storage_node storage_node_id st =
     (case hm_get (ms_storage_nodes st) storage_node_id of
        Some node \<Rightarrow> Ok (msn_address node)
      | None \<Rightarrow> Err NotFound)"

definition list_storage_nodes :: "'g MetadataStore \<Rightarrow> MetaStorageNode list" where
  "list_storage_nodes st = hm_values (ms_storage_nodes st)"

definition delete_storage_node :: "u64 \<Rightarrow> 'g MetadataStore \<Rightarrow> unit io \<times> 'g MetadataStore" where
  "delete_storage_node storage_node_id st =
     (case hm_get (ms_storage_nodes st) storage_node_id of
        Some _ \<Rightarrow> (Ok (), st\<lparr>ms_storage_nodes := hm_remove storage_node_id (ms_storage_nodes st)\<rparr>)
      | None \<Rightarrow> (Err NotFound, st))"

section \<open>Objects\<close>

definition put_object :: "json_ser \<Rightarrow> u32 \<Rightarrow> string \<Rightarrow> 'g MetadataStore \<Rightarrow> unit io \<times> 'g MetadataStore" where
  "put_object ser c name st =
     (if hm_contains (ms_objects st) name then (Err AlreadyExists, st)
      else ms_save ser (st\<lparr>ms_objects := hm_insert name (MetaObject_new name c) (ms_objects st)\<rparr>))"

definition get_object :: "string \<Rightarrow> 'g MetadataStore \<Rightarrow> MetaObject io" where
  "get_object object_name st =
     (case hm_get (ms_objects st) object_name of Some ob \<Rightarrow> Ok ob | None \<Rightarrow> Err NotFound)"

text \<open>A mutable borrow: \<open>f\<close> is what the caller writes through the reference.\<close>

definition get_object_mut :: "string \<Rightarrow> (MetaObject \<Rightarrow> MetaObject) \<Rightarrow> 'g MetadataStore \<Rightarrow> unit io \<times> 'g MetadataStore" where
  "get_object_mut object_name f st =
     (case hm_get (ms_objects st) object_name of
        Some ob \<Rightarrow> (Ok (), st\<lparr>ms_objects := hm_insert object_name (f ob) (ms_objects st)\<rparr>)
      | None \<Rightarrow> (Err NotFound, st))"

definition remove_chunks :: "u64 list \<Rightarrow> 'g MetadataStore \<Rightarrow> 'g MetadataStore" where
  "remove_chunks is st = st\<lparr>ms_chunks := fold hm_remove is (ms_chunks st)\<rparr>"

definition delete_object :: "json_ser \<Rightarrow> string \<Rightarrow> 'g MetadataStore \<Rightarrow> unit io \<times> 'g MetadataStore" where
  "delete_object ser object_name st =
     (case hm_get (ms_objects st) object_name of
        None \<Rightarrow> (Err NotFound, st)
      | Some ob \<Rightarrow>
          ms_save ser (remove_chunks (mo_chunks ob) (st\<lparr>ms_objects := hm_remove object_name (ms_objects st)\<rparr>)))"

definition list_objects :: "'g MetadataStore \<Rightarrow> MetaObject list" where
  "list_objects st = hm_values (ms_objects st)"

definition update_object_checksum ::
  "json_ser \<Rightarrow> string \<Rightarrow> u32 \<Rightarrow> u64 \<Rightarrow> 'g MetadataStore \<Rightarrow> unit io \<times> 'g MetadataStore" where
  "update_object_checksum ser object_name c total_size st =
     (case hm_get (ms_objects st) object_name of
        None \<Rightarrow> (Err NotFound, st)
      | Some ob \<Rightarrow>
          ms_save ser (st\<lparr>ms_objects := hm_insert object_name
            (ob\<lparr>mo_checksum := c, mo_total_size := total_size\<rparr>) (ms_objects st)\<rparr>))"

section \<open>Chunks\<close>

definition put_chunk :: "'g rand \<Rightarrow> json_ser \<Rightarrow> string \<Rightarrow> u32 \<Rightarrow> 'g MetadataStore
    \<Rightarrow> ((u64 \<times> string) io \<times> 'g MetadataStore) option" where
  "put_chunk R ser object_name c st =
     (case generate_unique_id (rand_u64 R) (ms_chunks st) (ms_rng st) of
        None \<Rightarrow> None
      | Some (chunk_id, g) \<Rightarrow>
          (case choose_storage_node R (st\<lparr>ms_rng := g\<rparr>) of
             (None, st1) \<Rightarrow> Some (Err HostUnreachable, st1)
           | (Some node, st1) \<Rightarrow>
               let chunk = add_storage_node (msn_id node) (MetaChunk_new chunk_id c object_name);
                   st2 = st1\<lparr>ms_chunks := hm_insert chunk_id chunk (ms_chunks st1)\<rparr> in
               (case hm_get (ms_objects st2) object_name of
                  None \<Rightarrow> Some (Err NotFound, st2)
                | Some ob \<Rightarrow>
                    (case ms_save ser (st2\<lparr>ms_objects :=
                        hm_insert object_name (add_chunk chunk_id ob) (ms_objects st2)\<rparr>) of
                       (Err e, st3) \<Rightarrow> Some (Err e, st3)
                     | (Ok _, st3) \<Rightarrow> Some (Ok (chunk_id, msn_address node), st3)))))"

definition allocate_chunk :: "'g rand \<Rightarrow> string \<Rightarrow> 'g MetadataStore
    \<Rightarrow> ((u64 \<times> u64 \<times> string) io \<times> 'g MetadataStore) option" where
  "allocate_chunk R object_name st =
     (case generate_unique_id (rand_u64 R) (ms_chunks st) (ms_rng st) of
        None \<Rightarrow> None
      | Some (chunk_id, g) \<Rightarrow>
          (case choose_storage_node R (st\<lparr>ms_rng := g\<rparr>) of
             (None, st1) \<Rightarrow> Some (Err HostUnreachable, st1)
           | (Some node, st1) \<Rightarrow>
               Some (Ok (chunk_id, msn_id node, msn_address node),
                 st1\<lparr>ms_chunks :=
                   hm_insert chunk_id (MetaChunk_new_pending chunk_id object_name) (ms_chunks st1)\<rparr>)))"

definition confirm_chunk :: "json_ser \<Rightarrow> u64 \<Rightarrow> string \<Rightarrow> u32 \<Rightarrow> u64 \<Rightarrow> 'g MetadataStore
    \<Rightarrow> unit io \<times> 'g MetadataStore" where
  "confirm_chunk ser chunk_id object_name c storage_node_id st =
     (if \<not> hm_contains (ms_storage_nodes st) storage_node_id then (Err NotFound, st)
      else if (case hm_get (ms_chunks st) chunk_id of
                 Some existing \<Rightarrow> mc_status existing = Confirmed | None \<Rightarrow> False)
      then (Err AlreadyExists, st)
      else case hm_get (ms_objects st) object_name of
             None \<Rightarrow> (Err NotFound, st)
           | Some ob \<Rightarrow>
               let chunk = add_storage_node storage_node_id (MetaChunk_new chunk_id c object_name) in
               ms_save ser (st\<lparr>ms_chunks := hm_insert chunk_id chunk (ms_chunks st),
                 ms_objects := hm_insert object_name (add_chunk chunk_id ob) (ms_objects st)\<rparr>))"

definition get_chunk :: "u64 \<Rightarrow> 'g MetadataStore \<Rightarrow> (string \<times> MetaChunk) io" where
  "get_chunk chunk_id st =
     (case hm_get (ms_chunks st) chunk_id of
        None \<Rightarrow> Err NotFound
      | Some chunk \<Rightarrow> Ok (mc_object_name chunk, chunk))"

definition get_chunk_mut :: "u64 \<Rightarrow> (MetaChunk \<Rightarrow> MetaChunk) \<Rightarrow> 'g MetadataStore \<Rightarrow> unit io \<times> 'g MetadataStore" where
  "get_chunk_mut chunk_id f st =
     (case hm_get (ms_chunks st) chunk_id of
        Some chunk \<Rightarrow> (Ok (), st\<lparr>ms_chunks := hm_insert chunk_id (f chunk) (ms_chunks st)\<rparr>)
      | None \<Rightarrow> (Err NotFound, st))"

definition delete_chunk :: "json_ser \<Rightarrow> u64 \<Rightarrow> 'g MetadataStore \<Rightarrow> unit io \<times> 'g MetadataStore" where
  "delete_chunk ser chunk_id st =
     (case hm_get (ms_chunks st) chunk_id of
        None \<Rightarrow> (Err NotFound, st)
      | Some chunk \<Rightarrow>
          let st1 = st\<lparr>ms_chunks := hm_remove chunk_id (ms_chunks st)\<rparr> in
          (case hm_get (ms_objects st1) (mc_object_name chunk) of
             None \<Rightarrow> (Err NotFound, st1)
           | Some ob \<Rightarrow>
               ms_save ser (st1\<lparr>ms_objects := hm_insert (mc_object_name chunk)
                 (ob\<lparr>mo_chunks := filter (\<lambda>i. i \<noteq> chunk_id) (mo_chunks ob)\<rparr>) (ms_objects st1)\<rparr>)))"

definition list_under_replicated_chunks :: "u32 \<Rightarrow> 'g MetadataStore \<Rightarrow> MetaChunk list" where
  "list_under_replicated_chunks max_replicas st =
     sort_key (\<lambda>c. length (mc_storage_nodes c))
       (filter (\<lambda>c. mc_status c = Confirmed \<and> length (mc_storage_nodes c) < unat max_replicas)
         (hm_values (ms_chunks st)))"

definition MAX_REPLICAS :: nat where
  "MAX_REPLICAS = 3"

definition add_chunk_replica ::
  "json_ser \<Rightarrow> u64 \<Rightarrow> u64 \<Rightarrow> 'g MetadataStore \<Rightarrow> unit io \<times> 'g MetadataStore" where
  "add_chunk_replica ser chunk_id storage_node_id st =
     (if \<not> hm_contains (ms_storage_nodes st) storage_node_id then (Err NotFound, st)
      else case hm_get (ms_chunks st) chunk_id of
             None \<Rightarrow> (Err NotFound, st)
           | Some chunk \<Rightarrow>
               if storage_node_id \<in> set (mc_storage_nodes chunk) then (Err AlreadyExists, st)
               else if length (mc_storage_nodes chunk) \<ge> MAX_REPLICAS then (Err InvalidInput, st)
               else ms_save ser (st\<lparr>ms_chunks :=
                 hm_insert chunk_id (add_storage_node storage_node_id chunk) (ms_chunks st)\<rparr>))"

section \<open>Migration helpers\<close>

definition objects_in_hash_ranges ::
  "(string \<Rightarrow> u64) \<Rightarrow> (u64 \<times> u64) list \<Rightarrow> 'g MetadataStore \<Rightarrow> (MetaObject \<times> MetaChunk list) list" where
  "objects_in_hash_ranges xxh3_64 ranges st =
     map (\<lambda>ob. (ob, List.map_filter (hm_get (ms_chunks st)) (mo_chunks ob)))
       (filter (\<lambda>ob. hash_in_ranges (hash_key xxh3_64 (mo_name ob)) ranges) (hm_values (ms_objects st)))"

definition ingest_partition ::
  "json_ser \<Rightarrow> MetaObject list \<Rightarrow> MetaChunk list \<Rightarrow> 'g MetadataStore \<Rightarrow> unit io \<times> 'g MetadataStore" where
  "ingest_partition ser objs chs st =
     ms_save ser (st\<lparr>
       ms_objects := fold (\<lambda>ob. hm_insert (mo_name ob) ob) objs (ms_objects st),
       ms_chunks := fold (\<lambda>c. hm_insert (mc_id c) c) chs (ms_chunks st)\<rparr>)"

definition remove_one_object :: "string \<Rightarrow> 'g MetadataStore \<Rightarrow> 'g MetadataStore" where
  "remove_one_object name st =
     (case hm_get (ms_objects st) name of
        None \<Rightarrow> st
      | Some ob \<Rightarrow> remove_chunks (mo_chunks ob) (st\<lparr>ms_objects := hm_remove name (ms_objects st)\<rparr>))"

definition remove_objects :: "json_ser \<Rightarrow> string list \<Rightarrow> 'g MetadataStore \<Rightarrow> unit io \<times> 'g MetadataStore" where
  "remove_objects ser names st = ms_save ser (fold remove_one_object names st)"

section \<open>The journal interface\<close>

text \<open>
  What every mutating operation relies on: \<open>commit\<close> never changes the memory image, makes it the
  durable one when it succeeds, and leaves the durable image alone when it fails.
\<close>

locale journal =
  fixes commit :: "'s \<Rightarrow> unit io \<times> 's"
    and mem :: "'s \<Rightarrow> 'm"
    and durable :: "'s \<Rightarrow> 'j option"
    and image :: "'m \<Rightarrow> 'j option"
    and invar :: "'s \<Rightarrow> bool"
  assumes commit_invar: "invar s \<Longrightarrow> commit s = (r, s') \<Longrightarrow> invar s'"
    and commit_mem: "invar s \<Longrightarrow> commit s = (r, s') \<Longrightarrow> mem s' = mem s"
    and commit_ok: "invar s \<Longrightarrow> commit s = (Ok (), s') \<Longrightarrow> durable s' = image (mem s) \<and> image (mem s) \<noteq> None"
    and commit_err: "invar s \<Longrightarrow> commit s = (Err e, s') \<Longrightarrow> durable s' = durable s"
begin

text \<open>
  After any sequence of in-memory updates, each followed by a commit, the durable image is the
  initial one or that of the memory after some update: never a mixture.
\<close>

lemma durable_is_a_snapshot:
  assumes "invar s" and "\<And>f s. f \<in> set fs \<Longrightarrow> invar s \<Longrightarrow> invar (f s) \<and> durable (f s) = durable s"
  shows "durable (fold (\<lambda>f s. snd (commit (f s))) fs s) = durable s \<or>
    (\<exists>k \<le> length fs. durable (fold (\<lambda>f s. snd (commit (f s))) fs s) =
       image (mem (fold (\<lambda>f s. snd (commit (f s))) (take k fs) s)))"
  using assms
proof (induction fs rule: rev_induct)
  case (snoc f fs)
  let ?run = "\<lambda>fs. fold (\<lambda>f s. snd (commit (f s))) fs s"
  have inv: "invar (?run fs)" using snoc.prems
  proof (induction fs arbitrary: s)
    case (Cons g gs)
    then have "invar (g s)" by simp
    then have "invar (snd (commit (g s)))" by (metis commit_invar prod.collapse)
    with Cons show ?case by simp
  qed simp
  have f: "invar (f (?run fs))" "durable (f (?run fs)) = durable (?run fs)" using snoc.prems(2) inv by auto
  obtain r s' where c: "commit (f (?run fs)) = (r, s')" by fastforce
  have IH: "durable (?run fs) = durable s \<or> (\<exists>k \<le> length fs. durable (?run fs) = image (mem (?run (take k fs))))"
    using snoc by simp
  show ?case
  proof (cases r)
    case (Ok u)
    then have "durable s' = image (mem s')" using commit_ok commit_mem f(1) c by (metis old.unit.exhaust)
    then show ?thesis using c by (intro disjI2 exI [of _ "length fs + 1"]) simp
  next
    case (Err e)
    then have "durable s' = durable (?run fs)" using commit_err f c by metis
    moreover have "take k (fs @ [f]) = take k fs" if "k \<le> length fs" for k using that by simp
    ultimately show ?thesis using IH c by (auto intro: le_SucI)
  qed
qed simp

end

section \<open>Lemmas: saving\<close>

definition safe_path :: "'g MetadataStore \<Rightarrow> bool" where
  "safe_path st \<longleftrightarrow> with_extension (ms_path st) ''tmp'' \<noteq> ms_path st"

lemmas fs_ops = fs_open_truncate_def fs_write_all_def fs_probe_def fs_rename_def fs_next_def fs_set_def Let_def

lemma fs_files_set [simp]: "fs_files (fs_set p c d) = (fs_files d)(p := c)"
  by (simp add: fs_set_def)

lemma fs_next_files: "fs_next d = (a, d') \<Longrightarrow> fs_files d' = fs_files d"
  by (auto simp: fs_next_def split: list.splits)

lemma fs_calls:
  "fs_probe d = (r, d') \<Longrightarrow> fs_files d' = fs_files d"
  "fs_open_truncate p d = (r, d') \<Longrightarrow>
     fs_files d' = (if is_ok r then (fs_files d)(p := Some []) else fs_files d)"
  "fs_write_all p bs d = (r, d') \<Longrightarrow> \<exists>c. fs_files d' = (fs_files d)(p := Some c) \<and> (is_ok r \<longrightarrow> c = bs)"
  "fs_rename p q d = (r, d') \<Longrightarrow>
     fs_files d' = (if is_ok r then (fs_files d)(p := None, q := fs_files d p) else fs_files d)"
  by (auto simp: fs_probe_def fs_open_truncate_def fs_write_all_def fs_rename_def
      dest!: fs_next_files split: prod.splits fs_answer.splits)

lemma ms_save_effect:
  assumes "ms_save ser st = (r, st')"
  shows "\<exists>d. st' = st\<lparr>ms_disk := d\<rparr> \<and>
    (\<forall>p. p \<noteq> ms_path st \<longrightarrow> p \<noteq> with_extension (ms_path st) ''tmp'' \<longrightarrow>
       fs_files d p = fs_files (ms_disk st) p) \<and>
    (safe_path st \<longrightarrow>
      (if r = Ok () then fs_files d (ms_path st) = ser (persistent_state st) \<and> ser (persistent_state st) \<noteq> None
       else fs_files d (ms_path st) = fs_files (ms_disk st) (ms_path st)))"
proof (cases "ser (persistent_state st)")
  case None
  then show ?thesis using assms by (intro exI [of _ "ms_disk st"]) (auto simp: ms_save_def)
next
  case (Some json)
  define tmp where "tmp = with_extension (ms_path st) ''tmp''"
  obtain r1 d1 where c1: "fs_open_truncate tmp (ms_disk st) = (r1, d1)" by fastforce
  obtain r2 d2 where c2: "fs_write_all tmp json d1 = (r2, d2)" by fastforce
  obtain r3 d3 where c3: "fs_probe d2 = (r3, d3)" by fastforce
  obtain r4 d4 where c4: "fs_rename tmp (ms_path st) d3 = (r4, d4)" by fastforce
  note f = fs_calls(2) [OF c1] fs_calls(3) [OF c2] fs_calls(1) [OF c3] fs_calls(4) [OF c4]
  have eq: "(r, st') = (case r1 of Err e \<Rightarrow> (Err e, st\<lparr>ms_disk := d1\<rparr>)
     | Ok _ \<Rightarrow> case r2 of Err e \<Rightarrow> (Err e, st\<lparr>ms_disk := d2\<rparr>)
     | Ok _ \<Rightarrow> case r3 of Err e \<Rightarrow> (Err e, st\<lparr>ms_disk := d3\<rparr>)
     | Ok _ \<Rightarrow> (r4, st\<lparr>ms_disk := d4\<rparr>))"
    using assms Some c1 c2 c3 c4
    by (cases r1; cases r2; cases r3) (auto simp: ms_save_def Let_def tmp_def)
  consider "r = r1" "\<not> is_ok r1" "st' = st\<lparr>ms_disk := d1\<rparr>"
    | "is_ok r1" "r = r2" "\<not> is_ok r2" "st' = st\<lparr>ms_disk := d2\<rparr>"
    | "is_ok r1" "is_ok r2" "r = r3" "\<not> is_ok r3" "st' = st\<lparr>ms_disk := d3\<rparr>"
    | "is_ok r1" "is_ok r2" "is_ok r3" "r = r4" "st' = st\<lparr>ms_disk := d4\<rparr>"
    using eq by (cases r1; cases r2; cases r3) auto
  then show ?thesis
    using f Some by cases (auto simp: tmp_def safe_path_def is_ok_iff split: if_splits)
qed

lemma ms_save_no_faults:
  assumes "fs_plan (ms_disk st) = []" and "ser (persistent_state st) \<noteq> None"
  shows "fst (ms_save ser st) = Ok () \<and> fs_plan (ms_disk (snd (ms_save ser st))) = []"
  using assms by (auto simp: ms_save_def Let_def fs_open_truncate_def fs_write_all_def fs_probe_def
      fs_rename_def fs_next_def fs_set_def)

section \<open>The invariant\<close>

text \<open>
  Maps are keyed by the names and ids stored in them; the chunk list of an object has no
  duplicates and names only confirmed chunks of that object; a chunk has at most three replicas,
  on distinct nodes.
\<close>

definition object_wf :: "(u64 \<Rightarrow> MetaChunk option) \<Rightarrow> string \<Rightarrow> MetaObject \<Rightarrow> bool" where
  "object_wf chs n ob \<longleftrightarrow> mo_name ob = n \<and> distinct (mo_chunks ob) \<and>
     (\<forall>i \<in> set (mo_chunks ob). \<exists>c. chs i = Some c \<and> mc_object_name c = n \<and> mc_status c = Confirmed)"

definition chunk_wf :: "u64 \<Rightarrow> MetaChunk \<Rightarrow> bool" where
  "chunk_wf i c \<longleftrightarrow> mc_id c = i \<and> distinct (mc_storage_nodes c) \<and> length (mc_storage_nodes c) \<le> MAX_REPLICAS"

definition ms_wf :: "'g MetadataStore \<Rightarrow> bool" where
  "ms_wf st \<longleftrightarrow> hm_invar (ms_objects st) \<and> hm_invar (ms_chunks st) \<and> hm_invar (ms_storage_nodes st) \<and>
     (\<forall>n ob. hm_get (ms_objects st) n = Some ob \<longrightarrow> object_wf (hm_get (ms_chunks st)) n ob) \<and>
     (\<forall>i c. hm_get (ms_chunks st) i = Some c \<longrightarrow> chunk_wf i c) \<and>
     (\<forall>i n. hm_get (ms_storage_nodes st) i = Some n \<longrightarrow> msn_id n = i)"

lemma ms_wfI:
  assumes "hm_invar (ms_objects st)" "hm_invar (ms_chunks st)" "hm_invar (ms_storage_nodes st)"
    and "\<And>n ob. hm_get (ms_objects st) n = Some ob \<Longrightarrow> object_wf (hm_get (ms_chunks st)) n ob"
    and "\<And>i c. hm_get (ms_chunks st) i = Some c \<Longrightarrow> chunk_wf i c"
    and "\<And>i n. hm_get (ms_storage_nodes st) i = Some n \<Longrightarrow> msn_id n = i"
  shows "ms_wf st"
  using assms unfolding ms_wf_def by blast

lemma ms_wfD:
  assumes "ms_wf st"
  shows "hm_invar (ms_objects st)" "hm_invar (ms_chunks st)" "hm_invar (ms_storage_nodes st)"
    and "hm_get (ms_objects st) n = Some ob \<Longrightarrow> object_wf (hm_get (ms_chunks st)) n ob"
    and "hm_get (ms_chunks st) i = Some c \<Longrightarrow> chunk_wf i c"
    and "hm_get (ms_storage_nodes st) i = Some nd \<Longrightarrow> msn_id nd = i"
  using assms unfolding ms_wf_def by blast+

lemma ms_wf_env [simp]:
  "ms_wf (st\<lparr>ms_disk := d\<rparr>) = ms_wf st" "ms_wf (st\<lparr>ms_rng := g\<rparr>) = ms_wf st"
  by (simp_all add: ms_wf_def)

lemma ms_wf_save: "ms_save ser st = (r, st') \<Longrightarrow> ms_wf st' = ms_wf st"
  using ms_save_effect [of ser st r st'] by auto

text \<open>A referenced chunk belongs to the object that references it, and to no other.\<close>

lemma referenced_chunk:
  assumes "ms_wf st" "hm_get (ms_objects st) n = Some ob" "i \<in> set (mo_chunks ob)"
  obtains c where "hm_get (ms_chunks st) i = Some c" "mc_object_name c = n" "mc_status c = Confirmed"
  using ms_wfD(4) [OF assms(1,2)] assms(3) unfolding object_wf_def by blast

lemma wf_put_object:
  assumes "ms_wf st" "hm_get (ms_objects st) n = None"
  shows "ms_wf (st\<lparr>ms_objects := hm_insert n (MetaObject_new n c) (ms_objects st)\<rparr>)"
  using ms_wfD [OF assms(1)]
  by (intro ms_wfI) (auto simp: MetaObject_new_def object_wf_def simp del: map_of_eq_Some_iff split: if_splits)

text \<open>Writing a chunk that no object references yet, and appending it to its object.\<close>

lemma wf_insert_chunk:
  assumes wf: "ms_wf st" and chunk: "chunk_wf i c"
    and free: "\<And>n ob. hm_get (ms_objects st) n = Some ob \<Longrightarrow> i \<notin> set (mo_chunks ob)"
  shows "ms_wf (st\<lparr>ms_chunks := hm_insert i c (ms_chunks st)\<rparr>)"
  using ms_wfD [OF wf] chunk free
  by (intro ms_wfI) (fastforce simp: object_wf_def simp del: map_of_eq_Some_iff split: if_splits)+

lemma wf_append_chunk:
  assumes wf: "ms_wf st" and ob: "hm_get (ms_objects st) n = Some ob"
    and c: "hm_get (ms_chunks st) i = Some c" "mc_object_name c = n" "mc_status c = Confirmed"
    and new: "i \<notin> set (mo_chunks ob)"
  shows "ms_wf (st\<lparr>ms_objects := hm_insert n (add_chunk i ob) (ms_objects st)\<rparr>)"
  using ms_wfD [OF wf] ms_wfD(4) [OF wf ob] c new
  by (intro ms_wfI) (auto simp: object_wf_def add_chunk_def simp del: map_of_eq_Some_iff split: if_splits)

lemma unreferenced:
  assumes "ms_wf st" "\<And>c. hm_get (ms_chunks st) i = Some c \<Longrightarrow> mc_status c \<noteq> Confirmed"
    and "hm_get (ms_objects st) n = Some ob"
  shows "i \<notin> set (mo_chunks ob)"
  using referenced_chunk [OF assms(1,3)] assms(2) by metis

lemma fold_remove_get:
  "hm_get (fold hm_remove is m) k = (if k \<in> set is then None else hm_get m k)"
  by (induction "is" arbitrary: m) auto

lemma fold_remove_invar: "hm_invar m \<Longrightarrow> hm_invar (fold hm_remove is m)"
  by (induction "is" arbitrary: m) auto

lemma wf_remove_object:
  assumes wf: "ms_wf st" and ob: "hm_get (ms_objects st) n = Some ob"
  shows "ms_wf (remove_chunks (mo_chunks ob) (st\<lparr>ms_objects := hm_remove n (ms_objects st)\<rparr>))"
proof (rule ms_wfI)
  let ?st = "remove_chunks (mo_chunks ob) (st\<lparr>ms_objects := hm_remove n (ms_objects st)\<rparr>)"
  show "hm_invar (ms_objects ?st)" "hm_invar (ms_chunks ?st)" "hm_invar (ms_storage_nodes ?st)"
    using ms_wfD [OF wf] by (simp_all add: remove_chunks_def fold_remove_invar)
  show "chunk_wf i c" if "hm_get (ms_chunks ?st) i = Some c" for i c
    using that ms_wfD(5) [OF wf] by (simp add: remove_chunks_def fold_remove_get split: if_splits)
  show "msn_id nd = i" if "hm_get (ms_storage_nodes ?st) i = Some nd" for i nd
    using that ms_wfD(6) [OF wf] by (simp add: remove_chunks_def)
  fix m o' assume "hm_get (ms_objects ?st) m = Some o'"
  then have o': "m \<noteq> n" "hm_get (ms_objects st) m = Some o'"
    by (auto simp: remove_chunks_def simp del: map_of_eq_Some_iff split: if_splits)
  have "i \<notin> set (mo_chunks ob)" if "i \<in> set (mo_chunks o')" for i
    using referenced_chunk [OF wf o'(2) that] referenced_chunk [OF wf ob, of i] o'(1)
    by (metis option.inject)
  then show "object_wf (hm_get (ms_chunks ?st)) m o'"
    using ms_wfD(4) [OF wf o'(2)] by (simp add: object_wf_def remove_chunks_def fold_remove_get)
qed

lemma wf_remove_one: "ms_wf st \<Longrightarrow> ms_wf (remove_one_object n st)"
  by (auto simp: remove_one_object_def wf_remove_object simp del: map_of_eq_Some_iff split: option.split)

lemma wf_unlink_chunk:
  assumes wf: "ms_wf st" and c: "hm_get (ms_chunks st) i = Some c"
    and ob: "hm_get (ms_objects st) (mc_object_name c) = Some ob"
  shows "ms_wf (st\<lparr>ms_chunks := hm_remove i (ms_chunks st),
     ms_objects := hm_insert (mc_object_name c) (ob\<lparr>mo_chunks := filter (\<lambda>j. j \<noteq> i) (mo_chunks ob)\<rparr>) (ms_objects st)\<rparr>)"
proof -
  have "i \<notin> set (mo_chunks o')" if "hm_get (ms_objects st) m = Some o'" "m \<noteq> mc_object_name c" for m o'
    using referenced_chunk [OF wf that(1), of i] c that(2) by (metis option.inject)
  then show ?thesis
    using ms_wfD [OF wf] ms_wfD(4) [OF wf ob]
    by (intro ms_wfI) (auto simp: object_wf_def simp del: map_of_eq_Some_iff split: if_splits)
qed

lemma wf_drop_orphan:
  assumes wf: "ms_wf st" and c: "hm_get (ms_chunks st) i = Some c"
    and ob: "hm_get (ms_objects st) (mc_object_name c) = None"
  shows "ms_wf (st\<lparr>ms_chunks := hm_remove i (ms_chunks st)\<rparr>)"
proof -
  have "i \<notin> set (mo_chunks o')" if "hm_get (ms_objects st) m = Some o'" for m o'
    using referenced_chunk [OF wf that(1), of i] c ob that by (metis option.inject option.distinct(1))
  then show ?thesis
    using ms_wfD [OF wf]
    by (intro ms_wfI) (auto simp: object_wf_def simp del: map_of_eq_Some_iff split: if_splits)
qed

lemma wf_update_chunk:
  assumes wf: "ms_wf st" and c: "hm_get (ms_chunks st) i = Some c" and "chunk_wf i c'"
    and "mc_object_name c' = mc_object_name c" "mc_status c' = mc_status c"
  shows "ms_wf (st\<lparr>ms_chunks := hm_insert i c' (ms_chunks st)\<rparr>)"
  using ms_wfD [OF wf] assms(2-)
  by (intro ms_wfI) (fastforce simp: object_wf_def simp del: map_of_eq_Some_iff split: if_splits)+

lemma wf_update_object:
  assumes wf: "ms_wf st" and ob: "hm_get (ms_objects st) n = Some ob"
    and "mo_name ob' = mo_name ob" "mo_chunks ob' = mo_chunks ob"
  shows "ms_wf (st\<lparr>ms_objects := hm_insert n ob' (ms_objects st)\<rparr>)"
  using ms_wfD [OF wf] ms_wfD(4) [OF wf ob] assms(3-)
  by (intro ms_wfI) (auto simp: object_wf_def simp del: map_of_eq_Some_iff split: if_splits)

section \<open>Lemmas: drawing ids\<close>

lemma generate_unique_id_fresh:
  assumes "generate_unique_id gen m g = Some (i, g')"
  shows "hm_get m i = None"
proof -
  have "hm_get m (fst (i, g')) = None"
  proof (rule generate_unique_id.raw_induct [of "\<lambda>gen m g y. hm_get m (fst y) = None", OF _ assms])
    fix f :: "('g \<Rightarrow> u64 \<times> 'g) \<Rightarrow> (u64, 'v) hashmap \<Rightarrow> 'g \<Rightarrow> (u64 \<times> 'g) option" and gen m g y
    assume IH: "\<And>gen m g y. f gen m g = Some y \<Longrightarrow> hm_get m (fst y) = None"
      and y: "(let (i, g') = gen g in if hm_contains m i then f gen m g' else Some (i, g')) = Some y"
    obtain j h where "gen g = (j, h)" by fastforce
    with y have "(if hm_contains m j then f gen m h else Some (j, h)) = Some y" by simp
    then show "hm_get m (fst y) = None" by (metis IH fst_conv option.inject)
  qed
  then show ?thesis by simp
qed

lemma generate_unique_id_returns:
  assumes "hm_get m (fst (gen (((\<lambda>g. snd (gen g)) ^^ k) g))) = None"
  shows "\<exists>i g'. generate_unique_id gen m g = Some (i, g')"
  using assms
proof (induction k arbitrary: g)
  case 0
  then show ?case
    by (subst generate_unique_id.simps) (simp add: case_prod_unfold Let_def del: map_of_eq_None_iff)
next
  case (Suc k)
  have "\<exists>i g'. generate_unique_id gen m (snd (gen g)) = Some (i, g')"
    using Suc.prems funpow_swap1 [of "\<lambda>g. snd (gen g)" k g] by (intro Suc.IH) simp
  then show ?case
    by (subst generate_unique_id.simps) (auto simp: case_prod_unfold Let_def)
qed

lemma choose_storage_node_env:
  "choose_storage_node R st = (n, st') \<Longrightarrow> \<exists>g. st' = st\<lparr>ms_rng := g\<rparr>"
  by (auto simp: choose_storage_node_def split: if_splits prod.splits intro: exI [of _ "ms_rng st"])

section \<open>The operations as a state machine\<close>

datatype ms_op =
    Op_construct_storage_node string | Op_delete_storage_node u64
  | Op_put_object u32 string | Op_delete_object string | Op_update_object_checksum string u32 u64
  | Op_put_chunk string u32 | Op_allocate_chunk string | Op_confirm_chunk u64 string u32 u64
  | Op_delete_chunk u64 | Op_add_chunk_replica u64 u64 | Op_remove_objects "string list"

text \<open>One operation; \<open>None\<close> when it draws ids forever.\<close>

fun ms_step :: "'g rand \<Rightarrow> (string \<Rightarrow> bool) \<Rightarrow> json_ser \<Rightarrow> ms_op \<Rightarrow> 'g MetadataStore
    \<Rightarrow> 'g MetadataStore option" where
  "ms_step R uri ser (Op_construct_storage_node a) st = map_option snd (construct_storage_node R uri a st)"
| "ms_step R uri ser (Op_delete_storage_node i) st = Some (snd (delete_storage_node i st))"
| "ms_step R uri ser (Op_put_object c n) st = Some (snd (put_object ser c n st))"
| "ms_step R uri ser (Op_delete_object n) st = Some (snd (delete_object ser n st))"
| "ms_step R uri ser (Op_update_object_checksum n c t) st = Some (snd (update_object_checksum ser n c t st))"
| "ms_step R uri ser (Op_put_chunk n c) st = map_option snd (put_chunk R ser n c st)"
| "ms_step R uri ser (Op_allocate_chunk n) st = map_option snd (allocate_chunk R n st)"
| "ms_step R uri ser (Op_confirm_chunk i n c s) st = Some (snd (confirm_chunk ser i n c s st))"
| "ms_step R uri ser (Op_delete_chunk i) st = Some (snd (delete_chunk ser i st))"
| "ms_step R uri ser (Op_add_chunk_replica i s) st = Some (snd (add_chunk_replica ser i s st))"
| "ms_step R uri ser (Op_remove_objects ns) st = Some (snd (remove_objects ser ns st))"

inductive ms_reach :: "'g rand \<Rightarrow> (string \<Rightarrow> bool) \<Rightarrow> json_ser \<Rightarrow> 'g MetadataStore \<Rightarrow> 'g MetadataStore \<Rightarrow> bool"
  for R uri ser st0 where
  start: "ms_reach R uri ser st0 st0"
| step: "ms_reach R uri ser st0 st \<Longrightarrow> ms_step R uri ser c st = Some st' \<Longrightarrow> ms_reach R uri ser st0 st'"

lemma wf_saved: "ms_wf st \<Longrightarrow> ms_wf (snd (ms_save ser st))"
  by (metis ms_wf_save prod.collapse)

lemma wf_fold_remove: "ms_wf st \<Longrightarrow> ms_wf (fold remove_one_object ns st)"
  by (induction ns arbitrary: st) (auto simp: wf_remove_one)

lemma wf_put_chunk:
  assumes wf: "ms_wf st" and p: "put_chunk R ser n c st = Some (r, st')"
  shows "ms_wf st'"
proof -
  obtain i g where ig: "generate_unique_id (rand_u64 R) (ms_chunks st) (ms_rng st) = Some (i, g)"
    using p by (auto simp: put_chunk_def split: option.splits)
  obtain nd st1 where ch: "choose_storage_node R (st\<lparr>ms_rng := g\<rparr>) = (nd, st1)" by fastforce
  obtain g' where st1: "st1 = st\<lparr>ms_rng := g'\<rparr>" using choose_storage_node_env [OF ch] by auto
  have new: "hm_get (ms_chunks st1) i = None" using generate_unique_id_fresh [OF ig] st1 by simp
  show ?thesis
  proof (cases nd)
    case None
    then show ?thesis using p ig ch wf st1 by (auto simp: put_chunk_def)
  next
    case (Some node)
    define chunk where "chunk = add_storage_node (msn_id node) (MetaChunk_new i c n)"
    define st2 where "st2 = st1\<lparr>ms_chunks := hm_insert i chunk (ms_chunks st1)\<rparr>"
    have cw: "chunk_wf i chunk" "mc_object_name chunk = n" "mc_status chunk = Confirmed"
      by (simp_all add: chunk_def add_storage_node_def MetaChunk_new_def chunk_wf_def MAX_REPLICAS_def)
    have wf1: "ms_wf st1" using wf st1 by simp
    have un: "i \<notin> set (mo_chunks ob)" if "hm_get (ms_objects st1) m = Some ob" for m ob
      by (rule unreferenced [OF wf1 _ that]) (simp add: new del: map_of_eq_Some_iff)
    have wf2: "ms_wf st2" unfolding st2_def by (rule wf_insert_chunk [OF wf1 cw(1) un])
    show ?thesis
    proof (cases "hm_get (ms_objects st2) n")
      case None
      then show ?thesis using p ig ch Some wf2 by (simp add: put_chunk_def st2_def chunk_def Let_def)
    next
      case ob: (Some ob)
      have "i \<notin> set (mo_chunks ob)" using un ob by (simp add: st2_def)
      then have "ms_wf (st2\<lparr>ms_objects := hm_insert n (add_chunk i ob) (ms_objects st2)\<rparr>)"
        by (intro wf_append_chunk [OF wf2 ob _ cw(2,3)]) (simp_all add: st2_def)
      moreover have "st' = snd (ms_save ser (st2\<lparr>ms_objects := hm_insert n (add_chunk i ob) (ms_objects st2)\<rparr>))"
        using p ig ch Some ob
        by (auto simp: put_chunk_def st2_def chunk_def Let_def split: prod.splits result.splits)
      ultimately show ?thesis by (simp add: wf_saved)
    qed
  qed
qed

lemma wf_allocate_chunk:
  assumes wf: "ms_wf st" and p: "allocate_chunk R n st = Some (r, st')"
  shows "ms_wf st'"
proof -
  obtain i g where ig: "generate_unique_id (rand_u64 R) (ms_chunks st) (ms_rng st) = Some (i, g)"
    using p by (auto simp: allocate_chunk_def split: option.splits)
  obtain nd st1 where ch: "choose_storage_node R (st\<lparr>ms_rng := g\<rparr>) = (nd, st1)" by fastforce
  obtain g' where st1: "st1 = st\<lparr>ms_rng := g'\<rparr>" using choose_storage_node_env [OF ch] by auto
  have new: "hm_get (ms_chunks st1) i = None" using generate_unique_id_fresh [OF ig] st1 by simp
  have wf1: "ms_wf st1" using wf st1 by simp
  have "ms_wf (st1\<lparr>ms_chunks := hm_insert i (MetaChunk_new_pending i n) (ms_chunks st1)\<rparr>)"
    by (intro wf_insert_chunk [OF wf1] unreferenced [OF wf1])
      (auto simp: new chunk_wf_def MetaChunk_new_pending_def)
  then show ?thesis using p ig ch wf1 by (cases nd) (auto simp: allocate_chunk_def)
qed

lemma wf_confirm_chunk:
  assumes wf: "ms_wf st"
  shows "ms_wf (snd (confirm_chunk ser i n c s st))"
proof (cases "\<not> hm_contains (ms_storage_nodes st) s \<or>
    (\<exists>e. hm_get (ms_chunks st) i = Some e \<and> mc_status e = Confirmed) \<or> hm_get (ms_objects st) n = None")
  case True
  then show ?thesis using wf
    by (auto simp: confirm_chunk_def simp del: map_of_eq_Some_iff map_of_eq_None_iff split: option.splits)
next
  case False
  then obtain ob where ob: "hm_get (ms_objects st) n = Some ob" by auto
  define chunk where "chunk = add_storage_node s (MetaChunk_new i c n)"
  have cw: "chunk_wf i chunk" "mc_object_name chunk = n" "mc_status chunk = Confirmed"
    by (simp_all add: chunk_def add_storage_node_def MetaChunk_new_def chunk_wf_def MAX_REPLICAS_def)
  have un: "i \<notin> set (mo_chunks ob')" if "hm_get (ms_objects st) m = Some ob'" for m ob'
    using unreferenced [OF wf _ that] False by blast
  let ?st2 = "st\<lparr>ms_chunks := hm_insert i chunk (ms_chunks st)\<rparr>"
  have wf2: "ms_wf ?st2" by (rule wf_insert_chunk [OF wf cw(1) un])
  have "ms_wf (?st2\<lparr>ms_objects := hm_insert n (add_chunk i ob) (ms_objects ?st2)\<rparr>)"
    using ob un [OF ob] by (intro wf_append_chunk [OF wf2 _ _ cw(2,3)]) simp_all
  moreover have "confirm_chunk ser i n c s st =
      ms_save ser (?st2\<lparr>ms_objects := hm_insert n (add_chunk i ob) (ms_objects ?st2)\<rparr>)"
    using False ob by (auto simp: confirm_chunk_def chunk_def Let_def simp del: map_of_eq_Some_iff split: option.split)
  ultimately show ?thesis by (simp add: wf_saved)
qed

lemma wf_delete_chunk:
  assumes wf: "ms_wf st" shows "ms_wf (snd (delete_chunk ser i st))"
  using wf wf_unlink_chunk [OF wf] wf_drop_orphan [OF wf]
  by (auto simp: delete_chunk_def Let_def wf_saved simp del: map_of_eq_Some_iff map_of_eq_None_iff split: option.split)

lemma wf_add_chunk_replica:
  assumes wf: "ms_wf st" shows "ms_wf (snd (add_chunk_replica ser i s st))"
proof (cases "hm_get (ms_chunks st) i")
  case None
  then show ?thesis using wf by (simp add: add_chunk_replica_def)
next
  case (Some c)
  have "ms_wf (st\<lparr>ms_chunks := hm_insert i (add_storage_node s c) (ms_chunks st)\<rparr>)"
    if "s \<notin> set (mc_storage_nodes c)" "length (mc_storage_nodes c) < MAX_REPLICAS"
    using ms_wfD(5) [OF wf Some] that
    by (intro wf_update_chunk [OF wf Some]) (auto simp: chunk_wf_def add_storage_node_def)
  then show ?thesis using wf Some by (auto simp: add_chunk_replica_def wf_saved simp del: map_of_eq_Some_iff)
qed

lemma wf_construct_storage_node:
  assumes wf: "ms_wf st" and "construct_storage_node R uri a st = Some (r, st')"
  shows "ms_wf st'"
  using assms(2) ms_wfD [OF wf] wf
  by (auto simp: construct_storage_node_def MetaStorageNode_new_def ms_wf_def
      simp del: map_of_eq_Some_iff split: option.splits if_splits)

lemma wf_delete_storage_node: "ms_wf st \<Longrightarrow> ms_wf (snd (delete_storage_node i st))"
  by (auto simp: delete_storage_node_def ms_wf_def simp del: map_of_eq_Some_iff split: option.split)

lemma wf_put: "ms_wf st \<Longrightarrow> ms_wf (snd (put_object ser c n st))"
  by (simp add: put_object_def wf_put_object wf_saved del: map_of_eq_None_iff)

lemma wf_delete_object: "ms_wf st \<Longrightarrow> ms_wf (snd (delete_object ser n st))"
  by (auto simp: delete_object_def wf_saved wf_remove_object simp del: map_of_eq_Some_iff split: option.split)

lemma wf_update_object_checksum: "ms_wf st \<Longrightarrow> ms_wf (snd (update_object_checksum ser n c t st))"
  by (auto simp: update_object_checksum_def wf_saved wf_update_object simp del: map_of_eq_Some_iff split: option.split)

lemmas ms_ops_wf = wf_put wf_delete_object wf_update_object_checksum wf_confirm_chunk wf_delete_chunk
  wf_add_chunk_replica wf_delete_storage_node

lemma ms_step_wf: "ms_wf st \<Longrightarrow> ms_step R uri ser c st = Some st' \<Longrightarrow> ms_wf st'"
  by (cases c)
    (auto simp: ms_ops_wf remove_objects_def wf_saved wf_fold_remove
      dest: wf_put_chunk wf_allocate_chunk wf_construct_storage_node)

section \<open>The store keeps the journal contract\<close>

definition durable_file :: "'g MetadataStore \<Rightarrow> string option" where
  "durable_file st = fs_files (ms_disk st) (ms_path st)"

interpretation ms: journal "ms_save ser" persistent_state durable_file ser safe_path
  for ser :: json_ser
proof unfold_locales
  fix s r s' assume inv: "safe_path s" and c: "ms_save ser s = (r, s')"
  obtain d where s': "s' = s\<lparr>ms_disk := d\<rparr>" using ms_save_effect [OF c] by auto
  show "safe_path s'" "persistent_state s' = persistent_state s"
    using inv by (simp_all add: s' safe_path_def persistent_state_def)
next
  fix s s' assume "safe_path s" "ms_save ser s = (Ok (), s')"
  then show "durable_file s' = ser (persistent_state s) \<and> ser (persistent_state s) \<noteq> None"
    using ms_save_effect [of ser s "Ok ()" s'] by (auto simp: durable_file_def)
next
  fix s s' e assume "safe_path s" "ms_save ser s = (Err e, s')"
  then show "durable_file s' = durable_file s"
    using ms_save_effect [of ser s "Err e" s'] by (auto simp: durable_file_def)
qed

text \<open>
  What the store relies on in the JSON codec: a state is encoded to a non-empty text that decodes
  to a state with the same maps (whose iteration order may differ).
\<close>

definition json_roundtrip :: "json_ser \<Rightarrow> json_de \<Rightarrow> bool" where
  "json_roundtrip ser de \<longleftrightarrow> (\<forall>ps j. ser ps = Some j \<longrightarrow> hm_invar (ps_objects ps) \<longrightarrow> hm_invar (ps_chunks ps) \<longrightarrow>
     j \<noteq> [] \<and> (\<exists>ps'. de j = Some ps' \<and> hm_invar (ps_objects ps') \<and> hm_invar (ps_chunks ps') \<and>
       hm_get (ps_objects ps') = hm_get (ps_objects ps) \<and> hm_get (ps_chunks ps') = hm_get (ps_chunks ps)))"

lemma ms_new_reads:
  assumes "fs_plan d = []" "fs_files d path = Some j" "j \<noteq> []" "de j = Some ps"
  shows "ms_new de True path d g = (Ok \<lparr>ms_path = path, ms_objects = ps_objects ps, ms_chunks = ps_chunks ps,
      ms_storage_nodes = [], ms_disk = d, ms_rng = g\<rparr>, d)"
  using assms by (simp add: ms_new_def ms_load_def fs_probe_def fs_next_def Let_def)

section \<open>Properties\<close>

text \<open>Concrete parameters, to run the definitions.\<close>

definition toy_rand :: "nat rand" where
  "toy_rand = \<lparr>rand_u64 = (\<lambda>g. (of_nat g, Suc g)), rand_choose = (\<lambda>n g. (0, g))\<rparr>"

definition toy_ser :: json_ser where
  "toy_ser ps = Some (replicate (length (ps_objects ps)) CHR ''o'' @ CHR ''|'' # replicate (length (ps_chunks ps)) CHR ''c'')"

definition toy_store :: "nat MetadataStore" where
  "toy_store = \<lparr>ms_path = ''m.dat'', ms_objects = [], ms_chunks = [],
     ms_storage_nodes = [(9, \<lparr>msn_id = 9, msn_address = ''http://n''\<rparr>)],
     ms_disk = \<lparr>fs_files = (\<lambda>_. None), fs_plan = []\<rparr>, ms_rng = 1\<rparr>"

lemma toy_store_wf: "ms_wf toy_store"
  by (simp add: toy_store_def ms_wf_def)



text \<open>
  C16. Saving is atomic: whichever of its system calls fails, and after however many bytes, the
  snapshot file holds either the complete new state (exactly when the save reports success) or
  the previous contents, and the state in memory is not touched.
\<close>

theorem save_is_atomic:
  assumes "with_extension (ms_path st) ''tmp'' \<noteq> ms_path st" and "ms_save ser st = (r, st')"
  shows "persistent_state st' = persistent_state st \<and> ms_storage_nodes st' = ms_storage_nodes st \<and>
    fs_files (ms_disk st') (ms_path st) =
      (if r = Ok () then ser (persistent_state st) else fs_files (ms_disk st) (ms_path st))"
proof -
  have inv: "safe_path st" using assms(1) by (simp add: safe_path_def)
  obtain d where d: "st' = st\<lparr>ms_disk := d\<rparr>" using ms_save_effect [OF assms(2)] by auto
  have "durable_file st' = (if r = Ok () then ser (persistent_state st) else durable_file st)"
    using ms.commit_ok [OF inv, of ser st'] ms.commit_err [OF inv, of ser _ st'] assms(2) by (cases r) auto
  then show ?thesis using d by (simp add: durable_file_def persistent_state_def)
qed

theorem save_is_atomic_witness:
  "fs_files (ms_disk (snd (ms_save toy_ser
      (toy_store\<lparr>ms_disk := \<lparr>fs_files = [''m.dat'' \<mapsto> ''old''], fs_plan = [Served, Failed StorageFull 1]\<rparr>\<rparr>))))
     ''m.dat'' = Some ''old''"
proof -
  let ?st = "toy_store\<lparr>ms_disk := \<lparr>fs_files = [''m.dat'' \<mapsto> ''old''], fs_plan = [Served, Failed StorageFull 1]\<rparr>\<rparr>"
  have p: "with_extension (ms_path ?st) ''tmp'' \<noteq> ms_path ?st"
    by (simp add: with_extension_def toy_store_def Let_def)
  obtain r st' where s: "ms_save toy_ser ?st = (r, st')" by fastforce
  have "fst (ms_save toy_ser ?st) = Err StorageFull"
    by (simp add: ms_save_def toy_ser_def toy_store_def fs_ops)
  then show ?thesis using save_is_atomic [OF p s] s by (simp add: toy_store_def)
qed

text \<open>
  C20. Restart: when a mutation was acknowledged, a new process that loads the file finds the
  same objects and the same chunks (and no storage nodes, which register again).
\<close>

theorem reload_after_save:
  assumes "json_roundtrip ser de" and "ms_wf st"
    and "with_extension (ms_path st) ''tmp'' \<noteq> ms_path st"
    and "ms_save ser st = (Ok (), st')" and "fs_plan (ms_disk st') = []"
  shows "\<exists>st''. ms_new de True (ms_path st) (ms_disk st') g = (Ok st'', ms_disk st') \<and>
    hm_get (ms_objects st'') = hm_get (ms_objects st) \<and> hm_get (ms_chunks st'') = hm_get (ms_chunks st) \<and>
    ms_storage_nodes st'' = [] \<and> ms_wf st''"
proof -
  have inv: "safe_path st" using assms(3) by (simp add: safe_path_def)
  obtain d where d: "st' = st\<lparr>ms_disk := d\<rparr>" using ms_save_effect [OF assms(4)] by auto
  obtain j where j: "ser (persistent_state st) = Some j" "fs_files (ms_disk st') (ms_path st) = Some j"
    using ms.commit_ok [OF inv assms(4)] d by (auto simp: durable_file_def)
  note wf = ms_wfD [OF assms(2)]
  obtain ps where ps: "j \<noteq> []" "de j = Some ps" "hm_invar (ps_objects ps)" "hm_invar (ps_chunks ps)"
    "hm_get (ps_objects ps) = hm_get (ms_objects st)" "hm_get (ps_chunks ps) = hm_get (ms_chunks st)"
    using assms(1) j(1) wf(1,2) unfolding json_roundtrip_def by (force simp: persistent_state_def)
  let ?st = "\<lparr>ms_path = ms_path st, ms_objects = ps_objects ps, ms_chunks = ps_chunks ps,
      ms_storage_nodes = [], ms_disk = ms_disk st', ms_rng = g\<rparr>"
  have "ms_wf ?st"
  proof (rule ms_wfI)
    show "object_wf (hm_get (ms_chunks ?st)) n ob" if "hm_get (ms_objects ?st) n = Some ob" for n ob
      using wf(4) that ps(5,6) by simp
    show "chunk_wf i c" if "hm_get (ms_chunks ?st) i = Some c" for i c using wf(5) that ps(6) by simp
  qed (use ps in simp_all)
  then show ?thesis using ms_new_reads [where de = de and g = g, OF assms(5) j(2) ps(1,2)] ps by auto
qed

text \<open>A codec for one state.\<close>

definition one_ser :: "PersistentState \<Rightarrow> json_ser" where
  "one_ser ps0 ps = (if ps = ps0 then Some ''x'' else None)"

lemma one_codec: "hm_invar (ps_objects ps0) \<Longrightarrow> hm_invar (ps_chunks ps0) \<Longrightarrow>
    json_roundtrip (one_ser ps0) (\<lambda>_. Some ps0)"
  by (auto simp: json_roundtrip_def one_ser_def)

definition toy_objects :: "nat MetadataStore" where
  "toy_objects = toy_store\<lparr>ms_objects := [(''a'', MetaObject_new ''a'' 5)]\<rparr>"

theorem reload_after_save_witness:
  "\<exists>st' st''. ms_save (one_ser (persistent_state toy_objects)) toy_objects = (Ok (), st') \<and>
    ms_new (\<lambda>_. Some (persistent_state toy_objects)) True ''m.dat'' (ms_disk st') (7 :: nat) = (Ok st'', ms_disk st') \<and>
    hm_get (ms_objects st'') = [''a'' \<mapsto> MetaObject_new ''a'' 5]"
proof -
  let ?ps = "persistent_state toy_objects"
  have wf: "ms_wf toy_objects" "ms_path toy_objects = ''m.dat''" "ms_objects toy_objects = [(''a'', MetaObject_new ''a'' 5)]"
    by (auto simp: toy_objects_def toy_store_def ms_wf_def object_wf_def MetaObject_new_def)
  have json: "json_roundtrip (one_ser ?ps) (\<lambda>_. Some ?ps)"
    using ms_wfD(1,2) [OF wf(1)] by (intro one_codec) (auto simp: persistent_state_def)
  have path: "with_extension (ms_path toy_objects) ''tmp'' \<noteq> ms_path toy_objects"
    by (simp add: wf with_extension_def Let_def)
  obtain st' where s: "ms_save (one_ser ?ps) toy_objects = (Ok (), st')" "fs_plan (ms_disk st') = []"
  proof -
    have "fs_plan (ms_disk toy_objects) = []" "one_ser ?ps ?ps \<noteq> None"
      by (simp_all add: toy_objects_def toy_store_def one_ser_def)
    from ms_save_no_faults [of toy_objects "one_ser ?ps", OF this] show ?thesis by (intro that) (auto simp: prod_eq_iff)
  qed
  show ?thesis using s reload_after_save [OF json wf(1) path s, of 7] by (auto simp: wf)
qed

text \<open>
  Creating an object: refused with \<open>AlreadyExists\<close> exactly when the name is taken, which
  changes nothing; otherwise the object is in memory with its checksum and no chunks, and every
  other object and all chunks are as before, even when the save then fails.
\<close>

theorem put_object_correct:
  assumes "put_object ser c name st = (r, st')"
  shows "if hm_contains (ms_objects st) name then r = Err AlreadyExists \<and> st' = st
    else get_object name st' = Ok (MetaObject_new name c) \<and>
      (\<forall>n. n = name \<or> get_object n st' = get_object n st) \<and> ms_chunks st' = ms_chunks st \<and>
      r = fst (ms_save ser (st\<lparr>ms_objects := hm_insert name (MetaObject_new name c) (ms_objects st)\<rparr>))"
proof (cases "hm_contains (ms_objects st) name")
  case True
  then show ?thesis using assms by (simp add: put_object_def)
next
  case False
  let ?st = "st\<lparr>ms_objects := hm_insert name (MetaObject_new name c) (ms_objects st)\<rparr>"
  have s: "ms_save ser ?st = (r, st')" using assms False by (simp add: put_object_def)
  obtain d where "st' = ?st\<lparr>ms_disk := d\<rparr>" using ms_save_effect [OF s] by auto
  then show ?thesis using False s by (simp add: get_object_def)
qed

theorem put_object_correct_witness:
  "get_object ''a'' (snd (put_object toy_ser 5 ''a'' toy_store)) = Ok (MetaObject_new ''a'' 5)"
proof -
  obtain r st' where p: "put_object toy_ser 5 ''a'' toy_store = (r, st')" by fastforce
  show ?thesis using put_object_correct [OF p] p by (simp add: toy_store_def)
qed

text \<open>
  A mutation whose save fails is reported as failed but has happened in memory: the retry
  of a failed \<open>put_object\<close> is refused because the object already exists.
\<close>

theorem failed_put_is_visible:
  assumes "put_object ser c name st = (Err e, st')" and "e \<noteq> AlreadyExists"
  shows "get_object name st' = Ok (MetaObject_new name c) \<and> put_object ser c name st' = (Err AlreadyExists, st')"
proof -
  let ?st = "st\<lparr>ms_objects := hm_insert name (MetaObject_new name c) (ms_objects st)\<rparr>"
  have "\<not> hm_contains (ms_objects st) name" using assms by (auto simp: put_object_def split: if_splits)
  then have "ms_save ser ?st = (Err e, st')" using assms(1) by (simp add: put_object_def)
  then obtain d where "st' = ?st\<lparr>ms_disk := d\<rparr>" using ms_save_effect by blast
  then show ?thesis by (simp add: get_object_def put_object_def)
qed

theorem failed_put_is_visible_witness:
  "fst (put_object toy_ser 5 ''a'' (toy_store\<lparr>ms_disk := \<lparr>fs_files = (\<lambda>_. None), fs_plan = [Failed StorageFull 0]\<rparr>\<rparr>)) = Err StorageFull \<and>
   fst (put_object toy_ser 5 ''a'' (snd (put_object toy_ser 5 ''a''
     (toy_store\<lparr>ms_disk := \<lparr>fs_files = (\<lambda>_. None), fs_plan = [Failed StorageFull 0]\<rparr>\<rparr>)))) = Err AlreadyExists"
proof -
  let ?st = "toy_store\<lparr>ms_disk := \<lparr>fs_files = (\<lambda>_. None), fs_plan = [Failed StorageFull 0]\<rparr>\<rparr>"
  have f: "fst (put_object toy_ser 5 ''a'' ?st) = Err StorageFull"
    by (simp add: put_object_def ms_save_def toy_ser_def toy_store_def fs_ops)
  then obtain st' where p: "put_object toy_ser 5 ''a'' ?st = (Err StorageFull, st')" by (metis prod.collapse)
  show ?thesis using f p failed_put_is_visible [OF p] by simp
qed

text \<open>
  C21. The two-phase write: a chunk id handed out by \<open>allocate_chunk\<close> is new, reserves itself
  without touching any object, and when the object exists and the node is still registered,
  \<open>confirm_chunk\<close> turns the reservation into the last chunk of the object with its only replica
  on that node; confirming the same id again is refused.
\<close>

theorem allocate_then_confirm:
  assumes "ms_wf st" and "allocate_chunk R name st = Some (Ok (i, s, a), st1)"
    and "hm_get (ms_objects st) name = Some ob" and "hm_contains (ms_storage_nodes st1) s"
    and "confirm_chunk ser i name c s st1 = (r, st2)"
  shows "hm_get (ms_chunks st) i = None \<and> ms_objects st1 = ms_objects st \<and>
    hm_get (ms_objects st2) name = Some (ob\<lparr>mo_chunks := mo_chunks ob @ [i]\<rparr>) \<and>
    hm_get (ms_chunks st2) i = Some \<lparr>mc_id = i, mc_object_name = name, mc_checksum = c,
      mc_storage_nodes = [s], mc_status = Confirmed\<rparr> \<and>
    fst (confirm_chunk ser i name c' s st2) = Err AlreadyExists"
proof -
  obtain g where ig: "generate_unique_id (rand_u64 R) (ms_chunks st) (ms_rng st) = Some (i, g)"
    using assms(2) by (auto simp: allocate_chunk_def split: option.splits prod.splits)
  obtain nd sta where ch: "choose_storage_node R (st\<lparr>ms_rng := g\<rparr>) = (nd, sta)" by fastforce
  obtain g' where sta: "sta = st\<lparr>ms_rng := g'\<rparr>" using choose_storage_node_env [OF ch] by auto
  have st1: "st1 = st\<lparr>ms_rng := g', ms_chunks := hm_insert i (MetaChunk_new_pending i name) (ms_chunks st)\<rparr>"
    using assms(2) ig ch sta by (auto simp: allocate_chunk_def split: option.splits)
  let ?st = "st1\<lparr>ms_chunks := hm_insert i (add_storage_node s (MetaChunk_new i c name)) (ms_chunks st1),
      ms_objects := hm_insert name (add_chunk i ob) (ms_objects st1)\<rparr>"
  have sv: "ms_save ser ?st = (r, st2)"
    using assms(3-5) by (simp add: confirm_chunk_def Let_def st1 MetaChunk_new_pending_def)
  obtain d where st2: "st2 = ?st\<lparr>ms_disk := d\<rparr>" using ms_save_effect [OF sv] by auto
  have "hm_get (ms_chunks st) i = None" using generate_unique_id_fresh [OF ig] by simp
  then show ?thesis
    using assms(4) by (simp add: st2 st1 add_chunk_def add_storage_node_def MetaChunk_new_def confirm_chunk_def)
qed

theorem allocate_then_confirm_witness:
  "\<exists>st1 st2. allocate_chunk toy_rand ''a'' toy_objects = Some (Ok (1, 9, ''http://n''), st1) \<and>
     confirm_chunk toy_ser 1 ''a'' 4 9 st1 = (Ok (), st2) \<and>
     hm_get (ms_objects st2) ''a'' = Some \<lparr>mo_name = ''a'', mo_checksum = 5, mo_chunks = [1], mo_total_size = 0\<rparr>"
proof -
  have wf: "ms_wf toy_objects" and ob: "hm_get (ms_objects toy_objects) ''a'' = Some (MetaObject_new ''a'' 5)"
    by (auto simp: toy_objects_def toy_store_def ms_wf_def object_wf_def MetaObject_new_def)
  have gen: "generate_unique_id (rand_u64 toy_rand) (ms_chunks toy_objects) (ms_rng toy_objects) = Some (1, 2)"
    by (subst generate_unique_id.simps) (simp add: toy_rand_def toy_objects_def toy_store_def)
  define st1 where "st1 = toy_objects\<lparr>ms_rng := 2, ms_chunks := [(1, MetaChunk_new_pending 1 ''a'')]\<rparr>"
  have al: "allocate_chunk toy_rand ''a'' toy_objects = Some (Ok (1, 9, ''http://n''), st1)"
    unfolding allocate_chunk_def gen
    by (simp add: choose_storage_node_def toy_rand_def st1_def toy_objects_def toy_store_def)
  have nd: "hm_contains (ms_storage_nodes st1) 9" by (simp add: st1_def toy_objects_def toy_store_def)
  obtain r st2 where c: "confirm_chunk toy_ser 1 ''a'' 4 9 st1 = (r, st2)" by fastforce
  have "r = Ok ()"
    using c nd ob
    by (simp add: confirm_chunk_def st1_def MetaChunk_new_pending_def ms_save_def toy_ser_def
        toy_objects_def toy_store_def fs_ops)
  then show ?thesis
    using al c allocate_then_confirm [OF wf al ob nd c, of 0] by (auto simp: MetaObject_new_def)
qed



text \<open>
  C33. Drawing an id returns as soon as the generator produces an unused one, and the id it
  returns is unused.
\<close>

theorem unique_id_returns:
  assumes "hm_get m (fst (gen (((\<lambda>g. snd (gen g)) ^^ k) g))) = None"
  shows "\<exists>i g'. generate_unique_id gen m g = Some (i, g') \<and> hm_get m i = None"
  using generate_unique_id_returns [of m gen k g, OF assms] generate_unique_id_fresh by metis

theorem unique_id_returns_witness:
  "\<exists>i g'. generate_unique_id (rand_u64 toy_rand) [(1, ()), (2, ())] 1 = Some (i, g') \<and>
     hm_get [(1, ()), (2, ())] i = None"
  by (rule unique_id_returns [where k = 2]) (simp add: toy_rand_def numeral_2_eq_2)

end
