(* ===== verification/Cluster.thy ===== *)
theory Cluster
  imports MetadataStore
begin

text \<open>
  The cluster layer of the metadata service: the global chunk index
  (\<^verbatim>\<open>storage-metadata/src/chunk_index.rs\<close>), membership and peer connections
  (\<^verbatim>\<open>cluster.rs\<close>) and request forwarding (\<^verbatim>\<open>forwarding.rs\<close>).

  Gossip (chitchat) and gRPC (tonic) are third-party: the live nodes that gossip reports are an
  argument of the membership step, and the connection and the remote procedures of a peer are
  the record \<open>peer_rpc\<close> of functions over a state \<open>'w\<close> of the world; \<open>None\<close> is a call that never
  returns.
\<close>

section \<open>The chunk index\<close>

type_synonym chunk_index = "(u64, string) hashmap"

definition ChunkIndex_new :: chunk_index where
  "ChunkIndex_new = []"

definition ci_insert :: "u64 \<Rightarrow> string \<Rightarrow> chunk_index \<Rightarrow> chunk_index" where
  "ci_insert chunk_id object_name idx = hm_insert chunk_id object_name idx"

definition ci_get :: "u64 \<Rightarrow> chunk_index \<Rightarrow> string option" where
  "ci_get chunk_id idx = hm_get idx chunk_id"

definition ci_remove :: "u64 \<Rightarrow> chunk_index \<Rightarrow> string option \<times> chunk_index" where
  "ci_remove chunk_id idx = (hm_get idx chunk_id, hm_remove chunk_id idx)"

definition ci_bulk_insert :: "(u64 \<times> string) list \<Rightarrow> chunk_index \<Rightarrow> chunk_index" where
  "ci_bulk_insert entries idx = fold (\<lambda>(chunk_id, object_name). hm_insert chunk_id object_name) entries idx"

definition ci_remove_by_objects :: "string list \<Rightarrow> chunk_index \<Rightarrow> chunk_index" where
  "ci_remove_by_objects object_names idx = map_retain (\<lambda>_ obj_name. obj_name \<notin> set object_names) idx"

definition ci_populate_from_chunks :: "(u64, MetaChunk) hashmap \<Rightarrow> chunk_index \<Rightarrow> chunk_index" where
  "ci_populate_from_chunks chunks idx =
     fold (\<lambda>(chunk_id, chunk). hm_insert chunk_id (mc_object_name chunk)) chunks idx"

definition ci_entries :: "chunk_index \<Rightarrow> (u64 \<times> string) list" where
  "ci_entries idx = idx"

definition ci_len :: "chunk_index \<Rightarrow> nat" where
  "ci_len idx = length idx"

section \<open>Messages\<close>

record PMetaChunk =
  pc_id :: u64
  pc_checksum :: u32
  pc_storage_nodes :: "MetaStorageNode list"

record PMetaObject =
  po_name :: string
  po_checksum :: u32
  po_chunks :: "PMetaChunk list"
  po_total_size :: u64

record GetObjectResponse =
  go_checksum :: u32
  go_chunks :: "PMetaChunk list"

record GetChunkResponse =
  gc_object_name :: string
  gc_checksum :: u32
  gc_storage_nodes :: "MetaStorageNode list"

record UnderReplicatedChunk =
  ur_chunk_id :: u64
  ur_checksum :: u32
  ur_storage_node_ids :: "u64 list"

datatype TransferPartitionEntry =
    Entry_Object string u32 "u64 list"
  | Entry_Chunk u64 string u32 "u64 list"

section \<open>The remote procedures of a peer\<close>

record ('c, 'w) peer_rpc =
  pr_connect :: "string \<Rightarrow> 'w \<Rightarrow> 'c option \<times> 'w"
  pr_put_object :: "'c \<Rightarrow> u32 \<Rightarrow> string \<Rightarrow> 'w \<Rightarrow> unit rpc \<times> 'w"
  pr_get_object :: "'c \<Rightarrow> string \<Rightarrow> 'w \<Rightarrow> GetObjectResponse rpc \<times> 'w"
  pr_delete_object :: "'c \<Rightarrow> string \<Rightarrow> 'w \<Rightarrow> unit rpc \<times> 'w"
  pr_put_chunk :: "'c \<Rightarrow> string \<Rightarrow> u32 \<Rightarrow> 'w \<Rightarrow> ((u64 \<times> string) rpc \<times> 'w) option"
  pr_allocate_chunk :: "'c \<Rightarrow> string \<Rightarrow> 'w \<Rightarrow> ((u64 \<times> u64 \<times> string) rpc \<times> 'w) option"
  pr_confirm_chunk :: "'c \<Rightarrow> u64 \<Rightarrow> string \<Rightarrow> u32 \<Rightarrow> u64 \<Rightarrow> 'w \<Rightarrow> unit rpc \<times> 'w"
  pr_get_chunk :: "'c \<Rightarrow> u64 \<Rightarrow> 'w \<Rightarrow> GetChunkResponse rpc \<times> 'w"
  pr_delete_chunk :: "'c \<Rightarrow> u64 \<Rightarrow> 'w \<Rightarrow> unit rpc \<times> 'w"
  pr_add_chunk_replica :: "'c \<Rightarrow> u64 \<Rightarrow> u64 \<Rightarrow> 'w \<Rightarrow> unit rpc \<times> 'w"
  pr_put_storage_node :: "'c \<Rightarrow> string \<Rightarrow> 'w \<Rightarrow> (u64 rpc \<times> 'w) option"
  pr_delete_storage_node :: "'c \<Rightarrow> u64 \<Rightarrow> 'w \<Rightarrow> unit rpc \<times> 'w"
  pr_list_local_objects :: "'c \<Rightarrow> 'w \<Rightarrow> PMetaObject list rpc \<times> 'w"
  pr_list_local_under_replicated :: "'c \<Rightarrow> u32 \<Rightarrow> 'w \<Rightarrow> UnderReplicatedChunk list rpc \<times> 'w"
  pr_transfer_partition :: "'c \<Rightarrow> (u64 \<times> u64) list \<Rightarrow> 'w \<Rightarrow> TransferPartitionEntry list rpc \<times> 'w"
  pr_broadcast_chunk_index :: "'c \<Rightarrow> (u64 \<times> string) list \<Rightarrow> 'w \<Rightarrow> unit rpc \<times> 'w"

section \<open>The cluster manager\<close>

record 'c ClusterManager =
  cm_ring :: ring
  cm_node_id :: string
  cm_grpc_addr :: string
  cm_peers :: "(string, 'c) hashmap"
  cm_peer_addrs :: "(string, string) hashmap"

definition GRPC_ADDR_KEY :: string where
  "GRPC_ADDR_KEY = ''grpc_addr''"

definition cluster_new :: "(string \<Rightarrow> u64) \<Rightarrow> string \<Rightarrow> nat \<Rightarrow> 'c ClusterManager" where
  "cluster_new xxh3_64 node_id grpc_port = \<lparr>
     cm_ring = add_node xxh3_64 node_id HashRing_new,
     cm_node_id = node_id,
     cm_grpc_addr = ''0.0.0.0:'' @ show_nat grpc_port,
     cm_peers = [],
     cm_peer_addrs = []\<rparr>"

text \<open>What gossip reports: the live nodes with the values they published.\<close>

type_synonym gossip = "(string \<times> (string \<Rightarrow> string option)) list"

definition live_ids :: "gossip \<Rightarrow> string list" where
  "live_ids live = map fst live"

definition live_addrs :: "gossip \<Rightarrow> (string, string) hashmap" where
  "live_addrs live =
     fold (\<lambda>(nid, kv) addrs. case kv GRPC_ADDR_KEY of Some a \<Rightarrow> hm_insert nid a addrs | None \<Rightarrow> addrs) live []"

definition update_ring :: "(string \<Rightarrow> u64) \<Rightarrow> string \<Rightarrow> string list \<Rightarrow> ring \<Rightarrow> ring" where
  "update_ring xxh3_64 self live r =
     (let current_nodes = ring_nodes r;
          r1 = fold (\<lambda>nid r. if nid \<noteq> self \<and> nid \<notin> set current_nodes then add_node xxh3_64 nid r else r) live r
      in fold (\<lambda>nid r. if nid \<noteq> self \<and> nid \<notin> set live then remove_node nid r else r) current_nodes r1)"

definition membership_tick :: "(string \<Rightarrow> u64) \<Rightarrow> gossip \<Rightarrow> 'c ClusterManager \<Rightarrow> 'c ClusterManager" where
  "membership_tick xxh3_64 live cm = cm\<lparr>
     cm_ring := update_ring xxh3_64 (cm_node_id cm) (live_ids live) (cm_ring cm),
     cm_peer_addrs := live_addrs live,
     cm_peers := map_retain (\<lambda>nid _. nid \<in> set (live_ids live)) (cm_peers cm)\<rparr>"

definition is_local :: "(string \<Rightarrow> u64) \<Rightarrow> 'c ClusterManager \<Rightarrow> string \<Rightarrow> bool" where
  "is_local xxh3_64 cm key =
     (case get_owner xxh3_64 (cm_ring cm) key of Some own \<Rightarrow> own = cm_node_id cm | None \<Rightarrow> True)"

definition get_owner_addr :: "(string \<Rightarrow> u64) \<Rightarrow> 'c ClusterManager \<Rightarrow> string \<Rightarrow> string option" where
  "get_owner_addr xxh3_64 cm key =
     (case get_owner xxh3_64 (cm_ring cm) key of
        Some own \<Rightarrow> if own = cm_node_id cm then None else hm_get (cm_peer_addrs cm) own
      | None \<Rightarrow> None)"

definition get_all_peer_addrs :: "'c ClusterManager \<Rightarrow> string list" where
  "get_all_peer_addrs cm = map snd (filter (\<lambda>(nid, _). nid \<noteq> cm_node_id cm) (cm_peer_addrs cm))"

text \<open>The first cached client of a node with that address.\<close>

fun cached_client :: "(string, 'c) hashmap \<Rightarrow> string \<Rightarrow> (string, string) hashmap \<Rightarrow> 'c option" where
  "cached_client peers addr [] = None"
| "cached_client peers addr ((nid, a) # pa) =
     (if a = addr \<and> hm_contains peers nid then hm_get peers nid else cached_client peers addr pa)"

fun cache_client :: "'c \<Rightarrow> string \<Rightarrow> (string, string) hashmap \<Rightarrow> (string, 'c) hashmap \<Rightarrow> (string, 'c) hashmap" where
  "cache_client client addr [] peers = peers"
| "cache_client client addr ((nid, a) # pa) peers =
     (if a = addr then hm_insert nid client peers else cache_client client addr pa peers)"

definition get_peer_client ::
  "('c, 'w) peer_rpc \<Rightarrow> string \<Rightarrow> 'c ClusterManager \<Rightarrow> 'w \<Rightarrow> 'c option \<times> 'c ClusterManager \<times> 'w" where
  "get_peer_client P addr cm w =
     (case cached_client (cm_peers cm) addr (cm_peer_addrs cm) of
        Some client \<Rightarrow> (Some client, cm, w)
      | None \<Rightarrow>
          let endpoint = (if starts_with addr ''http://'' \<or> starts_with addr ''https://'' then addr
                          else ''http://'' @ addr) in
          (case pr_connect P endpoint w of
             (None, w') \<Rightarrow> (None, cm, w')
           | (Some client, w') \<Rightarrow>
               (Some client, cm\<lparr>cm_peers := cache_client client addr (cm_peer_addrs cm) (cm_peers cm)\<rparr>, w')))"

definition get_owner_id :: "(string \<Rightarrow> u64) \<Rightarrow> 'c ClusterManager \<Rightarrow> string \<Rightarrow> string option" where
  "get_owner_id xxh3_64 cm key = get_owner xxh3_64 (cm_ring cm) key"

definition is_clustered :: "'c ClusterManager \<Rightarrow> bool" where
  "is_clustered cm \<longleftrightarrow> node_count (cm_ring cm) > 1"

section \<open>Forwarding\<close>

datatype RouteAction = Local | Forward string

definition fl_route_by_object :: "(string \<Rightarrow> u64) \<Rightarrow> 'c ClusterManager \<Rightarrow> string \<Rightarrow> RouteAction" where
  "fl_route_by_object xxh3_64 cm object_name =
     (case get_owner_addr xxh3_64 cm object_name of Some addr \<Rightarrow> Forward addr | None \<Rightarrow> Local)"

definition fl_route_by_chunk ::
  "(string \<Rightarrow> u64) \<Rightarrow> 'c ClusterManager \<Rightarrow> chunk_index \<Rightarrow> u64 \<Rightarrow> RouteAction rpc" where
  "fl_route_by_chunk xxh3_64 cm idx chunk_id =
     (case ci_get chunk_id idx of
        None \<Rightarrow> Err Code_NotFound
      | Some object_name \<Rightarrow> Ok (fl_route_by_object xxh3_64 cm object_name))"

text \<open>Connect to the peer, then call: the shape of every \<open>forward_*\<close> method.\<close>

definition with_peer ::
  "('c, 'w) peer_rpc \<Rightarrow> string \<Rightarrow> ('c \<Rightarrow> 'w \<Rightarrow> 'a rpc \<times> 'w) \<Rightarrow> 'c ClusterManager \<Rightarrow> 'w
     \<Rightarrow> 'a rpc \<times> 'c ClusterManager \<times> 'w" where
  "with_peer P addr call cm w =
     (case get_peer_client P addr cm w of
        (None, cm', w') \<Rightarrow> (Err Code_Unavailable, cm', w')
      | (Some client, cm', w') \<Rightarrow> (case call client w' of (r, w'') \<Rightarrow> (r, cm', w'')))"

definition with_peer_option ::
  "('c, 'w) peer_rpc \<Rightarrow> string \<Rightarrow> ('c \<Rightarrow> 'w \<Rightarrow> ('a rpc \<times> 'w) option) \<Rightarrow> 'c ClusterManager \<Rightarrow> 'w
     \<Rightarrow> ('a rpc \<times> 'c ClusterManager \<times> 'w) option" where
  "with_peer_option P addr call cm w =
     (case get_peer_client P addr cm w of
        (None, cm', w') \<Rightarrow> Some (Err Code_Unavailable, cm', w')
      | (Some client, cm', w') \<Rightarrow>
          (case call client w' of None \<Rightarrow> None | Some (r, w'') \<Rightarrow> Some (r, cm', w'')))"

definition forward_put_object where
  "forward_put_object P addr c name = with_peer P addr (\<lambda>cl. pr_put_object P cl c name)"

definition forward_get_object where
  "forward_get_object P addr name = with_peer P addr (\<lambda>cl. pr_get_object P cl name)"

definition forward_delete_object where
  "forward_delete_object P addr name = with_peer P addr (\<lambda>cl. pr_delete_object P cl name)"

definition forward_put_chunk where
  "forward_put_chunk P addr name c = with_peer_option P addr (\<lambda>cl. pr_put_chunk P cl name c)"

definition forward_allocate_chunk where
  "forward_allocate_chunk P addr name = with_peer_option P addr (\<lambda>cl. pr_allocate_chunk P cl name)"

definition forward_confirm_chunk where
  "forward_confirm_chunk P addr i name c n = with_peer P addr (\<lambda>cl. pr_confirm_chunk P cl i name c n)"

definition forward_get_chunk where
  "forward_get_chunk P addr i = with_peer P addr (\<lambda>cl. pr_get_chunk P cl i)"

definition forward_delete_chunk where
  "forward_delete_chunk P addr i = with_peer P addr (\<lambda>cl. pr_delete_chunk P cl i)"

definition forward_add_chunk_replica where
  "forward_add_chunk_replica P addr i n = with_peer P addr (\<lambda>cl. pr_add_chunk_replica P cl i n)"

text \<open>Broadcasts call every peer in turn and collect the results.\<close>

fun broadcast_option ::
  "('c, 'w) peer_rpc \<Rightarrow> ('c \<Rightarrow> 'w \<Rightarrow> ('a rpc \<times> 'w) option) \<Rightarrow> string list \<Rightarrow> 'c ClusterManager \<Rightarrow> 'w
     \<Rightarrow> ('a rpc list \<times> 'c ClusterManager \<times> 'w) option" where
  "broadcast_option P call [] cm w = Some ([], cm, w)"
| "broadcast_option P call (addr # addrs) cm w =
     (case with_peer_option P addr call cm w of
        None \<Rightarrow> None
      | Some (r, cm', w') \<Rightarrow>
          (case broadcast_option P call addrs cm' w' of
             None \<Rightarrow> None
           | Some (rs, cm'', w'') \<Rightarrow> Some (r # rs, cm'', w'')))"

definition broadcast_put_storage_node where
  "broadcast_put_storage_node P address cm w =
     broadcast_option P (\<lambda>cl. pr_put_storage_node P cl address) (get_all_peer_addrs cm) cm w"

definition broadcast_delete_storage_node where
  "broadcast_delete_storage_node P i cm w =
     broadcast_option P (\<lambda>cl w. Some (pr_delete_storage_node P cl i w)) (get_all_peer_addrs cm) cm w"

text \<open>
  Scatter-gather: a peer that cannot be reached fails the whole query, one that answers with an
  error is skipped.
\<close>

fun scatter_gather ::
  "('c, 'w) peer_rpc \<Rightarrow> ('c \<Rightarrow> 'w \<Rightarrow> 'a list rpc \<times> 'w) \<Rightarrow> string list \<Rightarrow> 'a list \<Rightarrow> 'c ClusterManager \<Rightarrow> 'w
     \<Rightarrow> 'a list rpc \<times> 'c ClusterManager \<times> 'w" where
  "scatter_gather P call [] acc cm w = (Ok acc, cm, w)"
| "scatter_gather P call (addr # addrs) acc cm w =
     (case get_peer_client P addr cm w of
        (None, cm', w') \<Rightarrow> (Err Code_Unavailable, cm', w')
      | (Some client, cm', w') \<Rightarrow>
          (case call client w' of
             (Ok xs, w'') \<Rightarrow> scatter_gather P call addrs (acc @ xs) cm' w''
           | (Err _, w'') \<Rightarrow> scatter_gather P call addrs acc cm' w''))"

definition scatter_gather_list_objects where
  "scatter_gather_list_objects P cm w =
     scatter_gather P (pr_list_local_objects P) (get_all_peer_addrs cm) [] cm w"

definition scatter_gather_under_replicated_chunks where
  "scatter_gather_under_replicated_chunks P max_replicas cm w =
     scatter_gather P (\<lambda>cl. pr_list_local_under_replicated P cl max_replicas) (get_all_peer_addrs cm) [] cm w"

fun broadcast_chunk_index_to ::
  "('c, 'w) peer_rpc \<Rightarrow> (u64 \<times> string) list \<Rightarrow> string list \<Rightarrow> 'c ClusterManager \<Rightarrow> 'w
     \<Rightarrow> 'c ClusterManager \<times> 'w" where
  "broadcast_chunk_index_to P entries [] cm w = (cm, w)"
| "broadcast_chunk_index_to P entries (addr # addrs) cm w =
     (case get_peer_client P addr cm w of
        (None, cm', w') \<Rightarrow> broadcast_chunk_index_to P entries addrs cm' w'
      | (Some client, cm', w') \<Rightarrow>
          (case pr_broadcast_chunk_index P client entries w' of
             (_, w'') \<Rightarrow> broadcast_chunk_index_to P entries addrs cm' w''))"

definition broadcast_chunk_index_update where
  "broadcast_chunk_index_update P entries cm w =
     broadcast_chunk_index_to P entries (get_all_peer_addrs cm) cm w"

section \<open>Lemmas\<close>

lemma distinct_singleton_set: "set xs = {a} \<Longrightarrow> distinct xs \<Longrightarrow> xs = [a]"
  by (cases xs; cases "tl xs") auto

lemma fold_add_if:
  "fold (\<lambda>n r. if P n then add_node x n r else r) ns r = fold (add_node x) (filter P ns) r"
  by (induction ns arbitrary: r) auto

lemma fold_remove_if:
  "fold (\<lambda>n r. if P n then remove_node n r else r) ns r = fold remove_node (filter P ns) r"
  by (induction ns arbitrary: r) auto

lemma update_ring_eq:
  "update_ring x self live r =
     fold remove_node (filter (\<lambda>n. n \<noteq> self \<and> n \<notin> set live) (ring_nodes r))
       (fold (add_node x) (filter (\<lambda>n. n \<noteq> self \<and> n \<notin> set (ring_nodes r)) live) r)"
  by (simp add: update_ring_def Let_def fold_add_if fold_remove_if)

lemma joined_members:
  "bt_invar r \<Longrightarrow> set (hm_values (fold (add_node x) ns r)) \<subseteq> set ns \<union> set (hm_values r)"
proof (induction ns arbitrary: r)
  case (Cons n ns)
  have "set (hm_values (fold (add_node x) ns (add_node x n r))) \<subseteq> set ns \<union> set (hm_values (add_node x n r))"
    using add_node_invar [OF Cons.prems] by (rule Cons.IH)
  then show ?case using ring.members_join [OF Cons.prems, of x n] by auto
qed simp

lemma left_members:
  "bt_invar r \<Longrightarrow> set (hm_values (fold remove_node ns r)) = set (hm_values r) - set ns"
proof (induction ns arbitrary: r)
  case (Cons n ns)
  have "set (hm_values (fold remove_node ns (remove_node n r))) = set (hm_values (remove_node n r)) - set ns"
    using remove_node_invar [OF Cons.prems] by (rule Cons.IH)
  then show ?case using ring.members_leave [OF Cons.prems, of n] by auto
qed simp

lemma set_ring_nodes: "set (ring_nodes r) = set (hm_values r)"
  by (simp add: ring_nodes_def)

lemma update_ring_members:
  assumes inv: "bt_invar r"
  shows "set (hm_values (update_ring x self live r)) \<subseteq> insert self (set live)"
    and "bt_invar (update_ring x self live r)"
proof -
  let ?r1 = "fold (add_node x) (filter (\<lambda>n. n \<noteq> self \<and> n \<notin> set (ring_nodes r)) live) r"
  have inv1: "bt_invar ?r1" using ring.invar_joins [OF inv] .
  have "set (hm_values ?r1) \<subseteq> set (filter (\<lambda>n. n \<noteq> self \<and> n \<notin> set (ring_nodes r)) live) \<union> set (hm_values r)"
    by (rule joined_members [OF inv])
  then have sub: "set (hm_values ?r1) \<subseteq> set live \<union> set (ring_nodes r)"
    unfolding set_ring_nodes by (simp only: set_filter) blast
  show "set (hm_values (update_ring x self live r)) \<subseteq> insert self (set live)"
    unfolding update_ring_eq left_members [OF inv1] set_filter using sub by blast
  show "bt_invar (update_ring x self live r)"
    unfolding update_ring_eq using ring.invar_leaves [OF inv1] .
qed

lemma update_ring_keeps:
  assumes inv: "bt_invar r" and own: "owner_at r h = Some m" and stays: "m = self \<or> m \<in> set live"
  shows "owner_at (update_ring x self live r) h = Some m \<or>
    (\<exists>n \<in> set live - set (ring_nodes r). owner_at (update_ring x self live r) h = Some n)"
proof -
  let ?new = "filter (\<lambda>n. n \<noteq> self \<and> n \<notin> set (ring_nodes r)) live"
  let ?old = "filter (\<lambda>n. n \<noteq> self \<and> n \<notin> set live) (ring_nodes r)"
  let ?r1 = "fold (add_node x) ?new r"
  have inv1: "bt_invar ?r1" using ring.invar_joins [OF inv] .
  have keep: "owner_at (fold remove_node ?old ?r1) h = Some k" if "owner_at ?r1 h = Some k" "k \<notin> set ?old" for k
    using ring.leaves_minimal [OF inv1 that] .
  consider "owner_at ?r1 h = Some m" | n where "n \<in> set ?new" "owner_at ?r1 h = Some n"
    using ring.joins_minimal [OF inv, of x ?new h] unfolding own by blast
  then show ?thesis
  proof cases
    case 1
    then show ?thesis using keep [OF 1] stays unfolding update_ring_eq by simp
  next
    case (2 n)
    then have "n \<in> set live - set (ring_nodes r)" "n \<notin> set ?old" by auto
    then show ?thesis using keep [OF 2(2)] unfolding update_ring_eq by blast
  qed
qed

lemma live_addrs_get:
  "hm_get (live_addrs live) n = Some a \<Longrightarrow> \<exists>kv. (n, kv) \<in> set live \<and> kv GRPC_ADDR_KEY = Some a"
proof -
  have "hm_get (fold (\<lambda>(nid, kv) addrs. case kv GRPC_ADDR_KEY of Some a \<Rightarrow> hm_insert nid a addrs | None \<Rightarrow> addrs) live m) n
      = Some a \<Longrightarrow> (\<exists>kv. (n, kv) \<in> set live \<and> kv GRPC_ADDR_KEY = Some a) \<or> hm_get m n = Some a" for m
  proof (induction live arbitrary: m)
    case (Cons e live)
    obtain nid kv where e: "e = (nid, kv)" by (cases e)
    show ?case
    proof (cases "kv GRPC_ADDR_KEY")
      case None
      then show ?thesis using Cons.IH [of m] Cons.prems e by auto
    next
      case (Some b)
      then show ?thesis using Cons.IH [of "hm_insert nid b m"] Cons.prems e
        by (auto simp del: map_of_eq_Some_iff split: if_splits)
    qed
  qed simp
  from this [of "[]"] show "hm_get (live_addrs live) n = Some a \<Longrightarrow> ?thesis" by (simp add: live_addrs_def)
qed

section \<open>Properties\<close>



text \<open>
  Routing: a request is forwarded only to the published address of the node that owns the
  key; it is handled locally when this node owns the key, but also when the owner is another
  node that has published no address.
\<close>

theorem route_by_object_correct:
  "(fl_route_by_object x cm key = Forward addr \<longleftrightarrow>
      (\<exists>own. get_owner x (cm_ring cm) key = Some own \<and> own \<noteq> cm_node_id cm \<and> hm_get (cm_peer_addrs cm) own = Some addr)) \<and>
   (fl_route_by_object x cm key = Local \<longleftrightarrow> is_local x cm key \<or>
      (\<exists>own. get_owner x (cm_ring cm) key = Some own \<and> own \<noteq> cm_node_id cm \<and> hm_get (cm_peer_addrs cm) own = None))"
  by (auto simp: fl_route_by_object_def get_owner_addr_def is_local_def
      simp del: map_of_eq_Some_iff map_of_eq_None_iff split: option.splits if_splits)

text \<open>
  C35. Every node publishes the wildcard address \<open>0.0.0.0\<close> with its port, so in a cluster whose
  nodes use the same port a forwarded request goes to the address the forwarding node itself
  listens on.
\<close>

theorem forwarded_to_own_address:
  assumes "fl_route_by_object x (membership_tick x
      (map (\<lambda>n. (n, [GRPC_ADDR_KEY \<mapsto> cm_grpc_addr (cluster_new x n port :: 'c ClusterManager)])) ns)
      (cluster_new x self port :: 'c ClusterManager)) key = Forward addr"
  shows "addr = cm_grpc_addr (cluster_new x self port :: 'c ClusterManager)"
proof -
  let ?live = "map (\<lambda>n. (n, [GRPC_ADDR_KEY \<mapsto> cm_grpc_addr (cluster_new x n port :: 'c ClusterManager)])) ns"
  obtain own where "hm_get (live_addrs ?live) own = Some addr"
    using assms by (auto simp: fl_route_by_object_def get_owner_addr_def membership_tick_def
        simp del: map_of_eq_Some_iff split: option.splits if_splits)
  from live_addrs_get [OF this] show ?thesis by (auto simp: cluster_new_def)
qed

lemma tick_two_nodes:
  assumes "x ''k'' = 5" "x (vnode_key ''b'' 0) = 5" "\<And>i. x (vnode_key ''a'' i) = 9"
    and "\<And>i. i < VNODES_PER_NODE \<Longrightarrow> x (vnode_key ''b'' i) = 5"
  shows "owner_at (add_node x ''b'' (add_node x ''a'' [])) 5 = Some ''b''"
proof -
  have inv: "bt_invar (add_node x ''a'' ([] :: ring))" by (rule add_node_invar) simp
  have b: "fst ` set (vnodes_of x ''b'') = {5}"
  proof -
    have "vnodes_of x ''b'' = map (\<lambda>_. (5, ''b'')) [0..<VNODES_PER_NODE]"
      using assms(4) by (auto simp: vnodes_of_def)
    moreover have "(\<lambda>_. 5 :: u64) ` {0..<VNODES_PER_NODE} = {5}"
      by (rule image_constant [of 0]) (simp add: VNODES_PER_NODE_def)
    ultimately show ?thesis by (simp add: image_image)
  qed
  have "(5, ''b'') \<in> set (add_node x ''b'' (add_node x ''a'' []))"
    using add_node_entries [OF inv, of 5 "''b''" x "''b''"] b by simp
  moreover have "is_succ (fst ` set (add_node x ''b'' (add_node x ''a'' []))) 5 5"
    using calculation by (force simp: is_succ_def)
  ultimately show ?thesis using owner_at_iff [OF add_node_invar [OF inv]] by blast
qed

definition split_hash :: "string \<Rightarrow> u64" where
  "split_hash s = (if s = [] \<or> hd s = CHR ''a'' then 9 else 5)"

theorem forwarded_to_own_address_witness:
  "fl_route_by_object split_hash (membership_tick split_hash
      (map (\<lambda>n. (n, [GRPC_ADDR_KEY \<mapsto> cm_grpc_addr (cluster_new split_hash n 3001 :: unit ClusterManager)])) [''b''])
      (cluster_new split_hash ''a'' 3001 :: unit ClusterManager)) ''k'' = Forward (''0.0.0.0:'' @ show_nat 3001) \<and>
   cm_grpc_addr (cluster_new split_hash ''a'' 3001 :: unit ClusterManager) = ''0.0.0.0:'' @ show_nat 3001"
proof -
  let ?live = "map (\<lambda>n. (n, [GRPC_ADDR_KEY \<mapsto> cm_grpc_addr (cluster_new split_hash n 3001 :: unit ClusterManager)])) [''b'']"
  let ?cm = "membership_tick split_hash ?live (cluster_new split_hash ''a'' 3001 :: unit ClusterManager)"
  have addr: "cm_grpc_addr (cluster_new split_hash n 3001 :: unit ClusterManager) = ''0.0.0.0:'' @ show_nat 3001" for n
    by (simp add: cluster_new_def)
  have inv: "bt_invar (add_node split_hash ''a'' ([] :: ring))" by (rule add_node_invar) simp
  have mem: "set (ring_nodes (add_node split_hash ''a'' [])) = {''a''}"
    using ring.members_join [of "[]" split_hash "''a''"] ring.join_member [of "[]" "''a''" split_hash]
    by (auto simp: set_ring_nodes)
  moreover have "distinct (ring_nodes (add_node split_hash ''a'' []))"
    by (simp add: ring_nodes_def sorted_remdups_adj_distinct)
  ultimately have "ring_nodes (add_node split_hash ''a'' []) = [''a'']"
    by (rule distinct_singleton_set)
  then have "cm_ring ?cm = add_node split_hash ''b'' (add_node split_hash ''a'' [])"
    by (simp add: membership_tick_def update_ring_eq live_ids_def cluster_new_def HashRing_new_def)
  moreover have "owner_at (add_node split_hash ''b'' (add_node split_hash ''a'' [])) 5 = Some ''b''"
    by (rule tick_two_nodes) (simp_all add: split_hash_def vnode_key_def)
  ultimately have "get_owner split_hash (cm_ring ?cm) ''k'' = Some ''b''"
    by (simp add: get_owner_def split_hash_def)
  then have "fl_route_by_object split_hash ?cm ''k'' = Forward (''0.0.0.0:'' @ show_nat 3001)"
    by (simp add: fl_route_by_object_def get_owner_addr_def membership_tick_def live_addrs_def addr)
      (simp add: cluster_new_def)
  then show ?thesis
    using forwarded_to_own_address [where x = split_hash and port = 3001 and ns = "[''b'']" and self = "''a''"
        and key = "''k''" and 'c = unit] addr by auto
qed

end
