(* ===== verification/MetadataService.thy ===== *)
theory MetadataService
  imports Cluster
begin

text \<open>
  The metadata service: the public gRPC handlers and the health check of
  \<^verbatim>\<open>storage-metadata/src/main.rs\<close>, the handlers peers call (\<^verbatim>\<open>cluster_service.rs\<close>) and the
  migration of partitions (\<^verbatim>\<open>migration.rs\<close>).

  A handler takes the service state and the world behind its peers to its reply and their new
  states; \<open>None\<close> is a handler that draws ids forever. The handlers peers call work on the same
  store and chunk index. Where a handler takes the store lock twice, its two critical sections
  are two definitions.
\<close>

section \<open>State\<close>

datatype md_metric =
    Md_grpc_requests_total string string | Md_objects_total | Md_chunks_total
  | Md_storage_nodes_total | Md_health_checks_total | Md_health_checks_failed_total

record ('g, 'c) StorageMetadataImpl =
  md_store :: "'g MetadataStore"
  md_metrics :: "md_metric metrics"
  md_cluster :: "'c ClusterManager option"
  md_index :: chunk_index

definition md_construct ::
  "json_de \<Rightarrow> bool \<Rightarrow> string \<Rightarrow> string \<Rightarrow> fs \<Rightarrow> 'g \<Rightarrow> ('g, 'c) StorageMetadataImpl io" where
  "md_construct de exists data_dir node_id d g =
     (case ms_new_with_node de exists data_dir node_id d g of
        (Err e, _) \<Rightarrow> Err e
      | (Ok st, _) \<Rightarrow> Ok \<lparr>md_store = st, md_metrics = (\<lambda>_. 0), md_cluster = None, md_index = ChunkIndex_new\<rparr>)"

definition md_construct_standalone ::
  "json_de \<Rightarrow> bool \<Rightarrow> fs \<Rightarrow> 'g \<Rightarrow> ('g, 'c) StorageMetadataImpl io" where
  "md_construct_standalone de exists d g =
     (case ms_new de exists ''metadata.dat'' d g of
        (Err e, _) \<Rightarrow> Err e
      | (Ok st, _) \<Rightarrow> Ok \<lparr>md_store = st, md_metrics = (\<lambda>_. 0), md_cluster = None, md_index = ChunkIndex_new\<rparr>)"

definition set_forwarding_layer ::
  "'c ClusterManager \<Rightarrow> ('g, 'c) StorageMetadataImpl \<Rightarrow> ('g, 'c) StorageMetadataImpl" where
  "set_forwarding_layer cm svc = svc\<lparr>md_cluster := Some cm\<rparr>"

definition populate_chunk_index :: "('g, 'c) StorageMetadataImpl \<Rightarrow> ('g, 'c) StorageMetadataImpl" where
  "populate_chunk_index svc =
     svc\<lparr>md_index := ci_populate_from_chunks (ms_chunks (md_store svc)) (md_index svc)\<rparr>"

definition md_route_by_object ::
  "(string \<Rightarrow> u64) \<Rightarrow> ('g, 'c) StorageMetadataImpl \<Rightarrow> string \<Rightarrow> RouteAction" where
  "md_route_by_object xxh3_64 svc object_name =
     (case md_cluster svc of Some cm \<Rightarrow> fl_route_by_object xxh3_64 cm object_name | None \<Rightarrow> Local)"

definition md_route_by_chunk ::
  "(string \<Rightarrow> u64) \<Rightarrow> ('g, 'c) StorageMetadataImpl \<Rightarrow> u64 \<Rightarrow> RouteAction rpc" where
  "md_route_by_chunk xxh3_64 svc chunk_id =
     (case md_cluster svc of
        Some cm \<Rightarrow> fl_route_by_chunk xxh3_64 cm (md_index svc) chunk_id
      | None \<Rightarrow> Ok Local)"

definition md_count :: "string \<Rightarrow> string \<Rightarrow> ('g, 'c) StorageMetadataImpl \<Rightarrow> ('g, 'c) StorageMetadataImpl" where
  "md_count method status svc =
     svc\<lparr>md_metrics := metric_inc (Md_grpc_requests_total method status) (md_metrics svc)\<rparr>"

definition md_gauge :: "md_metric \<Rightarrow> int \<Rightarrow> ('g, 'c) StorageMetadataImpl \<Rightarrow> ('g, 'c) StorageMetadataImpl" where
  "md_gauge g n svc = svc\<lparr>md_metrics := metric_add g n (md_metrics svc)\<rparr>"

text \<open>The two routing preambles: forward to the owner, or go on with the local handler.\<close>

definition object_scoped where
  "object_scoped xxh3_64 object_name forward handle svc w =
     (case (md_route_by_object xxh3_64 svc object_name, md_cluster svc) of
        (Forward addr, Some cm) \<Rightarrow>
          (case forward addr cm w of (r, cm', w') \<Rightarrow> (r, svc\<lparr>md_cluster := Some cm'\<rparr>, w'))
      | _ \<Rightarrow> (case handle svc of (r, svc') \<Rightarrow> (r, svc', w)))"

definition object_scoped_option where
  "object_scoped_option xxh3_64 object_name forward handle svc w =
     (case (md_route_by_object xxh3_64 svc object_name, md_cluster svc) of
        (Forward addr, Some cm) \<Rightarrow>
          (case forward addr cm w of None \<Rightarrow> None | Some (r, cm', w') \<Rightarrow> Some (r, svc\<lparr>md_cluster := Some cm'\<rparr>, w'))
      | _ \<Rightarrow> (case handle svc of None \<Rightarrow> None | Some (r, svc') \<Rightarrow> Some (r, svc', w)))"

definition chunk_scoped where
  "chunk_scoped xxh3_64 chunk_id forward handle svc w =
     (case (md_route_by_chunk xxh3_64 svc chunk_id, md_cluster svc) of
        (Ok (Forward addr), Some cm) \<Rightarrow>
          (case forward addr cm w of (r, cm', w') \<Rightarrow> (r, svc\<lparr>md_cluster := Some cm'\<rparr>, w'))
      | _ \<Rightarrow> (case handle svc of (r, svc') \<Rightarrow> (r, svc', w)))"

section \<open>Object handlers\<close>

definition md_put_object_local ::
  "json_ser \<Rightarrow> u32 \<Rightarrow> string \<Rightarrow> ('g, 'c) StorageMetadataImpl \<Rightarrow> unit rpc \<times> ('g, 'c) StorageMetadataImpl" where
  "md_put_object_local ser c name svc =
     (case put_object ser c name (md_store svc) of
        (Ok _, st) \<Rightarrow>
          (Ok (), md_gauge Md_objects_total 1 (md_count ''put_object'' ''ok'' (svc\<lparr>md_store := st\<rparr>)))
      | (Err e, st) \<Rightarrow>
          (Err (if e = AlreadyExists then Code_AlreadyExists else Code_Internal),
           md_count ''put_object'' ''error'' (svc\<lparr>md_store := st\<rparr>)))"

definition md_put_object where
  "md_put_object P xxh3_64 ser c name =
     object_scoped xxh3_64 name (\<lambda>addr. forward_put_object P addr c name) (md_put_object_local ser c name)"

definition md_put_chunk_local :: "'g rand \<Rightarrow> json_ser \<Rightarrow> string \<Rightarrow> u32 \<Rightarrow> ('g, 'c) StorageMetadataImpl
    \<Rightarrow> ((u64 \<times> string) rpc \<times> ('g, 'c) StorageMetadataImpl) option" where
  "md_put_chunk_local R ser name c svc =
     (case put_chunk R ser name c (md_store svc) of
        None \<Rightarrow> None
      | Some (Err e, st) \<Rightarrow>
          Some (Err (if e = AlreadyExists then Code_AlreadyExists else Code_Internal), svc\<lparr>md_store := st\<rparr>)
      | Some (Ok (chunk_id, addr), st) \<Rightarrow>
          Some (Ok (chunk_id, addr),
            md_gauge Md_chunks_total 1 (md_count ''put_chunk'' ''ok''
              (svc\<lparr>md_store := st, md_index := ci_insert chunk_id name (md_index svc)\<rparr>))))"

definition md_put_chunk where
  "md_put_chunk P R xxh3_64 ser name c =
     object_scoped_option xxh3_64 name (\<lambda>addr. forward_put_chunk P addr name c) (md_put_chunk_local R ser name c)"

text \<open>Replica ids to nodes: a missing node is an internal error for the public handlers.\<close>

fun resolve_nodes :: "(u64, MetaStorageNode) hashmap \<Rightarrow> u64 list \<Rightarrow> MetaStorageNode list rpc" where
  "resolve_nodes nodes [] = Ok []"
| "resolve_nodes nodes (i # is) =
     (case hm_get nodes i of
        None \<Rightarrow> Err Code_Internal
      | Some n \<Rightarrow>
          (case resolve_nodes nodes is of
             Err e \<Rightarrow> Err e
           | Ok ns \<Rightarrow> Ok (\<lparr>msn_id = i, msn_address = msn_address n\<rparr> # ns)))"

fun resolve_chunks :: "'g MetadataStore \<Rightarrow> u64 list \<Rightarrow> PMetaChunk list rpc" where
  "resolve_chunks st [] = Ok []"
| "resolve_chunks st (i # is) =
     (case hm_get (ms_chunks st) i of
        None \<Rightarrow> Err Code_Internal
      | Some chunk \<Rightarrow>
          (case resolve_nodes (ms_storage_nodes st) (mc_storage_nodes chunk) of
             Err e \<Rightarrow> Err e
           | Ok ns \<Rightarrow>
               (case resolve_chunks st is of
                  Err e \<Rightarrow> Err e
                | Ok cs \<Rightarrow>
                    Ok (\<lparr>pc_id = mc_id chunk, pc_checksum = mc_checksum chunk, pc_storage_nodes = ns\<rparr> # cs))))"

text \<open>
  \<open>get_object\<close>, \<open>get_chunk\<close> and \<open>delete_object\<close> lock the store twice: the first critical section
  reads, the second builds the reply or deletes.
\<close>

definition md_get_object_read :: "string \<Rightarrow> ('g, 'c) StorageMetadataImpl \<Rightarrow> MetaObject rpc" where
  "md_get_object_read name svc =
     (case get_object name (md_store svc) of
        Ok ob \<Rightarrow> Ok ob
      | Err e \<Rightarrow> Err (if e = NotFound then Code_NotFound else Code_Internal))"

definition md_get_object_reply ::
  "MetaObject \<Rightarrow> ('g, 'c) StorageMetadataImpl \<Rightarrow> GetObjectResponse rpc \<times> ('g, 'c) StorageMetadataImpl" where
  "md_get_object_reply ob svc =
     (let svc' = md_count ''get_object'' ''ok'' svc in
      case resolve_chunks (md_store svc) (mo_chunks ob) of
        Err e \<Rightarrow> (Err e, svc')
      | Ok cs \<Rightarrow> (Ok \<lparr>go_checksum = mo_checksum ob, go_chunks = cs\<rparr>, svc'))"

definition md_get_object_local where
  "md_get_object_local name svc =
     (case md_get_object_read name svc of
        Err e \<Rightarrow> (Err e, svc)
      | Ok ob \<Rightarrow> md_get_object_reply ob svc)"

definition md_get_object where
  "md_get_object P xxh3_64 name =
     object_scoped xxh3_64 name (\<lambda>addr. forward_get_object P addr name) (md_get_object_local name)"

definition md_delete_object_read :: "string \<Rightarrow> ('g, 'c) StorageMetadataImpl \<Rightarrow> u64 list" where
  "md_delete_object_read name svc = (case get_object name (md_store svc) of Ok ob \<Rightarrow> mo_chunks ob | Err _ \<Rightarrow> [])"

definition md_delete_object_commit ::
  "json_ser \<Rightarrow> string \<Rightarrow> u64 list \<Rightarrow> ('g, 'c) StorageMetadataImpl \<Rightarrow> unit rpc \<times> ('g, 'c) StorageMetadataImpl" where
  "md_delete_object_commit ser name chunk_ids svc =
     (case delete_object ser name (md_store svc) of
        (Err e, st) \<Rightarrow>
          (Err (if e = NotFound then Code_NotFound else Code_Internal), svc\<lparr>md_store := st\<rparr>)
      | (Ok _, st) \<Rightarrow>
          (Ok (), md_gauge Md_objects_total (- 1) (md_count ''delete_object'' ''ok''
             (svc\<lparr>md_store := st, md_index := fold (\<lambda>i idx. snd (ci_remove i idx)) chunk_ids (md_index svc)\<rparr>))))"

definition md_delete_object_local where
  "md_delete_object_local ser name svc = md_delete_object_commit ser name (md_delete_object_read name svc) svc"

definition md_delete_object where
  "md_delete_object P xxh3_64 ser name =
     object_scoped xxh3_64 name (\<lambda>addr. forward_delete_object P addr name) (md_delete_object_local ser name)"

section \<open>Chunk handlers\<close>

definition md_get_chunk_read :: "u64 \<Rightarrow> ('g, 'c) StorageMetadataImpl \<Rightarrow> (string \<times> MetaChunk) rpc" where
  "md_get_chunk_read chunk_id svc =
     (case get_chunk chunk_id (md_store svc) of
        Err e \<Rightarrow> Err (if e = NotFound then Code_NotFound else Code_Internal)
      | Ok c \<Rightarrow> Ok c)"

definition md_get_chunk_reply :: "string \<times> MetaChunk \<Rightarrow> ('g, 'c) StorageMetadataImpl \<Rightarrow> GetChunkResponse rpc" where
  "md_get_chunk_reply c svc =
     (case resolve_nodes (ms_storage_nodes (md_store svc)) (mc_storage_nodes (snd c)) of
        Err e \<Rightarrow> Err e
      | Ok ns \<Rightarrow> Ok \<lparr>gc_object_name = fst c, gc_checksum = mc_checksum (snd c), gc_storage_nodes = ns\<rparr>)"

definition md_get_chunk_local where
  "md_get_chunk_local chunk_id svc =
     (case md_get_chunk_read chunk_id svc of
        Err e \<Rightarrow> (Err e, svc)
      | Ok c \<Rightarrow> (md_get_chunk_reply c svc, svc))"

definition md_get_chunk where
  "md_get_chunk P xxh3_64 chunk_id =
     chunk_scoped xxh3_64 chunk_id (\<lambda>addr. forward_get_chunk P addr chunk_id) (md_get_chunk_local chunk_id)"

definition md_delete_chunk_local ::
  "json_ser \<Rightarrow> u64 \<Rightarrow> ('g, 'c) StorageMetadataImpl \<Rightarrow> unit rpc \<times> ('g, 'c) StorageMetadataImpl" where
  "md_delete_chunk_local ser chunk_id svc =
     (case delete_chunk ser chunk_id (md_store svc) of
        (Err e, st) \<Rightarrow>
          (Err (if e = NotFound then Code_NotFound else Code_Internal), svc\<lparr>md_store := st\<rparr>)
      | (Ok _, st) \<Rightarrow> (Ok (), svc\<lparr>md_store := st, md_index := snd (ci_remove chunk_id (md_index svc))\<rparr>))"

definition md_delete_chunk where
  "md_delete_chunk P xxh3_64 ser chunk_id =
     chunk_scoped xxh3_64 chunk_id (\<lambda>addr. forward_delete_chunk P addr chunk_id) (md_delete_chunk_local ser chunk_id)"

definition replica_status :: "io_error_kind \<Rightarrow> code" where
  "replica_status e =
     (case e of NotFound \<Rightarrow> Code_NotFound | AlreadyExists \<Rightarrow> Code_AlreadyExists
      | InvalidInput \<Rightarrow> Code_FailedPrecondition | _ \<Rightarrow> Code_Internal)"

definition md_add_chunk_replica_local ::
  "json_ser \<Rightarrow> u64 \<Rightarrow> u64 \<Rightarrow> ('g, 'c) StorageMetadataImpl \<Rightarrow> unit rpc \<times> ('g, 'c) StorageMetadataImpl" where
  "md_add_chunk_replica_local ser chunk_id node svc =
     (case add_chunk_replica ser chunk_id node (md_store svc) of
        (Ok _, st) \<Rightarrow> (Ok (), md_count ''add_chunk_replica'' ''ok'' (svc\<lparr>md_store := st\<rparr>))
      | (Err e, st) \<Rightarrow> (Err (replica_status e), md_count ''add_chunk_replica'' ''error'' (svc\<lparr>md_store := st\<rparr>)))"

definition md_add_chunk_replica where
  "md_add_chunk_replica P xxh3_64 ser chunk_id node =
     chunk_scoped xxh3_64 chunk_id (\<lambda>addr. forward_add_chunk_replica P addr chunk_id node)
       (md_add_chunk_replica_local ser chunk_id node)"

definition md_allocate_chunk_local :: "'g rand \<Rightarrow> string \<Rightarrow> ('g, 'c) StorageMetadataImpl
    \<Rightarrow> ((u64 \<times> u64 \<times> string) rpc \<times> ('g, 'c) StorageMetadataImpl) option" where
  "md_allocate_chunk_local R name svc =
     (case allocate_chunk R name (md_store svc) of
        None \<Rightarrow> None
      | Some (Ok a, st) \<Rightarrow> Some (Ok a, md_count ''allocate_chunk'' ''ok'' (svc\<lparr>md_store := st\<rparr>))
      | Some (Err e, st) \<Rightarrow>
          Some (Err Code_Unavailable, md_count ''allocate_chunk'' ''error'' (svc\<lparr>md_store := st\<rparr>)))"

definition md_allocate_chunk where
  "md_allocate_chunk P R xxh3_64 name svc w =
     (if name \<noteq> [] then
        object_scoped_option xxh3_64 name (\<lambda>addr. forward_allocate_chunk P addr name)
          (md_allocate_chunk_local R name) svc w
      else case md_allocate_chunk_local R name svc of None \<Rightarrow> None | Some (r, svc') \<Rightarrow> Some (r, svc', w))"

definition confirm_status :: "io_error_kind \<Rightarrow> code" where
  "confirm_status e =
     (case e of NotFound \<Rightarrow> Code_NotFound | AlreadyExists \<Rightarrow> Code_AlreadyExists | _ \<Rightarrow> Code_Internal)"

definition md_confirm_chunk_local ::
  "json_ser \<Rightarrow> u64 \<Rightarrow> string \<Rightarrow> u32 \<Rightarrow> u64 \<Rightarrow> ('g, 'c) StorageMetadataImpl
     \<Rightarrow> unit rpc \<times> ('g, 'c) StorageMetadataImpl" where
  "md_confirm_chunk_local ser chunk_id name c node svc =
     (case confirm_chunk ser chunk_id name c node (md_store svc) of
        (Ok _, st) \<Rightarrow>
          (Ok (), md_gauge Md_chunks_total 1 (md_count ''confirm_chunk'' ''ok''
             (svc\<lparr>md_store := st, md_index := ci_insert chunk_id name (md_index svc)\<rparr>)))
      | (Err e, st) \<Rightarrow> (Err (confirm_status e), md_count ''confirm_chunk'' ''error'' (svc\<lparr>md_store := st\<rparr>)))"

definition md_confirm_chunk where
  "md_confirm_chunk P xxh3_64 ser chunk_id name c node =
     object_scoped xxh3_64 name (\<lambda>addr. forward_confirm_chunk P addr chunk_id name c node)
       (md_confirm_chunk_local ser chunk_id name c node)"

text \<open>This handler has no forward: it falls through to the local store even for a foreign key.\<close>

definition md_update_object_checksum ::
  "json_ser \<Rightarrow> string \<Rightarrow> u32 \<Rightarrow> u64 \<Rightarrow> ('g, 'c) StorageMetadataImpl
     \<Rightarrow> unit rpc \<times> ('g, 'c) StorageMetadataImpl" where
  "md_update_object_checksum ser name c total_size svc =
     (case update_object_checksum ser name c total_size (md_store svc) of
        (Ok _, st) \<Rightarrow> (Ok (), md_count ''update_object_checksum'' ''ok'' (svc\<lparr>md_store := st\<rparr>))
      | (Err e, st) \<Rightarrow>
          (Err (if e = NotFound then Code_NotFound else Code_Internal), svc\<lparr>md_store := st\<rparr>))"

section \<open>Storage node and listing handlers\<close>

definition md_put_storage_node ::
  "('c, 'w) peer_rpc \<Rightarrow> 'g rand \<Rightarrow> (string \<Rightarrow> bool) \<Rightarrow> string \<Rightarrow> ('g, 'c) StorageMetadataImpl \<Rightarrow> 'w
     \<Rightarrow> (u64 rpc \<times> ('g, 'c) StorageMetadataImpl \<times> 'w) option" where
  "md_put_storage_node P R valid_uri address svc w =
     (case construct_storage_node R valid_uri address (md_store svc) of
        None \<Rightarrow> None
      | Some (Err e, st) \<Rightarrow>
          Some (Err (if e = InvalidInput then Code_InvalidArgument else Code_Internal), svc\<lparr>md_store := st\<rparr>, w)
      | Some (Ok i, st) \<Rightarrow>
          let svc1 = svc\<lparr>md_store := st\<rparr>;
              done = (\<lambda>svc w. Some (Ok i, md_gauge Md_storage_nodes_total 1 (md_count ''put_storage_node'' ''ok'' svc), w)) in
          (case md_cluster svc1 of
             None \<Rightarrow> done svc1 w
           | Some cm \<Rightarrow>
               (case broadcast_put_storage_node P address cm w of
                  None \<Rightarrow> None
                | Some (results, cm', w') \<Rightarrow> done (svc1\<lparr>md_cluster := Some cm'\<rparr>) w')))"

text \<open>Replica ids to nodes, skipping the ones that are not registered.\<close>

definition known_nodes :: "(u64, MetaStorageNode) hashmap \<Rightarrow> u64 list \<Rightarrow> MetaStorageNode list" where
  "known_nodes nodes is =
     List.map_filter (\<lambda>i. map_option (\<lambda>n. \<lparr>msn_id = i, msn_address = msn_address n\<rparr>) (hm_get nodes i)) is"

definition list_chunk :: "'g MetadataStore \<Rightarrow> MetaChunk \<Rightarrow> PMetaChunk" where
  "list_chunk st chunk =
     \<lparr>pc_id = mc_id chunk, pc_checksum = mc_checksum chunk,
      pc_storage_nodes = known_nodes (ms_storage_nodes st) (mc_storage_nodes chunk)\<rparr>"

definition list_object :: "'g MetadataStore \<Rightarrow> MetaObject \<Rightarrow> PMetaObject" where
  "list_object st ob =
     \<lparr>po_name = mo_name ob, po_checksum = mo_checksum ob,
      po_chunks = map (list_chunk st) (List.map_filter (hm_get (ms_chunks st)) (mo_chunks ob)),
      po_total_size = mo_total_size ob\<rparr>"

definition md_list_objects ::
  "('c, 'w) peer_rpc \<Rightarrow> ('g, 'c) StorageMetadataImpl \<Rightarrow> 'w
     \<Rightarrow> PMetaObject list rpc \<times> ('g, 'c) StorageMetadataImpl \<times> 'w" where
  "md_list_objects P svc w =
     (let local_objects = map (list_object (md_store svc)) (list_objects (md_store svc)) in
      case md_cluster svc of
        None \<Rightarrow> (Ok local_objects, svc, w)
      | Some cm \<Rightarrow>
          (case scatter_gather_list_objects P cm w of
             (Ok peer_objects, cm', w') \<Rightarrow> (Ok (local_objects @ peer_objects), svc\<lparr>md_cluster := Some cm'\<rparr>, w')
           | (Err _, cm', w') \<Rightarrow> (Ok local_objects, svc\<lparr>md_cluster := Some cm'\<rparr>, w')))"

definition md_get_storage_node :: "u64 \<Rightarrow> ('g, 'c) StorageMetadataImpl \<Rightarrow> string rpc" where
  "md_get_storage_node i svc =
     (case get_storage_node i (md_store svc) of
        Ok address \<Rightarrow> Ok address
      | Err e \<Rightarrow> Err (if e = NotFound then Code_NotFound else Code_Internal))"

definition md_list_storage_nodes :: "('g, 'c) StorageMetadataImpl \<Rightarrow> MetaStorageNode list rpc" where
  "md_list_storage_nodes svc =
     Ok (map (\<lambda>n. \<lparr>msn_id = msn_id n, msn_address = msn_address n\<rparr>) (list_storage_nodes (md_store svc)))"

definition md_delete_storage_node ::
  "('c, 'w) peer_rpc \<Rightarrow> u64 \<Rightarrow> ('g, 'c) StorageMetadataImpl \<Rightarrow> 'w
     \<Rightarrow> (unit rpc \<times> ('g, 'c) StorageMetadataImpl \<times> 'w) option" where
  "md_delete_storage_node P i svc w =
     (case delete_storage_node i (md_store svc) of
        (Err _, st) \<Rightarrow> Some (Err Code_Internal, svc\<lparr>md_store := st\<rparr>, w)
      | (Ok _, st) \<Rightarrow>
          (case md_cluster svc of
             None \<Rightarrow> Some (Ok (), svc\<lparr>md_store := st\<rparr>, w)
           | Some cm \<Rightarrow>
               (case broadcast_delete_storage_node P i cm w of
                  None \<Rightarrow> None
                | Some (_, cm', w') \<Rightarrow> Some (Ok (), svc\<lparr>md_store := st, md_cluster := Some cm'\<rparr>, w'))))"

definition default_replicas :: "u32 \<Rightarrow> u32" where
  "default_replicas max_replicas = (if max_replicas = 0 then 3 else max_replicas)"

definition under_replicated :: "MetaChunk \<Rightarrow> UnderReplicatedChunk" where
  "under_replicated chunk =
     \<lparr>ur_chunk_id = mc_id chunk, ur_checksum = mc_checksum chunk, ur_storage_node_ids = mc_storage_nodes chunk\<rparr>"

definition md_list_under_replicated_chunks ::
  "('c, 'w) peer_rpc \<Rightarrow> u32 \<Rightarrow> ('g, 'c) StorageMetadataImpl \<Rightarrow> 'w
     \<Rightarrow> UnderReplicatedChunk list rpc \<times> ('g, 'c) StorageMetadataImpl \<times> 'w" where
  "md_list_under_replicated_chunks P max_replicas svc w =
     (let m = default_replicas max_replicas;
          here = map under_replicated (list_under_replicated_chunks m (md_store svc));
          reply = (\<lambda>cs svc w. (Ok (sort_key (\<lambda>c. length (ur_storage_node_ids c)) cs),
                     md_count ''list_under_replicated_chunks'' ''ok'' svc, w)) in
      case md_cluster svc of
        None \<Rightarrow> reply here svc w
      | Some cm \<Rightarrow>
          (case scatter_gather_under_replicated_chunks P m cm w of
             (Ok peer_chunks, cm', w') \<Rightarrow> reply (here @ peer_chunks) (svc\<lparr>md_cluster := Some cm'\<rparr>) w'
           | (Err _, cm', w') \<Rightarrow> reply here (svc\<lparr>md_cluster := Some cm'\<rparr>) w'))"

section \<open>Health checks\<close>

text \<open>
  One round: \<open>check\<close> is the outcome of each node's task, \<open>None\<close> when it panicked. The tasks run on
  a copy of the node map; the nodes whose check failed are removed afterwards.
\<close>

definition failed_nodes ::
  "(u64 \<Rightarrow> MetaStorageNode \<Rightarrow> (bool, health_error) result option) \<Rightarrow> (u64, MetaStorageNode) hashmap \<Rightarrow> u64 list" where
  "failed_nodes check nodes =
     map fst (filter (\<lambda>(i, n). case check i n of Some (Err _) \<Rightarrow> True | _ \<Rightarrow> False) nodes)"

definition health_check_round ::
  "(u64 \<Rightarrow> MetaStorageNode \<Rightarrow> (bool, health_error) result option)
     \<Rightarrow> ('g, 'c) StorageMetadataImpl \<Rightarrow> ('g, 'c) StorageMetadataImpl" where
  "health_check_round check svc =
     (let st = md_store svc;
          delete_ids = failed_nodes check (ms_storage_nodes st);
          m = metric_add Md_health_checks_failed_total (int (length delete_ids))
                (metric_inc Md_health_checks_total (md_metrics svc)) in
      if delete_ids \<noteq> [] then
        let nodes = fold hm_remove delete_ids (ms_storage_nodes st) in
        svc\<lparr>md_store := st\<lparr>ms_storage_nodes := nodes\<rparr>,
            md_metrics := metric_set Md_storage_nodes_total (int (length nodes)) m\<rparr>
      else svc\<lparr>md_metrics := m\<rparr>)"

section \<open>The handlers peers call\<close>

definition peer_put_object where
  "peer_put_object ser c name svc =
     (case put_object ser c name (md_store svc) of
        (Ok _, st) \<Rightarrow> (Ok (), svc\<lparr>md_store := st\<rparr>)
      | (Err _, st) \<Rightarrow> (Err Code_Internal, svc\<lparr>md_store := st\<rparr>))"

fun peer_chunks :: "'g MetadataStore \<Rightarrow> u64 list \<Rightarrow> PMetaChunk list rpc" where
  "peer_chunks st [] = Ok []"
| "peer_chunks st (i # is) =
     (case hm_get (ms_chunks st) i of
        None \<Rightarrow> Err Code_Internal
      | Some chunk \<Rightarrow>
          (case peer_chunks st is of
             Err e \<Rightarrow> Err e
           | Ok cs \<Rightarrow> Ok (list_chunk st chunk # cs)))"

definition peer_get_object :: "string \<Rightarrow> ('g, 'c) StorageMetadataImpl \<Rightarrow> GetObjectResponse rpc" where
  "peer_get_object name svc =
     (case get_object name (md_store svc) of
        Err e \<Rightarrow> Err (if e = NotFound then Code_NotFound else Code_Internal)
      | Ok ob \<Rightarrow>
          (case peer_chunks (md_store svc) (mo_chunks ob) of
             Err e \<Rightarrow> Err e
           | Ok cs \<Rightarrow> Ok \<lparr>go_checksum = mo_checksum ob, go_chunks = cs\<rparr>))"

definition peer_delete_object where
  "peer_delete_object ser name svc =
     (let chunk_ids = (case get_object name (md_store svc) of Ok ob \<Rightarrow> mo_chunks ob | Err _ \<Rightarrow> []) in
      case delete_object ser name (md_store svc) of
        (Err e, st) \<Rightarrow>
          (Err (if e = NotFound then Code_NotFound else Code_Internal), svc\<lparr>md_store := st\<rparr>)
      | (Ok _, st) \<Rightarrow>
          (Ok (), svc\<lparr>md_store := st, md_index := fold (\<lambda>i idx. snd (ci_remove i idx)) chunk_ids (md_index svc)\<rparr>))"

definition peer_put_chunk where
  "peer_put_chunk R ser name c svc =
     (case put_chunk R ser name c (md_store svc) of
        None \<Rightarrow> None
      | Some (Err _, st) \<Rightarrow> Some (Err Code_Internal, svc\<lparr>md_store := st\<rparr>)
      | Some (Ok (chunk_id, addr), st) \<Rightarrow>
          Some (Ok (chunk_id, addr), svc\<lparr>md_store := st, md_index := ci_insert chunk_id name (md_index svc)\<rparr>))"

definition peer_allocate_chunk where
  "peer_allocate_chunk R name svc =
     (case allocate_chunk R name (md_store svc) of
        None \<Rightarrow> None
      | Some (Ok a, st) \<Rightarrow> Some (Ok a, svc\<lparr>md_store := st\<rparr>)
      | Some (Err _, st) \<Rightarrow> Some (Err Code_Unavailable, svc\<lparr>md_store := st\<rparr>))"

definition peer_confirm_chunk where
  "peer_confirm_chunk ser chunk_id name c node svc =
     (case confirm_chunk ser chunk_id name c node (md_store svc) of
        (Err e, st) \<Rightarrow> (Err (confirm_status e), svc\<lparr>md_store := st\<rparr>)
      | (Ok _, st) \<Rightarrow> (Ok (), svc\<lparr>md_store := st, md_index := ci_insert chunk_id name (md_index svc)\<rparr>))"

definition peer_get_chunk :: "u64 \<Rightarrow> ('g, 'c) StorageMetadataImpl \<Rightarrow> GetChunkResponse rpc" where
  "peer_get_chunk chunk_id svc =
     (case get_chunk chunk_id (md_store svc) of
        Err e \<Rightarrow> Err (if e = NotFound then Code_NotFound else Code_Internal)
      | Ok (object_name, chunk) \<Rightarrow>
          Ok \<lparr>gc_object_name = object_name, gc_checksum = mc_checksum chunk,
              gc_storage_nodes = known_nodes (ms_storage_nodes (md_store svc)) (mc_storage_nodes chunk)\<rparr>)"

definition peer_delete_chunk where
  "peer_delete_chunk ser chunk_id svc =
     (case delete_chunk ser chunk_id (md_store svc) of
        (Err e, st) \<Rightarrow> (Err (if e = NotFound then Code_NotFound else Code_Internal), svc\<lparr>md_store := st\<rparr>)
      | (Ok _, st) \<Rightarrow> (Ok (), svc\<lparr>md_store := st, md_index := snd (ci_remove chunk_id (md_index svc))\<rparr>))"

definition peer_add_chunk_replica where
  "peer_add_chunk_replica ser chunk_id node svc =
     (case add_chunk_replica ser chunk_id node (md_store svc) of
        (Err e, st) \<Rightarrow> (Err (replica_status e), svc\<lparr>md_store := st\<rparr>)
      | (Ok _, st) \<Rightarrow> (Ok (), svc\<lparr>md_store := st\<rparr>))"

definition peer_put_storage_node where
  "peer_put_storage_node R valid_uri address svc =
     (case construct_storage_node R valid_uri address (md_store svc) of
        None \<Rightarrow> None
      | Some (Err _, st) \<Rightarrow> Some (Err Code_Internal, svc\<lparr>md_store := st\<rparr>)
      | Some (Ok i, st) \<Rightarrow> Some (Ok i, svc\<lparr>md_store := st\<rparr>))"

definition peer_delete_storage_node where
  "peer_delete_storage_node i svc =
     (case delete_storage_node i (md_store svc) of
        (Err _, st) \<Rightarrow> (Err Code_Internal, svc\<lparr>md_store := st\<rparr>)
      | (Ok _, st) \<Rightarrow> (Ok (), svc\<lparr>md_store := st\<rparr>))"

definition peer_list_local_objects :: "('g, 'c) StorageMetadataImpl \<Rightarrow> PMetaObject list rpc" where
  "peer_list_local_objects svc = Ok (map (list_object (md_store svc)) (list_objects (md_store svc)))"

definition peer_list_local_under_replicated_chunks ::
  "u32 \<Rightarrow> ('g, 'c) StorageMetadataImpl \<Rightarrow> UnderReplicatedChunk list rpc" where
  "peer_list_local_under_replicated_chunks max_replicas svc =
     Ok (map under_replicated (list_under_replicated_chunks (default_replicas max_replicas) (md_store svc)))"

definition transfer_entries :: "MetaObject \<times> MetaChunk list \<Rightarrow> TransferPartitionEntry list" where
  "transfer_entries p =
     (case p of (ob, cs) \<Rightarrow>
        Entry_Object (mo_name ob) (mo_checksum ob) (mo_chunks ob) #
        map (\<lambda>c. Entry_Chunk (mc_id c) (mc_object_name c) (mc_checksum c) (mc_storage_nodes c)) cs)"

definition peer_transfer_partition ::
  "(string \<Rightarrow> u64) \<Rightarrow> (u64 \<times> u64) list \<Rightarrow> ('g, 'c) StorageMetadataImpl \<Rightarrow> TransferPartitionEntry list rpc" where
  "peer_transfer_partition xxh3_64 ranges svc =
     Ok (concat (map transfer_entries (objects_in_hash_ranges xxh3_64 ranges (md_store svc))))"

definition peer_broadcast_chunk_index where
  "peer_broadcast_chunk_index entries svc = (Ok (), svc\<lparr>md_index := ci_bulk_insert entries (md_index svc)\<rparr>)"

section \<open>Migration\<close>

fun collect_objects :: "TransferPartitionEntry list \<Rightarrow> MetaObject list" where
  "collect_objects [] = []"
| "collect_objects (Entry_Object name c ids # es) =
     \<lparr>mo_name = name, mo_checksum = c, mo_chunks = ids, mo_total_size = 0\<rparr> # collect_objects es"
| "collect_objects (Entry_Chunk _ _ _ _ # es) = collect_objects es"

fun collect_chunks :: "TransferPartitionEntry list \<Rightarrow> MetaChunk list" where
  "collect_chunks [] = []"
| "collect_chunks (Entry_Object _ _ _ # es) = collect_chunks es"
| "collect_chunks (Entry_Chunk i name c nodes # es) =
     \<lparr>mc_id = i, mc_object_name = name, mc_checksum = c, mc_storage_nodes = nodes, mc_status = Confirmed\<rparr>
       # collect_chunks es"

datatype migration_error = Connect_failed | Rpc_failed code | Ingest_failed io_error_kind

text \<open>What is done with the entries a peer sent: nothing on an empty stream.\<close>

definition ingest_entries where
  "ingest_entries P ser entries cm svc w =
     (let objects = collect_objects entries;
          chunks = collect_chunks entries;
          chunk_index_entries = map (\<lambda>c. (mc_id c, mc_object_name c)) chunks in
      if objects = [] \<and> chunks = [] then (Ok (), svc\<lparr>md_cluster := Some cm\<rparr>, w)
      else case ingest_partition ser objects chunks (md_store svc) of
             (Err e, st) \<Rightarrow> (Err (Ingest_failed e), svc\<lparr>md_store := st, md_cluster := Some cm\<rparr>, w)
           | (Ok _, st) \<Rightarrow>
               (case broadcast_chunk_index_update P chunk_index_entries cm w of
                  (cm', w') \<Rightarrow>
                    (Ok (), svc\<lparr>md_store := st, md_cluster := Some cm',
                       md_index := ci_bulk_insert chunk_index_entries (md_index svc)\<rparr>, w')))"

definition pull_partition where
  "pull_partition P ser source_addr ranges cm svc w =
     (case get_peer_client P source_addr cm w of
        (None, cm', w') \<Rightarrow> (Err Connect_failed, svc\<lparr>md_cluster := Some cm'\<rparr>, w')
      | (Some client, cm', w') \<Rightarrow>
          (case pr_transfer_partition P client ranges w' of
             (Err e, w'') \<Rightarrow> (Err (Rpc_failed e), svc\<lparr>md_cluster := Some cm'\<rparr>, w'')
           | (Ok entries, w'') \<Rightarrow> ingest_entries P ser entries cm' svc w''))"

text \<open>The wait of at most 30 polls; \<open>polls\<close> is what each poll of \<open>is_clustered\<close> returns.\<close>

fun wait_for_peers :: "nat \<Rightarrow> (nat \<Rightarrow> bool) \<Rightarrow> nat \<Rightarrow> bool" where
  "wait_for_peers 0 polls attempts = polls attempts"
| "wait_for_peers (Suc left) polls attempts = (polls attempts \<or> wait_for_peers left polls (Suc attempts))"

fun pull_all where
  "pull_all P ser ranges [] svc w = (svc, w)"
| "pull_all P ser ranges (addr # addrs) svc w =
     (case md_cluster svc of
        None \<Rightarrow> (svc, w)
      | Some cm \<Rightarrow>
          (case pull_partition P ser addr ranges cm svc w of
             (_, svc', w') \<Rightarrow> pull_all P ser ranges addrs svc' w'))"

definition migrate_on_join where
  "migrate_on_join P ser polls svc w =
     (if \<not> wait_for_peers 30 polls 0 then (svc, w)
      else case md_cluster svc of
        None \<Rightarrow> (svc, w)
      | Some cm \<Rightarrow>
          let owned_ranges = get_owned_ranges (cm_ring cm) (cm_node_id cm) in
          if owned_ranges = [] then (svc, w)
          else case pull_all P ser owned_ranges (get_all_peer_addrs cm) svc w of
            (svc', w') \<Rightarrow>
              let entries = ci_entries (md_index svc') in
              if entries = [] then (svc', w')
              else case md_cluster svc' of
                None \<Rightarrow> (svc', w')
              | Some cm' \<Rightarrow>
                  (case broadcast_chunk_index_update P entries cm' w' of
                     (cm'', w'') \<Rightarrow> (svc'\<lparr>md_cluster := Some cm''\<rparr>, w'')))"

section \<open>Lemmas: replies\<close>

lemma resolve_nodes_eq:
  "resolve_nodes nodes is =
     (if \<forall>i \<in> set is. hm_contains nodes i
      then Ok (map (\<lambda>i. \<lparr>msn_id = i, msn_address = msn_address (the (hm_get nodes i))\<rparr>) is)
      else Err Code_Internal)"
  by (induction "is") (auto simp del: map_of_eq_None_iff map_of_eq_Some_iff split: option.split)

lemma known_nodes_eq:
  "\<forall>i \<in> set is. hm_contains nodes i \<Longrightarrow>
     known_nodes nodes is = map (\<lambda>i. \<lparr>msn_id = i, msn_address = msn_address (the (hm_get nodes i))\<rparr>) is"
  by (induction "is") (auto simp: known_nodes_def simp del: map_of_eq_None_iff map_of_eq_Some_iff)

text \<open>A chunk is served when all its replicas are on registered nodes.\<close>

definition replicas_known :: "'g MetadataStore \<Rightarrow> u64 \<Rightarrow> bool" where
  "replicas_known st i \<longleftrightarrow>
     (case hm_get (ms_chunks st) i of
        None \<Rightarrow> False
      | Some c \<Rightarrow> \<forall>n \<in> set (mc_storage_nodes c). hm_contains (ms_storage_nodes st) n)"

lemma resolve_chunks_eq:
  "resolve_chunks st is =
     (if \<forall>i \<in> set is. replicas_known st i
      then Ok (map (\<lambda>i. list_chunk st (the (hm_get (ms_chunks st) i))) is)
      else Err Code_Internal)"
  by (induction "is")
    (auto simp: resolve_nodes_eq replicas_known_def list_chunk_def known_nodes_eq
      simp del: map_of_eq_None_iff map_of_eq_Some_iff split: option.split)

lemma peer_chunks_eq:
  "\<forall>i \<in> set is. hm_contains (ms_chunks st) i \<Longrightarrow>
     peer_chunks st is = Ok (map (\<lambda>i. list_chunk st (the (hm_get (ms_chunks st) i))) is)"
  by (induction "is") (auto simp del: map_of_eq_None_iff map_of_eq_Some_iff)

lemma referenced_present:
  "ms_wf st \<Longrightarrow> hm_get (ms_objects st) n = Some ob \<Longrightarrow> i \<in> set (mo_chunks ob) \<Longrightarrow> hm_contains (ms_chunks st) i"
  by (metis option.distinct(1) referenced_chunk)

section \<open>Lemmas: transfer\<close>

lemma collect_objects_append: "collect_objects (a @ b) = collect_objects a @ collect_objects b"
  by (induction a rule: collect_objects.induct) auto

lemma collect_chunks_append: "collect_chunks (a @ b) = collect_chunks a @ collect_chunks b"
  by (induction a rule: collect_chunks.induct) auto

lemma collect_chunk_entries:
  "collect_objects (map (\<lambda>c. Entry_Chunk (mc_id c) (mc_object_name c) (mc_checksum c) (mc_storage_nodes c)) cs) = []"
  "collect_chunks (map (\<lambda>c. Entry_Chunk (mc_id c) (mc_object_name c) (mc_checksum c) (mc_storage_nodes c)) cs)
     = map (\<lambda>c. c\<lparr>mc_status := Confirmed\<rparr>) cs"
  by (induction cs) auto

lemma collect_transfer:
  "collect_objects (concat (map transfer_entries ps)) = map (\<lambda>(ob, cs). ob\<lparr>mo_total_size := 0\<rparr>) ps"
  "collect_chunks (concat (map transfer_entries ps)) =
     concat (map (\<lambda>(ob, cs). map (\<lambda>c. c\<lparr>mc_status := Confirmed\<rparr>) cs) ps)"
  by (induction ps)
    (auto simp: transfer_entries_def collect_objects_append collect_chunks_append collect_chunk_entries)

lemma map_of_unique:
  assumes "(k, v) \<in> set xs" and "\<And>v'. (k, v') \<in> set xs \<Longrightarrow> v' = v"
  shows "map_of xs k = Some v"
proof (cases "map_of xs k")
  case None
  then show ?thesis using assms(1) by (force simp: map_of_eq_None_iff)
next
  case (Some v')
  then show ?thesis using assms(2) [OF map_of_SomeD [OF Some]] by simp
qed

lemma fold_insert_by:
  assumes "hm_invar m" and "v \<in> set vs" and "f v = k" and "\<And>v'. v' \<in> set vs \<Longrightarrow> f v' = k \<Longrightarrow> v' = v"
  shows "hm_get (fold (\<lambda>v. hm_insert (f v) v) vs m) k = Some v"
proof -
  have "fold (\<lambda>v. hm_insert (f v) v) vs m = fold (\<lambda>(k, v). hm_insert k v) (map (\<lambda>v. (f v, v)) vs) m"
    by (simp add: fold_map comp_def)
  then have *: "hm_get (fold (\<lambda>v. hm_insert (f v) v) vs m) = map_of m ++ map_of (rev (map (\<lambda>v. (f v, v)) vs))"
    by (simp only: hm.get_fold_ins [OF assms(1)])
  have "(k, v) \<in> set (rev (map (\<lambda>v. (f v, v)) vs))" using assms(2,3) by auto
  moreover have "v' = v" if "(k, v') \<in> set (rev (map (\<lambda>v. (f v, v)) vs))" for v'
    using that assms(4) by auto
  ultimately have "map_of (rev (map (\<lambda>v. (f v, v)) vs)) k = Some v" by (rule map_of_unique)
  then show ?thesis unfolding * by (rule map_add_find_right)
qed

lemma objects_in_ranges_mem:
  assumes "ms_wf st"
  shows "(ob, cs) \<in> set (objects_in_hash_ranges x ranges st) \<longleftrightarrow>
    (\<exists>n. hm_get (ms_objects st) n = Some ob) \<and> hash_in_ranges (x (mo_name ob)) ranges \<and>
    cs = List.map_filter (hm_get (ms_chunks st)) (mo_chunks ob)"
proof -
  have "(ob, cs) \<in> set (objects_in_hash_ranges x ranges st) \<longleftrightarrow>
    ob \<in> set (hm_values (ms_objects st)) \<and> hash_in_ranges (x (mo_name ob)) ranges \<and>
    cs = List.map_filter (hm_get (ms_chunks st)) (mo_chunks ob)"
    unfolding objects_in_hash_ranges_def hash_key_def by (auto simp del: map_of_eq_Some_iff)
  then show ?thesis by (simp only: hm_values_iff [OF ms_wfD(1) [OF assms]])
qed

section \<open>The chunk index follows the objects\<close>

definition index_ok :: "'g MetadataStore \<Rightarrow> chunk_index \<Rightarrow> bool" where
  "index_ok st idx \<longleftrightarrow>
     (\<forall>n ob. hm_get (ms_objects st) n = Some ob \<longrightarrow> (\<forall>i \<in> set (mo_chunks ob). ci_get i idx = Some n))"

definition calm :: "json_ser \<Rightarrow> 'g MetadataStore \<Rightarrow> bool" where
  "calm ser st \<longleftrightarrow> fs_plan (ms_disk st) = [] \<and> (\<forall>ps. ser ps \<noteq> None)"

definition md_inv :: "json_ser \<Rightarrow> 'g MetadataStore \<Rightarrow> chunk_index \<Rightarrow> bool" where
  "md_inv ser st idx \<longleftrightarrow> ms_wf st \<and> calm ser st \<and> index_ok st idx"

text \<open>Calls of clients (\<open>peer\<close> false) and of peers that reach this node's store.\<close>

datatype md_call =
    Md_put_object u32 string | Md_delete_object string | Md_update_object_checksum string u32 u64
  | Md_put_chunk string u32 | Md_allocate_chunk string | Md_confirm_chunk u64 string u32 u64
  | Md_delete_chunk u64 | Md_add_chunk_replica u64 u64

fun md_step where
  "md_step R ser peer (Md_put_object c n) svc =
     Some (snd (if peer then peer_put_object ser c n svc else md_put_object_local ser c n svc))"
| "md_step R ser peer (Md_delete_object n) svc =
     Some (snd (if peer then peer_delete_object ser n svc else md_delete_object_local ser n svc))"
| "md_step R ser peer (Md_update_object_checksum n c t) svc = Some (snd (md_update_object_checksum ser n c t svc))"
| "md_step R ser peer (Md_put_chunk n c) svc =
     map_option snd (if peer then peer_put_chunk R ser n c svc else md_put_chunk_local R ser n c svc)"
| "md_step R ser peer (Md_allocate_chunk n) svc =
     map_option snd (if peer then peer_allocate_chunk R n svc else md_allocate_chunk_local R n svc)"
| "md_step R ser peer (Md_confirm_chunk i n c s) svc =
     Some (snd (if peer then peer_confirm_chunk ser i n c s svc else md_confirm_chunk_local ser i n c s svc))"
| "md_step R ser peer (Md_delete_chunk i) svc =
     Some (snd (if peer then peer_delete_chunk ser i svc else md_delete_chunk_local ser i svc))"
| "md_step R ser peer (Md_add_chunk_replica i s) svc =
     Some (snd (if peer then peer_add_chunk_replica ser i s svc else md_add_chunk_replica_local ser i s svc))"

inductive md_reach where
  start: "md_reach R ser svc0 svc0"
| call: "md_reach R ser svc0 svc \<Longrightarrow> md_step R ser peer c svc = Some svc' \<Longrightarrow> md_reach R ser svc0 svc'"
| health: "md_reach R ser svc0 svc \<Longrightarrow> md_reach R ser svc0 (health_check_round check svc)"
| membership: "md_reach R ser svc0 svc \<Longrightarrow> md_cluster svc = Some cm \<Longrightarrow>
    md_reach R ser svc0 (svc\<lparr>md_cluster := Some (membership_tick x live cm)\<rparr>)"
| register: "md_reach R ser svc0 svc \<Longrightarrow> construct_storage_node R uri a (md_store svc) = Some (r, st) \<Longrightarrow>
    md_reach R ser svc0 (svc\<lparr>md_store := st\<rparr>)"

lemmas md_handlers = md_put_object_local_def peer_put_object_def md_delete_object_local_def md_delete_object_read_def
  md_delete_object_commit_def peer_delete_object_def
  md_update_object_checksum_def md_put_chunk_local_def peer_put_chunk_def md_allocate_chunk_local_def
  peer_allocate_chunk_def md_confirm_chunk_local_def peer_confirm_chunk_def md_delete_chunk_local_def
  peer_delete_chunk_def md_add_chunk_replica_local_def peer_add_chunk_replica_def

lemma md_effects [simp]:
  "md_store (md_count a b svc) = md_store svc" "md_index (md_count a b svc) = md_index svc"
  "md_store (md_gauge g n svc) = md_store svc" "md_index (md_gauge g n svc) = md_index svc"
  "md_cluster (md_count a b svc) = md_cluster svc" "md_cluster (md_gauge g n svc) = md_cluster svc"
  by (simp_all add: md_count_def md_gauge_def)

lemma calm_save:
  assumes "calm ser st"
  obtains d where "ms_save ser st = (Ok (), st\<lparr>ms_disk := d\<rparr>)" "calm ser (st\<lparr>ms_disk := d\<rparr>)"
proof -
  obtain r st' where c: "ms_save ser st = (r, st')" by fastforce
  obtain d where "st' = st\<lparr>ms_disk := d\<rparr>" using ms_save_effect [OF c] by auto
  then show ?thesis using that [of d] ms_save_no_faults [of st ser] assms c by (simp add: calm_def)
qed

lemma calm_env [simp]:
  "calm ser (st\<lparr>ms_objects := a\<rparr>) = calm ser st" "calm ser (st\<lparr>ms_chunks := b\<rparr>) = calm ser st"
  "calm ser (st\<lparr>ms_rng := g\<rparr>) = calm ser st" "calm ser (st\<lparr>ms_storage_nodes := s\<rparr>) = calm ser st"
  by (simp_all add: calm_def)

lemma index_ok_env [simp]:
  "index_ok (st\<lparr>ms_disk := d\<rparr>) idx = index_ok st idx" "index_ok (st\<lparr>ms_chunks := b\<rparr>) idx = index_ok st idx"
  "index_ok (st\<lparr>ms_rng := g\<rparr>) idx = index_ok st idx" "index_ok (st\<lparr>ms_storage_nodes := s\<rparr>) idx = index_ok st idx"
  by (simp_all add: index_ok_def)

lemma index_ok_append:
  assumes "index_ok st idx" and "hm_get (ms_objects st) n = Some ob"
    and "\<And>m o'. hm_get (ms_objects st) m = Some o' \<Longrightarrow> i \<notin> set (mo_chunks o')"
  shows "index_ok (st\<lparr>ms_objects := hm_insert n (add_chunk i ob) (ms_objects st)\<rparr>) (ci_insert i n idx)"
  using assms
  by (auto simp: index_ok_def ci_get_def ci_insert_def add_chunk_def simp del: map_of_eq_Some_iff split: if_splits)

lemma index_ok_replace:
  assumes "index_ok st idx" and "\<And>i. i \<in> set (mo_chunks ob') \<Longrightarrow> ci_get i idx = Some n"
  shows "index_ok (st\<lparr>ms_objects := hm_insert n ob' (ms_objects st)\<rparr>) idx"
  using assms by (auto simp: index_ok_def simp del: map_of_eq_Some_iff split: if_splits)

lemma ci_get_remove: "ci_get j (snd (ci_remove i idx)) = (if j = i then None else ci_get j idx)"
  by (simp add: ci_get_def ci_remove_def)

lemma ci_get_fold_remove:
  "ci_get j (fold (\<lambda>i idx. snd (ci_remove i idx)) is idx) = (if j \<in> set is then None else ci_get j idx)"
  by (induction "is" arbitrary: idx) (auto simp: ci_get_remove)

lemma index_ok_forget:
  assumes "index_ok st idx" and "\<And>n ob. hm_get (ms_objects st) n = Some ob \<Longrightarrow> set (mo_chunks ob) \<inter> I = {}"
    and "\<And>i. i \<notin> I \<Longrightarrow> ci_get i idx' = ci_get i idx"
  shows "index_ok st idx'"
  unfolding index_ok_def
proof (intro allI impI ballI)
  fix n ob i assume ob: "hm_get (ms_objects st) n = Some ob" and i: "i \<in> set (mo_chunks ob)"
  then have "i \<notin> I" using assms(2) [OF ob] by blast
  then show "ci_get i idx' = Some n" using assms(1,3) ob i unfolding index_ok_def by metis
qed

lemma inv_put_object:
  assumes inv: "md_inv ser (md_store svc) (md_index svc)"
  shows "md_inv ser (snd (put_object ser c n (md_store svc))) (md_index svc)"
proof -
  let ?st = "(md_store svc)\<lparr>ms_objects := hm_insert n (MetaObject_new n c) (ms_objects (md_store svc))\<rparr>"
  have "calm ser ?st" using inv by (simp add: md_inv_def)
  from calm_save [OF this] obtain d where d: "ms_save ser ?st = (Ok (), ?st\<lparr>ms_disk := d\<rparr>)" "calm ser (?st\<lparr>ms_disk := d\<rparr>)" .
  have "index_ok ?st (md_index svc)"
    using inv by (intro index_ok_replace) (simp_all add: md_inv_def MetaObject_new_def)
  then show ?thesis using inv d wf_put [of "md_store svc" ser c n]
    by (auto simp: put_object_def md_inv_def simp del: map_of_eq_None_iff)
qed

lemma inv_update_object_checksum:
  assumes inv: "md_inv ser st idx"
  shows "md_inv ser (snd (update_object_checksum ser n c t st)) idx"
proof (cases "hm_get (ms_objects st) n")
  case None
  then show ?thesis using inv by (simp add: update_object_checksum_def)
next
  case (Some ob)
  let ?st = "st\<lparr>ms_objects := hm_insert n (ob\<lparr>mo_checksum := c, mo_total_size := t\<rparr>) (ms_objects st)\<rparr>"
  have "calm ser ?st" using inv by (simp add: md_inv_def)
  from calm_save [OF this] obtain d where d: "ms_save ser ?st = (Ok (), ?st\<lparr>ms_disk := d\<rparr>)" "calm ser (?st\<lparr>ms_disk := d\<rparr>)" .
  have "index_ok ?st idx"
    using inv Some by (intro index_ok_replace) (auto simp: md_inv_def index_ok_def simp del: map_of_eq_Some_iff)
  then show ?thesis using inv d Some wf_update_object_checksum [of st ser n c t]
    by (simp add: update_object_checksum_def md_inv_def)
qed

lemma inv_delete_object:
  assumes inv: "md_inv ser st idx" and del: "delete_object ser n st = (r, st')"
    and ids: "is = (case get_object n st of Ok ob \<Rightarrow> mo_chunks ob | Err _ \<Rightarrow> [])"
  shows "md_inv ser st' idx" and "md_inv ser st' (fold (\<lambda>i idx. snd (ci_remove i idx)) is idx)"
proof -
  have wf: "ms_wf st" and io: "index_ok st idx" using inv by (simp_all add: md_inv_def)
  have both: "md_inv ser st' idx \<and> (\<forall>m o'. hm_get (ms_objects st') m = Some o' \<longrightarrow> set (mo_chunks o') \<inter> set is = {})"
  proof (cases "hm_get (ms_objects st) n")
    case None
    then have "is = []" "st' = st" using del ids by (simp_all add: delete_object_def get_object_def)
    then show ?thesis using inv by simp
  next
    case (Some ob)
    let ?st = "remove_chunks (mo_chunks ob) (st\<lparr>ms_objects := hm_remove n (ms_objects st)\<rparr>)"
    have "calm ser ?st" using inv by (simp add: md_inv_def remove_chunks_def)
    from calm_save [OF this] obtain d where d: "ms_save ser ?st = (Ok (), ?st\<lparr>ms_disk := d\<rparr>)" "calm ser (?st\<lparr>ms_disk := d\<rparr>)" .
    have st': "st' = ?st\<lparr>ms_disk := d\<rparr>" using del Some d by (simp add: delete_object_def)
    have objs: "m \<noteq> n \<and> hm_get (ms_objects st) m = Some o'" if "hm_get (ms_objects st') m = Some o'" for m o'
      using that by (auto simp: st' remove_chunks_def simp del: map_of_eq_Some_iff split: if_splits)
    have "set (mo_chunks o') \<inter> set is = {}" if "hm_get (ms_objects st') m = Some o'" for m o'
    proof -
      have o': "m \<noteq> n" "hm_get (ms_objects st) m = Some o'" using objs [OF that] by auto
      have "i \<notin> set (mo_chunks ob)" if "i \<in> set (mo_chunks o')" for i
        using io that o' Some unfolding index_ok_def by (metis option.inject)
      then show ?thesis using ids Some by (auto simp: get_object_def)
    qed
    moreover have "index_ok st' idx" using io objs unfolding index_ok_def by blast
    moreover have "ms_wf st'" using wf_delete_object [OF wf, of ser n] del by simp
    ultimately show ?thesis using d st' by (simp add: md_inv_def)
  qed
  then show "md_inv ser st' idx" by blast
  moreover have "index_ok st' (fold (\<lambda>i idx. snd (ci_remove i idx)) is idx)"
  proof (rule index_ok_forget [of st' idx "set is"])
    show "index_ok st' idx" using both by (simp add: md_inv_def)
    show "set (mo_chunks o') \<inter> set is = {}" if "hm_get (ms_objects st') m = Some o'" for m o'
      using both that by blast
  qed (simp add: ci_get_fold_remove)
  ultimately show "md_inv ser st' (fold (\<lambda>i idx. snd (ci_remove i idx)) is idx)" by (simp add: md_inv_def)
qed

lemma inv_add_chunk_replica:
  assumes inv: "md_inv ser st idx"
  shows "md_inv ser (snd (add_chunk_replica ser i s st)) idx"
proof (cases "\<exists>c. hm_contains (ms_storage_nodes st) s \<and> hm_get (ms_chunks st) i = Some c \<and>
    s \<notin> set (mc_storage_nodes c) \<and> length (mc_storage_nodes c) < MAX_REPLICAS")
  case False
  then have "snd (add_chunk_replica ser i s st) = st"
    by (auto simp: add_chunk_replica_def simp del: map_of_eq_Some_iff map_of_eq_None_iff split: option.split)
  then show ?thesis using inv by simp
next
  case True
  then obtain c where c: "hm_contains (ms_storage_nodes st) s" "hm_get (ms_chunks st) i = Some c"
    "s \<notin> set (mc_storage_nodes c)" "length (mc_storage_nodes c) < MAX_REPLICAS" by blast
  let ?st = "st\<lparr>ms_chunks := hm_insert i (add_storage_node s c) (ms_chunks st)\<rparr>"
  have "calm ser ?st" using inv by (simp add: md_inv_def)
  from calm_save [OF this] obtain d where d: "ms_save ser ?st = (Ok (), ?st\<lparr>ms_disk := d\<rparr>)" "calm ser (?st\<lparr>ms_disk := d\<rparr>)" .
  then have "snd (add_chunk_replica ser i s st) = ?st\<lparr>ms_disk := d\<rparr>"
    using c by (simp add: add_chunk_replica_def del: map_of_eq_Some_iff map_of_eq_None_iff)
  then show ?thesis
    using inv d wf_add_chunk_replica [of st ser i s] by (simp add: md_inv_def)
qed

lemma inv_delete_chunk:
  assumes inv: "md_inv ser st idx" and del: "delete_chunk ser i st = (r, st')"
  shows "md_inv ser st' idx" and "md_inv ser st' (snd (ci_remove i idx))"
proof -
  have wf: "ms_wf st" and io: "index_ok st idx" using inv by (simp_all add: md_inv_def)
  have wf': "ms_wf st'" using wf_delete_chunk [OF wf, of ser i] del by simp
  have both: "(calm ser st' \<and> index_ok st' idx) \<and> (\<forall>m o'. hm_get (ms_objects st') m = Some o' \<longrightarrow> i \<notin> set (mo_chunks o'))"
  proof (cases "hm_get (ms_chunks st) i")
    case None
    then have "st' = st" using del by (simp add: delete_chunk_def)
    then show ?thesis using inv unreferenced [OF wf, of i] None by (auto simp: md_inv_def simp del: map_of_eq_Some_iff)
  next
    case c: (Some c)
    show ?thesis
    proof (cases "hm_get (ms_objects st) (mc_object_name c)")
      case None
      then have "st' = st\<lparr>ms_chunks := hm_remove i (ms_chunks st)\<rparr>" using del c by (simp add: delete_chunk_def)
      moreover have "i \<notin> set (mo_chunks o')" if "hm_get (ms_objects st) m = Some o'" for m o'
        using referenced_chunk [OF wf that, of i] c None that by (metis option.inject option.distinct(1))
      ultimately show ?thesis using inv by (auto simp: md_inv_def simp del: map_of_eq_Some_iff)
    next
      case ob: (Some ob)
      let ?ob = "ob\<lparr>mo_chunks := filter (\<lambda>j. j \<noteq> i) (mo_chunks ob)\<rparr>"
      let ?st = "st\<lparr>ms_chunks := hm_remove i (ms_chunks st), ms_objects := hm_insert (mc_object_name c) ?ob (ms_objects st)\<rparr>"
      have "calm ser ?st" using inv by (simp add: md_inv_def)
      from calm_save [OF this] obtain d where d: "ms_save ser ?st = (Ok (), ?st\<lparr>ms_disk := d\<rparr>)" "calm ser (?st\<lparr>ms_disk := d\<rparr>)" .
      have st': "st' = ?st\<lparr>ms_disk := d\<rparr>" using del c ob d by (simp add: delete_chunk_def Let_def)
      have "index_ok (st\<lparr>ms_chunks := hm_remove i (ms_chunks st)\<rparr>) idx" using io by simp
      then have "index_ok (st\<lparr>ms_chunks := hm_remove i (ms_chunks st),
          ms_objects := hm_insert (mc_object_name c) ?ob (ms_objects (st\<lparr>ms_chunks := hm_remove i (ms_chunks st)\<rparr>))\<rparr>) idx"
        using io ob by (intro index_ok_replace) (auto simp: index_ok_def simp del: map_of_eq_Some_iff)
      moreover have "i \<notin> set (mo_chunks o')" if "hm_get (ms_objects st) m = Some o'" "m \<noteq> mc_object_name c" for m o'
        using referenced_chunk [OF wf that(1), of i] c that(2) by (metis option.inject)
      ultimately show ?thesis using st' d by (auto simp del: map_of_eq_Some_iff split: if_splits)
    qed
  qed
  then show "md_inv ser st' idx" using wf' by (simp add: md_inv_def)
  moreover have "index_ok st' (snd (ci_remove i idx))"
  proof (rule index_ok_forget [of st' idx "{i}"])
    show "index_ok st' idx" using both by simp
    show "set (mo_chunks o') \<inter> {i} = {}" if "hm_get (ms_objects st') m = Some o'" for m o'
      using both that by blast
  qed (simp add: ci_get_remove)
  ultimately show "md_inv ser st' (snd (ci_remove i idx))" by (simp add: md_inv_def)
qed

text \<open>Adding a confirmed chunk to its object, when the save succeeds.\<close>

lemma inv_append:
  assumes inv: "md_inv ser st idx" and ob: "hm_get (ms_objects st) n = Some ob"
    and free: "\<And>c. hm_get (ms_chunks st) i = Some c \<Longrightarrow> mc_status c \<noteq> Confirmed"
    and st': "ms_save ser (st\<lparr>ms_chunks := hm_insert i c (ms_chunks st),
      ms_objects := hm_insert n (add_chunk i ob) (ms_objects st)\<rparr>) = (r, st')"
    and wf': "ms_wf st'"
  shows "r = Ok () \<and> md_inv ser st' (ci_insert i n idx)"
proof -
  let ?st = "st\<lparr>ms_chunks := hm_insert i c (ms_chunks st), ms_objects := hm_insert n (add_chunk i ob) (ms_objects st)\<rparr>"
  have "calm ser ?st" using inv by (simp add: md_inv_def)
  from calm_save [OF this] obtain d where d: "ms_save ser ?st = (Ok (), ?st\<lparr>ms_disk := d\<rparr>)" "calm ser (?st\<lparr>ms_disk := d\<rparr>)" .
  have "i \<notin> set (mo_chunks o')" if "hm_get (ms_objects st) m = Some o'" for m o'
    using unreferenced [OF _ _ that] inv free by (simp add: md_inv_def del: map_of_eq_Some_iff)
  then have "index_ok (st\<lparr>ms_objects := hm_insert n (add_chunk i ob) (ms_objects st)\<rparr>) (ci_insert i n idx)"
    using inv ob by (intro index_ok_append) (simp_all add: md_inv_def)
  then have "index_ok ?st (ci_insert i n idx)" by (simp add: index_ok_def)
  then show ?thesis using d st' wf' by (auto simp: md_inv_def)
qed

lemma inv_confirm_chunk:
  assumes inv: "md_inv ser st idx" and con: "confirm_chunk ser i n c s st = (r, st')"
  shows "md_inv ser st' (if is_ok r then ci_insert i n idx else idx)"
proof (cases "\<not> hm_contains (ms_storage_nodes st) s \<or>
    (\<exists>e. hm_get (ms_chunks st) i = Some e \<and> mc_status e = Confirmed) \<or> hm_get (ms_objects st) n = None")
  case True
  then have "st' = st \<and> \<not> is_ok r" using con
    by (auto simp: confirm_chunk_def simp del: map_of_eq_Some_iff map_of_eq_None_iff split: option.splits if_splits)
  then show ?thesis using inv by simp
next
  case False
  then obtain ob where ob: "hm_get (ms_objects st) n = Some ob" by auto
  have wf': "ms_wf st'" using wf_confirm_chunk [of st ser i n c s] con inv by (simp add: md_inv_def)
  have "ms_save ser (st\<lparr>ms_chunks := hm_insert i (add_storage_node s (MetaChunk_new i c n)) (ms_chunks st),
      ms_objects := hm_insert n (add_chunk i ob) (ms_objects st)\<rparr>) = (r, st')"
    using False ob con by (auto simp: confirm_chunk_def Let_def simp del: map_of_eq_Some_iff split: option.splits)
  then have "r = Ok () \<and> md_inv ser st' (ci_insert i n idx)"
    using False wf' by (intro inv_append [OF inv ob]) auto
  then show ?thesis by simp
qed

text \<open>The stores an allocation or an upload can leave.\<close>

lemma upload_cases:
  assumes p: "put_chunk R ser n c st = Some (r, st')"
  obtains (no_node) g where "st' = st\<lparr>ms_rng := g\<rparr>" "r = Err HostUnreachable"
  | (orphan) g i ch where "st' = st\<lparr>ms_rng := g, ms_chunks := hm_insert i ch (ms_chunks st)\<rparr>" "r = Err NotFound"
  | (saved) g i a ch ob r' where "hm_get (ms_chunks st) i = None" "hm_get (ms_objects st) n = Some ob"
      "ms_save ser (st\<lparr>ms_rng := g, ms_chunks := hm_insert i ch (ms_chunks st),
         ms_objects := hm_insert n (add_chunk i ob) (ms_objects st)\<rparr>) = (r', st')"
      "r = (case r' of Ok _ \<Rightarrow> Ok (i, a) | Err e \<Rightarrow> Err e)"
proof -
  obtain i g where ig: "generate_unique_id (rand_u64 R) (ms_chunks st) (ms_rng st) = Some (i, g)"
    using p by (auto simp: put_chunk_def split: option.splits)
  obtain nd st1 where ch: "choose_storage_node R (st\<lparr>ms_rng := g\<rparr>) = (nd, st1)" by fastforce
  obtain g' where st1: "st1 = st\<lparr>ms_rng := g'\<rparr>" using choose_storage_node_env [OF ch] by auto
  show ?thesis
  proof (cases nd)
    case None
    then show ?thesis using p ig ch st1 by (intro no_node [where g = g']) (simp_all add: put_chunk_def)
  next
    case (Some node)
    show ?thesis
    proof (cases "hm_get (ms_objects st) n")
      case None
      then show ?thesis using p ig ch st1 Some
        by (intro orphan [where g = g' and i = i and ch = "add_storage_node (msn_id node) (MetaChunk_new i c n)"])
          (simp_all add: put_chunk_def Let_def)
    next
      case ob: (Some ob)
      obtain r' st2 where s: "ms_save ser (st\<lparr>ms_rng := g', ms_chunks := hm_insert i
          (add_storage_node (msn_id node) (MetaChunk_new i c n)) (ms_chunks st),
          ms_objects := hm_insert n (add_chunk i ob) (ms_objects st)\<rparr>) = (r', st2)" by fastforce
      then have "st2 = st' \<and> r = (case r' of Ok _ \<Rightarrow> Ok (i, msn_address node) | Err e \<Rightarrow> Err e)"
        using p ig ch st1 Some ob by (cases r') (auto simp: put_chunk_def Let_def)
      then show ?thesis
        using saved [OF generate_unique_id_fresh [OF ig] ob, where g = g'] s by blast
    qed
  qed
qed

lemma inv_put_chunk:
  assumes inv: "md_inv ser st idx" and p: "put_chunk R ser n c st = Some (r, st')"
  shows "md_inv ser st' (case r of Ok (i, _) \<Rightarrow> ci_insert i n idx | Err _ \<Rightarrow> idx)"
proof -
  have wf': "ms_wf st'" using wf_put_chunk [OF _ p] inv by (simp add: md_inv_def)
  from p show ?thesis
  proof (cases rule: upload_cases)
    case no_node
    then show ?thesis using inv by (simp add: md_inv_def)
  next
    case orphan
    then show ?thesis using inv wf' by (simp add: md_inv_def)
  next
    case (saved g i a ch ob r')
    have "md_inv ser (st\<lparr>ms_rng := g\<rparr>) idx" using inv by (simp add: md_inv_def)
    then have "r' = Ok () \<and> md_inv ser st' (ci_insert i n idx)"
      using saved(1-3) wf' by (intro inv_append [of ser "st\<lparr>ms_rng := g\<rparr>" idx n ob i ch]) simp_all
    then show ?thesis using saved(4) by simp
  qed
qed

lemma inv_allocate_chunk:
  assumes inv: "md_inv ser st idx" and p: "allocate_chunk R n st = Some (r, st')"
  shows "md_inv ser st' idx"
proof -
  have wf': "ms_wf st'" using wf_allocate_chunk [OF _ p] inv by (simp add: md_inv_def)
  obtain i g where ig: "generate_unique_id (rand_u64 R) (ms_chunks st) (ms_rng st) = Some (i, g)"
    using p by (auto simp: allocate_chunk_def split: option.splits)
  obtain nd st1 where ch: "choose_storage_node R (st\<lparr>ms_rng := g\<rparr>) = (nd, st1)" by fastforce
  obtain g' where "st1 = st\<lparr>ms_rng := g'\<rparr>" using choose_storage_node_env [OF ch] by auto
  then have "calm ser st' \<and> index_ok st' idx" using p ig ch inv
    by (cases nd) (auto simp: allocate_chunk_def md_inv_def)
  then show ?thesis using wf' by (simp add: md_inv_def)
qed

text \<open>One call keeps the invariant of store and index.\<close>

lemma md_step_inv:
  assumes inv: "md_inv ser (md_store svc) (md_index svc)" and s: "md_step R ser peer c svc = Some svc'"
  shows "md_inv ser (md_store svc') (md_index svc')"
proof (cases c)
  case (Md_put_object ck n)
  then have "md_store svc' = snd (put_object ser ck n (md_store svc)) \<and> md_index svc' = md_index svc"
    using s by (auto simp: md_handlers split: prod.splits result.splits if_splits)
  then show ?thesis using inv_put_object [OF inv] by simp
next
  case (Md_delete_object n)
  obtain r st' where d: "delete_object ser n (md_store svc) = (r, st')" by fastforce
  have "md_store svc' = st' \<and> (md_index svc' = md_index svc \<or> md_index svc' =
      fold (\<lambda>i idx. snd (ci_remove i idx)) (case get_object n (md_store svc) of Ok ob \<Rightarrow> mo_chunks ob | Err _ \<Rightarrow> []) (md_index svc))"
    using s Md_delete_object d by (auto simp: md_handlers Let_def split: result.splits if_splits)
  then show ?thesis using inv_delete_object [OF inv d refl] by auto
next
  case (Md_update_object_checksum n ck t)
  then have "md_store svc' = snd (update_object_checksum ser n ck t (md_store svc)) \<and> md_index svc' = md_index svc"
    using s by (auto simp: md_handlers split: prod.splits result.splits if_splits)
  then show ?thesis using inv_update_object_checksum [OF inv] by simp
next
  case (Md_put_chunk n ck)
  then obtain r st' where p: "put_chunk R ser n ck (md_store svc) = Some (r, st')"
    and "md_store svc' = st' \<and> md_index svc' = (case r of Ok (i, _) \<Rightarrow> ci_insert i n (md_index svc) | Err _ \<Rightarrow> md_index svc)"
    using s by (auto simp: md_handlers split: option.splits prod.splits result.splits if_splits)
  then show ?thesis using inv_put_chunk [OF inv p] by simp
next
  case (Md_allocate_chunk n)
  then obtain r st' where p: "allocate_chunk R n (md_store svc) = Some (r, st')"
    and "md_store svc' = st' \<and> md_index svc' = md_index svc"
    using s by (auto simp: md_handlers split: option.splits prod.splits result.splits if_splits)
  then show ?thesis using inv_allocate_chunk [OF inv p] by simp
next
  case (Md_confirm_chunk i n ck node)
  obtain r st' where p: "confirm_chunk ser i n ck node (md_store svc) = (r, st')" by fastforce
  have "md_store svc' = st' \<and> md_index svc' = (if is_ok r then ci_insert i n (md_index svc) else md_index svc)"
    using s Md_confirm_chunk p by (cases r) (auto simp: md_handlers split: if_splits)
  then show ?thesis using inv_confirm_chunk [OF inv p] by simp
next
  case (Md_delete_chunk i)
  obtain r st' where p: "delete_chunk ser i (md_store svc) = (r, st')" by fastforce
  have "md_store svc' = st' \<and> (md_index svc' = md_index svc \<or> md_index svc' = snd (ci_remove i (md_index svc)))"
    using s Md_delete_chunk p by (cases r) (auto simp: md_handlers split: if_splits)
  then show ?thesis using inv_delete_chunk [OF inv p] by auto
next
  case (Md_add_chunk_replica i node)
  then have "md_store svc' = snd (add_chunk_replica ser i node (md_store svc)) \<and> md_index svc' = md_index svc"
    using s by (auto simp: md_handlers split: prod.splits result.splits if_splits)
  then show ?thesis using inv_add_chunk_replica [OF inv] by simp
qed

lemma health_check_store:
  "md_store (health_check_round check svc) = (md_store svc)\<lparr>ms_storage_nodes :=
     fold hm_remove (failed_nodes check (ms_storage_nodes (md_store svc))) (ms_storage_nodes (md_store svc))\<rparr>"
  "md_index (health_check_round check svc) = md_index svc"
  "md_cluster (health_check_round check svc) = md_cluster svc"
  by (simp_all add: health_check_round_def Let_def)

lemma wf_health_check: "ms_wf (md_store svc) \<Longrightarrow> ms_wf (md_store (health_check_round check svc))"
  by (auto simp: health_check_store ms_wf_def fold_remove_invar fold_remove_get
      simp del: map_of_eq_Some_iff split: if_splits)

lemma populate_inv:
  assumes "ms_wf (md_store svc)" and "hm_invar (md_index svc)" and "calm ser (md_store svc)"
  shows "md_inv ser (md_store (populate_chunk_index svc)) (md_index (populate_chunk_index svc))"
proof -
  have inv: "hm_invar (ms_chunks (md_store svc))" using ms_wfD(2) [OF assms(1)] .
  have "md_index (populate_chunk_index svc) =
      fold (\<lambda>(k, v). hm_insert k v) (map (\<lambda>(i, c). (i, mc_object_name c)) (ms_chunks (md_store svc))) (md_index svc)"
    by (simp add: populate_chunk_index_def ci_populate_from_chunks_def fold_map comp_def case_prod_unfold)
  then have get: "ci_get i (md_index (populate_chunk_index svc)) = (map_of (md_index svc) ++
      map_of (rev (map (\<lambda>(i, c). (i, mc_object_name c)) (ms_chunks (md_store svc))))) i" for i
    by (simp only: ci_get_def hm.get_fold_ins [OF assms(2)])
  have "ci_get i (md_index (populate_chunk_index svc)) = Some (mc_object_name c)"
    if c: "hm_get (ms_chunks (md_store svc)) i = Some c" for i c
  proof -
    have "(i, mc_object_name c) \<in> set (rev (map (\<lambda>(i, c). (i, mc_object_name c)) (ms_chunks (md_store svc))))"
      using map_of_SomeD [OF c] by force
    moreover have "v' = mc_object_name c"
      if "(i, v') \<in> set (rev (map (\<lambda>(i, c). (i, mc_object_name c)) (ms_chunks (md_store svc))))" for v'
      using that c inv eq_key_imp_eq_value [OF inv] by auto
    ultimately show ?thesis unfolding get by (intro map_add_find_right map_of_unique)
  qed
  then have "index_ok (md_store svc) (md_index (populate_chunk_index svc))"
    unfolding index_ok_def using referenced_chunk [OF assms(1)] by metis
  then show ?thesis using assms by (simp add: md_inv_def populate_chunk_index_def)
qed

lemma md_reach_inv:
  assumes "md_reach R ser svc0 svc" and "md_inv ser (md_store svc0) (md_index svc0)"
  shows "md_inv ser (md_store svc) (md_index svc)"
  using assms
proof (induction rule: md_reach.induct)
  case (call R ser svc0 svc peer c svc')
  then show ?case using md_step_inv by blast
next
  case (health R ser svc0 svc check)
  then show ?case using wf_health_check [of svc check]
    by (simp add: md_inv_def health_check_store)
next
  case (register R ser svc0 svc uri a r st)
  then have "ms_wf st" using wf_construct_storage_node by (auto simp: md_inv_def)
  moreover have "calm ser st \<and> index_ok st (md_index svc)"
    using register by (auto simp: construct_storage_node_def md_inv_def split: option.splits result.splits)
  ultimately show ?case by (simp add: md_inv_def)
qed simp_all

section \<open>Properties\<close>


definition toy_service :: "(nat, unit) StorageMetadataImpl" where
  "toy_service = \<lparr>md_store = toy_store, md_metrics = (\<lambda>_. 0), md_cluster = None, md_index = []\<rparr>"

definition toy_after :: "(nat, unit) StorageMetadataImpl" where
  "toy_after = the (md_step toy_rand toy_ser False (Md_confirm_chunk 4 ''a'' 7 9)
     (the (md_step toy_rand toy_ser False (Md_put_object 0 ''a'') (populate_chunk_index toy_service))))"

lemmas toy_defs = toy_after_def toy_service_def toy_store_def toy_ser_def toy_rand_def md_handlers
  populate_chunk_index_def ci_populate_from_chunks_def put_object_def confirm_chunk_def ms_save_def fs_ops
  with_extension_def persistent_state_def MetaObject_new_def MetaChunk_new_def add_storage_node_def add_chunk_def
  md_count_def md_gauge_def ci_insert_def

lemma toy_after_store:
  "ms_objects (md_store toy_after) = [(''a'', \<lparr>mo_name = ''a'', mo_checksum = 0, mo_chunks = [4], mo_total_size = 0\<rparr>)]"
  "ms_chunks (md_store toy_after) =
     [(4, \<lparr>mc_id = 4, mc_object_name = ''a'', mc_checksum = 7, mc_storage_nodes = [9], mc_status = Confirmed\<rparr>)]"
  "ms_storage_nodes (md_store toy_after) = [(9, \<lparr>msn_id = 9, msn_address = ''http://n''\<rparr>)]"
  "md_cluster toy_after = None" "md_index toy_after = [(4, ''a'')]" "fs_plan (ms_disk (md_store toy_after)) = []"
  "ms_path (md_store toy_after) = ''m.dat''"
  by (simp_all add: toy_defs)

lemma toy_after_wf: "ms_wf (md_store toy_after)"
  by (simp add: ms_wf_def toy_after_store object_wf_def chunk_wf_def MAX_REPLICAS_def)


text \<open>
  C37. What a read of an object's metadata answers. A client of the owning node gets NotFound
  for an unknown object, the chunks in the order of the object with all their replicas when every
  replica is on a registered node, and an internal error otherwise. A peer that forwards the same
  read gets the chunks with the replicas that are registered, never an error for a known object.
\<close>

theorem get_object_replies:
  assumes "ms_wf (md_store svc)"
  shows "fst (md_get_object_local n svc) =
      (case hm_get (ms_objects (md_store svc)) n of
         None \<Rightarrow> Err Code_NotFound
       | Some ob \<Rightarrow>
           if \<forall>i \<in> set (mo_chunks ob). replicas_known (md_store svc) i
           then Ok \<lparr>go_checksum = mo_checksum ob,
             go_chunks = map (\<lambda>i. list_chunk (md_store svc) (the (hm_get (ms_chunks (md_store svc)) i))) (mo_chunks ob)\<rparr>
           else Err Code_Internal) \<and>
    peer_get_object n svc =
      (case hm_get (ms_objects (md_store svc)) n of
         None \<Rightarrow> Err Code_NotFound
       | Some ob \<Rightarrow> Ok \<lparr>go_checksum = mo_checksum ob,
           go_chunks = map (\<lambda>i. list_chunk (md_store svc) (the (hm_get (ms_chunks (md_store svc)) i))) (mo_chunks ob)\<rparr>)"
proof
  show "fst (md_get_object_local n svc) =
      (case hm_get (ms_objects (md_store svc)) n of
         None \<Rightarrow> Err Code_NotFound
       | Some ob \<Rightarrow>
           if \<forall>i \<in> set (mo_chunks ob). replicas_known (md_store svc) i
           then Ok \<lparr>go_checksum = mo_checksum ob,
             go_chunks = map (\<lambda>i. list_chunk (md_store svc) (the (hm_get (ms_chunks (md_store svc)) i))) (mo_chunks ob)\<rparr>
           else Err Code_Internal)"
    by (simp add: md_get_object_local_def md_get_object_read_def get_object_def md_get_object_reply_def
        resolve_chunks_eq Let_def del: map_of_eq_Some_iff map_of_eq_None_iff split: option.split)
  show "peer_get_object n svc =
      (case hm_get (ms_objects (md_store svc)) n of
         None \<Rightarrow> Err Code_NotFound
       | Some ob \<Rightarrow> Ok \<lparr>go_checksum = mo_checksum ob,
           go_chunks = map (\<lambda>i. list_chunk (md_store svc) (the (hm_get (ms_chunks (md_store svc)) i))) (mo_chunks ob)\<rparr>)"
  proof (cases "hm_get (ms_objects (md_store svc)) n")
    case None
    then show ?thesis by (simp add: peer_get_object_def get_object_def)
  next
    case (Some ob)
    have "\<forall>i \<in> set (mo_chunks ob). hm_contains (ms_chunks (md_store svc)) i"
      using referenced_present [OF assms Some] by blast
    then show ?thesis using Some by (simp add: peer_get_object_def get_object_def peer_chunks_eq)
  qed
qed

theorem get_object_replies_witness:
  "fst (md_get_object_local ''a'' toy_after) = Ok \<lparr>go_checksum = 0, go_chunks =
     [\<lparr>pc_id = 4, pc_checksum = 7, pc_storage_nodes = [\<lparr>msn_id = 9, msn_address = ''http://n''\<rparr>]\<rparr>]\<rparr>"
  using get_object_replies [OF toy_after_wf, of "''a''"]
  by (simp add: toy_after_store replicas_known_def list_chunk_def known_nodes_def)

text \<open>
  C38. Reading an object takes the store lock twice. When a delete of the object runs between
  the two critical sections, the reader of an object with chunks gets an internal error, which no
  order of the two calls one after the other gives: afterwards the read answers NotFound.
\<close>

theorem get_object_races_with_delete:
  assumes "ms_wf (md_store svc)" and "md_get_object_read n svc = Ok ob" and "mo_chunks ob \<noteq> []"
    and "md_delete_object_local ser n svc = (Ok (), svc')"
  shows "fst (md_get_object_reply ob svc') = Err Code_Internal \<and>
    fst (md_get_object_local n svc') = Err Code_NotFound"
proof
  have ob: "hm_get (ms_objects (md_store svc)) n = Some ob"
    using assms(2) by (simp add: md_get_object_read_def get_object_def split: option.splits)
  let ?st = "remove_chunks (mo_chunks ob) ((md_store svc)\<lparr>ms_objects := hm_remove n (ms_objects (md_store svc))\<rparr>)"
  obtain st' where s: "ms_save ser ?st = (Ok (), st')" and svc': "md_store svc' = st'"
    using assms(4) ob by (auto simp: md_delete_object_local_def md_delete_object_commit_def delete_object_def Let_def get_object_def
        split: prod.splits result.splits)
  obtain d where st': "st' = ?st\<lparr>ms_disk := d\<rparr>" using ms_save_effect [OF s] by auto
  obtain i "is" where i: "mo_chunks ob = i # is" using assms(3) by (cases "mo_chunks ob") auto
  have "hm_get (ms_chunks st') i = None" by (simp add: st' remove_chunks_def i fold_remove_get)
  then have "\<not> replicas_known st' i" by (simp add: replicas_known_def)
  then show "fst (md_get_object_reply ob svc') = Err Code_Internal"
    by (simp add: md_get_object_reply_def Let_def resolve_chunks_eq svc' i)
  have "hm_get (ms_objects st') n = None" by (simp add: st' remove_chunks_def)
  then show "fst (md_get_object_local n svc') = Err Code_NotFound"
    by (simp add: md_get_object_local_def md_get_object_read_def get_object_def svc')
qed

theorem get_object_races_with_delete_witness:
  "is_ok (md_get_object_read ''a'' toy_after) \<and>
   fst (md_get_object_reply (case md_get_object_read ''a'' toy_after of Ok ob \<Rightarrow> ob)
     (snd (md_delete_object_local toy_ser ''a'' toy_after))) = Err Code_Internal"
proof -
  have read: "md_get_object_read ''a'' toy_after =
      Ok \<lparr>mo_name = ''a'', mo_checksum = 0, mo_chunks = [4], mo_total_size = 0\<rparr>"
    by (simp add: md_get_object_read_def get_object_def toy_after_store)
  have "calm toy_ser (remove_chunks [4] ((md_store toy_after)\<lparr>ms_objects := []\<rparr>))"
    by (simp add: calm_def toy_ser_def remove_chunks_def toy_after_store)
  from calm_save [OF this] obtain d where
    "ms_save toy_ser (remove_chunks [4] ((md_store toy_after)\<lparr>ms_objects := []\<rparr>)) =
       (Ok (), (remove_chunks [4] ((md_store toy_after)\<lparr>ms_objects := []\<rparr>))\<lparr>ms_disk := d\<rparr>)" .
  then have "fst (md_delete_object_local toy_ser ''a'' toy_after) = Ok ()"
    by (simp add: md_delete_object_local_def md_delete_object_commit_def md_delete_object_read_def delete_object_def get_object_def toy_after_store Let_def)
  then have "md_delete_object_local toy_ser ''a'' toy_after =
      (Ok (), snd (md_delete_object_local toy_ser ''a'' toy_after))" by (metis prod.collapse)
  then show ?thesis
    using get_object_races_with_delete [OF toy_after_wf read] read by simp
qed

text \<open>Storage nodes registering one after the other.\<close>

fun register_all :: "'g rand \<Rightarrow> (string \<Rightarrow> bool) \<Rightarrow> string list \<Rightarrow> 'g MetadataStore \<Rightarrow> (u64 list \<times> 'g MetadataStore) option" where
  "register_all R uri [] st = Some ([], st)"
| "register_all R uri (a # as) st =
     (case construct_storage_node R uri a st of
        None \<Rightarrow> None
      | Some (r, st') \<Rightarrow>
          (case register_all R uri as st' of
             None \<Rightarrow> None
           | Some (is, st'') \<Rightarrow> Some ((case r of Ok i \<Rightarrow> i # is | Err _ \<Rightarrow> is), st'')))"

lemma register_all_nodes:
  assumes "register_all R uri as st = Some (is, st')"
  shows "ms_objects st' = ms_objects st \<and> ms_chunks st' = ms_chunks st \<and>
    (\<forall>i. hm_contains (ms_storage_nodes st') i \<longrightarrow> i \<in> set is \<or> hm_contains (ms_storage_nodes st) i)"
  using assms
proof (induction "as" arbitrary: st "is")
  case (Cons a "as")
  obtain r st1 is1 where c: "construct_storage_node R uri a st = Some (r, st1)"
    and r: "register_all R uri as st1 = Some (is1, st')" "is = (case r of Ok i \<Rightarrow> i # is1 | Err _ \<Rightarrow> is1)"
    using Cons.prems by (auto split: option.splits)
  have "ms_objects st1 = ms_objects st \<and> ms_chunks st1 = ms_chunks st \<and>
      (\<forall>i. hm_contains (ms_storage_nodes st1) i \<longrightarrow> r = Ok i \<or> hm_contains (ms_storage_nodes st) i)"
    using c by (auto simp: construct_storage_node_def simp del: map_of_eq_None_iff map_of_eq_Some_iff
        split: option.splits result.splits if_splits)
  then show ?case using Cons.IH [OF r(1)] r(2) by (cases r) (force simp del: not_None_eq)+
qed simp

text \<open>
  C40. Storage nodes are not persisted and draw a fresh id when they register again. After a
  restart of the metadata service, an object with a chunk replicated on node \<open>s\<close> cannot be read
  through its owner unless some registration happens to draw the id \<open>s\<close> again; the metadata itself
  is still there, and a peer that forwards the read gets it.
\<close>

theorem restart_forgets_replicas:
  assumes "ms_new de exists path d g = (Ok st, d')" and "ms_wf st"
    and "register_all R uri addrs st = Some (ids, st')"
    and "hm_get (ms_objects st) n = Some ob" and "i \<in> set (mo_chunks ob)"
    and "hm_get (ms_chunks st) i = Some c" and "s \<in> set (mc_storage_nodes c)" and "s \<notin> set ids"
    and "md_store svc = st'"
  shows "fst (md_get_object_local n svc) = Err Code_Internal \<and> is_ok (peer_get_object n svc)"
proof
  have "ms_storage_nodes st = []"
    using assms(1) by (auto simp: ms_new_def Let_def split: prod.splits result.splits)
  then have "\<not> hm_contains (ms_storage_nodes st') s"
    using register_all_nodes [OF assms(3)] assms(8) by auto
  then have "\<not> replicas_known st' i"
    using register_all_nodes [OF assms(3)] assms(6,7) by (auto simp: replicas_known_def simp del: map_of_eq_None_iff map_of_eq_Some_iff)
  then have "resolve_chunks st' (mo_chunks ob) = Err Code_Internal" using assms(5) by (auto simp: resolve_chunks_eq)
  then show "fst (md_get_object_local n svc) = Err Code_Internal"
    using register_all_nodes [OF assms(3)] assms(4,9)
    by (simp add: md_get_object_local_def md_get_object_read_def get_object_def md_get_object_reply_def Let_def)
  have "\<forall>j \<in> set (mo_chunks ob). hm_contains (ms_chunks st') j"
    using referenced_present [OF assms(2,4)] register_all_nodes [OF assms(3)] by simp
  then show "is_ok (peer_get_object n svc)"
    using register_all_nodes [OF assms(3)] assms(4,9) by (simp add: peer_get_object_def get_object_def peer_chunks_eq)
qed

definition toy_saved :: PersistentState where
  "toy_saved = persistent_state (md_store toy_after)"

theorem restart_forgets_replicas_witness:
  "\<exists>st d' st'. ms_new (\<lambda>_. Some toy_saved) True ''m.dat'' \<lparr>fs_files = (\<lambda>_. Some ''x''), fs_plan = []\<rparr> 1 = (Ok st, d') \<and>
     register_all toy_rand (\<lambda>_. True) [''http://n''] st = Some ([1], st') \<and>
     fst (md_get_object_local ''a'' (toy_service\<lparr>md_store := st'\<rparr>)) = Err Code_Internal"
proof -
  let ?d = "\<lparr>fs_files = (\<lambda>_. Some ''x''), fs_plan = []\<rparr>"
  let ?st = "\<lparr>ms_path = ''m.dat'', ms_objects = ms_objects (md_store toy_after), ms_chunks = ms_chunks (md_store toy_after),
     ms_storage_nodes = [], ms_disk = ?d, ms_rng = 1\<rparr> :: nat MetadataStore"
  let ?st' = "?st\<lparr>ms_rng := 2, ms_storage_nodes := [(1, \<lparr>msn_id = 1, msn_address = ''http://n''\<rparr>)]\<rparr>"
  have new: "ms_new (\<lambda>_. Some toy_saved) True ''m.dat'' ?d 1 = (Ok ?st, ?d)"
    using ms_new_reads [of ?d "''m.dat''" "''x''" "\<lambda>_. Some toy_saved" toy_saved "1 :: nat"]
    by (simp add: toy_saved_def persistent_state_def)
  have wf: "ms_wf ?st" using toy_after_wf by (simp add: ms_wf_def)
  have gen: "generate_unique_id (rand_u64 toy_rand) (ms_storage_nodes ?st) 1 = Some (1, 2)"
    by (subst generate_unique_id.simps) (simp add: toy_rand_def)
  have reg: "register_all toy_rand (\<lambda>_. True) [''http://n''] ?st = Some ([1], ?st')"
    using gen by (simp add: construct_storage_node_def MetaStorageNode_new_def)
  have "fst (md_get_object_local ''a'' (toy_service\<lparr>md_store := ?st'\<rparr>)) = Err Code_Internal"
    by (rule restart_forgets_replicas [OF new wf reg, where i = 4 and s = 9, THEN conjunct1]) (simp_all add: toy_after_store, simp_all)
  then show ?thesis using new reg by blast
qed

lemma failed_nodes_iff:
  assumes "hm_invar nodes"
  shows "i \<in> set (failed_nodes check nodes) \<longleftrightarrow>
    (\<exists>nd e. hm_get nodes i = Some nd \<and> check i nd = Some (Err e))"
proof -
  have "(case r of Some (Err _) \<Rightarrow> True | _ \<Rightarrow> False) \<longleftrightarrow> (\<exists>e. r = Some (Err e))" for r :: "(bool, health_error) result option"
    by (auto split: option.split result.split)
  then have "i \<in> set (failed_nodes check nodes) \<longleftrightarrow>
      (\<exists>nd. (i, nd) \<in> set nodes \<and> (\<exists>e. check i nd = Some (Err e)))"
    by (force simp: failed_nodes_def)
  then show ?thesis using assms by auto
qed

text \<open>
  A round of health checks unregisters exactly the nodes whose check returned an error. A
  node that answers that it is not healthy, or whose check task panics, stays registered, and
  objects and chunks are left as they are, whatever replicas the removed nodes held.
\<close>

theorem health_check_removes_failing_nodes:
  assumes "ms_wf (md_store svc)"
  shows "hm_get (ms_storage_nodes (md_store (health_check_round check svc))) i =
      (case hm_get (ms_storage_nodes (md_store svc)) i of
         None \<Rightarrow> None
       | Some nd \<Rightarrow> (case check i nd of Some (Err _) \<Rightarrow> None | _ \<Rightarrow> Some nd)) \<and>
    ms_objects (md_store (health_check_round check svc)) = ms_objects (md_store svc) \<and>
    ms_chunks (md_store (health_check_round check svc)) = ms_chunks (md_store svc)"
  using failed_nodes_iff [OF ms_wfD(3) [OF assms], of i check]
  by (auto simp: health_check_store fold_remove_get simp del: map_of_eq_Some_iff map_of_eq_None_iff
      split: option.split result.split)

theorem health_check_removes_failing_nodes_witness:
  "hm_get (ms_storage_nodes (md_store (health_check_round (\<lambda>_ _. Some (Ok False)) toy_after))) 9 \<noteq> None \<and>
   hm_get (ms_storage_nodes (md_store (health_check_round (\<lambda>_ _. Some (Err Health_timeout)) toy_after))) 9 = None"
  using health_check_removes_failing_nodes [OF toy_after_wf, of "\<lambda>_ _. Some (Ok False)" 9]
    health_check_removes_failing_nodes [OF toy_after_wf, of "\<lambda>_ _. Some (Err Health_timeout)" 9]
  by (simp add: toy_after_store del: map_of_eq_Some_iff map_of_eq_None_iff)

lemma collected_chunk:
  assumes "ms_wf st" and "c \<in> set (collect_chunks (concat (map transfer_entries (objects_in_hash_ranges x ranges st))))"
  shows "hm_get (ms_chunks st) (mc_id c) = Some c \<and> mc_status c = Confirmed"
proof -
  obtain ob c0 where ob: "(ob, List.map_filter (hm_get (ms_chunks st)) (mo_chunks ob)) \<in> set (objects_in_hash_ranges x ranges st)"
    and c0: "c0 \<in> set (List.map_filter (hm_get (ms_chunks st)) (mo_chunks ob))" "c = c0\<lparr>mc_status := Confirmed\<rparr>"
    using assms(2) objects_in_ranges_mem [OF assms(1)] by (auto simp: collect_transfer(2) simp del: map_of_eq_Some_iff)
  then obtain n i where n: "hm_get (ms_objects st) n = Some ob" and i: "i \<in> set (mo_chunks ob)" "hm_get (ms_chunks st) i = Some c0"
    using objects_in_ranges_mem [OF assms(1)] by (auto simp: List.map_filter_def simp del: map_of_eq_Some_iff)
  have "mc_status c0 = Confirmed" using referenced_chunk [OF assms(1) n i(1)] i(2) by auto
  then have "c = c0" using c0(2) by simp
  moreover have "mc_id c0 = i" using ms_wfD(5) [OF assms(1) i(2)] by (simp add: chunk_wf_def)
  ultimately show ?thesis using i(2) \<open>mc_status c0 = Confirmed\<close> by simp
qed

lemma ingest_ok:
  assumes "ingest_entries P ser es cm svc w = (Ok (), svc', w')"
  obtains "collect_objects es = []" "collect_chunks es = []" "md_store svc' = md_store svc" "md_index svc' = md_index svc"
  | "ms_objects (md_store svc') = fold (\<lambda>ob. hm_insert (mo_name ob) ob) (collect_objects es) (ms_objects (md_store svc))"
      "ms_chunks (md_store svc') = fold (\<lambda>c. hm_insert (mc_id c) c) (collect_chunks es) (ms_chunks (md_store svc))"
      "md_index svc' = ci_bulk_insert (map (\<lambda>c. (mc_id c, mc_object_name c)) (collect_chunks es)) (md_index svc)"
proof (cases "collect_objects es = [] \<and> collect_chunks es = []")
  case True
  then show ?thesis using assms that(1) by (auto simp: ingest_entries_def Let_def)
next
  case False
  obtain r st where i: "ingest_partition ser (collect_objects es) (collect_chunks es) (md_store svc) = (r, st)" by fastforce
  then obtain d where "st = ((md_store svc)\<lparr>
      ms_objects := fold (\<lambda>ob. hm_insert (mo_name ob) ob) (collect_objects es) (ms_objects (md_store svc)),
      ms_chunks := fold (\<lambda>c. hm_insert (mc_id c) c) (collect_chunks es) (ms_chunks (md_store svc))\<rparr>)\<lparr>ms_disk := d\<rparr>"
    unfolding ingest_partition_def using ms_save_effect by blast
  moreover have "md_store svc' = st \<and>
      md_index svc' = ci_bulk_insert (map (\<lambda>c. (mc_id c, mc_object_name c)) (collect_chunks es)) (md_index svc)"
    using assms i False by (auto simp: ingest_entries_def Let_def split: result.splits prod.splits)
  ultimately show ?thesis using that(2) by simp
qed

lemma fold_insert_other:
  "(\<And>v. v \<in> set vs \<Longrightarrow> f v \<noteq> k) \<Longrightarrow> hm_get (fold (\<lambda>v. hm_insert (f v) v) vs m) k = hm_get m k"
  by (induction vs arbitrary: m) (auto simp del: map_of_eq_Some_iff)

lemma wf_name: "ms_wf st \<Longrightarrow> hm_get (ms_objects st) k = Some ob \<Longrightarrow> mo_name ob = k"
  using ms_wfD(4) by (auto simp: object_wf_def simp del: map_of_eq_Some_iff)

lemma collected_objects_iff:
  assumes src: "ms_wf st" and es: "es = concat (map transfer_entries (objects_in_hash_ranges x ranges st))"
  shows "ob' \<in> set (collect_objects es) \<longleftrightarrow>
    (\<exists>k ob. hm_get (ms_objects st) k = Some ob \<and> hash_in_ranges (x k) ranges \<and> ob' = ob\<lparr>mo_total_size := 0\<rparr>)"
proof -
  have "ob' \<in> set (collect_objects es) \<longleftrightarrow>
      (\<exists>ob cs. (ob, cs) \<in> set (objects_in_hash_ranges x ranges st) \<and> ob' = ob\<lparr>mo_total_size := 0\<rparr>)"
    by (force simp: es collect_transfer(1))
  then show ?thesis using wf_name [OF src] by (auto simp: objects_in_ranges_mem [OF src] simp del: map_of_eq_Some_iff)
qed

lemma collected_chunk_mem:
  assumes src: "ms_wf st" and es: "es = concat (map transfer_entries (objects_in_hash_ranges x ranges st))"
    and ob: "hm_get (ms_objects st) n = Some ob" and h: "hash_in_ranges (x n) ranges" and i: "i \<in> set (mo_chunks ob)"
  obtains c where "c \<in> set (collect_chunks es)" "hm_get (ms_chunks st) i = Some c" "mc_object_name c = n" "mc_id c = i"
proof -
  obtain c where c: "hm_get (ms_chunks st) i = Some c" "mc_object_name c = n" "mc_status c = Confirmed"
    using referenced_chunk [OF src ob i] .
  have "(ob, List.map_filter (hm_get (ms_chunks st)) (mo_chunks ob)) \<in> set (objects_in_hash_ranges x ranges st)"
    using ob h wf_name [OF src ob] by (auto simp: objects_in_ranges_mem [OF src] simp del: map_of_eq_Some_iff)
  moreover have "c \<in> set (List.map_filter (hm_get (ms_chunks st)) (mo_chunks ob))"
    using i c(1) by (force simp: List.map_filter_def simp del: map_of_eq_Some_iff)
  moreover have "c = c\<lparr>mc_status := Confirmed\<rparr>" using c(3) by simp
  ultimately have "c \<in> set (collect_chunks es)"
    unfolding es collect_transfer(2) by (auto intro!: bexI)
  moreover have "mc_id c = i" using ms_wfD(5) [OF src c(1)] by (simp add: chunk_wf_def)
  ultimately show ?thesis using that c by blast
qed

lemma ingested_chunk:
  assumes dst: "hm_invar m" "hm_invar idx" and c: "c \<in> set cs" and uniq: "\<And>c'. c' \<in> set cs \<Longrightarrow> mc_id c' = mc_id c \<Longrightarrow> c' = c"
  shows "hm_get (fold (\<lambda>c. hm_insert (mc_id c) c) cs m) (mc_id c) = Some c"
    and "ci_get (mc_id c) (ci_bulk_insert (map (\<lambda>c. (mc_id c, mc_object_name c)) cs) idx) = Some (mc_object_name c)"
proof -
  show "hm_get (fold (\<lambda>c. hm_insert (mc_id c) c) cs m) (mc_id c) = Some c"
    using c uniq by (intro fold_insert_by [OF dst(1)]) auto
  have "(mc_id c, mc_object_name c) \<in> set (rev (map (\<lambda>c. (mc_id c, mc_object_name c)) cs))" using c by auto
  moreover have "v' = mc_object_name c" if "(mc_id c, v') \<in> set (rev (map (\<lambda>c. (mc_id c, mc_object_name c)) cs))" for v'
    using that uniq by force
  ultimately have "map_of (rev (map (\<lambda>c. (mc_id c, mc_object_name c)) cs)) (mc_id c) = Some (mc_object_name c)"
    by (rule map_of_unique)
  then show "ci_get (mc_id c) (ci_bulk_insert (map (\<lambda>c. (mc_id c, mc_object_name c)) cs) idx) = Some (mc_object_name c)"
    unfolding ci_get_def ci_bulk_insert_def hm.get_fold_ins [OF dst(2)] by (rule map_add_find_right)
qed

lemma migrated_objects:
  assumes src: "ms_wf (md_store src)" and dst: "hm_invar (ms_objects (md_store dst))" "hm_invar (ms_chunks (md_store dst))"
    and idx: "hm_invar (md_index dst)"
    and es: "peer_transfer_partition x ranges src = Ok es"
    and ing: "ingest_entries P ser es cm dst w = (Ok (), dst', w')"
    and ob: "hm_get (ms_objects (md_store src)) n = Some ob" and h: "hash_in_ranges (x n) ranges"
  shows "hm_get (ms_objects (md_store dst')) n = Some (ob\<lparr>mo_total_size := 0\<rparr>) \<and>
      (\<forall>i \<in> set (mo_chunks ob). hm_get (ms_chunks (md_store dst')) i = hm_get (ms_chunks (md_store src)) i \<and>
         ci_get i (md_index dst') = Some n)"
proof -
  have es': "es = concat (map transfer_entries (objects_in_hash_ranges x ranges (md_store src)))"
    using es by (simp add: peer_transfer_partition_def)
  note objs = collected_objects_iff [OF src es'] and name = wf_name [OF src]
  have mem: "ob\<lparr>mo_total_size := 0\<rparr> \<in> set (collect_objects es)" using ob h objs by blast
  have uniq: "ob' = ob\<lparr>mo_total_size := 0\<rparr>" if ob': "ob' \<in> set (collect_objects es)" "mo_name ob' = n" for ob'
  proof -
    obtain k ob0 where ob0: "hm_get (ms_objects (md_store src)) k = Some ob0" "ob' = ob0\<lparr>mo_total_size := 0\<rparr>"
      using objs [THEN iffD1, OF ob'(1)] by blast
    have "k = n" using name [OF ob0(1)] ob0(2) ob'(2) by simp
    then show ?thesis using ob0 ob by simp
  qed
  from ing show ?thesis
  proof (cases rule: ingest_ok)
    case 1
    then show ?thesis using mem by simp
  next
    case 2
    have "hm_get (ms_objects (md_store dst')) n = Some (ob\<lparr>mo_total_size := 0\<rparr>)"
      unfolding 2(1) by (rule fold_insert_by [OF dst(1) mem _ uniq]) (simp add: name [OF ob])
    moreover have "hm_get (ms_chunks (md_store dst')) i = hm_get (ms_chunks (md_store src)) i \<and>
       ci_get i (md_index dst') = Some n" if i: "i \<in> set (mo_chunks ob)" for i
    proof -
      obtain c where c: "c \<in> set (collect_chunks es)" "hm_get (ms_chunks (md_store src)) i = Some c"
        "mc_object_name c = n" "mc_id c = i" using collected_chunk_mem [OF src es' ob h i] .
      have "c' = c" if "c' \<in> set (collect_chunks es)" "mc_id c' = mc_id c" for c'
        using collected_chunk [OF src that(1) [unfolded es']] that(2) c(2,4) by (metis option.inject)
      note ingested_chunk [OF dst(2) idx c(1) this, unfolded c(3,4)]
      then show ?thesis unfolding 2(2,3) c(2) by blast
    qed
    ultimately show ?thesis by blast
  qed
qed

text \<open>What an ingestion does not touch: objects and chunks the source did not send.\<close>

lemma ingestion_frame:
  assumes src: "ms_wf (md_store src)" and dst: "hm_invar (md_index dst)" and es: "peer_transfer_partition x ranges src = Ok es"
    and ing: "ingest_entries P ser es cm dst w = (Ok (), dst', w')"
  shows "(\<And>ob. hm_get (ms_objects (md_store src)) m = Some ob \<Longrightarrow> \<not> hash_in_ranges (x m) ranges) \<Longrightarrow>
      hm_get (ms_objects (md_store dst')) m = hm_get (ms_objects (md_store dst)) m"
    and "(\<And>k ob. hm_get (ms_objects (md_store src)) k = Some ob \<Longrightarrow> i \<notin> set (mo_chunks ob)) \<Longrightarrow>
      hm_get (ms_chunks (md_store dst')) i = hm_get (ms_chunks (md_store dst)) i \<and> ci_get i (md_index dst') = ci_get i (md_index dst)"
proof -
  have es': "es = concat (map transfer_entries (objects_in_hash_ranges x ranges (md_store src)))"
    using es by (simp add: peer_transfer_partition_def)
  { assume m: "\<And>ob. hm_get (ms_objects (md_store src)) m = Some ob \<Longrightarrow> \<not> hash_in_ranges (x m) ranges"
    have "mo_name ob' \<noteq> m" if "ob' \<in> set (collect_objects es)" for ob'
      using collected_objects_iff [OF src es', THEN iffD1, OF that] m wf_name [OF src] by auto
    with ing show "hm_get (ms_objects (md_store dst')) m = hm_get (ms_objects (md_store dst)) m"
      by (cases rule: ingest_ok) (simp_all add: fold_insert_other) }
  assume i: "\<And>k ob. hm_get (ms_objects (md_store src)) k = Some ob \<Longrightarrow> i \<notin> set (mo_chunks ob)"
  have ne: "mc_id c \<noteq> i" if c: "c \<in> set (collect_chunks es)" for c
  proof -
    obtain ob cs c0 where ob: "(ob, cs) \<in> set (objects_in_hash_ranges x ranges (md_store src))" "c0 \<in> set cs" "mc_id c = mc_id c0"
      using c unfolding es' collect_transfer(2) by fastforce
    then obtain k where k: "hm_get (ms_objects (md_store src)) k = Some ob"
      "cs = List.map_filter (hm_get (ms_chunks (md_store src))) (mo_chunks ob)" using objects_in_ranges_mem [OF src] by blast
    then obtain j where j: "j \<in> set (mo_chunks ob)" "hm_get (ms_chunks (md_store src)) j = Some c0"
      using ob(2) by (auto simp: List.map_filter_def simp del: map_of_eq_Some_iff)
    note k(1)
    moreover have "mc_id c0 = j" using ms_wfD(5) [OF src j(2)] by (simp add: chunk_wf_def)
    ultimately show ?thesis using i j(1) ob(3) by metis
  qed
  have "i \<notin> mc_id ` set (collect_chunks es)" using ne by blast
  then have idx: "ci_get i (ci_bulk_insert (map (\<lambda>c. (mc_id c, mc_object_name c)) (collect_chunks es)) (md_index dst)) = ci_get i (md_index dst)"
    unfolding ci_get_def ci_bulk_insert_def hm.get_fold_ins [OF dst]
    by (intro map_add_dom_app_simps(3)) (simp add: dom_map_of_conv_image_fst image_image)
  from ing show "hm_get (ms_chunks (md_store dst')) i = hm_get (ms_chunks (md_store dst)) i \<and> ci_get i (md_index dst') = ci_get i (md_index dst)"
    by (cases rule: ingest_ok) (simp_all add: fold_insert_other ne idx)
qed

text \<open>
  When the transfer of a partition succeeds, every object of the source whose hash is in
  the requested ranges is in the store of the node that pulled it, with its chunk list and checksum
  (its size is not transferred and reads 0), each of its chunks is there with its checksum and
  replicas, and the chunk index names the object for them. Objects outside the ranges are untouched.
\<close>

theorem migration_copies_partition:
  assumes src: "ms_wf (md_store src)" and dst: "ms_wf (md_store dst)" and idx: "hm_invar (md_index dst)"
    and es: "peer_transfer_partition x ranges src = Ok es"
    and ing: "ingest_entries P ser es cm dst w = (Ok (), dst', w')"
  shows "(\<forall>n ob. hm_get (ms_objects (md_store src)) n = Some ob \<and> hash_in_ranges (x n) ranges \<longrightarrow>
      hm_get (ms_objects (md_store dst')) n = Some (ob\<lparr>mo_total_size := 0\<rparr>) \<and>
      (\<forall>i \<in> set (mo_chunks ob). hm_get (ms_chunks (md_store dst')) i = hm_get (ms_chunks (md_store src)) i \<and>
         ci_get i (md_index dst') = Some n)) \<and>
    (\<forall>m. \<not> hash_in_ranges (x m) ranges \<longrightarrow>
      hm_get (ms_objects (md_store dst')) m = hm_get (ms_objects (md_store dst)) m)"
  using migrated_objects [OF src ms_wfD(1,2) [OF dst] idx es ing] ingestion_frame(1) [OF src idx es ing] by blast

definition toy_cluster :: "unit ClusterManager" where
  "toy_cluster = \<lparr>cm_ring = [], cm_node_id = ''b'', cm_grpc_addr = [], cm_peers = [], cm_peer_addrs = []\<rparr>"

theorem migration_copies_partition_witness:
  "\<forall>P :: (unit, unit) peer_rpc. \<exists>es dst'. peer_transfer_partition (\<lambda>_. 5) [(0, 9)] toy_after = Ok es \<and>
     ingest_entries P toy_ser es toy_cluster toy_service () = (Ok (), dst', ()) \<and>
     hm_get (ms_objects (md_store dst')) ''a'' = hm_get (ms_objects (md_store toy_after)) ''a''"
proof (intro allI)
  fix P :: "(unit, unit) peer_rpc"
  let ?es = "[Entry_Object ''a'' 0 [4], Entry_Chunk 4 ''a'' 7 [9]]"
  have es: "peer_transfer_partition (\<lambda>_. 5) [(0, 9)] toy_after = Ok ?es"
    by (simp add: peer_transfer_partition_def objects_in_hash_ranges_def toy_after_store transfer_entries_def
        hash_key_def List.map_filter_def)
  have ing: "ingest_entries P toy_ser ?es toy_cluster toy_service () =
      (Ok (), fst (snd (ingest_entries P toy_ser ?es toy_cluster toy_service ())), ())"
    by (simp add: ingest_entries_def ingest_partition_def toy_defs broadcast_chunk_index_update_def
        get_all_peer_addrs_def toy_cluster_def)
  have wf: "ms_wf (md_store toy_service)" by (simp add: toy_service_def toy_store_wf)
  have idx: "hm_invar (md_index toy_service)" by (simp add: toy_service_def)
  show "\<exists>es dst'. peer_transfer_partition (\<lambda>_. 5) [(0, 9)] toy_after = Ok es \<and>
     ingest_entries P toy_ser es toy_cluster toy_service () = (Ok (), dst', ()) \<and>
     hm_get (ms_objects (md_store dst')) ''a'' = hm_get (ms_objects (md_store toy_after)) ''a''"
    using es ing migration_copies_partition [OF toy_after_wf wf idx es ing, THEN conjunct1, rule_format, of "''a''"]
    by (auto simp: toy_after_store)
qed

end
