(* ===== verification/Clients.thy ===== *)
theory Clients
  imports StorageNode MetadataService
begin

text \<open>
  The client side of the services: the traits of \<^verbatim>\<open>protos/src/clients.rs\<close> through which the
  gateway and the replication service reach the metadata service and the storage nodes, as records
  of calls over a state \<open>'w\<close> of everything behind them.

  A call is an action: it takes the state to a value and a new state, or to \<open>None\<close> when it never
  returns. A storage node client \<open>'n\<close> is what connecting to an address gives.
\<close>

section \<open>Actions\<close>

type_synonym ('s, 'a) act = "'s \<Rightarrow> ('a \<times> 's) option"

definition ret :: "'a \<Rightarrow> ('s, 'a) act" where
  "ret x s = Some (x, s)"

definition bnd :: "('s, 'a) act \<Rightarrow> ('a \<Rightarrow> ('s, 'b) act) \<Rightarrow> ('s, 'b) act" where
  "bnd m f s = (case m s of None \<Rightarrow> None | Some (x, s') \<Rightarrow> f x s')"

text \<open>Rust's \<open>match\<close> on a result: the first branch handles the error, the second goes on.\<close>

definition try_or ::
  "('s, ('a, 'e) result) act \<Rightarrow> ('e \<Rightarrow> ('s, 'b) act) \<Rightarrow> ('a \<Rightarrow> ('s, 'b) act) \<Rightarrow> ('s, 'b) act" where
  "try_or m h f = bnd m (\<lambda>r. case r of Ok v \<Rightarrow> f v | Err e \<Rightarrow> h e)"

lemma bnd_Some: "bnd m f s = Some (y, s'') \<longleftrightarrow> (\<exists>x s'. m s = Some (x, s') \<and> f x s' = Some (y, s''))"
  by (auto simp: bnd_def split: option.split)

lemma ret_Some [simp]: "ret x s = Some (y, s') \<longleftrightarrow> y = x \<and> s' = s"
  by (auto simp: ret_def)

lemma bnd_ret [simp]: "bnd (ret x) f = f x"
  by (simp add: bnd_def ret_def fun_eq_iff)

lemma bnd_assoc: "bnd (bnd m f) g = bnd m (\<lambda>x. bnd (f x) g)"
  by (auto simp: bnd_def fun_eq_iff split: option.split)

lemma bnd_run: "m s = Some (x, s') \<Longrightarrow> bnd m f s = f x s'"
  by (simp add: bnd_def)

lemma try_or_run:
  "m s = Some (Ok v, s') \<Longrightarrow> try_or m h f s = f v s'"
  "m s = Some (Err e, s') \<Longrightarrow> try_or m h f s = h e s'"
  by (simp_all add: try_or_def bnd_def)

lemma try_or_Some:
  "try_or m h f s = Some (y, s'') \<longleftrightarrow>
     (\<exists>v s'. m s = Some (Ok v, s') \<and> f v s' = Some (y, s'')) \<or>
     (\<exists>e s'. m s = Some (Err e, s') \<and> h e s' = Some (y, s''))"
  by (cases "m s") (auto simp: try_or_def bnd_def split: result.splits)

text \<open>
  Partial correctness of an action: from a state with \<open>P\<close>, if it returns, it returns a value and
  a state with \<open>Q\<close>. The rules follow the structure of the code.
\<close>

definition sat :: "('s \<Rightarrow> bool) \<Rightarrow> ('s, 'a) act \<Rightarrow> ('a \<Rightarrow> 's \<Rightarrow> bool) \<Rightarrow> bool" where
  "sat P m Q \<longleftrightarrow> (\<forall>s x s'. P s \<longrightarrow> m s = Some (x, s') \<longrightarrow> Q x s')"

named_theorems sat_rules \<open>partial correctness of the actions of a component\<close>

lemma satI: "(\<And>s x s'. P s \<Longrightarrow> m s = Some (x, s') \<Longrightarrow> Q x s') \<Longrightarrow> sat P m Q"
  by (auto simp: sat_def)

lemma satD: "sat P m Q \<Longrightarrow> P s \<Longrightarrow> m s = Some (x, s') \<Longrightarrow> Q x s'"
  by (auto simp: sat_def)

lemma sat_ret: "(\<And>s. P s \<Longrightarrow> Q x s) \<Longrightarrow> sat P (ret x) Q"
  by (auto simp: sat_def)

lemma sat_bnd: "sat P m R \<Longrightarrow> (\<And>x. sat (R x) (f x) Q) \<Longrightarrow> sat P (bnd m f) Q"
  unfolding sat_def bnd_Some by blast

lemma sat_try:
  "sat P m R \<Longrightarrow> (\<And>e. sat (R (Err e)) (h e) Q) \<Longrightarrow> (\<And>v. sat (R (Ok v)) (f v) Q) \<Longrightarrow> sat P (try_or m h f) Q"
  unfolding sat_def try_or_Some by blast

lemma sat_weaken: "sat P' m Q' \<Longrightarrow> (\<And>s. P s \<Longrightarrow> P' s) \<Longrightarrow> (\<And>x s. Q' x s \<Longrightarrow> Q x s) \<Longrightarrow> sat P m Q"
  unfolding sat_def by blast

lemma sat_if: "(b \<Longrightarrow> sat P m Q) \<Longrightarrow> (\<not> b \<Longrightarrow> sat P m' Q) \<Longrightarrow> sat P (if b then m else m') Q"
  by simp

section \<open>The traits\<close>

record 'w MetadataClient =
  mcl_list_storage_nodes :: "('w, MetaStorageNode list rpc) act"
  mcl_put_object :: "u32 \<Rightarrow> string \<Rightarrow> ('w, unit rpc) act"
  mcl_get_object :: "string \<Rightarrow> ('w, GetObjectResponse rpc) act"
  mcl_delete_object :: "string \<Rightarrow> ('w, unit rpc) act"
  mcl_allocate_chunk :: "string \<Rightarrow> u32 \<Rightarrow> ('w, (u64 \<times> u64 \<times> string) rpc) act"
  mcl_confirm_chunk :: "u64 \<Rightarrow> string \<Rightarrow> u32 \<Rightarrow> u64 \<Rightarrow> ('w, unit rpc) act"
  mcl_list_objects :: "('w, PMetaObject list rpc) act"
  mcl_delete_chunk :: "u64 \<Rightarrow> ('w, unit rpc) act"
  mcl_put_chunk :: "string \<Rightarrow> u32 \<Rightarrow> ('w, (u64 \<times> string) rpc) act"
  mcl_put_storage_node :: "string \<Rightarrow> ('w, u64 rpc) act"
  mcl_get_chunk :: "u64 \<Rightarrow> ('w, GetChunkResponse rpc) act"
  mcl_get_storage_node :: "u64 \<Rightarrow> ('w, string rpc) act"
  mcl_delete_storage_node :: "u64 \<Rightarrow> ('w, unit rpc) act"
  mcl_list_under_replicated_chunks :: "u32 \<Rightarrow> ('w, UnderReplicatedChunk list rpc) act"
  mcl_add_chunk_replica :: "u64 \<Rightarrow> u64 \<Rightarrow> ('w, unit rpc) act"
  mcl_update_object_checksum :: "string \<Rightarrow> u32 \<Rightarrow> u64 \<Rightarrow> ('w, unit rpc) act"

record ('n, 'w) StorageNodeClient =
  ncl_connect :: "string \<Rightarrow> ('w, ('n, code) result) act"
  ncl_get_chunk_size :: "'n \<Rightarrow> ('w, u64 rpc) act"
  ncl_write_chunk :: "'n \<Rightarrow> u64 \<Rightarrow> bytes \<Rightarrow> ('w, u64 rpc) act"
  ncl_read_chunk :: "'n \<Rightarrow> u64 \<Rightarrow> ('w, (u64 \<times> bytes \<times> u32) rpc) act"
  ncl_delete_chunk :: "'n \<Rightarrow> u64 \<Rightarrow> ('w, u64 rpc) act"
  ncl_get_free_chunks :: "'n \<Rightarrow> ('w, u64 rpc) act"
  ncl_check_health :: "'n \<Rightarrow> ('w, bool rpc) act"

text \<open>The first address that connects: the failover of both clients of the metadata service.\<close>

fun connect_any :: "(string \<Rightarrow> ('w, ('m, code) result) act) \<Rightarrow> string list \<Rightarrow> ('w, 'm option) act" where
  "connect_any connect [] = ret None"
| "connect_any connect (url # urls) =
     try_or (connect url) (\<lambda>_. connect_any connect urls) (\<lambda>client. ret (Some client))"

text \<open>\<open>METADATA_URLS\<close> (comma-separated) with fallback to \<open>METADATA_URL\<close>.\<close>

definition metadata_urls :: "string \<Rightarrow> (string \<Rightarrow> string option) \<Rightarrow> string list" where
  "metadata_urls fallback env =
     (case env ''METADATA_URLS'' of
        Some s \<Rightarrow> filter (\<lambda>u. u \<noteq> []) (map str_trim (str_split (CHR '','') s))
      | None \<Rightarrow> [case env ''METADATA_URL'' of Some u \<Rightarrow> u | None \<Rightarrow> fallback])"

text \<open>The start of both clients: rounds over the addresses, with \<open>retries\<close> more after the first.\<close>

fun connect_rounds ::
  "(string \<Rightarrow> ('w, ('m, code) result) act) \<Rightarrow> string list \<Rightarrow> nat \<Rightarrow> ('w, 'm option) act" where
  "connect_rounds connect urls retries =
     bnd (connect_any connect urls) (\<lambda>c.
     case (c, retries) of
       (Some client, _) \<Rightarrow> ret (Some client)
     | (None, 0) \<Rightarrow> ret None
     | (None, Suc r) \<Rightarrow> connect_rounds connect urls r)"

declare connect_rounds.simps [simp del]

end
