(* ===== verification/Gateway.thy ===== *)
theory Gateway
  imports Clients
begin

text \<open>
  The HTTP gateway (\<^verbatim>\<open>api-gateway/src/handlers.rs\<close>, \<open>AppState\<close> of \<^verbatim>\<open>main.rs\<close>): object
  names, the connection cache, retries, and the handlers for uploads (JSON and multipart),
  downloads (JSON and streamed), listing and deletion.

  A handler is an action on the application state, which holds the connection cache, the metrics
  and the world behind the clients. Base64, JSON and the multipart parser are third-party and
  are arguments. The tasks joined by \<open>join_all\<close> run one after the other, in the order of the list.
  Durations are not modelled.
\<close>

section \<open>State\<close>

datatype gw_metric =
    Gw_http_requests_total string string string | Gw_objects_uploaded_total | Gw_objects_downloaded_total
  | Gw_objects_deleted_total | Gw_bytes_uploaded_total | Gw_bytes_downloaded_total

record ('n, 'w) AppState =
  gw_connections :: "(string, 'n) hashmap"
  gw_metrics :: "gw_metric metrics"
  gw_world :: 'w

text \<open>The statuses handlers answer with; a panic drops the connection.\<close>

datatype failure =
    BAD_REQUEST | NOT_FOUND | CONFLICT | PAYLOAD_TOO_LARGE | INTERNAL_SERVER_ERROR | Handler_panic

type_synonym 'a http = "('a, failure) result"

definition gw_call :: "('w, 'a) act \<Rightarrow> (('n, 'w) AppState, 'a) act" where
  "gw_call m s = (case m (gw_world s) of None \<Rightarrow> None | Some (x, w) \<Rightarrow> Some (x, s\<lparr>gw_world := w\<rparr>))"

definition gw_metric_upd :: "gw_metric \<Rightarrow> int \<Rightarrow> (('n, 'w) AppState, unit) act" where
  "gw_metric_upd l n s = Some ((), s\<lparr>gw_metrics := metric_add l n (gw_metrics s)\<rparr>)"

definition fail :: "failure \<Rightarrow> (('n, 'w) AppState, 'a http) act" where
  "fail e = ret (Err e)"

text \<open>Count the request under its status, then answer the failure.\<close>

definition count_fail :: "string \<Rightarrow> string \<Rightarrow> string \<Rightarrow> failure \<Rightarrow> (('n, 'w) AppState, 'a http) act" where
  "count_fail method endpoint status e =
     bnd (gw_metric_upd (Gw_http_requests_total method endpoint status) 1) (\<lambda>_. fail e)"

section \<open>Retries, connections, names\<close>

definition app_connect ::
  "(string \<Rightarrow> string option) \<Rightarrow> (string \<Rightarrow> ('w, ('m, code) result) act) \<Rightarrow> ('w, 'm option) act" where
  "app_connect env connect = connect_rounds connect (metadata_urls ''http://127.0.0.1:3001'' env) 5"

fun retry_with_backoff :: "nat \<Rightarrow> ('s, ('a, 'e) result) act \<Rightarrow> ('s, ('a, 'e) result) act" where
  "retry_with_backoff 0 f = f"
| "retry_with_backoff (Suc retries) f = try_or f (\<lambda>_. retry_with_backoff retries f) (\<lambda>v. ret (Ok v))"

definition get_or_connect :: "('n, 'w) StorageNodeClient \<Rightarrow> string \<Rightarrow> (('n, 'w) AppState, 'n http) act" where
  "get_or_connect N address s =
     (case hm_get (gw_connections s) address of
        Some client \<Rightarrow> Some (Ok client, s)
      | None \<Rightarrow>
          try_or (gw_call (ncl_connect N address)) (\<lambda>_. fail INTERNAL_SERVER_ERROR)
            (\<lambda>client s. Some (Ok client, s\<lparr>gw_connections := hm_insert address client (gw_connections s)\<rparr>)) s)"

definition MAX_OBJECT_NAME_LENGTH :: nat where
  "MAX_OBJECT_NAME_LENGTH = 1024"

definition MAX_OBJECT_SIZE :: nat where
  "MAX_OBJECT_SIZE = 10 * 1024 * 1024 * 1024"

text \<open>
  The code points of a UTF-8 text (a Rust string is always valid UTF-8); \<open>is_alphanumeric\<close> is the
  Unicode table.
\<close>

fun utf8_chars :: "string \<Rightarrow> nat list" where
  "utf8_chars [] = []"
| "utf8_chars (c # s) =
     (let b = (of_char c :: nat); next = (\<lambda>k. if k < length s then (of_char (s ! k) :: nat) mod 64 else 0) in
      if b < 128 then b # utf8_chars s
      else if b < 224 then ((b mod 32) * 64 + next 0) # utf8_chars (drop 1 s)
      else if b < 240 then ((b mod 16) * 4096 + next 0 * 64 + next 1) # utf8_chars (drop 2 s)
      else ((b mod 8) * 262144 + next 0 * 4096 + next 1 * 64 + next 2) # utf8_chars (drop 3 s))"

definition name_char :: "(nat \<Rightarrow> bool) \<Rightarrow> nat \<Rightarrow> bool" where
  "name_char is_alphanumeric c \<longleftrightarrow>
     is_alphanumeric c \<or> c = of_char (CHR ''-'') \<or> c = of_char (CHR ''_'') \<or> c = of_char (CHR ''.'') \<or> c = of_char (CHR ''/'')"

datatype name_error = Empty_name | Name_too_long | Bad_character | Slash_at_end | Double_slash

definition validate_object_name :: "(nat \<Rightarrow> bool) \<Rightarrow> string \<Rightarrow> (unit, name_error) result" where
  "validate_object_name is_alphanumeric name =
     (if name = [] then Err Empty_name
      else if length name > MAX_OBJECT_NAME_LENGTH then Err Name_too_long
      else if \<not> list_all (name_char is_alphanumeric) (utf8_chars name) then Err Bad_character
      else if starts_with name ''/'' \<or> last name = CHR ''/'' then Err Slash_at_end
      else if str_contains name ''//'' then Err Double_slash
      else Ok ())"

section \<open>JSON upload\<close>

text \<open>\<open>slice::chunks\<close>: pieces of \<open>n\<close> bytes, the last one shorter; it panics for 0.\<close>

fun slice_chunks :: "nat \<Rightarrow> 'a list \<Rightarrow> 'a list list" where
  "slice_chunks n [] = []"
| "slice_chunks n (x # xs) = (x # take (n - 1) xs) # slice_chunks n (drop (n - 1) xs)"

definition rollback :: "'w MetadataClient \<Rightarrow> string \<Rightarrow> failure \<Rightarrow> (('n, 'w) AppState, 'a http) act" where
  "rollback M object_name e = bnd (gw_call (mcl_delete_object M object_name)) (\<lambda>_. fail e)"

text \<open>One turn of the loop: a connection failure returns without the rollback.\<close>

definition upload_chunk ::
  "'w MetadataClient \<Rightarrow> ('n, 'w) StorageNodeClient \<Rightarrow> 'h crc32 \<Rightarrow> string \<Rightarrow> bytes \<Rightarrow> (('n, 'w) AppState, unit http) act" where
  "upload_chunk M N H object_name chunk =
     try_or (gw_call (mcl_allocate_chunk M object_name (compute_checksum H chunk)))
       (\<lambda>_. rollback M object_name INTERNAL_SERVER_ERROR) (\<lambda>(chunk_id, storage_node_id, address).
     try_or (get_or_connect N address) fail (\<lambda>client.
     try_or (gw_call (ncl_write_chunk N client chunk_id chunk))
       (\<lambda>_. rollback M object_name INTERNAL_SERVER_ERROR) (\<lambda>_.
     try_or (gw_call (mcl_confirm_chunk M chunk_id object_name (compute_checksum H chunk) storage_node_id))
       (\<lambda>_. rollback M object_name INTERNAL_SERVER_ERROR) (\<lambda>_. ret (Ok ())))))"

fun upload_chunks ::
  "'w MetadataClient \<Rightarrow> ('n, 'w) StorageNodeClient \<Rightarrow> 'h crc32 \<Rightarrow> string \<Rightarrow> bytes list \<Rightarrow> (('n, 'w) AppState, unit http) act" where
  "upload_chunks M N H object_name [] = ret (Ok ())"
| "upload_chunks M N H object_name (chunk # chunks) =
     try_or (upload_chunk M N H object_name chunk) fail (\<lambda>_. upload_chunks M N H object_name chunks)"

text \<open>The chunk size, asked from the first storage node; the two handlers count differently.\<close>

definition query_chunk_size ::
  "'w MetadataClient \<Rightarrow> ('n, 'w) StorageNodeClient \<Rightarrow> (('n, 'w) AppState, nat http) act
     \<Rightarrow> (('n, 'w) AppState, nat http) act" where
  "query_chunk_size M N err =
     try_or (gw_call (mcl_list_storage_nodes M)) (\<lambda>_. err) (\<lambda>storage_nodes.
     case storage_nodes of
       [] \<Rightarrow> err
     | node # _ \<Rightarrow>
         try_or (gw_call (ncl_connect N (msn_address node))) (\<lambda>_. fail INTERNAL_SERVER_ERROR) (\<lambda>client.
         try_or (gw_call (ncl_get_chunk_size N client)) (\<lambda>_. err) (\<lambda>size. ret (Ok (unat size)))))"

definition upload_done :: "string \<Rightarrow> nat \<Rightarrow> (('n, 'w) AppState, nat http) act" where
  "upload_done endpoint bytes_len =
     bnd (gw_metric_upd Gw_objects_uploaded_total 1) (\<lambda>_.
     bnd (gw_metric_upd Gw_bytes_uploaded_total (int bytes_len)) (\<lambda>_.
     bnd (gw_metric_upd (Gw_http_requests_total ''PUT'' endpoint ''200'') 1) (\<lambda>_. ret (Ok bytes_len))))"

text \<open>The reply carries the number of bytes.\<close>

definition handle_put_object ::
  "'w MetadataClient \<Rightarrow> ('n, 'w) StorageNodeClient \<Rightarrow> 'h crc32 \<Rightarrow> (nat \<Rightarrow> bool) \<Rightarrow> (string \<Rightarrow> bytes option)
     \<Rightarrow> string \<Rightarrow> string \<Rightarrow> (('n, 'w) AppState, nat http) act" where
  "handle_put_object M N H is_alphanumeric b64_decode object_name payload =
     (case validate_object_name is_alphanumeric object_name of
        Err _ \<Rightarrow> count_fail ''PUT'' ''object'' ''400'' BAD_REQUEST
      | Ok _ \<Rightarrow>
      case b64_decode payload of
        None \<Rightarrow> count_fail ''PUT'' ''object'' ''400'' BAD_REQUEST
      | Some decoded_bytes \<Rightarrow>
          if length decoded_bytes > MAX_OBJECT_SIZE then count_fail ''PUT'' ''object'' ''413'' PAYLOAD_TOO_LARGE
          else
            try_or (query_chunk_size M N (count_fail ''PUT'' ''object'' ''500'' INTERNAL_SERVER_ERROR)) fail (\<lambda>chunk_size.
            if chunk_size = 0 then fail Handler_panic
            else
              try_or (gw_call (mcl_put_object M (compute_checksum H decoded_bytes) object_name))
                (\<lambda>_. count_fail ''PUT'' ''object'' ''409'' CONFLICT) (\<lambda>_.
              try_or (upload_chunks M N H object_name (slice_chunks chunk_size decoded_bytes)) fail
                (\<lambda>_. upload_done ''object'' (length decoded_bytes)))))"

section \<open>Downloads\<close>

text \<open>One chunk: each replica in turn, three attempts at each.\<close>

fun read_replicas :: "('n, 'w) StorageNodeClient \<Rightarrow> u64 \<Rightarrow> MetaStorageNode list \<Rightarrow> (('n, 'w) AppState, bytes http) act" where
  "read_replicas N chunk_id [] = fail INTERNAL_SERVER_ERROR"
| "read_replicas N chunk_id (node # nodes) =
     try_or (get_or_connect N (msn_address node)) (\<lambda>_. read_replicas N chunk_id nodes) (\<lambda>client.
     try_or (gw_call (retry_with_backoff 2 (ncl_read_chunk N client chunk_id)))
       (\<lambda>_. read_replicas N chunk_id nodes) (\<lambda>(_, chunk_bytes, _). ret (Ok chunk_bytes)))"

text \<open>All the chunks are read before the first failure among them is reported.\<close>

fun join_reads :: "('n, 'w) StorageNodeClient \<Rightarrow> PMetaChunk list \<Rightarrow> (('n, 'w) AppState, bytes http list) act" where
  "join_reads N [] = ret []"
| "join_reads N (chunk # chunks) =
     bnd (read_replicas N (pc_id chunk) (pc_storage_nodes chunk)) (\<lambda>r.
     bnd (join_reads N chunks) (\<lambda>rs. ret (r # rs)))"

fun concat_results :: "bytes http list \<Rightarrow> bytes http" where
  "concat_results [] = Ok []"
| "concat_results (Err e # rs) = Err e"
| "concat_results (Ok b # rs) = (case concat_results rs of Err e \<Rightarrow> Err e | Ok bs \<Rightarrow> Ok (b @ bs))"

definition handle_get_object ::
  "'w MetadataClient \<Rightarrow> ('n, 'w) StorageNodeClient \<Rightarrow> (nat \<Rightarrow> bool) \<Rightarrow> (bytes \<Rightarrow> string) \<Rightarrow> string
     \<Rightarrow> (('n, 'w) AppState, string http) act" where
  "handle_get_object M N is_alphanumeric b64_encode object_name =
     (case validate_object_name is_alphanumeric object_name of
        Err _ \<Rightarrow> count_fail ''GET'' ''object'' ''400'' BAD_REQUEST
      | Ok _ \<Rightarrow>
          try_or (gw_call (mcl_get_object M object_name)) (\<lambda>_. count_fail ''GET'' ''object'' ''404'' NOT_FOUND) (\<lambda>resp.
          bnd (join_reads N (go_chunks resp)) (\<lambda>results.
          case concat_results results of
            Err e \<Rightarrow> count_fail ''GET'' ''object'' ''500'' e
          | Ok chunk_data \<Rightarrow>
              bnd (gw_metric_upd Gw_objects_downloaded_total 1) (\<lambda>_.
              bnd (gw_metric_upd Gw_bytes_downloaded_total (int (length chunk_data))) (\<lambda>_.
              bnd (gw_metric_upd (Gw_http_requests_total ''GET'' ''object'' ''200'') 1) (\<lambda>_.
              ret (Ok (b64_encode chunk_data))))))))"

text \<open>
  The streamed download answers 200 before it reads any chunk; \<open>stream_body\<close> is what the client
  then receives: chunks, ended by an error when no replica of one can be read.
\<close>

fun stream_body :: "('n, 'w) StorageNodeClient \<Rightarrow> PMetaChunk list \<Rightarrow> (('n, 'w) AppState, bytes io list) act" where
  "stream_body N [] = ret []"
| "stream_body N (chunk # chunks) =
     try_or (read_replicas N (pc_id chunk) (pc_storage_nodes chunk)) (\<lambda>_. ret [Err OtherError]) (\<lambda>chunk_bytes.
     bnd (stream_body N chunks) (\<lambda>items. ret (Ok chunk_bytes # items)))"

definition handle_get_object_stream ::
  "'w MetadataClient \<Rightarrow> ('n, 'w) StorageNodeClient \<Rightarrow> (nat \<Rightarrow> bool) \<Rightarrow> string
     \<Rightarrow> (('n, 'w) AppState, PMetaChunk list http) act" where
  "handle_get_object_stream M N is_alphanumeric object_name =
     (case validate_object_name is_alphanumeric object_name of
        Err _ \<Rightarrow> count_fail ''GET'' ''object_stream'' ''400'' BAD_REQUEST
      | Ok _ \<Rightarrow>
          try_or (gw_call (mcl_get_object M object_name))
            (\<lambda>_. count_fail ''GET'' ''object_stream'' ''404'' NOT_FOUND) (\<lambda>resp.
          bnd (gw_metric_upd Gw_objects_downloaded_total 1) (\<lambda>_.
          bnd (gw_metric_upd (Gw_http_requests_total ''GET'' ''object_stream'' ''200'') 1) (\<lambda>_.
          ret (Ok (go_chunks resp))))))"

section \<open>Listing\<close>

record ListObjectsResponseChunk =
  lc_id :: u64
  lc_bytes :: string
  lc_node_address :: string

record ListObjectsResponsePayload =
  lo_name :: string
  lo_chunks :: "ListObjectsResponseChunk list"

text \<open>The first replica that accepts a connection; the cache is not used.\<close>

fun connect_first :: "('n, 'w) StorageNodeClient \<Rightarrow> MetaStorageNode list \<Rightarrow> (('n, 'w) AppState, ('n \<times> string) http) act" where
  "connect_first N [] = fail INTERNAL_SERVER_ERROR"
| "connect_first N (node # nodes) =
     try_or (gw_call (ncl_connect N (msn_address node))) (\<lambda>_. connect_first N nodes)
       (\<lambda>client. ret (Ok (client, msn_address node)))"

fun list_chunks ::
  "('n, 'w) StorageNodeClient \<Rightarrow> (bytes \<Rightarrow> string) \<Rightarrow> PMetaChunk list
     \<Rightarrow> (('n, 'w) AppState, ListObjectsResponseChunk list http) act" where
  "list_chunks N b64_encode [] = ret (Ok [])"
| "list_chunks N b64_encode (chunk # chunks) =
     (if pc_storage_nodes chunk = [] then fail INTERNAL_SERVER_ERROR
      else
        try_or (connect_first N (pc_storage_nodes chunk)) (\<lambda>_. fail INTERNAL_SERVER_ERROR) (\<lambda>(client, address).
        try_or (gw_call (ncl_read_chunk N client (pc_id chunk))) (\<lambda>_. fail INTERNAL_SERVER_ERROR) (\<lambda>(_, chunk_bytes, _).
        try_or (list_chunks N b64_encode chunks) fail (\<lambda>rest.
        ret (Ok (\<lparr>lc_id = pc_id chunk, lc_bytes = b64_encode chunk_bytes, lc_node_address = address\<rparr> # rest))))))"

fun list_all_objects ::
  "('n, 'w) StorageNodeClient \<Rightarrow> (bytes \<Rightarrow> string) \<Rightarrow> PMetaObject list
     \<Rightarrow> (('n, 'w) AppState, ListObjectsResponsePayload list http) act" where
  "list_all_objects N b64_encode [] = ret (Ok [])"
| "list_all_objects N b64_encode (obj # objs) =
     try_or (list_chunks N b64_encode (po_chunks obj)) fail (\<lambda>chunks.
     try_or (list_all_objects N b64_encode objs) fail (\<lambda>rest.
     ret (Ok (\<lparr>lo_name = po_name obj, lo_chunks = chunks\<rparr> # rest))))"

definition handle_list_objects ::
  "'w MetadataClient \<Rightarrow> ('n, 'w) StorageNodeClient \<Rightarrow> (bytes \<Rightarrow> string)
     \<Rightarrow> (('n, 'w) AppState, ListObjectsResponsePayload list http) act" where
  "handle_list_objects M N b64_encode =
     try_or (gw_call (mcl_list_objects M)) (\<lambda>_. count_fail ''GET'' ''list'' ''500'' INTERNAL_SERVER_ERROR) (\<lambda>objects.
     try_or (list_all_objects N b64_encode objects) fail (\<lambda>object_list.
     bnd (gw_metric_upd (Gw_http_requests_total ''GET'' ''list'' ''200'') 1) (\<lambda>_. ret (Ok object_list))))"

section \<open>Deletion\<close>

definition delete_targets :: "PMetaChunk list \<Rightarrow> (u64 \<times> string) list" where
  "delete_targets chunks = concat (map (\<lambda>c. map (\<lambda>n. (pc_id c, msn_address n)) (pc_storage_nodes c)) chunks)"

definition delete_at :: "('n, 'w) StorageNodeClient \<Rightarrow> u64 \<Rightarrow> string \<Rightarrow> (('n, 'w) AppState, bool) act" where
  "delete_at N chunk_id address =
     try_or (get_or_connect N address) (\<lambda>_. ret False) (\<lambda>client.
     try_or (gw_call (retry_with_backoff 2 (ncl_delete_chunk N client chunk_id))) (\<lambda>_. ret False) (\<lambda>_. ret True))"

fun join_deletes :: "('n, 'w) StorageNodeClient \<Rightarrow> (u64 \<times> string) list \<Rightarrow> (('n, 'w) AppState, bool list) act" where
  "join_deletes N [] = ret []"
| "join_deletes N ((chunk_id, address) # ts) =
     bnd (delete_at N chunk_id address) (\<lambda>b. bnd (join_deletes N ts) (\<lambda>bs. ret (b # bs)))"

text \<open>Chunks are removed from the metadata one by one; failures are only logged.\<close>

fun delete_meta_chunks :: "'w MetadataClient \<Rightarrow> PMetaChunk list \<Rightarrow> (('n, 'w) AppState, unit) act" where
  "delete_meta_chunks M [] = ret ()"
| "delete_meta_chunks M (c # cs) =
     bnd (gw_call (mcl_delete_chunk M (pc_id c))) (\<lambda>_. delete_meta_chunks M cs)"

definition handle_delete_object ::
  "'w MetadataClient \<Rightarrow> ('n, 'w) StorageNodeClient \<Rightarrow> (nat \<Rightarrow> bool) \<Rightarrow> string \<Rightarrow> (('n, 'w) AppState, unit http) act" where
  "handle_delete_object M N is_alphanumeric object_name =
     (case validate_object_name is_alphanumeric object_name of
        Err _ \<Rightarrow> count_fail ''DELETE'' ''object'' ''400'' BAD_REQUEST
      | Ok _ \<Rightarrow>
          try_or (gw_call (mcl_get_object M object_name)) (\<lambda>_. count_fail ''DELETE'' ''object'' ''404'' NOT_FOUND) (\<lambda>resp.
          bnd (join_deletes N (delete_targets (go_chunks resp))) (\<lambda>_.
          bnd (delete_meta_chunks M (go_chunks resp)) (\<lambda>_.
          try_or (gw_call (mcl_delete_object M object_name))
            (\<lambda>_. count_fail ''DELETE'' ''object'' ''500'' INTERNAL_SERVER_ERROR) (\<lambda>_.
          bnd (gw_metric_upd Gw_objects_deleted_total 1) (\<lambda>_.
          bnd (gw_metric_upd (Gw_http_requests_total ''DELETE'' ''object'' ''200'') 1) (\<lambda>_. ret (Ok ()))))))))"

section \<open>Multipart upload\<close>

definition flush_chunk_to_storage ::
  "'w MetadataClient \<Rightarrow> ('n, 'w) StorageNodeClient \<Rightarrow> 'h crc32 \<Rightarrow> string \<Rightarrow> bytes \<Rightarrow> (('n, 'w) AppState, unit http) act" where
  "flush_chunk_to_storage M N H object_name buf =
     try_or (gw_call (mcl_allocate_chunk M object_name (compute_checksum H buf)))
       (\<lambda>_. fail INTERNAL_SERVER_ERROR) (\<lambda>(chunk_id, storage_node_id, address).
     try_or (get_or_connect N address) fail (\<lambda>client.
     try_or (gw_call (ncl_write_chunk N client chunk_id buf)) (\<lambda>_. fail INTERNAL_SERVER_ERROR) (\<lambda>_.
     try_or (gw_call (mcl_confirm_chunk M chunk_id object_name (compute_checksum H buf) storage_node_id))
       (\<lambda>_. fail INTERNAL_SERVER_ERROR) (\<lambda>_. ret (Ok ())))))"

text \<open>
  The inner loop drains full chunks from the buffer. With a chunk size of 0 it never ends by
  itself, hence \<open>None\<close> may be its value.
\<close>

partial_function (option) flush_full_chunks ::
  "(bytes \<Rightarrow> 's \<Rightarrow> (unit http \<times> 's) option) \<Rightarrow> nat \<Rightarrow> bytes \<Rightarrow> 's \<Rightarrow> (bytes http \<times> 's) option" where
  "flush_full_chunks flush chunk_size buffer s =
     (if length buffer < chunk_size then Some (Ok buffer, s)
      else case flush (take chunk_size buffer) s of
             None \<Rightarrow> None
           | Some (Err e, s') \<Rightarrow> Some (Err e, s')
           | Some (Ok _, s') \<Rightarrow> flush_full_chunks flush chunk_size (drop chunk_size buffer) s')"

text \<open>
  The outer loop over what the field's stream yields: data, a read error, or its end. \<open>total_size\<close>
  never exceeds the limit by more than one piece, so it does not wrap.
\<close>

fun stream_field ::
  "(bytes \<Rightarrow> ('s, unit http) act) \<Rightarrow> 'h crc32 \<Rightarrow> nat \<Rightarrow> (bytes, unit) result list \<Rightarrow> 'h \<Rightarrow> bytes \<Rightarrow> nat
     \<Rightarrow> ('s, ('h \<times> bytes \<times> nat) http) act" where
  "stream_field flush H chunk_size [] hasher buffer total_size = ret (Ok (hasher, buffer, total_size))"
| "stream_field flush H chunk_size (Err _ # items) hasher buffer total_size = ret (Err BAD_REQUEST)"
| "stream_field flush H chunk_size (Ok chunk_data # items) hasher buffer total_size =
     (if total_size + length chunk_data > MAX_OBJECT_SIZE then ret (Err PAYLOAD_TOO_LARGE)
      else try_or (flush_full_chunks flush chunk_size (buffer @ chunk_data)) (\<lambda>e. ret (Err e)) (\<lambda>rest.
           stream_field flush H chunk_size items (h_update H hasher chunk_data) rest (total_size + length chunk_data)))"

text \<open>The fields of the request up to \<open>file\<close>: a field is its name and the items of its stream.\<close>

type_synonym field = "string option \<times> (bytes, unit) result list"

fun find_file_field :: "(field, unit) result list \<Rightarrow> (bytes, unit) result list option" where
  "find_file_field [] = None"
| "find_file_field (Err _ # fs) = None"
| "find_file_field (Ok (name, items) # fs) = (if name = Some ''file'' then Some items else find_file_field fs)"

definition handle_put_object_multipart ::
  "'w MetadataClient \<Rightarrow> ('n, 'w) StorageNodeClient \<Rightarrow> 'h crc32 \<Rightarrow> (nat \<Rightarrow> bool) \<Rightarrow> string \<Rightarrow> (field, unit) result list
     \<Rightarrow> (('n, 'w) AppState, nat http) act" where
  "handle_put_object_multipart M N H is_alphanumeric object_name multipart =
     (case validate_object_name is_alphanumeric object_name of
        Err _ \<Rightarrow> count_fail ''PUT'' ''object_multipart'' ''400'' BAD_REQUEST
      | Ok _ \<Rightarrow>
          try_or (query_chunk_size M N (fail INTERNAL_SERVER_ERROR)) fail (\<lambda>chunk_size.
          try_or (gw_call (mcl_put_object M 0 object_name))
            (\<lambda>_. count_fail ''PUT'' ''object_multipart'' ''409'' CONFLICT) (\<lambda>_.
          case find_file_field multipart of
            None \<Rightarrow> rollback M object_name BAD_REQUEST
          | Some items \<Rightarrow>
              try_or (stream_field (flush_chunk_to_storage M N H object_name) H chunk_size items (h_new H) [] 0)
                (rollback M object_name) (\<lambda>(hasher, buffer, total_size).
              try_or (if buffer \<noteq> [] then flush_chunk_to_storage M N H object_name buffer else ret (Ok ()))
                (rollback M object_name) (\<lambda>_.
              try_or (gw_call (mcl_update_object_checksum M object_name (h_finalize H hasher) (of_nat total_size)))
                (\<lambda>_. rollback M object_name INTERNAL_SERVER_ERROR)
                (\<lambda>_. upload_done ''object_multipart'' total_size))))))"

section \<open>Dispatch\<close>

text \<open>
  What the framework hands over: the parsed multipart body if it is well-formed, and the body read
  as JSON (reading may fail, and so may parsing).
\<close>

definition handle_put_dispatch ::
  "'w MetadataClient \<Rightarrow> ('n, 'w) StorageNodeClient \<Rightarrow> 'h crc32 \<Rightarrow> (nat \<Rightarrow> bool) \<Rightarrow> (string \<Rightarrow> bytes option)
     \<Rightarrow> string \<Rightarrow> string option \<Rightarrow> (field, unit) result list option \<Rightarrow> bytes option \<Rightarrow> (bytes \<Rightarrow> string option)
     \<Rightarrow> (('n, 'w) AppState, nat http) act" where
  "handle_put_dispatch M N H is_alphanumeric b64_decode object_name content_type multipart body from_json =
     (if starts_with (case content_type of Some t \<Rightarrow> t | None \<Rightarrow> []) ''multipart/form-data'' then
        (case multipart of
           None \<Rightarrow> fail BAD_REQUEST
         | Some fs \<Rightarrow> handle_put_object_multipart M N H is_alphanumeric object_name fs)
      else
        (case body of
           None \<Rightarrow> fail BAD_REQUEST
         | Some bs \<Rightarrow>
             (case from_json bs of
                None \<Rightarrow> fail BAD_REQUEST
              | Some payload \<Rightarrow> handle_put_object M N H is_alphanumeric b64_decode object_name payload)))"

datatype download = Json_body string | Streamed "PMetaChunk list"

definition handle_get_dispatch ::
  "'w MetadataClient \<Rightarrow> ('n, 'w) StorageNodeClient \<Rightarrow> (nat \<Rightarrow> bool) \<Rightarrow> (bytes \<Rightarrow> string) \<Rightarrow> string \<Rightarrow> string option
     \<Rightarrow> (('n, 'w) AppState, download http) act" where
  "handle_get_dispatch M N is_alphanumeric b64_encode object_name accept =
     (if str_contains (case accept of Some t \<Rightarrow> t | None \<Rightarrow> []) ''application/json''
      then try_or (handle_get_object M N is_alphanumeric b64_encode object_name) fail (\<lambda>b. ret (Ok (Json_body b)))
      else try_or (handle_get_object_stream M N is_alphanumeric object_name) fail (\<lambda>cs. ret (Ok (Streamed cs))))"

text \<open>The text of the metrics is made by \<open>encode_metrics\<close>; \<open>/health\<close> answers \<open>OK\<close>.\<close>

definition handle_metrics :: "(gw_metric metrics \<Rightarrow> 't) \<Rightarrow> (('n, 'w) AppState, 't) act" where
  "handle_metrics encode_metrics s = Some (encode_metrics (gw_metrics s), s)"

definition handle_health :: "('s, string) act" where
  "handle_health = ret ''OK''"

text \<open>
  The router: a request, as the framework parses it, and the state after its handler ran (and,
  for a streamed download, after the body was sent).
\<close>

datatype request =
    PutRequest string "string option" "(field, unit) result list option" "bytes option"
  | GetRequest string "string option"
  | ListRequest
  | DeleteRequest string
  | MetricsRequest
  | HealthRequest

definition run_state :: "('s, 'a) act \<Rightarrow> ('s, unit) act" where
  "run_state m = bnd m (\<lambda>_. ret ())"

fun serve ::
  "'w MetadataClient \<Rightarrow> ('n, 'w) StorageNodeClient \<Rightarrow> 'h crc32 \<Rightarrow> (nat \<Rightarrow> bool) \<Rightarrow> (string \<Rightarrow> bytes option)
     \<Rightarrow> (bytes \<Rightarrow> string) \<Rightarrow> (bytes \<Rightarrow> string option) \<Rightarrow> request \<Rightarrow> (('n, 'w) AppState, unit) act" where
  "serve M N H is_alphanumeric b64_decode b64_encode from_json (PutRequest name content_type multipart body) =
     run_state (handle_put_dispatch M N H is_alphanumeric b64_decode name content_type multipart body from_json)"
| "serve M N H is_alphanumeric b64_decode b64_encode from_json (GetRequest name accept) =
     bnd (handle_get_dispatch M N is_alphanumeric b64_encode name accept) (\<lambda>r.
     case r of Ok (Streamed chunks) \<Rightarrow> run_state (stream_body N chunks) | _ \<Rightarrow> ret ())"
| "serve M N H is_alphanumeric b64_decode b64_encode from_json ListRequest =
     run_state (handle_list_objects M N b64_encode)"
| "serve M N H is_alphanumeric b64_decode b64_encode from_json (DeleteRequest name) =
     run_state (handle_delete_object M N is_alphanumeric name)"
| "serve M N H is_alphanumeric b64_decode b64_encode from_json MetricsRequest = run_state (handle_metrics (\<lambda>m. m))"
| "serve M N H is_alphanumeric b64_decode b64_encode from_json HealthRequest = run_state handle_health"

fun serve_all ::
  "'w MetadataClient \<Rightarrow> ('n, 'w) StorageNodeClient \<Rightarrow> 'h crc32 \<Rightarrow> (nat \<Rightarrow> bool) \<Rightarrow> (string \<Rightarrow> bytes option)
     \<Rightarrow> (bytes \<Rightarrow> string) \<Rightarrow> (bytes \<Rightarrow> string option) \<Rightarrow> request list \<Rightarrow> (('n, 'w) AppState, unit) act" where
  "serve_all M N H is_alphanumeric b64_decode b64_encode from_json [] = ret ()"
| "serve_all M N H is_alphanumeric b64_decode b64_encode from_json (q # qs) =
     bnd (serve M N H is_alphanumeric b64_decode b64_encode from_json q)
       (\<lambda>_. serve_all M N H is_alphanumeric b64_decode b64_encode from_json qs)"

end
