(* ===== verification/Backend.thy ===== *)
theory Backend
  imports Clients
begin

text \<open>
  What the gateway and the replication service rely on behind their clients, as an abstract
  specification: which chunks an object lists, which nodes hold a chunk, the address of a node,
  and the bytes at an address. The locale \<open>backend\<close> says how each call moves this state, whatever
  fails; \<open>live_backend\<close> adds that a healthy backend answers reads.
\<close>

section \<open>The abstract state\<close>

record cview =
  cv_objs :: "string \<Rightarrow> u64 list option"
  cv_reps :: "u64 \<Rightarrow> u64 list"
  cv_reg :: "u64 \<Rightarrow> string option"
  cv_blob :: "string \<Rightarrow> u64 \<Rightarrow> bytes option"

text \<open>An object never shares a chunk, and lists each chunk once.\<close>

definition cv_wf :: "cview \<Rightarrow> bool" where
  "cv_wf v \<longleftrightarrow> (\<forall>n is. cv_objs v n = Some is \<longrightarrow> distinct is \<and>
     (\<forall>m js. cv_objs v m = Some js \<longrightarrow> m \<noteq> n \<longrightarrow> set is \<inter> set js = {}))"

definition unlisted :: "cview \<Rightarrow> u64 \<Rightarrow> bool" where
  "unlisted v i \<longleftrightarrow> (\<forall>n is. cv_objs v n = Some is \<longrightarrow> i \<notin> set is)"

text \<open>Every replica of the chunk is on a registered node and holds these bytes.\<close>

definition chunk_stored :: "cview \<Rightarrow> u64 \<Rightarrow> bytes \<Rightarrow> bool" where
  "chunk_stored v i d \<longleftrightarrow> cv_reps v i \<noteq> [] \<and>
     (\<forall>s \<in> set (cv_reps v i). \<exists>a. cv_reg v s = Some a \<and> cv_blob v a i = Some d)"

definition stored :: "cview \<Rightarrow> string \<Rightarrow> bytes \<Rightarrow> bool" where
  "stored v n b \<longleftrightarrow> (\<exists>is ds. cv_objs v n = Some is \<and> concat ds = b \<and> list_all2 (chunk_stored v) is ds)"

section \<open>The operations on the abstract state\<close>

definition cv_put :: "string \<Rightarrow> cview \<Rightarrow> cview" where
  "cv_put n v = v\<lparr>cv_objs := (cv_objs v)(n \<mapsto> [])\<rparr>"

definition cv_confirm :: "u64 \<Rightarrow> string \<Rightarrow> u64 \<Rightarrow> cview \<Rightarrow> cview" where
  "cv_confirm i n s v = v\<lparr>
     cv_objs := (cv_objs v)(n \<mapsto> (case cv_objs v n of Some is \<Rightarrow> is | None \<Rightarrow> []) @ [i]),
     cv_reps := (cv_reps v)(i := [s])\<rparr>"

definition cv_drop :: "string \<Rightarrow> cview \<Rightarrow> cview" where
  "cv_drop n v = v\<lparr>
     cv_objs := (cv_objs v)(n := None),
     cv_reps := (\<lambda>i. if i \<in> set (case cv_objs v n of Some is \<Rightarrow> is | None \<Rightarrow> []) then [] else cv_reps v i)\<rparr>"

definition cv_write :: "string \<Rightarrow> u64 \<Rightarrow> bytes \<Rightarrow> cview \<Rightarrow> cview" where
  "cv_write a i d v = v\<lparr>cv_blob := (cv_blob v)(a := (cv_blob v a)(i \<mapsto> d))\<rparr>"

definition cv_erase :: "string \<Rightarrow> u64 \<Rightarrow> cview \<Rightarrow> cview" where
  "cv_erase a i v = v\<lparr>cv_blob := (cv_blob v)(a := (cv_blob v a)(i := None))\<rparr>"

definition cv_replica :: "u64 \<Rightarrow> u64 \<Rightarrow> cview \<Rightarrow> cview" where
  "cv_replica i s v = v\<lparr>cv_reps := (cv_reps v)(i := cv_reps v i @ [s])\<rparr>"

definition cv_unlink :: "u64 \<Rightarrow> cview \<Rightarrow> cview" where
  "cv_unlink i v = v\<lparr>
     cv_objs := (\<lambda>n. map_option (filter (\<lambda>j. j \<noteq> i)) (cv_objs v n)),
     cv_reps := (cv_reps v)(i := [])\<rparr>"

section \<open>Lemmas: stored objects\<close>

lemma stored_frame:
  assumes "stored v m b" and "cv_objs v' m = cv_objs v m" and "cv_reg v' = cv_reg v"
    and "\<And>is i. cv_objs v m = Some is \<Longrightarrow> i \<in> set is \<Longrightarrow> cv_reps v' i = cv_reps v i"
    and "\<And>is i a d. cv_objs v m = Some is \<Longrightarrow> i \<in> set is \<Longrightarrow> cv_blob v a i = Some d \<Longrightarrow> cv_blob v' a i = Some d"
  shows "stored v' m b"
proof -
  obtain "is" ds where o: "cv_objs v m = Some is" "concat ds = b" "list_all2 (chunk_stored v) is ds"
    using assms(1) unfolding stored_def by blast
  have "chunk_stored v' i d" if "i \<in> set is" "chunk_stored v i d" for i d
    using that(2) assms(3) assms(4,5) [OF o(1) that(1)] by (fastforce simp: chunk_stored_def)
  then have "list_all2 (chunk_stored v') is ds" using o(3) by (blast intro: list.rel_mono_strong)
  then show ?thesis using o(1,2) assms(2) unfolding stored_def by metis
qed

lemma stored_put: "cv_objs v n = None \<Longrightarrow> stored v m b \<Longrightarrow> stored (cv_put n v) m b"
  by (rule stored_frame) (auto simp: cv_put_def stored_def)

lemma stored_new: "stored (cv_put n v) n []"
  by (auto simp: stored_def cv_put_def intro!: exI [of _ "[]"])

lemma stored_write: "cv_blob v a i = None \<Longrightarrow> stored v m b \<Longrightarrow> stored (cv_write a i d v) m b"
  by (rule stored_frame) (auto simp: cv_write_def)

lemma stored_confirm_other:
  "unlisted v i \<Longrightarrow> m \<noteq> n \<Longrightarrow> stored v m b \<Longrightarrow> stored (cv_confirm i n s v) m b"
  by (rule stored_frame) (auto simp: cv_confirm_def unlisted_def)

lemma stored_confirm:
  assumes st: "stored v n b" and un: "unlisted v i" and reg: "cv_reg v s = Some a" and blob: "cv_blob v a i = Some d"
  shows "stored (cv_confirm i n s v) n (b @ d)"
proof -
  obtain "is" ds where o: "cv_objs v n = Some is" "concat ds = b" "list_all2 (chunk_stored v) is ds"
    using st unfolding stored_def by blast
  have "i \<notin> set is" using un o(1) unfolding unlisted_def by blast
  then have "list_all2 (chunk_stored (cv_confirm i n s v)) is ds"
    using o(3) by (auto simp: list_all2_conv_all_nth chunk_stored_def cv_confirm_def)
  moreover have "chunk_stored (cv_confirm i n s v) i d"
    using reg blob by (simp add: chunk_stored_def cv_confirm_def)
  ultimately have "list_all2 (chunk_stored (cv_confirm i n s v)) (is @ [i]) (ds @ [d])"
    by (simp add: list_all2_appendI)
  moreover have "cv_objs (cv_confirm i n s v) n = Some (is @ [i])" using o(1) by (simp add: cv_confirm_def)
  ultimately show ?thesis using o(2) unfolding stored_def by (intro exI conjI) auto
qed

lemma stored_drop:
  assumes wf: "cv_wf v" and ne: "m \<noteq> n" and st: "stored v m b"
  shows "stored (cv_drop n v) m b"
  using st
proof (rule stored_frame)
  fix "is" i assume o: "cv_objs v m = Some is" "i \<in> set is"
  then have "i \<notin> set js" if "cv_objs v n = Some js" for js
    using wf ne that unfolding cv_wf_def by blast
  then show "cv_reps (cv_drop n v) i = cv_reps v i" by (auto simp: cv_drop_def split: option.split)
qed (use ne in \<open>simp_all add: cv_drop_def\<close>)

lemma stored_erase:
  assumes "\<And>is. cv_objs v m = Some is \<Longrightarrow> i \<notin> set is" and "stored v m b"
  shows "stored (cv_erase a i v) m b"
  using assms(2) by (rule stored_frame) (use assms(1) in \<open>auto simp: cv_erase_def\<close>)

lemma stored_unlink:
  assumes "\<And>is. cv_objs v m = Some is \<Longrightarrow> i \<notin> set is" and "stored v m b"
  shows "stored (cv_unlink i v) m b"
proof (rule stored_frame [OF assms(2)])
  show "cv_objs (cv_unlink i v) m = cv_objs v m"
    using assms(1) by (cases "cv_objs v m") (auto simp: cv_unlink_def filter_id_conv)
qed (use assms(1) in \<open>auto simp: cv_unlink_def\<close>)

text \<open>A new replica with the same bytes.\<close>

lemma stored_replica:
  assumes st: "stored v m b" and reg: "cv_reg v s = Some a"
    and blob: "\<And>d. chunk_stored v i d \<Longrightarrow> cv_blob v a i = Some d"
  shows "stored (cv_replica i s v) m b"
proof -
  obtain "is" ds where o: "cv_objs v m = Some is" "concat ds = b" "list_all2 (chunk_stored v) is ds"
    using st unfolding stored_def by blast
  have "chunk_stored (cv_replica i s v) j d" if "chunk_stored v j d" for j d
    using that blob reg by (auto simp: chunk_stored_def cv_replica_def)
  then have "list_all2 (chunk_stored (cv_replica i s v)) is ds"
    using o(3) by (metis list_all2_mono)
  then show ?thesis using o(1,2) unfolding stored_def by (auto simp: cv_replica_def)
qed

section \<open>The interface\<close>

text \<open>
  A call that fails may still have taken effect (a metadata change whose save failed stays in
  memory); a call that succeeds has.
\<close>

locale backend =
  fixes M :: "'w MetadataClient" and N :: "('n, 'w) StorageNodeClient"
    and sound :: "'w \<Rightarrow> bool" and view :: "'w \<Rightarrow> cview" and addr :: "'n \<Rightarrow> string"
  assumes view_wf: "sound w \<Longrightarrow> cv_wf (view w)"
    and nodes_law: "sound w \<Longrightarrow> mcl_list_storage_nodes M w = Some (r, w') \<Longrightarrow> sound w' \<and> view w' = view w \<and>
      (\<forall>ns. r = Ok ns \<longrightarrow> (\<forall>n \<in> set ns. cv_reg (view w) (msn_id n) = Some (msn_address n)))"
    and node_law: "sound w \<Longrightarrow> mcl_get_storage_node M s w = Some (q, w') \<Longrightarrow> sound w' \<and> view w' = view w \<and>
      (\<forall>a. q = Ok a \<longrightarrow> cv_reg (view w) s = Some a)"
    and put_law: "sound w \<Longrightarrow> mcl_put_object M c n w = Some (u, w') \<Longrightarrow> sound w' \<and>
      (if is_ok u then cv_objs (view w) n = None \<and> view w' = cv_put n (view w)
       else view w' = view w \<or> cv_objs (view w) n = None \<and> view w' = cv_put n (view w))"
    and allocate_law: "sound w \<Longrightarrow> mcl_allocate_chunk M n c w = Some (al, w') \<Longrightarrow> sound w' \<and> view w' = view w \<and>
      (\<forall>i s a. al = Ok (i, s, a) \<longrightarrow> unlisted (view w) i \<and> cv_reg (view w) s = Some a)"
    and confirm_law: "sound w \<Longrightarrow> mcl_confirm_chunk M i n c s w = Some (u, w') \<Longrightarrow> sound w' \<and>
      (if is_ok u then unlisted (view w) i \<and> view w' = cv_confirm i n s (view w)
       else view w' = view w \<or> unlisted (view w) i \<and> view w' = cv_confirm i n s (view w))"
    and checksum_law: "sound w \<Longrightarrow> mcl_update_object_checksum M n c t w = Some (u, w') \<Longrightarrow> sound w' \<and> view w' = view w"
    and get_law: "sound w \<Longrightarrow> mcl_get_object M n w = Some (ob, w') \<Longrightarrow> sound w' \<and> view w' = view w \<and>
      (\<forall>resp. ob = Ok resp \<longrightarrow> cv_objs (view w) n = Some (map pc_id (go_chunks resp)) \<and>
         (\<forall>c \<in> set (go_chunks resp). map (Some \<circ> msn_address) (pc_storage_nodes c) =
            map (cv_reg (view w)) (cv_reps (view w) (pc_id c))))"
    and drop_law: "sound w \<Longrightarrow> mcl_delete_object M n w = Some (u, w') \<Longrightarrow> sound w' \<and>
      (if is_ok u then view w' = cv_drop n (view w) else view w' = view w \<or> view w' = cv_drop n (view w))"
    and unlink_law: "sound w \<Longrightarrow> mcl_delete_chunk M i w = Some (u, w') \<Longrightarrow> sound w' \<and>
      (view w' = view w \<or> view w' = cv_unlink i (view w))"
    and under_law: "sound w \<Longrightarrow> mcl_list_under_replicated_chunks M k w = Some (ul, w') \<Longrightarrow> sound w' \<and> view w' = view w \<and>
      (\<forall>cs. ul = Ok cs \<longrightarrow> (\<forall>c \<in> set cs. ur_storage_node_ids c = cv_reps (view w) (ur_chunk_id c)))"
    and list_law: "sound w \<Longrightarrow> mcl_list_objects M w = Some (ol, w') \<Longrightarrow> sound w' \<and> view w' = view w"
    and replica_law: "sound w \<Longrightarrow> mcl_add_chunk_replica M i s w = Some (u, w') \<Longrightarrow> sound w' \<and>
      (if is_ok u then s \<notin> set (cv_reps (view w) i) \<and> view w' = cv_replica i s (view w)
       else view w' = view w \<or> s \<notin> set (cv_reps (view w) i) \<and> view w' = cv_replica i s (view w))"
    and connect_law: "sound w \<Longrightarrow> ncl_connect N a w = Some (cn, w') \<Longrightarrow> sound w' \<and> view w' = view w \<and>
      (\<forall>cl. cn = Ok cl \<longrightarrow> addr cl = a)"
    and size_law: "sound w \<Longrightarrow> ncl_get_chunk_size N cl w = Some (z, w') \<Longrightarrow> sound w' \<and> view w' = view w"
    and free_law: "sound w \<Longrightarrow> ncl_get_free_chunks N cl w = Some (z, w') \<Longrightarrow> sound w' \<and> view w' = view w"
    and write_law: "sound w \<Longrightarrow> ncl_write_chunk N cl i d w = Some (z, w') \<Longrightarrow> sound w' \<and>
      (if is_ok z then cv_blob (view w) (addr cl) i = None \<and> view w' = cv_write (addr cl) i d (view w)
       else view w' = view w)"
    and read_law: "sound w \<Longrightarrow> ncl_read_chunk N cl i w = Some (rd, w') \<Longrightarrow> sound w' \<and> view w' = view w \<and>
      (\<forall>j e ck. rd = Ok (j, e, ck) \<longrightarrow> cv_blob (view w) (addr cl) i = Some e)"
    and erase_law: "sound w \<Longrightarrow> ncl_delete_chunk N cl i w = Some (z, w') \<Longrightarrow> sound w' \<and>
      (view w' = view w \<or> view w' = cv_erase (addr cl) i (view w))"
begin

text \<open>What another object stores survives the steps of an upload, whether they succeed or not.\<close>

lemma put_keeps:
  "sound w \<Longrightarrow> mcl_put_object M c n w = Some (u, w') \<Longrightarrow> stored (view w) m b \<Longrightarrow> stored (view w') m b"
  using put_law stored_put by (metis (no_types, lifting))

lemma confirm_keeps:
  "sound w \<Longrightarrow> mcl_confirm_chunk M i n c s w = Some (u, w') \<Longrightarrow> m \<noteq> n \<Longrightarrow> stored (view w) m b \<Longrightarrow> stored (view w') m b"
  using confirm_law stored_confirm_other by (metis (no_types, lifting))

lemma drop_keeps:
  "sound w \<Longrightarrow> mcl_delete_object M n w = Some (u, w') \<Longrightarrow> m \<noteq> n \<Longrightarrow> stored (view w) m b \<Longrightarrow> stored (view w') m b"
  using drop_law stored_drop view_wf by (metis (no_types, lifting))

lemma write_keeps:
  "sound w \<Longrightarrow> ncl_write_chunk N cl i d w = Some (z, w') \<Longrightarrow> stored (view w) m b \<Longrightarrow> stored (view w') m b"
  using write_law stored_write by (metis (no_types, lifting))

end

text \<open>
  A backend whose metadata service saves what it changes: then a refused replica is not listed.
  The calls of the replication service keep it so.
\<close>

locale steady_backend = backend +
  fixes steady :: "'a \<Rightarrow> bool"
  assumes steady_replica: "sound w \<Longrightarrow> steady w \<Longrightarrow> mcl_add_chunk_replica M i s w = Some (u, w') \<Longrightarrow>
      steady w' \<and> (\<not> is_ok u \<longrightarrow> view w' = view w)"
    and steady_nodes: "steady w \<Longrightarrow> mcl_list_storage_nodes M w = Some (r, w') \<Longrightarrow> steady w'"
    and steady_node: "steady w \<Longrightarrow> mcl_get_storage_node M s w = Some (q, w') \<Longrightarrow> steady w'"
    and steady_under: "sound w \<Longrightarrow> steady w \<Longrightarrow> mcl_list_under_replicated_chunks M k w = Some (ul, w') \<Longrightarrow> steady w'"
    and steady_connect: "steady w \<Longrightarrow> ncl_connect N a w = Some (cn, w') \<Longrightarrow> steady w'"
    and steady_free: "steady w \<Longrightarrow> ncl_get_free_chunks N cl w = Some (z, w') \<Longrightarrow> steady w'"
    and steady_write: "steady w \<Longrightarrow> ncl_write_chunk N cl i d w = Some (z, w') \<Longrightarrow> steady w'"
    and steady_read: "steady w \<Longrightarrow> ncl_read_chunk N cl i w = Some (rd, w') \<Longrightarrow> steady w'"
    and steady_erase: "steady w \<Longrightarrow> ncl_delete_chunk N cl i w = Some (z, w') \<Longrightarrow> steady w'"

text \<open>A healthy backend answers reads.\<close>

locale live_backend = backend +
  fixes healthy :: "'a \<Rightarrow> bool"
  assumes live_get: "sound w \<Longrightarrow> healthy w \<Longrightarrow> cv_objs (view w) n = Some is \<Longrightarrow>
      (\<And>i s. i \<in> set is \<Longrightarrow> s \<in> set (cv_reps (view w) i) \<Longrightarrow> cv_reg (view w) s \<noteq> None) \<Longrightarrow>
      \<exists>resp w'. mcl_get_object M n w = Some (Ok resp, w') \<and> healthy w'"
    and live_connect: "sound w \<Longrightarrow> healthy w \<Longrightarrow> cv_blob (view w) a i = Some d \<Longrightarrow>
      \<exists>cl w'. ncl_connect N a w = Some (Ok cl, w') \<and> healthy w'"
    and live_read: "sound w \<Longrightarrow> healthy w \<Longrightarrow> cv_blob (view w) (addr cl) i = Some d \<Longrightarrow>
      \<exists>e w'. ncl_read_chunk N cl i w = Some (Ok e, w') \<and> healthy w'"

end
