(* ===== verification/GatewayCorrect.thy ===== *)
theory GatewayCorrect
  imports Gateway Backend
begin

text \<open>
  The gateway's handlers over any backend that keeps the contract: what an upload stores, what a
  download returns, what a deletion leaves. The lemmas are proved once in the context of the
  interface; the deployment theory instantiates them with the services of this repository.
\<close>

section \<open>Chunking\<close>

lemma concat_slice_chunks: "concat (slice_chunks n xs) = xs"
  by (induction n xs rule: slice_chunks.induct) (auto simp: append_take_drop_id)

lemma slice_chunks_size: "0 < n \<Longrightarrow> c \<in> set (slice_chunks n xs) \<Longrightarrow> c \<noteq> [] \<and> length c \<le> n"
  by (induction n xs rule: slice_chunks.induct) auto

lemma slice_chunks_full: "0 < n \<Longrightarrow> n \<le> length xs \<Longrightarrow> slice_chunks n xs = take n xs # slice_chunks n (drop n xs)"
  by (cases xs; cases n) auto

lemma slice_chunks_short: "xs \<noteq> [] \<Longrightarrow> length xs < n \<Longrightarrow> slice_chunks n xs = [xs]"
  by (cases xs) auto

section \<open>Calls and connections\<close>

lemma gw_call_Some:
  "gw_call m s = Some (x, s') \<longleftrightarrow> (\<exists>w'. m (gw_world s) = Some (x, w') \<and> s' = s\<lparr>gw_world := w'\<rparr>)"
  by (auto simp: gw_call_def split: option.split)

lemma gw_metric_Some: "gw_metric_upd l n s = Some (x, s') \<longleftrightarrow> s' = s\<lparr>gw_metrics := metric_add l n (gw_metrics s)\<rparr>"
  by (auto simp: gw_metric_upd_def)

definition cache_ok :: "('n \<Rightarrow> string) \<Rightarrow> ('n, 'w) AppState \<Rightarrow> bool" where
  "cache_ok addr s \<longleftrightarrow> (\<forall>a c. hm_get (gw_connections s) a = Some c \<longrightarrow> addr c = a)"

lemma cache_ok_upd [simp]:
  "cache_ok addr (s\<lparr>gw_world := w\<rparr>) = cache_ok addr s" "cache_ok addr (s\<lparr>gw_metrics := m\<rparr>) = cache_ok addr s"
  by (simp_all add: cache_ok_def)

lemma cache_ok_insert:
  "cache_ok addr s \<Longrightarrow> addr c = a \<Longrightarrow> cache_ok addr (s\<lparr>gw_connections := hm_insert a c (gw_connections s)\<rparr>)"
  by (auto simp: cache_ok_def)

text \<open>What is stored under other names survives; what is stored under this name grows.\<close>

definition keeps :: "string \<Rightarrow> cview \<Rightarrow> cview \<Rightarrow> bool" where
  "keeps n v v' \<longleftrightarrow> (\<forall>m b. m \<noteq> n \<longrightarrow> stored v m b \<longrightarrow> stored v' m b)"

definition appends :: "string \<Rightarrow> bytes \<Rightarrow> cview \<Rightarrow> cview \<Rightarrow> bool" where
  "appends n d v v' \<longleftrightarrow> (\<forall>b. stored v n b \<longrightarrow> stored v' n (b @ d))"

lemma keeps_refl [simp]: "keeps n v v"
  by (simp add: keeps_def)

lemma keeps_trans: "keeps n v v' \<Longrightarrow> keeps n v' v'' \<Longrightarrow> keeps n v v''"
  by (simp add: keeps_def)

lemma appends_Nil [simp]: "appends n [] v v"
  by (simp add: appends_def)

lemma appends_trans: "appends n d v v' \<Longrightarrow> appends n e v' v'' \<Longrightarrow> appends n (d @ e) v v''"
  by (fastforce simp: appends_def)

text \<open>
  What an upload does: nothing to an existing object, nothing to other objects, and when it is
  answered with success the object stores exactly the data.
\<close>

definition uploaded :: "string \<Rightarrow> bytes \<Rightarrow> cview \<Rightarrow> nat http \<Rightarrow> cview \<Rightarrow> bool" where
  "uploaded n data v r v' \<longleftrightarrow> keeps n v v' \<and> (cv_objs v n \<noteq> None \<longrightarrow> v' = v) \<and>
     (\<forall>k. r = Ok k \<longrightarrow> k = length data \<and> cv_objs v n = None \<and> stored v' n data)"

text \<open>A sound application state whose backend looks like \<open>\<Phi>\<close>.\<close>

definition good ::
  "('w \<Rightarrow> bool) \<Rightarrow> ('w \<Rightarrow> cview) \<Rightarrow> ('n \<Rightarrow> string) \<Rightarrow> (cview \<Rightarrow> bool) \<Rightarrow> ('n, 'w) AppState \<Rightarrow> bool" where
  "good sound view addr \<Phi> s \<longleftrightarrow> sound (gw_world s) \<and> cache_ok addr s \<and> \<Phi> (view (gw_world s))"

lemma sat_good: "(\<And>v. \<Phi> v \<Longrightarrow> sat (good sound view addr ((=) v)) m Q) \<Longrightarrow> sat (good sound view addr \<Phi>) m Q"
  unfolding sat_def good_def by blast

lemma good_mono: "good sound view addr \<Phi> s \<Longrightarrow> (\<And>v. \<Phi> v \<Longrightarrow> \<Psi> v) \<Longrightarrow> good sound view addr \<Psi> s"
  by (auto simp: good_def)

lemma sat_conseq:
  assumes "sat (good sound view addr \<Phi>) m (\<lambda>r. good sound view addr (\<Psi> r))"
    and "\<And>v. \<Phi>' v \<Longrightarrow> \<Phi> v" and "\<And>r v. \<Psi> r v \<Longrightarrow> \<Psi>' r v"
  shows "sat (good sound view addr \<Phi>') m (\<lambda>r. good sound view addr (\<Psi>' r))"
  using assms unfolding sat_def good_def by blast

lemma sat_gw_metric [sat_rules]: "sat (good sound view addr \<Phi>) (gw_metric_upd l n) (\<lambda>_. good sound view addr \<Phi>)"
  by (rule satI) (auto simp: gw_metric_Some good_def)

lemma sat_fail [sat_rules]:
  "(\<And>v. \<Phi> v \<Longrightarrow> \<Psi> (Err e) v) \<Longrightarrow> sat (good sound view addr \<Phi>) (fail e) (\<lambda>r. good sound view addr (\<Psi> r))"
  by (auto simp: fail_def good_def intro!: sat_ret)

lemma sat_count_fail [sat_rules]:
  "(\<And>v. \<Phi> v \<Longrightarrow> \<Psi> (Err e) v) \<Longrightarrow> sat (good sound view addr \<Phi>) (count_fail a b c e) (\<lambda>r. good sound view addr (\<Psi> r))"
  unfolding count_fail_def by (rule sat_bnd [OF sat_gw_metric], rule sat_fail)

lemma sat_gw_ret [sat_rules]:
  "(\<And>v. \<Phi> v \<Longrightarrow> \<Psi> x v) \<Longrightarrow> sat (good sound view addr \<Phi>) (ret x) (\<lambda>r. good sound view addr (\<Psi> r))"
  by (auto simp: good_def intro!: sat_ret)

text \<open>A law of the backend, lifted to the application state.\<close>

lemma sat_gw_call:
  assumes "\<And>w r w'. sound w \<Longrightarrow> m w = Some (r, w') \<Longrightarrow> view w = v \<Longrightarrow> sound w' \<and> \<Psi> r (view w')"
  shows "sat (good sound view addr ((=) v)) (gw_call m) (\<lambda>r. good sound view addr (\<Psi> r))"
  using assms by (auto intro!: satI simp: good_def gw_call_Some)

context backend
begin

abbreviation (input) G where "G \<equiv> good sound view addr"

lemma sat_connect [sat_rules]:
  "sat (G ((=) v)) (get_or_connect N a) (\<lambda>r. G (\<lambda>v'. v' = v \<and> (\<forall>c. r = Ok c \<longrightarrow> addr c = a)))"
proof (rule satI)
  fix s r s' assume g: "G ((=) v) s" and c: "get_or_connect N a s = Some (r, s')"
  show "G (\<lambda>v'. v' = v \<and> (\<forall>c. r = Ok c \<longrightarrow> addr c = a)) s'"
  proof (cases "hm_get (gw_connections s) a")
    case (Some cl)
    then show ?thesis using g c by (auto simp: get_or_connect_def good_def cache_ok_def)
  next
    case None
    then obtain x w where w: "ncl_connect N a (gw_world s) = Some (x, w)"
      and r: "(case x of Ok c \<Rightarrow> r = Ok c \<and> s' = s\<lparr>gw_world := w, gw_connections := hm_insert a c (gw_connections s)\<rparr>
        | Err _ \<Rightarrow> r = Err INTERNAL_SERVER_ERROR \<and> s' = s\<lparr>gw_world := w\<rparr>)"
      using c by (auto simp: get_or_connect_def try_or_Some fail_def gw_call_Some)
    then show ?thesis using g connect_law [OF _ w]
      by (cases x) (auto simp: good_def cache_ok_def simp del: map_of_eq_Some_iff split: if_splits)
  qed
qed

lemma sat_rollback [sat_rules]:
  assumes "keeps n v0 v"
  shows "sat (G ((=) v)) (rollback M n e) (\<lambda>r. G (\<lambda>v'. r = Err e \<and> keeps n v0 v'))"
proof -
  have drop: "keeps n v0 (cv_drop n v)" if "cv_wf v"
    using assms stored_drop [OF that] by (auto simp: keeps_def)
  have "sat (G ((=) v)) (gw_call (mcl_delete_object M n)) (\<lambda>r. G (\<lambda>v'. keeps n v0 v'))"
    using drop_law view_wf drop assms by (intro sat_gw_call) (metis (no_types, lifting))
  then show ?thesis unfolding rollback_def by (rule sat_bnd) (rule sat_fail, simp)
qed

lemma sat_allocate [sat_rules]:
  "sat (G ((=) v)) (gw_call (mcl_allocate_chunk M n c))
     (\<lambda>r. G (\<lambda>v'. v' = v \<and> (\<forall>i s a. r = Ok (i, s, a) \<longrightarrow> unlisted v i \<and> cv_reg v s = Some a)))"
  using allocate_law by (intro sat_gw_call) blast

lemma sat_write [sat_rules]:
  "sat (G ((=) v)) (gw_call (ncl_write_chunk N cl i d))
     (\<lambda>r. G (\<lambda>v'. if is_ok r then cv_blob v (addr cl) i = None \<and> v' = cv_write (addr cl) i d v else v' = v))"
  using write_law by (intro sat_gw_call) (metis (no_types, lifting))

lemma sat_confirm [sat_rules]:
  "sat (G ((=) v)) (gw_call (mcl_confirm_chunk M i n c s))
     (\<lambda>r. G (\<lambda>v'. if is_ok r then unlisted v i \<and> v' = cv_confirm i n s v
        else v' = v \<or> unlisted v i \<and> v' = cv_confirm i n s v))"
  using confirm_law by (intro sat_gw_call) (metis (no_types, lifting))

lemma keeps_write: "cv_blob v a i = None \<Longrightarrow> keeps n v (cv_write a i d v)"
  by (simp add: keeps_def stored_write)

lemma keeps_confirm: "unlisted v i \<Longrightarrow> keeps n v (cv_confirm i n s v)"
  by (simp add: keeps_def stored_confirm_other)

lemma appends_write_confirm:
  assumes "cv_blob v a i = None" "unlisted v i" "cv_reg v s = Some a"
  shows "appends n d v (cv_confirm i n s (cv_write a i d v))"
  unfolding appends_def
proof (intro allI impI)
  fix b assume "stored v n b"
  then have "stored (cv_write a i d v) n b" by (rule stored_write [OF assms(1)])
  then show "stored (cv_confirm i n s (cv_write a i d v)) n (b @ d)"
    using assms(2,3) by (intro stored_confirm) (auto simp: unlisted_def cv_write_def)
qed

text \<open>
  Writing one chunk: \<open>h\<close> is what the handler does on a failed step. The upload loop and the
  multipart upload differ only in that.
\<close>

lemma sat_chunk:
  assumes h: "\<And>e v. keeps n v0 v \<Longrightarrow> sat (G ((=) v)) (h e) (\<lambda>r. G (\<lambda>v'. \<not> is_ok r \<and> keeps n v0 v'))"
  shows "sat (G ((=) v0))
    (try_or (gw_call (mcl_allocate_chunk M n ck)) (\<lambda>_. h INTERNAL_SERVER_ERROR) (\<lambda>(i, s, a).
     try_or (get_or_connect N a) fail (\<lambda>cl.
     try_or (gw_call (ncl_write_chunk N cl i d)) (\<lambda>_. h INTERNAL_SERVER_ERROR) (\<lambda>_.
     try_or (gw_call (mcl_confirm_chunk M i n ck s)) (\<lambda>_. h INTERNAL_SERVER_ERROR) (\<lambda>_. ret (Ok ()))))))
    (\<lambda>r. G (\<lambda>v. keeps n v0 v \<and> (is_ok r \<longrightarrow> appends n d v0 v)))"
  (is "sat ?P ?m ?Q")
proof -
  have h': "sat (G \<Phi>) (h e) ?Q" if "\<And>v. \<Phi> v \<Longrightarrow> keeps n v0 v" for e \<Phi>
    by (rule sat_good, rule sat_weaken [OF h [OF that]]) (auto elim: good_mono)
  have step: "sat (G \<Phi>) (try_or (gw_call (mcl_confirm_chunk M i n ck s)) (\<lambda>_. h INTERNAL_SERVER_ERROR) (\<lambda>_. ret (Ok ()))) ?Q"
    if u: "unlisted v0 i" "cv_reg v0 s = Some a" "\<And>v. \<Phi> v \<Longrightarrow> cv_blob v0 a i = None \<and> v = cv_write a i d v0" for \<Phi> i s a
  proof (rule sat_good, drule u(3), elim conjE, rule sat_try [OF sat_confirm])
    fix v e assume v: "cv_blob v0 a i = None" "v = cv_write a i d v0"
    have "keeps n v0 v" "keeps n v0 (cv_confirm i n s v)" if "unlisted v i"
      using v keeps_write [of v0 a i n d] keeps_confirm [OF that, of n s] keeps_trans by auto
    then show "sat (G (\<lambda>v'. if is_ok (Err e :: unit rpc) then unlisted v i \<and> v' = cv_confirm i n s v
        else v' = v \<or> unlisted v i \<and> v' = cv_confirm i n s v)) (h INTERNAL_SERVER_ERROR) ?Q"
      using v keeps_write [of v0 a i n d] by (intro h') auto
  next
    fix v x assume v: "cv_blob v0 a i = None" "v = cv_write a i d v0"
    show "sat (G (\<lambda>v'. if is_ok (Ok x :: unit rpc) then unlisted v i \<and> v' = cv_confirm i n s v
        else v' = v \<or> unlisted v i \<and> v' = cv_confirm i n s v)) (ret (Ok ())) ?Q"
      using v keeps_write [of v0 a i n d] keeps_confirm [of v i n s] appends_write_confirm [OF v(1) u(1,2), of n d]
      by (intro sat_gw_ret) (auto intro: keeps_trans)
  qed
  show ?thesis
    apply (rule sat_try [OF sat_allocate])
     apply (rule h', simp)
    apply (clarsimp split: prod.split)
    apply (rule sat_good, clarsimp)
    apply (rule sat_try [OF sat_connect])
     apply (rule sat_fail, simp)
    apply (rule sat_good, clarsimp)
    apply (rule sat_try [OF sat_write])
     apply (rule h', simp)
    apply (rule step, assumption, assumption)
    apply simp
    done
qed

lemma sat_upload_chunk:
  "sat (G ((=) v0)) (upload_chunk M N H n d) (\<lambda>r. G (\<lambda>v. keeps n v0 v \<and> (is_ok r \<longrightarrow> appends n d v0 v)))"
  unfolding upload_chunk_def
  by (rule sat_chunk, rule sat_weaken [OF sat_rollback]) (auto elim: good_mono)

lemma sat_flush_chunk:
  "sat (G ((=) v0)) (flush_chunk_to_storage M N H n d) (\<lambda>r. G (\<lambda>v. keeps n v0 v \<and> (is_ok r \<longrightarrow> appends n d v0 v)))"
  unfolding flush_chunk_to_storage_def
  by (rule sat_chunk [where h = fail], rule sat_fail) auto

text \<open>Writing a sequence of chunks with \<open>f\<close>, in order, until one fails.\<close>

lemma sat_upload_chunks:
  "sat (G ((=) v0)) (upload_chunks M N H n ds) (\<lambda>r. G (\<lambda>v. keeps n v0 v \<and> (is_ok r \<longrightarrow> appends n (concat ds) v0 v)))"
proof (induction ds arbitrary: v0)
  case Nil
  show ?case by (simp add: sat_gw_ret)
next
  case (Cons d ds)
  show ?case unfolding upload_chunks.simps
  proof (rule sat_try [OF sat_upload_chunk])
    fix e
    show "sat (G (\<lambda>v. keeps n v0 v \<and> (is_ok (Err e :: unit http) \<longrightarrow> appends n d v0 v))) (fail e)
        (\<lambda>r. G (\<lambda>v. keeps n v0 v \<and> (is_ok r \<longrightarrow> appends n (concat (d # ds)) v0 v)))"
      by (rule sat_fail) simp
  next
    fix u
    show "sat (G (\<lambda>v. keeps n v0 v \<and> (is_ok (Ok u :: unit http) \<longrightarrow> appends n d v0 v))) (upload_chunks M N H n ds)
        (\<lambda>r. G (\<lambda>v. keeps n v0 v \<and> (is_ok r \<longrightarrow> appends n (concat (d # ds)) v0 v)))"
    proof (rule sat_good)
      fix v assume v: "keeps n v0 v \<and> (is_ok (Ok u :: unit http) \<longrightarrow> appends n d v0 v)"
      then have "keeps n v0 v'" if "keeps n v v'" for v' using that keeps_trans by blast
      moreover have "appends n (concat (d # ds)) v0 v'" if "appends n (concat ds) v v'" for v'
        using that v appends_trans [of n d v0 v "concat ds" v'] by simp
      ultimately show "sat (G ((=) v)) (upload_chunks M N H n ds)
          (\<lambda>r. G (\<lambda>v. keeps n v0 v \<and> (is_ok r \<longrightarrow> appends n (concat (d # ds)) v0 v)))"
        by (intro sat_conseq [OF Cons.IH [of v]]) blast+
    qed
  qed
qed

lemma sat_query_chunk_size:
  assumes "sat (G ((=) v0)) err (\<lambda>r. G (\<lambda>v. \<not> is_ok r \<and> v = v0))"
  shows "sat (G ((=) v0)) (query_chunk_size M N err) (\<lambda>r. G ((=) v0))"
proof -
  have err: "sat (G ((=) v0)) err (\<lambda>r. G ((=) v0))"
    using assms by (rule sat_weaken) (auto elim: good_mono)
  have nodes: "sat (G ((=) v0)) (gw_call (mcl_list_storage_nodes M)) (\<lambda>r. G ((=) v0))"
    by (rule sat_gw_call, drule (1) nodes_law) simp
  have conn: "sat (G ((=) v0)) (gw_call (ncl_connect N a)) (\<lambda>r. G ((=) v0))" for a
    by (rule sat_gw_call, drule (1) connect_law) simp
  have size: "sat (G ((=) v0)) (gw_call (ncl_get_chunk_size N cl)) (\<lambda>r. G ((=) v0))" for cl
    by (rule sat_gw_call, drule (1) size_law) simp
  show ?thesis unfolding query_chunk_size_def
    apply (rule sat_try [OF nodes err])
    apply (split list.split, intro conjI allI impI err)
    apply (rule sat_try [OF conn], rule sat_fail, simp)
    apply (rule sat_try [OF size err])
    apply (rule sat_gw_ret, simp)
    done
qed

lemma sat_put [sat_rules]:
  "sat (G ((=) v)) (gw_call (mcl_put_object M c n))
     (\<lambda>r. G (\<lambda>v'. if is_ok r then cv_objs v n = None \<and> v' = cv_put n v
        else v' = v \<or> cv_objs v n = None \<and> v' = cv_put n v))"
  using put_law by (intro sat_gw_call) (metis (no_types, lifting))

lemma sat_upload_done:
  "sat (G \<Phi>) (upload_done ep k) (\<lambda>r. G (\<lambda>v. r = Ok k \<and> \<Phi> v))"
  unfolding upload_done_def
  by (intro sat_bnd [OF sat_gw_metric]) (rule sat_gw_ret, simp)

lemma keeps_put: "cv_objs v n = None \<Longrightarrow> keeps n v (cv_put n v)"
  by (simp add: keeps_def stored_put)

text \<open>After the object is created, what is appended to it is what it stores.\<close>

lemma stored_after_put:
  assumes "cv_objs v n = None" "appends n d (cv_put n v) v'"
  shows "stored v' n d"
  using assms(2) stored_new [of n v] by (force simp: appends_def)

lemma sat_put_object:
  assumes b64: "b64_decode payload = Some data"
  shows "sat (G ((=) v0)) (handle_put_object M N H alnum b64_decode n payload) (\<lambda>r. G (uploaded n data v0 r))"
  (is "sat ?P _ ?Q")
proof -
  have err: "sat (G \<Phi>) (count_fail a b c e) ?Q" "sat (G \<Phi>) (fail e) ?Q"
    if "\<And>v. \<Phi> v \<Longrightarrow> keeps n v0 v \<and> (cv_objs v0 n \<noteq> None \<longrightarrow> v = v0)" for a b c e \<Phi>
    by (rule sat_count_fail, use that in \<open>simp add: uploaded_def\<close>) (rule sat_fail, use that in \<open>simp add: uploaded_def\<close>)
  have q: "sat (G ((=) v0)) (count_fail a b c e) (\<lambda>r. G (\<lambda>v. \<not> is_ok r \<and> v = v0))" for a b c e
    by (rule sat_count_fail) simp
  have body: "sat (G \<Phi>) (try_or (upload_chunks M N H n (slice_chunks z data)) fail (\<lambda>_. upload_done ''object'' (length data))) ?Q"
    if f: "cv_objs v0 n = None" "\<And>v. \<Phi> v \<Longrightarrow> v = cv_put n v0" for z \<Phi>
  proof (rule sat_good, drule f(2), rule sat_try [OF sat_upload_chunks])
    fix v e assume "v = cv_put n v0"
    then show "sat (G (\<lambda>v'. keeps n v v' \<and> (is_ok (Err e :: unit http) \<longrightarrow> appends n (concat (slice_chunks z data)) v v'))) (fail e) ?Q"
      using keeps_put [OF f(1)] keeps_trans [of n v0 v] f(1) by (intro err) simp
  next
    fix v u assume "v = cv_put n v0"
    then show "sat (G (\<lambda>v'. keeps n v v' \<and> (is_ok (Ok u :: unit http) \<longrightarrow> appends n (concat (slice_chunks z data)) v v')))
        (upload_done ''object'' (length data)) ?Q"
      using keeps_put [OF f(1)] stored_after_put [OF f(1)] f(1) keeps_trans [of n v0 v]
      by (intro sat_conseq [OF sat_upload_done]) (auto simp: concat_slice_chunks uploaded_def)
  qed
  show ?thesis unfolding handle_put_object_def b64
    apply (split result.split, intro conjI allI impI)
     apply simp
     apply (rule conjI, rule impI, rule err, simp)
     apply (rule impI)
     apply (rule sat_try [OF sat_query_chunk_size [OF q]], rule err, simp)
     apply (rule sat_if, rule err, simp)
     apply (rule sat_try [OF sat_put])
      apply (rule err, use keeps_put in \<open>auto split: if_splits\<close>)[1]
     apply (rule sat_good, rule body, simp, simp)
    apply (rule err, simp)
    done
qed

end

section \<open>Downloads from a healthy backend\<close>

lemma concat_results_Ok: "concat_results (map Ok bs) = Ok (concat bs)"
  by (induction bs) auto

lemma retry_first: "f s = Some (Ok v, s') \<Longrightarrow> retry_with_backoff k f s = Some (Ok v, s')"
  by (cases k) (simp_all add: try_or_run(1) ret_def)

context live_backend
begin

abbreviation (input) up where "up v s \<equiv> good sound view addr ((=) v) s \<and> healthy (gw_world s)"

lemma live_get_or_connect:
  assumes "up v s" "cv_blob v a i = Some d"
  shows "\<exists>cl s'. get_or_connect N a s = Some (Ok cl, s') \<and> addr cl = a \<and> up v s'"
proof (cases "hm_get (gw_connections s) a")
  case (Some cl)
  then show ?thesis using assms by (auto simp: get_or_connect_def good_def cache_ok_def)
next
  case None
  obtain cl w where c: "ncl_connect N a (gw_world s) = Some (Ok cl, w)" "healthy w"
    using live_connect [of "gw_world s" a i d] assms by (auto simp: good_def)
  then have "get_or_connect N a s =
      Some (Ok cl, s\<lparr>gw_world := w, gw_connections := hm_insert a cl (gw_connections s)\<rparr>)"
    using None by (simp add: get_or_connect_def try_or_run(1) gw_call_def)
  then show ?thesis using satD [OF sat_connect, of v s a] assms(1) c(2) by (auto simp: good_def)
qed

lemma live_read_replicas:
  assumes up: "up v s" and st: "chunk_stored v i d" and nodes: "map (Some \<circ> msn_address) nodes = map (cv_reg v) (cv_reps v i)"
  shows "\<exists>s'. read_replicas N i nodes s = Some (Ok d, s') \<and> up v s'"
proof -
  obtain nd nds where n: "nodes = nd # nds" using st nodes by (cases nodes) (auto simp: chunk_stored_def)
  obtain r rs where r: "cv_reps v i = r # rs" "cv_reg v r = Some (msn_address nd)"
    using nodes n by (cases "cv_reps v i") auto
  then have blob: "cv_blob v (msn_address nd) i = Some d" using st by (auto simp: chunk_stored_def)
  obtain cl s1 where c: "get_or_connect N (msn_address nd) s = Some (Ok cl, s1)" "addr cl = msn_address nd" "up v s1"
    using live_get_or_connect [OF up blob] by blast
  obtain j e ck w where rd: "ncl_read_chunk N cl i (gw_world s1) = Some (Ok (j, e, ck), w)" "healthy w"
    using live_read [of "gw_world s1" cl i d] c(2,3) blob by (auto simp: good_def)
  have e: "e = d" "sound w" "view w = v" using read_law [OF _ rd(1)] c(2,3) blob by (auto simp: good_def)
  have "gw_call (retry_with_backoff 2 (ncl_read_chunk N cl i)) s1 = Some (Ok (j, e, ck), s1\<lparr>gw_world := w\<rparr>)"
    using retry_first [where f = "ncl_read_chunk N cl i", OF rd(1)] by (simp add: gw_call_def)
  then have "read_replicas N i nodes s = Some (Ok d, s1\<lparr>gw_world := w\<rparr>)"
    using n c(1) e by (simp add: try_or_run(1) ret_def)
  then show ?thesis using c(3) rd(2) e by (auto simp: good_def)
qed

lemma live_join_reads:
  assumes "up v s" and "list_all2 (chunk_stored v) (map pc_id cs) ds"
    and "\<And>c. c \<in> set cs \<Longrightarrow> map (Some \<circ> msn_address) (pc_storage_nodes c) = map (cv_reg v) (cv_reps v (pc_id c))"
  shows "\<exists>s'. join_reads N cs s = Some (map Ok ds, s') \<and> up v s'"
  using assms
proof (induction cs arbitrary: s ds)
  case Nil
  then show ?case by (simp add: ret_def)
next
  case (Cons c cs)
  then obtain d ds' where ds: "ds = d # ds'" "chunk_stored v (pc_id c) d" "list_all2 (chunk_stored v) (map pc_id cs) ds'"
    by (auto simp: list_all2_Cons1)
  obtain s1 where s1: "read_replicas N (pc_id c) (pc_storage_nodes c) s = Some (Ok d, s1)" "up v s1"
    using live_read_replicas [OF Cons.prems(1) ds(2) Cons.prems(3) [of c]] by auto
  obtain s2 where "join_reads N cs s1 = Some (map Ok ds', s2)" "up v s2"
    using Cons.IH [OF s1(2) ds(3)] Cons.prems(3) by auto
  then show ?case using s1(1) ds(1) by (simp add: bnd_run ret_def)
qed

text \<open>The metadata of a stored object, as the handlers receive it.\<close>

lemma live_lookup:
  assumes "up v s" "stored v n b"
  obtains resp s' ds where "gw_call (mcl_get_object M n) s = Some (Ok resp, s')" "up v s'"
    "concat ds = b" "list_all2 (chunk_stored v) (map pc_id (go_chunks resp)) ds"
    "\<And>c. c \<in> set (go_chunks resp) \<Longrightarrow> map (Some \<circ> msn_address) (pc_storage_nodes c) = map (cv_reg v) (cv_reps v (pc_id c))"
proof -
  obtain "is" ds where o: "cv_objs v n = Some is" "concat ds = b" "list_all2 (chunk_stored v) is ds"
    using assms(2) unfolding stored_def by blast
  have "cv_reg v s \<noteq> None" if "i \<in> set is" "s \<in> set (cv_reps v i)" for i s
    using o(3) that by (auto simp: list_all2_conv_all_nth in_set_conv_nth chunk_stored_def) (metis nth_mem option.distinct(1))
  then obtain resp w where g: "mcl_get_object M n (gw_world s) = Some (Ok resp, w)" "healthy w"
    using live_get [of "gw_world s" n "is"] o(1) assms(1) by (auto simp: good_def)
  have l: "sound w" "view w = v" "is = map pc_id (go_chunks resp)"
      "\<forall>c \<in> set (go_chunks resp). map (Some \<circ> msn_address) (pc_storage_nodes c) = map (cv_reg v) (cv_reps v (pc_id c))"
    using get_law [OF _ g(1)] assms(1) o(1) by (auto simp: good_def)
  show ?thesis
    by (rule that [of resp "s\<lparr>gw_world := w\<rparr>" ds])
      (use g l o assms(1) in \<open>auto simp: gw_call_def good_def\<close>)
qed

lemma live_get_object:
  assumes "up v s" "stored v n b" "validate_object_name alnum n = Ok ()"
  shows "\<exists>s'. handle_get_object M N alnum b64_encode n s = Some (Ok (b64_encode b), s') \<and> up v s'"
proof -
  obtain resp s1 ds where l: "gw_call (mcl_get_object M n) s = Some (Ok resp, s1)" "up v s1" "concat ds = b"
    "list_all2 (chunk_stored v) (map pc_id (go_chunks resp)) ds"
    "\<And>c. c \<in> set (go_chunks resp) \<Longrightarrow> map (Some \<circ> msn_address) (pc_storage_nodes c) = map (cv_reg v) (cv_reps v (pc_id c))"
    using live_lookup [OF assms(1,2)] by metis
  obtain s2 where j: "join_reads N (go_chunks resp) s1 = Some (map Ok ds, s2)" "up v s2"
    using live_join_reads [OF l(2,4,5)] by blast
  then show ?thesis using assms(3) l(1,3)
    by (auto simp: handle_get_object_def try_or_run(1) bnd_run concat_results_Ok gw_metric_upd_def bnd_def ret_def good_def)
qed

lemma live_stream_body:
  assumes "up v s" and "list_all2 (chunk_stored v) (map pc_id cs) ds"
    and "\<And>c. c \<in> set cs \<Longrightarrow> map (Some \<circ> msn_address) (pc_storage_nodes c) = map (cv_reg v) (cv_reps v (pc_id c))"
  shows "\<exists>s'. stream_body N cs s = Some (map Ok ds, s') \<and> up v s'"
  using assms
proof (induction cs arbitrary: s ds)
  case Nil
  then show ?case by (simp add: ret_def)
next
  case (Cons c cs)
  then obtain d ds' where ds: "ds = d # ds'" "chunk_stored v (pc_id c) d" "list_all2 (chunk_stored v) (map pc_id cs) ds'"
    by (auto simp: list_all2_Cons1)
  obtain s1 where s1: "read_replicas N (pc_id c) (pc_storage_nodes c) s = Some (Ok d, s1)" "up v s1"
    using live_read_replicas [OF Cons.prems(1) ds(2) Cons.prems(3) [of c]] by auto
  obtain s2 where "stream_body N cs s1 = Some (map Ok ds', s2)" "up v s2"
    using Cons.IH [OF s1(2) ds(3)] Cons.prems(3) by auto
  then show ?case using s1(1) ds(1) by (simp add: try_or_run(1) bnd_run ret_def)
qed

lemma live_get_object_stream:
  assumes "up v s" "stored v n b" "validate_object_name alnum n = Ok ()"
  shows "\<exists>cs s1 bs s2. handle_get_object_stream M N alnum n s = Some (Ok cs, s1) \<and>
    stream_body N cs s1 = Some (map Ok bs, s2) \<and> concat bs = b \<and> up v s2"
proof -
  obtain resp s1 ds where l: "gw_call (mcl_get_object M n) s = Some (Ok resp, s1)" "up v s1" "concat ds = b"
    "list_all2 (chunk_stored v) (map pc_id (go_chunks resp)) ds"
    "\<And>c. c \<in> set (go_chunks resp) \<Longrightarrow> map (Some \<circ> msn_address) (pc_storage_nodes c) = map (cv_reg v) (cv_reps v (pc_id c))"
    using live_lookup [OF assms(1,2)] by metis
  obtain s2 where h: "handle_get_object_stream M N alnum n s = Some (Ok (go_chunks resp), s2)" "up v s2"
    using assms(3) l(1,2) by (auto simp: handle_get_object_stream_def try_or_run(1) gw_metric_upd_def bnd_def ret_def good_def)
  then show ?thesis using live_stream_body [OF h(2) l(4,5)] l(3) by blast
qed

end

end
