(* ===== verification/GatewayRequests.thy ===== *)
theory GatewayRequests
  imports GatewayCorrect
begin

text \<open>
  The other handlers of the gateway over any backend: the multipart upload, downloads and listing
  (which change nothing), deletion; then sequences of requests.
\<close>

section \<open>Handlers that change nothing\<close>

definition still :: "('w \<Rightarrow> bool) \<Rightarrow> ('w \<Rightarrow> cview) \<Rightarrow> ('n \<Rightarrow> string) \<Rightarrow> (('n, 'w) AppState, 'a) act \<Rightarrow> bool" where
  "still sound view addr m \<longleftrightarrow> (\<forall>v. sat (good sound view addr ((=) v)) m (\<lambda>_. good sound view addr ((=) v)))"

lemma still_bnd: "still sound view addr m \<Longrightarrow> (\<And>x. still sound view addr (f x)) \<Longrightarrow> still sound view addr (bnd m f)"
  unfolding still_def by (blast intro: sat_bnd)

lemma still_try:
  "still sound view addr m \<Longrightarrow> (\<And>e. still sound view addr (h e)) \<Longrightarrow> (\<And>x. still sound view addr (f x)) \<Longrightarrow>
     still sound view addr (try_or m h f)"
  unfolding still_def by (blast intro: sat_try)

lemma still_simple:
  "still sound view addr (ret x)" "still sound view addr (gw_metric_upd l k)" "still sound view addr (fail e)"
  "still sound view addr (count_fail a b c e)"
  by (auto simp: still_def intro: sat_ret sat_gw_metric sat_fail sat_count_fail)

lemma still_call:
  "(\<And>w r w'. sound w \<Longrightarrow> m w = Some (r, w') \<Longrightarrow> sound w' \<and> view w' = view w) \<Longrightarrow> still sound view addr (gw_call m)"
  unfolding still_def by (intro allI sat_gw_call) simp

lemma gw_call_try: "gw_call (try_or f h g) = try_or (gw_call f) (\<lambda>e. gw_call (h e)) (\<lambda>v. gw_call (g v))"
  by (auto simp: fun_eq_iff gw_call_def try_or_def bnd_def split: option.split result.split)

lemma gw_call_ret: "gw_call (ret x) = ret x"
  by (simp add: fun_eq_iff gw_call_def ret_def)

lemma still_retry: "still sound view addr (gw_call f) \<Longrightarrow> still sound view addr (gw_call (retry_with_backoff k f))"
  by (induction k) (auto simp: gw_call_try gw_call_ret intro!: still_try still_simple)

lemma sat_still:
  assumes "still sound view addr m" "\<Phi> v"
  shows "sat (good sound view addr ((=) v)) m (\<lambda>_. good sound view addr \<Phi>)"
proof -
  have "sat (good sound view addr ((=) v)) m (\<lambda>_. good sound view addr ((=) v))" using assms(1) unfolding still_def by blast
  then show ?thesis by (rule sat_conseq) (use assms(2) in auto)
qed

lemmas still_rules = still_bnd still_try still_simple still_retry

context backend
begin

lemma still_calls:
  "still sound view addr (gw_call (mcl_get_object M n))" "still sound view addr (gw_call (mcl_list_objects M))"
  "still sound view addr (gw_call (ncl_connect N a))" "still sound view addr (gw_call (ncl_read_chunk N cl i))"
  "still sound view addr (get_or_connect N a)"
  by (rule still_call, use get_law in blast) (rule still_call, use list_law in blast,
      rule still_call, use connect_law in blast, rule still_call, use read_law in blast,
      unfold still_def, intro allI, rule sat_conseq [OF sat_connect], auto)

lemma still_read_replicas: "still sound view addr (read_replicas N i nodes)"
  by (induction nodes) (auto intro!: still_rules still_calls split: prod.split)

lemma still_join_reads: "still sound view addr (join_reads N cs)"
  by (induction cs) (auto intro!: still_rules still_read_replicas)

lemma still_stream_body: "still sound view addr (stream_body N cs)"
  by (induction cs) (auto intro!: still_rules still_read_replicas)

lemma still_connect_first: "still sound view addr (connect_first N nodes)"
  by (induction nodes) (auto intro!: still_rules still_calls)

lemma still_list_chunks: "still sound view addr (list_chunks N enc cs)"
  by (induction cs) (auto intro!: still_rules still_calls still_connect_first split: prod.split)

lemma still_list_all: "still sound view addr (list_all_objects N enc obs)"
  by (induction obs) (auto intro!: still_rules still_list_chunks)

lemma still_handlers:
  "still sound view addr (handle_get_object M N alnum enc n)"
  "still sound view addr (handle_get_object_stream M N alnum n)"
  "still sound view addr (handle_list_objects M N enc)"
  "still sound view addr (handle_get_dispatch M N alnum enc n accept)"
  unfolding handle_get_dispatch_def handle_get_object_def handle_get_object_stream_def handle_list_objects_def
  by (auto intro!: still_rules still_calls still_join_reads still_list_all split: result.split)

end

section \<open>Deletion\<close>

text \<open>Other objects are as before, and none of them lists a chunk of the deleted one.\<close>

definition doomed :: "string \<Rightarrow> u64 set \<Rightarrow> cview \<Rightarrow> cview \<Rightarrow> bool" where
  "doomed n ids v0 v \<longleftrightarrow> keeps n v0 v \<and> (\<forall>m js. m \<noteq> n \<longrightarrow> cv_objs v m = Some js \<longrightarrow> set js \<inter> ids = {})"

lemma doomed_start: "cv_wf v \<Longrightarrow> cv_objs v n = Some is \<Longrightarrow> doomed n (set is) v v"
  unfolding doomed_def cv_wf_def by (auto simp: disjoint_iff)

lemma doomed_erase: "doomed n ids v0 v \<Longrightarrow> i \<in> ids \<Longrightarrow> doomed n ids v0 (cv_erase a i v)"
proof -
  assume d: "doomed n ids v0 v" and i: "i \<in> ids"
  have "stored (cv_erase a i v) m b" if "m \<noteq> n" "stored v m b" for m b
    using stored_erase [of v m i b a] that d i unfolding doomed_def by blast
  then show ?thesis using d unfolding doomed_def keeps_def by (auto simp: cv_erase_def)
qed

lemma doomed_unlink:
  assumes d: "doomed n ids v0 v" and i: "i \<in> ids" shows "doomed n ids v0 (cv_unlink i v)"
proof -
  have "stored (cv_unlink i v) m b" if "m \<noteq> n" "stored v m b" for m b
    using stored_unlink [of v m i b] that d i unfolding doomed_def by blast
  moreover have "set js \<inter> ids = {}" if "m \<noteq> n" "cv_objs (cv_unlink i v) m = Some js" for m js
    using that d unfolding doomed_def by (fastforce simp: cv_unlink_def)
  ultimately show ?thesis using d unfolding doomed_def keeps_def by blast
qed

context backend
begin

lemma sat_erase:
  assumes "i \<in> ids"
  shows "sat (G (doomed n ids v0)) (gw_call (ncl_delete_chunk N cl i)) (\<lambda>_. G (doomed n ids v0))"
  by (rule sat_good, rule sat_gw_call) (use erase_law doomed_erase [OF _ assms] in metis)

lemma sat_erase_retry:
  assumes "i \<in> ids"
  shows "sat (G (doomed n ids v0)) (gw_call (retry_with_backoff k (ncl_delete_chunk N cl i))) (\<lambda>_. G (doomed n ids v0))"
  by (induction k) (auto simp: gw_call_try gw_call_ret intro!: sat_erase [OF assms] sat_try [OF sat_erase [OF assms]] sat_gw_ret)

lemma sat_delete_at:
  assumes "i \<in> ids"
  shows "sat (G (doomed n ids v0)) (delete_at N i a) (\<lambda>_. G (doomed n ids v0))"
proof -
  have c: "sat (G (doomed n ids v0)) (get_or_connect N a) (\<lambda>_. G (doomed n ids v0))"
    by (rule sat_good, rule sat_conseq [OF sat_connect]) auto
  show ?thesis unfolding delete_at_def
    by (intro sat_try [OF c] sat_try [OF sat_erase_retry [OF assms]]) (rule sat_gw_ret, simp)+
qed

lemma sat_join_deletes:
  "fst ` set ts \<subseteq> ids \<Longrightarrow> sat (G (doomed n ids v0)) (join_deletes N ts) (\<lambda>_. G (doomed n ids v0))"
proof (induction ts)
  case Nil
  show ?case by (simp add: sat_gw_ret)
next
  case (Cons t ts)
  obtain i a where t: "t = (i, a)" by fastforce
  then have "i \<in> ids" using Cons.prems by simp
  then show ?case using Cons by (auto simp: t intro!: sat_bnd [OF sat_delete_at] sat_bnd [OF Cons.IH] sat_gw_ret)
qed

lemma sat_delete_meta:
  "pc_id ` set cs \<subseteq> ids \<Longrightarrow> sat (G (doomed n ids v0)) (delete_meta_chunks M cs) (\<lambda>_. G (doomed n ids v0))"
proof (induction cs)
  case Nil
  show ?case by (simp add: sat_gw_ret)
next
  case (Cons c cs)
  have "sat (G (doomed n ids v0)) (gw_call (mcl_delete_chunk M (pc_id c))) (\<lambda>_. G (doomed n ids v0))"
    by (rule sat_good, rule sat_gw_call)
      (use unlink_law doomed_unlink [of n ids v0 _ "pc_id c"] Cons.prems in \<open>metis image_subset_iff list.set_intros(1)\<close>)
  then show ?case using Cons by (auto intro!: sat_bnd)
qed

lemma sat_get_doomed:
  "sat (G ((=) v0)) (gw_call (mcl_get_object M n)) (\<lambda>r. G (\<lambda>v. v = v0 \<and>
     (\<forall>resp. r = Ok resp \<longrightarrow> doomed n (pc_id ` set (go_chunks resp)) v0 v0 \<and> cv_objs v0 n \<noteq> None)))"
proof (rule sat_gw_call)
  fix w r w' assume w: "sound w" "mcl_get_object M n w = Some (r, w')" "view w = v0"
  have "doomed n (pc_id ` set (go_chunks resp)) v0 v0 \<and> cv_objs v0 n \<noteq> None" if "r = Ok resp" for resp
    using get_law [OF w(1,2)] that doomed_start [OF view_wf [OF w(1)], of n "map pc_id (go_chunks resp)"] w(3) by simp
  then show "sound w' \<and> view w' = v0 \<and>
      (\<forall>resp. r = Ok resp \<longrightarrow> doomed n (pc_id ` set (go_chunks resp)) v0 v0 \<and> cv_objs v0 n \<noteq> None)"
    using get_law [OF w(1,2)] w(3) by blast
qed

lemma sat_drop_doomed:
  "sat (G (doomed n ids v0)) (gw_call (mcl_delete_object M n))
     (\<lambda>r. G (\<lambda>v. keeps n v0 v \<and> (is_ok r \<longrightarrow> cv_objs v n = None)))"
proof (rule sat_good, rule sat_gw_call)
  fix v w r w' assume w: "doomed n ids v0 v" "sound w" "mcl_delete_object M n w = Some (r, w')" "view w = v"
  have "keeps n v0 (cv_drop n v)" using w(1) stored_drop [OF view_wf [OF w(2)]] w(4)
    unfolding doomed_def keeps_def by blast
  then show "sound w' \<and> keeps n v0 (view w') \<and> (is_ok r \<longrightarrow> cv_objs (view w') n = None)"
    using drop_law [OF w(2,3)] w(1,4) by (auto simp: doomed_def cv_drop_def split: if_splits)
qed

lemma sat_delete_object:
  "sat (G ((=) v0)) (handle_delete_object M N alnum n)
     (\<lambda>r. G (\<lambda>v. keeps n v0 v \<and> (is_ok r \<longrightarrow> cv_objs v0 n \<noteq> None \<and> cv_objs v n = None)))"
  (is "sat _ _ ?Q")
proof -
  have err: "sat (G \<Phi>) (count_fail a b c e) ?Q" if "\<And>v. \<Phi> v \<Longrightarrow> keeps n v0 v" for \<Phi> a b c e
    by (rule sat_count_fail, use that in simp)
  have fin: "sat (G \<Phi>) (bnd (gw_metric_upd l 1) (\<lambda>_. bnd (gw_metric_upd l' 1) (\<lambda>_. ret (Ok ())))) ?Q"
    if "\<And>v. \<Phi> v \<Longrightarrow> keeps n v0 v \<and> cv_objs v0 n \<noteq> None \<and> cv_objs v n = None" for \<Phi> l l'
    by (intro sat_bnd [OF sat_gw_metric] sat_gw_ret) (use that in auto)
  have rest: "sat (G (\<lambda>v. v = v0 \<and> (\<forall>resp. Ok re = Ok resp \<longrightarrow> doomed n (pc_id ` set (go_chunks resp)) v0 v0 \<and> cv_objs v0 n \<noteq> None)))
    (bnd (join_deletes N (delete_targets (go_chunks re))) (\<lambda>_. bnd (delete_meta_chunks M (go_chunks re)) (\<lambda>_.
      try_or (gw_call (mcl_delete_object M n)) (\<lambda>_. count_fail ''DELETE'' ''object'' ''500'' INTERNAL_SERVER_ERROR) (\<lambda>_.
        bnd (gw_metric_upd Gw_objects_deleted_total 1) (\<lambda>_.
        bnd (gw_metric_upd (Gw_http_requests_total ''DELETE'' ''object'' ''200'') 1) (\<lambda>_. ret (Ok ()))))))) ?Q" for re
  proof (cases "cv_objs v0 n = None")
    case True
    then show ?thesis by (auto intro!: satI simp: good_def)
  next
    case False
    show ?thesis
      apply (rule sat_weaken [where P' = "G (doomed n (pc_id ` set (go_chunks re)) v0)", rotated], erule good_mono, blast, assumption)
      apply (rule sat_bnd [OF sat_join_deletes], force simp: delete_targets_def)
      apply (rule sat_bnd [OF sat_delete_meta], simp)
      apply (rule sat_try [OF sat_drop_doomed], rule err, simp)
      apply (rule fin, use False in simp)
      done
  qed
  show ?thesis unfolding handle_delete_object_def
    by (split result.split, intro conjI allI impI sat_try [OF sat_get_doomed] err rest) auto
qed

end

section \<open>Multipart uploads: streaming is slicing\<close>

text \<open>The reference: write the chunks in order until one fails.\<close>

fun flush_each :: "(bytes \<Rightarrow> ('s, unit http) act) \<Rightarrow> bytes list \<Rightarrow> ('s, unit http) act" where
  "flush_each flush [] = ret (Ok ())"
| "flush_each flush (c # cs) = try_or (flush c) (\<lambda>e. ret (Err e)) (\<lambda>_. flush_each flush cs)"

lemma try_or_cong:
  "(\<And>v s'. m s = Some (Ok v, s') \<Longrightarrow> f v s' = g v s') \<Longrightarrow> try_or m h f s = try_or m h g s"
  by (cases "m s") (auto simp: try_or_def bnd_def split: result.split)

lemma try_or_assoc:
  "try_or (try_or m (\<lambda>e. ret (Err e)) f) h g = try_or m h (\<lambda>v. try_or (f v) h g)"
  by (auto simp: fun_eq_iff try_or_def bnd_def ret_def split: option.split result.split)

lemma flush_full_step:
  "flush_full_chunks flush z buf =
     (if length buf < z then ret (Ok buf)
      else try_or (flush (take z buf)) (\<lambda>e. ret (Err e)) (\<lambda>_. flush_full_chunks flush z (drop z buf)))"
  by (rule ext, subst flush_full_chunks.simps)
    (auto simp: ret_def try_or_def bnd_def split: option.split result.split)

lemma flush_full_left:
  assumes z: "0 < z" and "flush_full_chunks flush z buf s = Some (Ok rest, s')"
  shows "length rest < z"
  using assms(2)
proof (induction "length buf" arbitrary: buf s rule: less_induct)
  case less
  show ?case
  proof (cases "length buf < z")
    case True
    then show ?thesis using less.prems by (subst (asm) flush_full_step) simp
  next
    case False
    then show ?thesis using less.prems less.hyps [of "drop z buf"] z
      by (subst (asm) flush_full_step) (auto simp: try_or_Some)
  qed
qed

lemma flush_full_slices:
  assumes z: "0 < z"
  shows "try_or (flush_full_chunks flush z buf) h (\<lambda>rest. try_or (flush_each flush (slice_chunks z (rest @ d))) h k) =
    try_or (flush_each flush (slice_chunks z (buf @ d))) h k"
proof (induction "length buf" arbitrary: buf rule: less_induct)
  case less
  show ?case
  proof (cases "length buf < z")
    case True
    then show ?thesis by (subst flush_full_step) (simp add: try_or_def)
  next
    case False
    then have "slice_chunks z (buf @ d) = take z buf # slice_chunks z (drop z buf @ d)"
      using slice_chunks_full [OF z, of "buf @ d"] by simp
    moreover have "length (drop z buf) < length buf" using False z by simp
    ultimately show ?thesis using False
      by (subst flush_full_step) (simp add: try_or_assoc less.hyps)
  qed
qed

lemma stream_field_slices:
  assumes z: "0 < z" and "length buf < z" "t + length (concat ds) \<le> MAX_OBJECT_SIZE"
  shows "try_or (stream_field flush H z (map Ok ds) hs buf t) h (\<lambda>(hs', buf', t').
      try_or (if buf' \<noteq> [] then flush buf' else ret (Ok ())) h (\<lambda>_. k hs' t')) s =
    try_or (flush_each flush (slice_chunks z (buf @ concat ds))) h
      (\<lambda>_. k (fold (\<lambda>d h. h_update H h d) ds hs) (t + length (concat ds))) s"
  using assms(2,3)
proof (induction ds arbitrary: hs buf t s)
  case Nil
  have "flush_each flush (slice_chunks z buf) = (if buf \<noteq> [] then try_or (flush buf) (\<lambda>e. ret (Err e)) (\<lambda>_. ret (Ok ())) else ret (Ok ()))"
    using Nil slice_chunks_short [of buf z] by (cases buf) auto
  then show ?case by (simp add: try_or_assoc) (simp add: try_or_def)
next
  case (Cons d ds)
  have t: "(t + length d) + length (concat ds) \<le> MAX_OBJECT_SIZE" using Cons.prems by simp
  let ?K = "\<lambda>(hs', buf', t'). try_or (if buf' \<noteq> [] then flush buf' else ret (Ok ())) h (\<lambda>_. k hs' t')"
  let ?K' = "\<lambda>_. k (fold (\<lambda>d h. h_update H h d) (d # ds) hs) (t + length (concat (d # ds)))"
  have "try_or (stream_field flush H z (map Ok (d # ds)) hs buf t) h ?K s =
      try_or (flush_full_chunks flush z (buf @ d)) h
        (\<lambda>rest. try_or (stream_field flush H z (map Ok ds) (h_update H hs d) rest (t + length d)) h ?K) s"
    using Cons.prems by (simp add: try_or_assoc)
  also have "\<dots> = try_or (flush_full_chunks flush z (buf @ d)) h
      (\<lambda>rest. try_or (flush_each flush (slice_chunks z (rest @ concat ds))) h ?K') s"
  proof (rule try_or_cong)
    fix rest s' assume "flush_full_chunks flush z (buf @ d) s = Some (Ok rest, s')"
    then have "length rest < z" by (rule flush_full_left [OF z])
    from Cons.IH [OF this t] show "try_or (stream_field flush H z (map Ok ds) (h_update H hs d) rest (t + length d)) h ?K s' =
        try_or (flush_each flush (slice_chunks z (rest @ concat ds))) h ?K' s'"
      by (simp add: add.assoc)
  qed
  also have "\<dots> = try_or (flush_each flush (slice_chunks z (buf @ concat (d # ds)))) h ?K' s"
    using flush_full_slices [OF z, of flush "buf @ d" h "concat ds" ?K'] by simp
  finally show ?case .
qed

lemma hash_pieces:
  assumes "crc_streams H"
  shows "fold (\<lambda>d h. h_update H h d) ds hs = h_update H hs (concat ds)"
  using assms by (induction ds arbitrary: hs) (simp_all add: crc_streams_def)

section \<open>Multipart uploads: what they store\<close>

text \<open>What a step of the upload has written: all it consumed except what is left in the buffer.\<close>

definition consumed :: "string \<Rightarrow> cview \<Rightarrow> bytes \<Rightarrow> bytes option \<Rightarrow> cview \<Rightarrow> bool" where
  "consumed n v0 input left v \<longleftrightarrow> keeps n v0 v \<and>
     (\<forall>rest. left = Some rest \<longrightarrow> (\<exists>d. input = d @ rest \<and> appends n d v0 v))"

definition ok_data :: "(bytes, unit) result list \<Rightarrow> bytes" where
  "ok_data items = concat (List.map_filter (\<lambda>r. case r of Ok d \<Rightarrow> Some d | Err _ \<Rightarrow> None) items)"

lemma ok_data_simps [simp]:
  "ok_data [] = []" "ok_data (Ok d # items) = d @ ok_data items"
  by (simp_all add: ok_data_def)

fun left_of :: "('h \<times> bytes \<times> nat) http \<Rightarrow> bytes option" where
  "left_of (Ok (_, buffer, _)) = Some buffer"
| "left_of (Err _) = None"

lemma consumed_step:
  assumes "keeps n v0 v" "appends n d v0 v" "consumed n v input left v'"
  shows "consumed n v0 (d @ input) left v'"
proof -
  have "keeps n v0 v'" using assms keeps_trans unfolding consumed_def by blast
  moreover have "\<exists>e. d @ input = e @ rest \<and> appends n e v0 v'" if l: "left = Some rest" for rest
  proof -
    obtain e where "input = e @ rest" "appends n e v v'" using assms(3) l unfolding consumed_def by blast
    then show ?thesis using appends_trans [OF assms(2)] by (intro exI [of _ "d @ e"]) simp
  qed
  ultimately show ?thesis unfolding consumed_def by blast
qed

lemma flush_full_induct:
  assumes run: "flush_full_chunks flush z buf s = Some (r, s')"
    and base: "\<And>buf s. length buf < z \<Longrightarrow> Q buf s (Ok buf) s"
    and err: "\<And>buf s e s1. flush (take z buf) s = Some (Err e, s1) \<Longrightarrow> Q buf s (Err e) s1"
    and step: "\<And>buf s u s1 r s'. flush (take z buf) s = Some (Ok u, s1) \<Longrightarrow> Q (drop z buf) s1 r s' \<Longrightarrow> Q buf s r s'"
  shows "Q buf s r s'"
proof -
  have "flush = flush \<longrightarrow> z = z \<longrightarrow> Q buf s (fst (r, s')) (snd (r, s'))"
  proof (rule flush_full_chunks.raw_induct [of "\<lambda>fl z' b s y. fl = flush \<longrightarrow> z' = z \<longrightarrow> Q b s (fst y) (snd y)", OF _ run], intro impI)
    fix rec fl z' b s y
    assume IH: "\<And>fl z' b s y. rec fl z' b s = Some y \<Longrightarrow> fl = flush \<longrightarrow> z' = z \<longrightarrow> Q b s (fst y) (snd y)"
      and y: "(if length b < z' then Some (Ok b, s)
        else case fl (take z' b) s of None \<Rightarrow> None | Some (Ok x, s') \<Rightarrow> rec fl z' (drop z' b) s' | Some (Err e, s') \<Rightarrow> Some (Err e, s')) = Some y"
      and fl: "fl = flush" "z' = z"
    show "Q b s (fst y) (snd y)"
    proof (cases "length b < z")
      case False
      then obtain q s1 where q: "flush (take z b) s = Some (q, s1)" using y fl by (auto split: option.splits)
      show ?thesis
      proof (cases q)
        case (Ok u)
        then have "rec flush z (drop z b) s1 = Some y" using y fl False q by simp
        then have "Q (drop z b) s1 (fst y) (snd y)" using IH by blast
        then show ?thesis using step q Ok by blast
      qed (use y fl False q err in auto)
    qed (use y fl base in auto)
  qed
  then show ?thesis by simp
qed

context backend
begin

lemma sat_flush_full:
  "sat (G ((=) v0)) (flush_full_chunks (flush_chunk_to_storage M N H n) z buf)
     (\<lambda>r. G (consumed n v0 buf (case r of Ok rest \<Rightarrow> Some rest | Err _ \<Rightarrow> None)))"
proof (rule satI)
  fix s r s' assume "G ((=) v0) s" and run: "flush_full_chunks (flush_chunk_to_storage M N H n) z buf s = Some (r, s')"
  from run have "\<forall>v0. G ((=) v0) s \<longrightarrow> G (consumed n v0 buf (case r of Ok rest \<Rightarrow> Some rest | Err _ \<Rightarrow> None)) s'"
  proof (rule flush_full_induct [where Q = "\<lambda>buf s r s'. \<forall>v0. G ((=) v0) s \<longrightarrow>
      G (consumed n v0 buf (case r of Ok rest \<Rightarrow> Some rest | Err _ \<Rightarrow> None)) s'"]; intro allI impI)
    fix buf :: bytes and s v0 assume "length buf < z" "G ((=) v0) s"
    then show "G (consumed n v0 buf (case Ok buf of Ok rest \<Rightarrow> Some rest | Err _ \<Rightarrow> None)) s"
      by (auto simp: consumed_def good_def intro: exI [of _ "[]"])
  next
    fix buf s e s1 v0 assume f: "flush_chunk_to_storage M N H n (take z buf) s = Some (Err e, s1)" and g: "G ((=) v0) s"
    show "G (consumed n v0 buf (case Err e of Ok rest \<Rightarrow> Some rest | Err _ \<Rightarrow> None)) s1"
      using satD [OF sat_flush_chunk g f] by (simp add: consumed_def good_def)
  next
    fix buf s u s1 r s' v0
    assume f: "flush_chunk_to_storage M N H n (take z buf) s = Some (Ok u, s1)" and g: "G ((=) v0) s"
      and IH: "\<forall>v. G ((=) v) s1 \<longrightarrow> G (consumed n v (drop z buf) (case r of Ok rest \<Rightarrow> Some rest | Err _ \<Rightarrow> None)) s'"
    let ?v = "view (gw_world s1)"
    have "G (\<lambda>v. keeps n v0 v \<and> appends n (take z buf) v0 v) s1" using satD [OF sat_flush_chunk g f] by simp
    then have k: "keeps n v0 ?v" "appends n (take z buf) v0 ?v" "G ((=) ?v) s1" by (auto simp: good_def)
    show "G (consumed n v0 buf (case r of Ok rest \<Rightarrow> Some rest | Err _ \<Rightarrow> None)) s'"
      using IH k(3) consumed_step [OF k(1,2), of "drop z buf"] by (auto simp: good_def)
  qed
  then show "G (consumed n v0 buf (case r of Ok rest \<Rightarrow> Some rest | Err _ \<Rightarrow> None)) s'"
    using \<open>G ((=) v0) s\<close> by blast
qed

text \<open>The whole field: everything but the buffer is written, and its size is counted.\<close>

lemma sat_stream_field:
  "sat (G ((=) v0)) (stream_field (flush_chunk_to_storage M N H n) H z items hs buf t)
     (\<lambda>r. G (\<lambda>v. consumed n v0 (buf @ ok_data items) (left_of r) v \<and>
        (\<forall>h b k. r = Ok (h, b, k) \<longrightarrow> k = t + length (ok_data items))))"
proof (induction items arbitrary: v0 hs buf t)
  case Nil
  show ?case by (auto intro!: sat_gw_ret exI [of _ "[]"] simp: consumed_def)
next
  case (Cons it items)
  have stop: "sat (G \<Phi>) (ret (Err e)) (\<lambda>r. G (\<lambda>v. consumed n v0 (buf @ ok_data (it # items)) (left_of r) v \<and>
      (\<forall>h b k. r = Ok (h, b, k) \<longrightarrow> k = t + length (ok_data (it # items)))))" if "\<And>v. \<Phi> v \<Longrightarrow> keeps n v0 v" for e \<Phi>
    using that by (intro sat_gw_ret) (simp add: consumed_def)
  show ?case
  proof (cases it)
    case (Err u)
    then show ?thesis using stop [of "(=) v0" BAD_REQUEST] by (simp add: Err)
  next
    case (Ok d)
    have more: "sat (G ((=) v)) (stream_field (flush_chunk_to_storage M N H n) H z items (h_update H hs d) rest (t + length d))
      (\<lambda>r. G (\<lambda>v. consumed n v0 (buf @ ok_data (it # items)) (left_of r) v \<and>
        (\<forall>h b k. r = Ok (h, b, k) \<longrightarrow> k = t + length (ok_data (it # items)))))"
      if c: "consumed n v0 (buf @ d) (Some rest) v" for rest v
    proof -
      obtain e where e: "buf @ d = e @ rest" "appends n e v0 v" "keeps n v0 v" using c unfolding consumed_def by blast
      have "buf @ ok_data (it # items) = e @ (rest @ ok_data items)" using e(1) Ok by simp
      then have "consumed n v0 (buf @ ok_data (it # items)) l v'" if "consumed n v (rest @ ok_data items) l v'" for l v'
        using consumed_step [OF e(3,2) that] by simp
      then show ?thesis by (intro sat_conseq [OF Cons.IH]) (auto simp: Ok)
    qed
    show ?thesis unfolding Ok stream_field.simps
      apply (rule sat_if, rule stop [unfolded Ok], simp)
      apply (rule sat_try [OF sat_flush_full], rule stop [unfolded Ok], simp add: consumed_def)
      apply (rule sat_good, rule more [unfolded Ok], simp)
      done
  qed
qed

lemma sat_last_flush:
  assumes "consumed n v0 data (Some buf) v"
  shows "sat (G ((=) v)) (if buf \<noteq> [] then flush_chunk_to_storage M N H n buf else ret (Ok ()))
    (\<lambda>r. G (\<lambda>v'. keeps n v0 v' \<and> (is_ok r \<longrightarrow> appends n data v0 v')))"
proof -
  obtain d where d: "data = d @ buf" "appends n d v0 v" "keeps n v0 v" using assms unfolding consumed_def by blast
  show ?thesis
  proof (rule sat_if)
    show "sat (G ((=) v)) (flush_chunk_to_storage M N H n buf) (\<lambda>r. G (\<lambda>v'. keeps n v0 v' \<and> (is_ok r \<longrightarrow> appends n data v0 v')))"
      using d keeps_trans [OF d(3)] appends_trans [OF d(2)] by (intro sat_conseq [OF sat_flush_chunk]) auto
    show "sat (G ((=) v)) (ret (Ok ())) (\<lambda>r. G (\<lambda>v'. keeps n v0 v' \<and> (is_ok r \<longrightarrow> appends n data v0 v')))" if "\<not> buf \<noteq> []"
      using d that by (intro sat_gw_ret) auto
  qed
qed

text \<open>The upload after the object is created: it stores the data, or leaves other objects alone.\<close>

lemma sat_multipart_body:
  assumes new: "cv_objs v0 n = None"
  shows "sat (G ((=) (cv_put n v0)))
    (try_or (stream_field (flush_chunk_to_storage M N H n) H z items (h_new H) [] 0) (rollback M n) (\<lambda>(hasher, buffer, total_size).
     try_or (if buffer \<noteq> [] then flush_chunk_to_storage M N H n buffer else ret (Ok ())) (rollback M n) (\<lambda>_.
     try_or (gw_call (mcl_update_object_checksum M n (h_finalize H hasher) (of_nat total_size)))
       (\<lambda>_. rollback M n INTERNAL_SERVER_ERROR) (\<lambda>_. upload_done ''object_multipart'' total_size))))
    (\<lambda>r. G (uploaded n (ok_data items) v0 r))" (is "sat _ _ ?Q")
proof -
  let ?v = "cv_put n v0" and ?data = "ok_data items"
  have roll: "sat (G \<Phi>) (rollback M n e) ?Q" if "\<And>v. \<Phi> v \<Longrightarrow> keeps n ?v v" for \<Phi> e
    by (rule sat_good, drule that, drule keeps_trans [OF keeps_put [OF new]],
        rule sat_conseq [OF sat_rollback], assumption) (auto simp: uploaded_def new)
  have check: "sat (G ((=) v)) (gw_call (mcl_update_object_checksum M n c t)) (\<lambda>_. G ((=) v))" for v c t
    by (rule sat_gw_call) (use checksum_law in metis)
  have fin: "sat (G ((=) v)) (upload_done ep k) ?Q" if "keeps n ?v v" "appends n ?data ?v v" "k = length ?data" for v ep k
    using that keeps_trans [OF keeps_put [OF new], of v] stored_after_put [OF new that(2)]
    by (intro sat_conseq [OF sat_upload_done]) (auto simp: uploaded_def new)
  have last: "sat (G (\<lambda>v. consumed n ?v ?data (Some buf) v \<and> k = length ?data))
    (try_or (if buf \<noteq> [] then flush_chunk_to_storage M N H n buf else ret (Ok ())) (rollback M n) (\<lambda>_.
     try_or (gw_call (mcl_update_object_checksum M n (h_finalize H hs) (of_nat k)))
       (\<lambda>_. rollback M n INTERNAL_SERVER_ERROR) (\<lambda>_. upload_done ''object_multipart'' k))) ?Q" for buf k hs
    apply (rule sat_good, elim conjE)
    apply (rule sat_try [OF sat_last_flush], assumption)
     apply (rule roll, simp)
    apply (rule sat_good)
    apply (rule sat_try [OF check])
     apply (rule roll, simp)
    apply (rule fin, auto)
    done
  show ?thesis
    apply (rule sat_try [OF sat_stream_field])
     apply (rule roll, simp add: consumed_def)
    apply (case_tac v, simp only: prod.case, rule sat_conseq [OF last], auto)
    done
qed

lemma sat_put_object_multipart:
  "sat (G ((=) v0)) (handle_put_object_multipart M N H alnum n fs)
     (\<lambda>r. G (uploaded n (case find_file_field fs of Some items \<Rightarrow> ok_data items | None \<Rightarrow> []) v0 r))"
  (is "sat _ _ ?Q")
proof -
  have err: "sat (G \<Phi>) (count_fail a b c e) ?Q" "sat (G \<Phi>) (fail e) ?Q"
    if "\<And>v. \<Phi> v \<Longrightarrow> keeps n v0 v \<and> (cv_objs v0 n \<noteq> None \<longrightarrow> v = v0)" for a b c e \<Phi>
    by (rule sat_count_fail, use that in \<open>simp add: uploaded_def\<close>) (rule sat_fail, use that in \<open>simp add: uploaded_def\<close>)
  have q: "sat (G ((=) v0)) (fail e) (\<lambda>r. G (\<lambda>v. \<not> is_ok r \<and> v = v0))" for e
    by (rule sat_fail) simp
  have body: "sat (G \<Phi>)
    (case find_file_field fs of None \<Rightarrow> rollback M n BAD_REQUEST | Some items \<Rightarrow>
       try_or (stream_field (flush_chunk_to_storage M N H n) H z items (h_new H) [] 0) (rollback M n) (\<lambda>(hasher, buffer, total_size).
       try_or (if buffer \<noteq> [] then flush_chunk_to_storage M N H n buffer else ret (Ok ())) (rollback M n) (\<lambda>_.
       try_or (gw_call (mcl_update_object_checksum M n (h_finalize H hasher) (of_nat total_size)))
         (\<lambda>_. rollback M n INTERNAL_SERVER_ERROR) (\<lambda>_. upload_done ''object_multipart'' total_size)))) ?Q"
    if \<Phi>: "\<And>v. \<Phi> v \<Longrightarrow> cv_objs v0 n = None \<and> v = cv_put n v0" for z \<Phi>
  proof (rule sat_good, drule \<Phi>, elim conjE, cases "find_file_field fs", goal_cases)
    case (1 v)
    then show ?case using keeps_put [of v0 n] by (simp, intro sat_conseq [OF sat_rollback]) (auto simp: uploaded_def)
  next
    case (2 v items)
    then show ?case using sat_multipart_body [of v0 n H z items] by (simp only: option.case)
  qed
  show ?thesis unfolding handle_put_object_multipart_def
    apply (split result.split, intro conjI allI impI)
     apply (rule sat_try [OF sat_query_chunk_size [OF q]], rule err, simp)
     apply (rule sat_try [OF sat_put])
      apply (rule err, use keeps_put in \<open>auto split: if_splits\<close>)[1]
     apply (rule body, simp)
    apply (rule err, simp)
    done
qed

end

section \<open>Sequences of requests\<close>

context backend
begin

text \<open>An object stays stored under every request but its own deletion.\<close>

lemma sat_put_keeps:
  assumes st: "stored v0 m b"
  shows "sat (G ((=) v0)) (handle_put_dispatch M N H alnum dec n ct mp body fj) (\<lambda>_. G (\<lambda>v. stored v m b))"
proof -
  have up: "stored v m b" if "uploaded n data v0 r v" for data r v
  proof (cases "m = n")
    case True
    then have "cv_objs v0 n \<noteq> None" using st by (auto simp: stored_def)
    then show ?thesis using that st unfolding uploaded_def by blast
  next
    case False
    then show ?thesis using that st unfolding uploaded_def keeps_def by blast
  qed
  have multi: "sat (G ((=) v0)) (handle_put_object_multipart M N H alnum n fs) (\<lambda>_. G (\<lambda>v. stored v m b))" for fs
    using up by (intro sat_conseq [OF sat_put_object_multipart]) auto
  have bad: "sat (G ((=) v0)) (fail e) (\<lambda>_. G (\<lambda>v. stored v m b))"
    "sat (G ((=) v0)) (count_fail x y z e) (\<lambda>_. G (\<lambda>v. stored v m b))" for x y z e
    using st by (auto intro: sat_fail sat_count_fail)
  have json: "sat (G ((=) v0)) (handle_put_object M N H alnum dec n p) (\<lambda>_. G (\<lambda>v. stored v m b))" for p
  proof (cases "dec p")
    case None
    then show ?thesis using bad(2) by (auto simp: handle_put_object_def split: result.split)
  next
    case (Some data)
    show ?thesis using up by (intro sat_conseq [OF sat_put_object [where b64_decode = dec and payload = p, OF Some]]) auto
  qed
  show ?thesis unfolding handle_put_dispatch_def
    by (auto intro!: multi json bad(1) split: option.split)
qed

lemma sat_serve:
  assumes st: "stored v0 m b" and q: "q \<noteq> DeleteRequest m"
  shows "sat (G ((=) v0)) (serve M N H alnum dec enc fj q) (\<lambda>_. G (\<lambda>v. stored v m b))"
proof (cases q)
  case (PutRequest n ct mp body)
  show ?thesis unfolding PutRequest serve.simps run_state_def
    by (rule sat_bnd [OF sat_put_keeps [OF st]], rule sat_gw_ret)
next
  case (GetRequest n accept)
  have "still sound view addr (serve M N H alnum dec enc fj q)"
    unfolding GetRequest serve.simps run_state_def
    by (rule still_bnd [OF still_handlers(4)])
      (simp add: still_simple still_bnd [OF still_stream_body] split: result.split download.split)
  then show ?thesis using st by (rule sat_still)
next
  case ListRequest
  have "still sound view addr (serve M N H alnum dec enc fj q)"
    unfolding ListRequest serve.simps run_state_def by (auto intro!: still_bnd still_handlers still_simple)
  then show ?thesis using st by (rule sat_still)
next
  case (DeleteRequest n)
  then have "sat (G ((=) v0)) (handle_delete_object M N alnum n) (\<lambda>_. G (\<lambda>v. stored v m b))"
    using q st by (intro sat_conseq [OF sat_delete_object]) (auto simp: keeps_def)
  then show ?thesis unfolding DeleteRequest serve.simps run_state_def by (rule sat_bnd) (rule sat_gw_ret)
next
  case MetricsRequest
  show ?thesis using st by (auto simp: MetricsRequest run_state_def sat_def bnd_def handle_metrics_def good_def)
next
  case HealthRequest
  show ?thesis using st by (auto simp: HealthRequest run_state_def sat_def bnd_def handle_health_def ret_def good_def)
qed

lemma sat_serve_all:
  "DeleteRequest m \<notin> set qs \<Longrightarrow>
     sat (G (\<lambda>v. stored v m b)) (serve_all M N H alnum dec enc fj qs) (\<lambda>_. G (\<lambda>v. stored v m b))"
proof (induction qs)
  case Nil
  show ?case by (simp add: sat_gw_ret)
next
  case (Cons q qs)
  have "sat (G (\<lambda>v. stored v m b)) (serve M N H alnum dec enc fj q) (\<lambda>_. G (\<lambda>v. stored v m b))"
    by (rule sat_good, rule sat_serve) (use Cons.prems in auto)
  then show ?case using Cons by (auto intro: sat_bnd)
qed

end

end
