(* ===== verification/Replication.thy ===== *)
theory Replication
  imports Clients
begin

text \<open>
  The replication service (\<^verbatim>\<open>replication-service/src/main.rs\<close>): one cycle over the
  under-replicated chunks, and one tick of the main loop with its probe of the metadata service
  and its reconnection. The state of a cycle is the metrics, the random generator and the world
  behind the clients.
\<close>

section \<open>State\<close>

datatype rp_metric =
    Rp_replication_runs_total | Rp_chunks_replicated_total | Rp_replication_failures string
  | Rp_under_replicated_chunks | Rp_chunks_skipped_rate_limit

record ('g, 'w) ReplState =
  rp_metrics :: "rp_metric metrics"
  rp_rng :: 'g
  rp_world :: 'w

definition DEFAULT_REPLICATION_INTERVAL_SECS :: nat where
  "DEFAULT_REPLICATION_INTERVAL_SECS = 60"

definition DEFAULT_MAX_CHUNKS_PER_CYCLE :: nat where
  "DEFAULT_MAX_CHUNKS_PER_CYCLE = 100"

definition startup_connect ::
  "(string \<Rightarrow> string option) \<Rightarrow> (string \<Rightarrow> ('w, ('m, code) result) act) \<Rightarrow> ('w, 'm option) act" where
  "startup_connect env connect = connect_rounds connect (metadata_urls ''http://localhost:3001'' env) 4"

definition RP_MAX_REPLICAS :: nat where
  "RP_MAX_REPLICAS = 3"

text \<open>A call of a client, and an update of a metric.\<close>

definition rp_call :: "('w, 'a) act \<Rightarrow> (('g, 'w) ReplState, 'a) act" where
  "rp_call m s = (case m (rp_world s) of None \<Rightarrow> None | Some (x, w) \<Rightarrow> Some (x, s\<lparr>rp_world := w\<rparr>))"

definition rp_metric_upd :: "(rp_metric metrics \<Rightarrow> rp_metric metrics) \<Rightarrow> (('g, 'w) ReplState, unit) act" where
  "rp_metric_upd f s = Some ((), s\<lparr>rp_metrics := f (rp_metrics s)\<rparr>)"

definition inc_failure :: "string \<Rightarrow> (('g, 'w) ReplState, unit) act" where
  "inc_failure error_type = rp_metric_upd (metric_inc (Rp_replication_failures error_type))"

section \<open>One chunk\<close>

definition choose_target :: "'g rand \<Rightarrow> MetaStorageNode list \<Rightarrow> (('g, 'w) ReplState, MetaStorageNode) act" where
  "choose_target R eligible_nodes s =
     (case rand_choose R (length eligible_nodes) (rp_rng s) of
        (k, g) \<Rightarrow> Some (eligible_nodes ! k, s\<lparr>rp_rng := g\<rparr>))"

definition has_space :: "('n, 'w) StorageNodeClient \<Rightarrow> string \<Rightarrow> (('g, 'w) ReplState, bool) act" where
  "has_space N target_address =
     try_or (rp_call (ncl_connect N target_address)) (\<lambda>_. ret False)
       (\<lambda>client. try_or (rp_call (ncl_get_free_chunks N client)) (\<lambda>_. ret False) (\<lambda>num_free. ret (num_free > 0)))"

definition skip_chunk :: "string \<Rightarrow> (('g, 'w) ReplState, bool) act" where
  "skip_chunk error_type = bnd (inc_failure error_type) (\<lambda>_. ret False)"

text \<open>Read the chunk from its first replica and verify it.\<close>

definition fetch_source ::
  "'w MetadataClient \<Rightarrow> ('n, 'w) StorageNodeClient \<Rightarrow> 'h crc32 \<Rightarrow> UnderReplicatedChunk \<Rightarrow> u64
     \<Rightarrow> (bytes \<Rightarrow> (('g, 'w) ReplState, bool) act) \<Rightarrow> (('g, 'w) ReplState, bool) act" where
  "fetch_source M N H chunk source_node_id k =
     try_or (rp_call (mcl_get_storage_node M source_node_id)) (\<lambda>_. skip_chunk ''connect_source'') (\<lambda>source_address.
     try_or (rp_call (ncl_connect N source_address)) (\<lambda>_. skip_chunk ''connect_source'') (\<lambda>client.
     try_or (rp_call (ncl_read_chunk N client (ur_chunk_id chunk))) (\<lambda>_. skip_chunk ''read_chunk'') (\<lambda>(_, chunk_data, _).
     if compute_checksum H chunk_data \<noteq> ur_checksum chunk then skip_chunk ''checksum_mismatch''
     else k chunk_data)))"

text \<open>The clean-up when the metadata service refuses the new replica.\<close>

definition cleanup_target :: "('n, 'w) StorageNodeClient \<Rightarrow> string \<Rightarrow> u64 \<Rightarrow> (('g, 'w) ReplState, unit) act" where
  "cleanup_target N target_address chunk_id =
     try_or (rp_call (ncl_connect N target_address)) (\<lambda>_. ret ())
       (\<lambda>client. bnd (rp_call (ncl_delete_chunk N client chunk_id)) (\<lambda>_. ret ()))"

definition store_target ::
  "'w MetadataClient \<Rightarrow> ('n, 'w) StorageNodeClient \<Rightarrow> UnderReplicatedChunk \<Rightarrow> MetaStorageNode \<Rightarrow> bytes
     \<Rightarrow> (('g, 'w) ReplState, bool) act" where
  "store_target M N chunk target chunk_data =
     try_or (rp_call (ncl_connect N (msn_address target))) (\<lambda>_. skip_chunk ''connect_target'') (\<lambda>client.
     try_or (rp_call (ncl_write_chunk N client (ur_chunk_id chunk) chunk_data)) (\<lambda>_. skip_chunk ''write_chunk'') (\<lambda>_.
     try_or (rp_call (mcl_add_chunk_replica M (ur_chunk_id chunk) (msn_id target)))
       (\<lambda>_. bnd (cleanup_target N (msn_address target) (ur_chunk_id chunk)) (\<lambda>_. skip_chunk ''update_metadata''))
       (\<lambda>_. bnd (rp_metric_upd (metric_inc Rp_chunks_replicated_total)) (\<lambda>_. ret True))))"

definition replicate_chunk ::
  "'w MetadataClient \<Rightarrow> ('n, 'w) StorageNodeClient \<Rightarrow> 'h crc32 \<Rightarrow> 'g rand \<Rightarrow> MetaStorageNode list
     \<Rightarrow> UnderReplicatedChunk \<Rightarrow> (('g, 'w) ReplState, bool) act" where
  "replicate_chunk M N H R nodes chunk =
     (let current_node_ids = ur_storage_node_ids chunk;
          eligible_nodes = filter (\<lambda>n. msn_id n \<notin> set current_node_ids) nodes in
      if eligible_nodes = [] then ret False
      else bnd (choose_target R eligible_nodes) (\<lambda>target.
           bnd (has_space N (msn_address target)) (\<lambda>space.
           if \<not> space then ret False
           else case current_node_ids of
                  [] \<Rightarrow> ret False
                | source_node_id # _ \<Rightarrow>
                    fetch_source M N H chunk source_node_id (store_target M N chunk target))))"

section \<open>One cycle\<close>

fun replicate_chunks ::
  "'w MetadataClient \<Rightarrow> ('n, 'w) StorageNodeClient \<Rightarrow> 'h crc32 \<Rightarrow> 'g rand \<Rightarrow> MetaStorageNode list
     \<Rightarrow> UnderReplicatedChunk list \<Rightarrow> (('g, 'w) ReplState, nat) act" where
  "replicate_chunks M N H R nodes [] = ret 0"
| "replicate_chunks M N H R nodes (c # cs) =
     bnd (replicate_chunk M N H R nodes c) (\<lambda>b.
     bnd (replicate_chunks M N H R nodes cs) (\<lambda>n. ret ((if b then 1 else 0) + n)))"

text \<open>The result is the number of chunks replicated.\<close>

definition run_replication_cycle ::
  "'w MetadataClient \<Rightarrow> ('n, 'w) StorageNodeClient \<Rightarrow> 'h crc32 \<Rightarrow> 'g rand \<Rightarrow> nat \<Rightarrow> (('g, 'w) ReplState, nat) act" where
  "run_replication_cycle M N H R max_chunks_per_cycle =
     bnd (rp_metric_upd (metric_inc Rp_replication_runs_total)) (\<lambda>_.
     try_or (rp_call (mcl_list_under_replicated_chunks M (of_nat RP_MAX_REPLICAS)))
       (\<lambda>_. bnd (inc_failure ''list_chunks'') (\<lambda>_. ret 0)) (\<lambda>chunks.
     bnd (rp_metric_upd (metric_set Rp_under_replicated_chunks (int (length chunks)))) (\<lambda>_.
     if chunks = [] then ret 0
     else try_or (rp_call (mcl_list_storage_nodes M)) (\<lambda>_. bnd (inc_failure ''list_nodes'') (\<lambda>_. ret 0)) (\<lambda>nodes.
          if nodes = [] then ret 0
          else bnd (rp_metric_upd (metric_add Rp_chunks_skipped_rate_limit (int (length chunks - max_chunks_per_cycle)))) (\<lambda>_.
               replicate_chunks M N H R nodes (take max_chunks_per_cycle chunks))))))"

section \<open>The main loop\<close>

text \<open>
  \<open>'m\<close> is a connected metadata client, \<open>use\<close> the calls it offers. A tick ends early
  (\<open>continue\<close>) when it cannot reconnect or the probe fails.
\<close>

record ('m, 'g, 'w) ReplLoop =
  rl_client :: 'm
  rl_consecutive_failures :: nat
  rl_state :: "('g, 'w) ReplState"

definition MAX_CONSECUTIVE_FAILURES :: nat where
  "MAX_CONSECUTIVE_FAILURES = 3"

definition rl_call :: "(('g, 'w) ReplState, 'a) act \<Rightarrow> (('m, 'g, 'w) ReplLoop, 'a) act" where
  "rl_call m l = (case m (rl_state l) of None \<Rightarrow> None | Some (x, s) \<Rightarrow> Some (x, l\<lparr>rl_state := s\<rparr>))"

definition reconnect ::
  "(string \<Rightarrow> ('w, ('m, code) result) act) \<Rightarrow> string list \<Rightarrow> (('m, 'g, 'w) ReplLoop, bool) act" where
  "reconnect connect urls =
     bnd (rl_call (rp_call (connect_any connect urls))) (\<lambda>c.
     case c of
       None \<Rightarrow> bnd (rl_call (inc_failure ''connect_metadata'')) (\<lambda>_. ret False)
     | Some client \<Rightarrow> (\<lambda>l. Some (True, l\<lparr>rl_client := client, rl_consecutive_failures := 0\<rparr>)))"

definition probe_and_run ::
  "('m \<Rightarrow> 'w MetadataClient) \<Rightarrow> ('n, 'w) StorageNodeClient \<Rightarrow> 'h crc32 \<Rightarrow> 'g rand \<Rightarrow> nat
     \<Rightarrow> (('m, 'g, 'w) ReplLoop, unit) act" where
  "probe_and_run use N H R max_chunks_per_cycle l =
     try_or (rl_call (rp_call (mcl_list_storage_nodes (use (rl_client l)))))
       (\<lambda>_ l. rl_call (inc_failure ''connect_metadata'') (l\<lparr>rl_consecutive_failures := rl_consecutive_failures l + 1\<rparr>))
       (\<lambda>_ l. bnd (rl_call (run_replication_cycle (use (rl_client l)) N H R max_chunks_per_cycle)) (\<lambda>_. ret ())
                (l\<lparr>rl_consecutive_failures := 0\<rparr>)) l"

definition replication_tick ::
  "(string \<Rightarrow> ('w, ('m, code) result) act) \<Rightarrow> string list \<Rightarrow> ('m \<Rightarrow> 'w MetadataClient)
     \<Rightarrow> ('n, 'w) StorageNodeClient \<Rightarrow> 'h crc32 \<Rightarrow> 'g rand \<Rightarrow> nat \<Rightarrow> (('m, 'g, 'w) ReplLoop, unit) act" where
  "replication_tick connect urls use N H R max_chunks_per_cycle l =
     (if rl_consecutive_failures l \<ge> MAX_CONSECUTIVE_FAILURES
      then bnd (reconnect connect urls)
             (\<lambda>reconnected. if reconnected then probe_and_run use N H R max_chunks_per_cycle else ret ()) l
      else probe_and_run use N H R max_chunks_per_cycle l)"

end
