(* ===== verification/ReplicationCorrect.thy ===== *)
theory ReplicationCorrect
  imports Replication Backend
begin

text \<open>
  The replication service over any backend whose metadata service saves what it changes: a cycle
  only adds replicas, and every object keeps its bytes. Then the main loop: how it recovers a lost
  metadata service.
\<close>

section \<open>A cycle only adds replicas\<close>

text \<open>Objects and registrations are as before, replicas only grow, and what was stored still is.\<close>

definition grown :: "cview \<Rightarrow> cview \<Rightarrow> bool" where
  "grown v v' \<longleftrightarrow> cv_objs v' = cv_objs v \<and> cv_reg v' = cv_reg v \<and> (\<forall>i. set (cv_reps v i) \<subseteq> set (cv_reps v' i)) \<and>
     (\<forall>n b. stored v n b \<longrightarrow> stored v' n b)"

lemma grown_refl [simp]: "grown v v"
  by (simp add: grown_def)

lemma grown_trans: "grown v v' \<Longrightarrow> grown v' v'' \<Longrightarrow> grown v v''"
  unfolding grown_def by (metis subset_trans)

lemma grown_write: "cv_blob v a i = None \<Longrightarrow> grown v (cv_write a i d v)"
  using stored_write [of v a i] by (simp add: grown_def) (simp add: cv_write_def)

lemma erase_write: "cv_blob v a i = None \<Longrightarrow> cv_erase a i (cv_write a i d v) = v"
  by (simp add: cv_erase_def cv_write_def fun_upd_idem)

text \<open>The bytes of a chunk: whatever it stores is this.\<close>

definition chunk_is :: "cview \<Rightarrow> u64 \<Rightarrow> bytes \<Rightarrow> bool" where
  "chunk_is v i d \<longleftrightarrow> (\<forall>e. chunk_stored v i e \<longrightarrow> e = d)"

lemma chunk_is_source:
  "s \<in> set (cv_reps v i) \<Longrightarrow> cv_reg v s = Some a \<Longrightarrow> cv_blob v a i = Some d \<Longrightarrow> chunk_is v i d"
  by (auto simp: chunk_is_def chunk_stored_def)

lemma chunk_is_write:
  assumes "chunk_is v i d" shows "chunk_is (cv_write a i d v) i d"
  unfolding chunk_is_def
proof (intro allI impI)
  fix e assume e: "chunk_stored (cv_write a i d v) i e"
  show "e = d"
  proof (cases "\<exists>s \<in> set (cv_reps v i). cv_reg v s = Some a")
    case True
    then show ?thesis using e by (auto simp: chunk_stored_def cv_write_def)
  next
    case False
    then have "chunk_stored v i e" using e by (fastforce simp: chunk_stored_def cv_write_def)
    then show ?thesis using assms unfolding chunk_is_def by blast
  qed
qed

lemma grown_replica:
  assumes "chunk_is v i d" "cv_blob v a i = None" "cv_reg v s = Some a"
  shows "grown v (cv_replica i s (cv_write a i d v))"
proof -
  let ?w = "cv_write a i d v"
  have "stored (cv_replica i s ?w) n b" if "stored v n b" for n b
  proof (rule stored_replica)
    show "stored ?w n b" by (rule stored_write [OF assms(2) that])
    show "cv_reg ?w s = Some a" using assms(3) by (simp add: cv_write_def)
    show "cv_blob ?w a i = Some e" if "chunk_stored ?w i e" for e
    proof -
      have "e = d" using chunk_is_write [OF assms(1), of a] that unfolding chunk_is_def by blast
      then show ?thesis by (simp add: cv_write_def)
    qed
  qed
  then show ?thesis by (auto simp: grown_def cv_replica_def cv_write_def)
qed

section \<open>Rules for the actions of a cycle\<close>

definition rgood ::
  "('w \<Rightarrow> bool) \<Rightarrow> ('w \<Rightarrow> bool) \<Rightarrow> ('w \<Rightarrow> cview) \<Rightarrow> (cview \<Rightarrow> bool) \<Rightarrow> ('g, 'w) ReplState \<Rightarrow> bool" where
  "rgood sound steady view \<Phi> s \<longleftrightarrow> sound (rp_world s) \<and> steady (rp_world s) \<and> \<Phi> (view (rp_world s))"

lemma rp_call_Some:
  "rp_call m s = Some (x, s') \<longleftrightarrow> (\<exists>w'. m (rp_world s) = Some (x, w') \<and> s' = s\<lparr>rp_world := w'\<rparr>)"
  by (auto simp: rp_call_def split: option.split)

lemma rsat_good:
  "(\<And>v. \<Phi> v \<Longrightarrow> sat (rgood sound steady view ((=) v)) m Q) \<Longrightarrow> sat (rgood sound steady view \<Phi>) m Q"
  unfolding sat_def rgood_def by blast

lemma rsat_conseq:
  assumes "sat (rgood sound steady view \<Phi>) m (\<lambda>r. rgood sound steady view (\<Psi> r))"
    and "\<And>v. \<Phi>' v \<Longrightarrow> \<Phi> v" and "\<And>r v. \<Psi> r v \<Longrightarrow> \<Psi>' r v"
  shows "sat (rgood sound steady view \<Phi>') m (\<lambda>r. rgood sound steady view (\<Psi>' r))"
proof (rule satI)
  fix s x s' assume s: "rgood sound steady view \<Phi>' s" "m s = Some (x, s')"
  have "rgood sound steady view \<Phi> s" using s(1) assms(2) unfolding rgood_def by blast
  then have "rgood sound steady view (\<Psi> x) s'" by (rule satD [OF assms(1) _ s(2)])
  then show "rgood sound steady view (\<Psi>' x) s'" using assms(3) unfolding rgood_def by blast
qed

lemma rsat_call:
  assumes "\<And>w r w'. sound w \<Longrightarrow> steady w \<Longrightarrow> m w = Some (r, w') \<Longrightarrow> view w = v \<Longrightarrow> sound w' \<and> steady w' \<and> \<Psi> r (view w')"
  shows "sat (rgood sound steady view ((=) v)) (rp_call m) (\<lambda>r. rgood sound steady view (\<Psi> r))"
proof (rule satI)
  fix s x s' assume s: "rgood sound steady view ((=) v) s" "rp_call m s = Some (x, s')"
  then obtain w' where w: "m (rp_world s) = Some (x, w')" "s' = s\<lparr>rp_world := w'\<rparr>" unfolding rp_call_Some by blast
  have "sound w' \<and> steady w' \<and> \<Psi> x (view w')" by (rule assms [OF _ _ w(1)]) (use s(1) in \<open>simp_all add: rgood_def\<close>)
  then show "rgood sound steady view (\<Psi> x) s'" using w(2) by (simp add: rgood_def)
qed

lemma rsat_ret: "(\<And>v. \<Phi> v \<Longrightarrow> \<Psi> x v) \<Longrightarrow> sat (rgood sound steady view \<Phi>) (ret x) (\<lambda>r. rgood sound steady view (\<Psi> r))"
  by (auto simp: rgood_def intro!: sat_ret)

lemma rsat_metric: "sat (rgood sound steady view \<Phi>) (rp_metric_upd f) (\<lambda>_. rgood sound steady view \<Phi>)"
  by (rule satI) (auto simp: rp_metric_upd_def rgood_def)

lemma rsat_skip:
  "(\<And>v. \<Phi> v \<Longrightarrow> \<Psi> v) \<Longrightarrow> sat (rgood sound steady view \<Phi>) (skip_chunk t) (\<lambda>_. rgood sound steady view \<Psi>)"
  unfolding skip_chunk_def inc_failure_def by (rule sat_bnd [OF rsat_metric], rule rsat_ret)

lemma rsat_choose:
  "sat (rgood sound steady view \<Phi>) (choose_target R ns) (\<lambda>t. rgood sound steady view \<Phi>)"
  by (rule satI) (auto simp: choose_target_def rgood_def split: prod.splits)

context steady_backend
begin

abbreviation (input) RG where "RG \<equiv> rgood sound steady view"

lemma rsat_connect: "sat (RG ((=) v)) (rp_call (ncl_connect N a)) (\<lambda>r. RG (\<lambda>v'. v' = v \<and> (\<forall>c. r = Ok c \<longrightarrow> addr c = a)))"
  by (rule rsat_call, frule (1) connect_law, drule (1) steady_connect) blast

lemma rsat_has_space: "sat (RG ((=) v)) (has_space N a) (\<lambda>_. RG ((=) v))"
proof -
  have free: "sat (RG ((=) v)) (rp_call (ncl_get_free_chunks N c)) (\<lambda>_. RG ((=) v))" for c
    by (rule rsat_call, frule (1) free_law, drule (1) steady_free) simp
  have conn: "sat (RG ((=) v)) (rp_call (ncl_connect N a)) (\<lambda>_. RG ((=) v))"
    by (rule rsat_conseq [OF rsat_connect]) auto
  show ?thesis unfolding has_space_def
    by (rule sat_try [OF conn rsat_ret], simp, rule sat_try [OF free rsat_ret], simp, rule rsat_ret, simp)
qed

lemma rsat_cleanup:
  assumes "cv_blob v a i = None"
  shows "sat (RG ((=) (cv_write a i d v))) (cleanup_target N a i) (\<lambda>_. RG (grown v))"
proof -
  have del: "sat (RG ((=) (cv_write a i d v))) (rp_call (ncl_delete_chunk N c i)) (\<lambda>_. RG (grown v))" if "addr c = a" for c
    by (rule rsat_call, frule (1) erase_law, drule (1) steady_erase)
      (use that assms grown_write [OF assms] erase_write [OF assms] in auto)
  have fin: "sat (RG (grown v)) (ret ()) (\<lambda>_. RG (grown v))" by (rule rsat_ret) simp
  have none: "sat (RG (\<lambda>v'. v' = cv_write a i d v \<and> (\<forall>c. Err e = Ok c \<longrightarrow> addr c = a))) (ret ()) (\<lambda>_. RG (grown v))" for e :: code
    using grown_write [OF assms] by (intro rsat_ret) simp
  show ?thesis unfolding cleanup_target_def
  proof (rule sat_try [OF rsat_connect none])
    fix c
    show "sat (RG (\<lambda>v'. v' = cv_write a i d v \<and> (\<forall>c'. Ok c = Ok c' \<longrightarrow> addr c' = a)))
        (bnd (rp_call (ncl_delete_chunk N c i)) (\<lambda>_. ret ())) (\<lambda>_. RG (grown v))"
      by (rule rsat_good, rule sat_bnd [OF _ fin], use del in auto)
  qed
qed

lemma rsat_store_target:
  assumes reg: "cv_reg v (msn_id t) = Some (msn_address t)" and d: "chunk_is v (ur_chunk_id c) d"
  shows "sat (RG ((=) v)) (store_target M N c t d) (\<lambda>_. RG (grown v))"
proof -
  let ?i = "ur_chunk_id c" and ?a = "msn_address t"
  have wr: "sat (RG (\<lambda>v'. v' = v \<and> (\<forall>cl'. Ok cl = Ok cl' \<longrightarrow> addr cl' = ?a))) (rp_call (ncl_write_chunk N cl ?i d))
      (\<lambda>r. RG (\<lambda>v'. if is_ok r then cv_blob v ?a ?i = None \<and> v' = cv_write ?a ?i d v else v' = v))" for cl
    by (rule rsat_good, rule rsat_call, frule (1) write_law, drule (1) steady_write) (simp split: if_splits)
  have ad: "sat (RG (\<lambda>v'. cv_blob v ?a ?i = None \<and> v' = cv_write ?a ?i d v)) (rp_call (mcl_add_chunk_replica M ?i (msn_id t)))
      (\<lambda>r. RG (\<lambda>v'. cv_blob v ?a ?i = None \<and> (if is_ok r then grown v v' else v' = cv_write ?a ?i d v)))"
    by (rule rsat_good, rule rsat_call, frule (1) replica_law, drule (2) steady_replica)
      (use grown_replica [OF d _ reg] in \<open>auto split: if_splits\<close>)
  have refused: "sat (RG (\<lambda>v'. cv_blob v ?a ?i = None \<and> v' = cv_write ?a ?i d v))
      (bnd (cleanup_target N ?a ?i) (\<lambda>_. skip_chunk tag)) (\<lambda>_. RG (grown v))" for tag
    by (rule rsat_good, elim conjE, simp only: , rule sat_bnd [OF rsat_cleanup], assumption, rule rsat_skip, assumption)
  have counted: "sat (RG (grown v)) (bnd (rp_metric_upd f) (\<lambda>_. ret True)) (\<lambda>_. RG (grown v))" for f
    by (rule sat_bnd [OF rsat_metric rsat_ret])
  show ?thesis unfolding store_target_def
    apply (rule sat_try [OF rsat_connect], rule rsat_skip, simp)
    apply (rule sat_try [OF wr], rule rsat_skip, simp)
    apply (simp only: is_ok.simps if_True)
    apply (rule sat_try [OF ad])
     apply (rule sat_weaken [OF refused], simp add: rgood_def, assumption)
    apply (rule sat_weaken [OF counted], simp add: rgood_def, assumption)
    done
qed

lemma rsat_fetch_source:
  assumes src: "s \<in> set (cv_reps v (ur_chunk_id c))"
    and k: "\<And>d. chunk_is v (ur_chunk_id c) d \<Longrightarrow> sat (RG ((=) v)) (k d) (\<lambda>_. RG (grown v))"
  shows "sat (RG ((=) v)) (fetch_source M N H c s k) (\<lambda>_. RG (grown v))"
proof -
  let ?i = "ur_chunk_id c"
  have node: "sat (RG ((=) v)) (rp_call (mcl_get_storage_node M s)) (\<lambda>r. RG (\<lambda>v'. v' = v \<and> (\<forall>a. r = Ok a \<longrightarrow> cv_reg v s = Some a)))"
    by (rule rsat_call, frule (1) node_law, drule (1) steady_node) blast
  have rd: "sat (RG (\<lambda>v'. v' = v \<and> (\<forall>cl'. Ok cl = Ok cl' \<longrightarrow> addr cl' = a))) (rp_call (ncl_read_chunk N cl ?i))
      (\<lambda>r. RG (\<lambda>v'. v' = v \<and> (\<forall>j d ck. r = Ok (j, d, ck) \<longrightarrow> cv_blob v a ?i = Some d)))" for cl a
    by (rule rsat_good, rule rsat_call, frule (1) read_law, drule (1) steady_read) simp
  show ?thesis unfolding fetch_source_def
    apply (rule sat_try [OF node], rule rsat_skip, simp)
    apply (rule rsat_good, clarsimp)
    apply (rule sat_try [OF rsat_connect], rule rsat_skip, simp)
    apply (rule sat_try [OF rd], rule rsat_skip, simp)
    apply (rule rsat_good, clarsimp split: prod.split)
    apply (intro conjI impI)
     apply (rule rsat_skip, simp)
    apply (rule k, rule chunk_is_source [OF src], assumption, simp)
    done
qed

text \<open>A chunk of the list, and the nodes, as the metadata service reported them at the start.\<close>

definition still_listed :: "cview \<Rightarrow> UnderReplicatedChunk \<Rightarrow> bool" where
  "still_listed v c \<longleftrightarrow> set (ur_storage_node_ids c) \<subseteq> set (cv_reps v (ur_chunk_id c))"

definition registered :: "cview \<Rightarrow> MetaStorageNode \<Rightarrow> bool" where
  "registered v n \<longleftrightarrow> cv_reg v (msn_id n) = Some (msn_address n)"

lemma rsat_replicate_chunk:
  assumes rand: "\<And>n g. 0 < n \<Longrightarrow> fst (rand_choose R n g) < n"
    and c: "still_listed v c" and ns: "\<forall>n \<in> set nodes. registered v n"
  shows "sat (RG ((=) v)) (replicate_chunk M N H R nodes c) (\<lambda>_. RG (grown v))"
proof -
  let ?el = "filter (\<lambda>n. msn_id n \<notin> set (ur_storage_node_ids c)) nodes"
  have choose: "sat (RG ((=) v)) (choose_target R ?el) (\<lambda>t s. RG ((=) v) s \<and> registered v t)" if "?el \<noteq> []"
  proof (rule satI)
    fix s t s' assume s: "RG ((=) v) s" "choose_target R ?el s = Some (t, s')"
    have "fst (rand_choose R (length ?el) (rp_rng s)) < length ?el" using rand [of "length ?el" "rp_rng s"] that by blast
    then have "t \<in> set ?el" using s(2) nth_mem by (auto simp: choose_target_def split: prod.splits simp del: set_filter)
    moreover have "RG ((=) v) s'" by (rule satD [OF rsat_choose s])
    ultimately show "RG ((=) v) s' \<and> registered v t" using ns by auto
  qed
  have rest: "sat (\<lambda>s. RG ((=) v) s \<and> registered v t)
      (bnd (has_space N (msn_address t)) (\<lambda>space. if \<not> space then ret False else
         case ur_storage_node_ids c of [] \<Rightarrow> ret False | s # _ \<Rightarrow> fetch_source M N H c s (store_target M N c t)))
      (\<lambda>_. RG (grown v))" for t
  proof (cases "registered v t")
    case True
    have stay: "sat (RG ((=) v)) (ret False) (\<lambda>_. RG (grown v))" by (rule rsat_ret) simp
    have fetch: "sat (RG ((=) v)) (fetch_source M N H c s (store_target M N c t)) (\<lambda>_. RG (grown v))"
      if "s \<in> set (ur_storage_node_ids c)" for s
      using that c True by (intro rsat_fetch_source rsat_store_target) (auto simp: still_listed_def registered_def)
    show ?thesis
      by (rule sat_weaken [where P' = "RG ((=) v)" and Q' = "\<lambda>_. RG (grown v)"], rule sat_bnd [OF rsat_has_space])
        (auto intro!: stay fetch split: list.split)
  next
    case False
    then show ?thesis by (auto simp: sat_def)
  qed
  show ?thesis unfolding replicate_chunk_def Let_def
    by (rule sat_if, rule rsat_ret, simp, rule sat_bnd [OF choose rest])
qed

lemma rsat_replicate_chunks:
  assumes rand: "\<And>n g. 0 < n \<Longrightarrow> fst (rand_choose R n g) < n"
    and "\<forall>c \<in> set cs. still_listed v c" "\<forall>n \<in> set nodes. registered v n"
  shows "sat (RG ((=) v)) (replicate_chunks M N H R nodes cs) (\<lambda>_. RG (grown v))"
  using assms(2,3)
proof (induction cs arbitrary: v)
  case Nil
  then show ?case by (simp add: rsat_ret)
next
  case (Cons c cs)
  have one: "sat (RG ((=) v)) (replicate_chunk M N H R nodes c) (\<lambda>_. RG (grown v))"
    using Cons.prems by (intro rsat_replicate_chunk rand) simp_all
  have rest: "sat (RG (grown v)) (replicate_chunks M N H R nodes cs) (\<lambda>_. RG (grown v))"
  proof (rule rsat_good)
    fix v' assume g: "grown v v'"
    then have "\<forall>c \<in> set cs. still_listed v' c" "\<forall>n \<in> set nodes. registered v' n"
      using Cons.prems unfolding still_listed_def registered_def grown_def
      by (meson list.set_intros(2) subset_trans, auto)
    from Cons.IH [OF this] show "sat (RG ((=) v')) (replicate_chunks M N H R nodes cs) (\<lambda>_. RG (grown v))"
      by (rule rsat_conseq) (use g grown_trans in blast)+
  qed
  show ?case unfolding replicate_chunks.simps
    by (rule sat_bnd [OF one], rule sat_bnd [OF rest], rule rsat_ret)
qed

lemma rsat_cycle:
  assumes rand: "\<And>n g. 0 < n \<Longrightarrow> fst (rand_choose R n g) < n"
  shows "sat (RG ((=) v)) (run_replication_cycle M N H R k) (\<lambda>_. RG (grown v))"
proof -
  have under: "sat (RG ((=) v)) (rp_call (mcl_list_under_replicated_chunks M l))
      (\<lambda>r. RG (\<lambda>v'. v' = v \<and> (\<forall>cs. r = Ok cs \<longrightarrow> (\<forall>c \<in> set cs. still_listed v c))))" for l
    by (rule rsat_call, frule (1) under_law, drule (2) steady_under) (simp add: still_listed_def)
  have nodes: "sat (RG ((=) v)) (rp_call (mcl_list_storage_nodes M))
      (\<lambda>r. RG (\<lambda>v'. v' = v \<and> (\<forall>ns. r = Ok ns \<longrightarrow> (\<forall>n \<in> set ns. registered v n))))"
    by (rule rsat_call, frule (1) nodes_law, drule (1) steady_nodes) (simp add: registered_def)
  have stop: "sat (RG \<Phi>) (bnd (inc_failure t) (\<lambda>_. ret 0)) (\<lambda>_. RG (grown v))" "sat (RG \<Phi>) (ret 0) (\<lambda>_. RG (grown v))"
    if "\<And>v'. \<Phi> v' \<Longrightarrow> v' = v" for \<Phi> t
    unfolding inc_failure_def
    by (rule sat_bnd [OF rsat_metric rsat_ret], drule that, simp, rule rsat_ret, drule that, simp)
  show ?thesis unfolding run_replication_cycle_def
    apply (rule sat_bnd [OF rsat_metric])
    apply (rule sat_try [OF under], rule stop, simp)
    apply (rule sat_bnd [OF rsat_metric])
    apply (rule sat_if, rule stop, simp)
    apply (rule rsat_good, elim conjE, simp only: )
    apply (rule sat_try [OF nodes], rule stop, simp)
    apply (rule sat_if, rule stop, simp)
    apply (rule sat_bnd [OF rsat_metric])
    apply (rule rsat_good, elim conjE, simp only: )
    apply (rule rsat_replicate_chunks [OF rand], assumption)
     apply (auto dest: in_set_takeD)
    done
qed

end

section \<open>The main loop\<close>

text \<open>Actions that always return, and that do not count a run.\<close>

definition returns :: "('s, 'a) act \<Rightarrow> bool" where
  "returns m \<longleftrightarrow> (\<forall>s. m s \<noteq> None)"

definition no_run :: "(('g, 'w) ReplState, 'a) act \<Rightarrow> bool" where
  "no_run m \<longleftrightarrow> (\<forall>s x s'. m s = Some (x, s') \<longrightarrow>
     rp_metrics s' Rp_replication_runs_total = rp_metrics s Rp_replication_runs_total)"

lemma returns_bnd: "returns m \<Longrightarrow> (\<And>x. returns (f x)) \<Longrightarrow> returns (bnd m f)"
  by (auto simp: returns_def bnd_def split: option.split)

lemma returns_try: "returns m \<Longrightarrow> (\<And>e. returns (h e)) \<Longrightarrow> (\<And>x. returns (f x)) \<Longrightarrow> returns (try_or m h f)"
  unfolding try_or_def by (intro returns_bnd) (auto split: result.split)

lemma returns_simple:
  "returns (ret x)" "returns (rp_metric_upd f)" "returns (choose_target R ns)" "returns m \<Longrightarrow> returns (rp_call m)"
  by (auto simp: returns_def ret_def rp_metric_upd_def choose_target_def rp_call_def split: prod.split option.split)

lemma no_run_bnd: "no_run m \<Longrightarrow> (\<And>x. no_run (f x)) \<Longrightarrow> no_run (bnd m f)"
  unfolding no_run_def bnd_Some by metis

lemma no_run_try: "no_run m \<Longrightarrow> (\<And>e. no_run (h e)) \<Longrightarrow> (\<And>x. no_run (f x)) \<Longrightarrow> no_run (try_or m h f)"
  unfolding try_or_def by (intro no_run_bnd) (auto split: result.split)

lemma no_run_simple:
  "no_run (ret x)" "no_run (rp_call m)" "no_run (choose_target R ns)" "no_run (inc_failure t)"
  "no_run (rp_metric_upd (metric_inc Rp_chunks_replicated_total))"
  "no_run (rp_metric_upd (metric_set Rp_under_replicated_chunks k))"
  "no_run (rp_metric_upd (metric_add Rp_chunks_skipped_rate_limit k))"
  by (auto simp: no_run_def ret_def rp_call_Some choose_target_def inc_failure_def rp_metric_upd_def
      metric_set_def metric_add_def split: prod.splits)

lemmas cycle_defs = replicate_chunk_def has_space_def skip_chunk_def fetch_source_def cleanup_target_def store_target_def Let_def

lemma no_run_chunks: "no_run (replicate_chunks M N H R nodes cs)"
  by (induction cs)
    (auto simp: cycle_defs intro!: no_run_bnd no_run_try no_run_simple split: list.split prod.split)

text \<open>The clients answer, possibly with an error.\<close>

definition answers :: "'w MetadataClient \<Rightarrow> ('n, 'w) StorageNodeClient \<Rightarrow> bool" where
  "answers M N \<longleftrightarrow> returns (mcl_list_storage_nodes M) \<and> (\<forall>k. returns (mcl_list_under_replicated_chunks M k)) \<and>
     (\<forall>i. returns (mcl_get_storage_node M i)) \<and> (\<forall>i s. returns (mcl_add_chunk_replica M i s)) \<and>
     (\<forall>a. returns (ncl_connect N a)) \<and> (\<forall>c. returns (ncl_get_free_chunks N c)) \<and> (\<forall>c i. returns (ncl_read_chunk N c i)) \<and>
     (\<forall>c i d. returns (ncl_write_chunk N c i d)) \<and> (\<forall>c i. returns (ncl_delete_chunk N c i))"

lemma returns_chunks:
  assumes "answers M N" shows "returns (replicate_chunks M N H R nodes cs)"
  using assms unfolding answers_def
  by (induction cs)
    (auto simp: cycle_defs inc_failure_def intro!: returns_bnd returns_try returns_simple split: list.split prod.split)

lemma cycle_runs:
  assumes "answers M N"
  shows "\<exists>n s'. run_replication_cycle M N H R k s = Some (n, s') \<and>
    rp_metrics s' Rp_replication_runs_total = rp_metrics s Rp_replication_runs_total + 1"
proof -
  let ?s = "s\<lparr>rp_metrics := metric_inc Rp_replication_runs_total (rp_metrics s)\<rparr>"
  obtain m where m: "run_replication_cycle M N H R k s = m ?s" "returns m" "no_run m"
  proof
    let ?m = "try_or (rp_call (mcl_list_under_replicated_chunks M (of_nat RP_MAX_REPLICAS)))
       (\<lambda>_. bnd (inc_failure ''list_chunks'') (\<lambda>_. ret 0)) (\<lambda>chunks.
     bnd (rp_metric_upd (metric_set Rp_under_replicated_chunks (int (length chunks)))) (\<lambda>_.
     if chunks = [] then ret 0
     else try_or (rp_call (mcl_list_storage_nodes M)) (\<lambda>_. bnd (inc_failure ''list_nodes'') (\<lambda>_. ret 0)) (\<lambda>nodes.
          if nodes = [] then ret 0
          else bnd (rp_metric_upd (metric_add Rp_chunks_skipped_rate_limit (int (length chunks - k)))) (\<lambda>_.
               replicate_chunks M N H R nodes (take k chunks)))))"
    show "run_replication_cycle M N H R k s = ?m ?s"
      by (simp add: run_replication_cycle_def bnd_def rp_metric_upd_def)
    show "returns ?m" using assms unfolding answers_def inc_failure_def
      by (auto intro!: returns_bnd returns_try returns_simple returns_chunks [OF assms])
    show "no_run ?m" by (auto intro!: no_run_bnd no_run_try no_run_simple no_run_chunks)
  qed
  then obtain n s' where "m ?s = Some (n, s')" unfolding returns_def by fastforce
  then show ?thesis using m(1,3) unfolding no_run_def by (force simp: metric_add_def)
qed

text \<open>A client whose metadata service is gone: every probe fails.\<close>

definition dead :: "'w MetadataClient \<Rightarrow> bool" where
  "dead M \<longleftrightarrow> (\<forall>w. \<exists>e w'. mcl_list_storage_nodes M w = Some (Err e, w'))"

definition probed :: "'w MetadataClient \<Rightarrow> bool" where
  "probed M \<longleftrightarrow> (\<forall>w. \<exists>ns w'. mcl_list_storage_nodes M w = Some (Ok ns, w'))"

fun ticks where
  "ticks connect urls use N H R k 0 l = Some l"
| "ticks connect urls use N H R k (Suc n) l =
     (case replication_tick connect urls use N H R k l of
        None \<Rightarrow> None | Some (_, l') \<Rightarrow> ticks connect urls use N H R k n l')"

abbreviation runs :: "('m, 'g, 'w) ReplLoop \<Rightarrow> int" where
  "runs l \<equiv> rp_metrics (rl_state l) Rp_replication_runs_total"

lemma rl_call_run: "m (rl_state l) = Some (x, s) \<Longrightarrow> rl_call m l = Some (x, l\<lparr>rl_state := s\<rparr>)"
  by (simp add: rl_call_def)

lemma probe_dead:
  assumes "dead (use (rl_client l))"
  shows "\<exists>l'. probe_and_run use N H R k l = Some ((), l') \<and> rl_client l' = rl_client l \<and>
    rl_consecutive_failures l' = rl_consecutive_failures l + 1 \<and> runs l' = runs l"
proof -
  obtain e w' where "mcl_list_storage_nodes (use (rl_client l)) (rp_world (rl_state l)) = Some (Err e, w')"
    using assms unfolding dead_def by blast
  then have "rl_call (rp_call (mcl_list_storage_nodes (use (rl_client l)))) l =
      Some (Err e, l\<lparr>rl_state := (rl_state l)\<lparr>rp_world := w'\<rparr>\<rparr>)" by (simp add: rl_call_def rp_call_def)
  then show ?thesis
    by (simp add: probe_and_run_def try_or_run(2) rl_call_def inc_failure_def rp_metric_upd_def metric_add_def)
qed

lemma probe_alive:
  assumes "probed (use (rl_client l))" "answers (use (rl_client l)) N"
  shows "\<exists>l'. probe_and_run use N H R k l = Some ((), l') \<and> rl_client l' = rl_client l \<and>
    rl_consecutive_failures l' = 0 \<and> runs l' = runs l + 1"
proof -
  obtain ns w' where w: "mcl_list_storage_nodes (use (rl_client l)) (rp_world (rl_state l)) = Some (Ok ns, w')"
    using assms unfolding probed_def by blast
  let ?l = "l\<lparr>rl_state := (rl_state l)\<lparr>rp_world := w'\<rparr>\<rparr>"
  have p: "rl_call (rp_call (mcl_list_storage_nodes (use (rl_client l)))) l = Some (Ok ns, ?l)"
    using w by (simp add: rl_call_def rp_call_def)
  obtain n s' where s: "run_replication_cycle (use (rl_client l)) N H R k (rl_state ?l) = Some (n, s')"
    "rp_metrics s' Rp_replication_runs_total = rp_metrics (rl_state ?l) Rp_replication_runs_total + 1"
    using cycle_runs [OF assms(2)] by blast
  then show ?thesis
    by (simp add: probe_and_run_def try_or_run(1) [where m = "rl_call (rp_call (mcl_list_storage_nodes (use (rl_client l))))", OF p] rl_call_def bnd_def ret_def)
qed

lemma tick_reconnects:
  assumes "MAX_CONSECUTIVE_FAILURES \<le> rl_consecutive_failures l"
    and "\<forall>w. \<exists>w'. connect_any connect urls w = Some (Some c, w')" and "probed (use c)" "answers (use c) N"
  shows "\<exists>l'. replication_tick connect urls use N H R k l = Some ((), l') \<and> rl_client l' = c \<and>
    rl_consecutive_failures l' = 0 \<and> runs l' = runs l + 1"
proof -
  obtain w' where w: "connect_any connect urls (rp_world (rl_state l)) = Some (Some c, w')" using assms(2) by blast
  let ?l = "l\<lparr>rl_state := (rl_state l)\<lparr>rp_world := w'\<rparr>, rl_client := c, rl_consecutive_failures := 0\<rparr>"
  have r: "reconnect connect urls l = Some (True, ?l)"
    using w by (simp add: reconnect_def bnd_def rl_call_def rp_call_def)
  then show ?thesis using probe_alive [of use ?l N H R k] assms(1,3,4)
    by (simp add: replication_tick_def bnd_run [where m = "reconnect connect urls", OF r])
qed

end
