(* ===== verification/ReplicationProgress.thy ===== *)
theory ReplicationProgress
  imports ReplicationCorrect
begin

text \<open>
  That replication gets somewhere: over a backend whose metadata service saves, whose registered
  nodes answer and have free slots, a cycle gives every chunk with fewer than three replicas
  one more, as long as there is a node that does not hold it.
\<close>

section \<open>Total correctness of actions\<close>

text \<open>From a state with \<open>P\<close> the action returns, with a value and a state satisfying \<open>Q\<close>.\<close>

definition tot :: "('s \<Rightarrow> bool) \<Rightarrow> ('s, 'a) act \<Rightarrow> ('a \<Rightarrow> 's \<Rightarrow> bool) \<Rightarrow> bool" where
  "tot P m Q \<longleftrightarrow> (\<forall>s. P s \<longrightarrow> (\<exists>x s'. m s = Some (x, s') \<and> Q x s'))"

lemma totI: "(\<And>s. P s \<Longrightarrow> \<exists>x s'. m s = Some (x, s') \<and> Q x s') \<Longrightarrow> tot P m Q"
  by (simp add: tot_def)

lemma totD: "tot P m Q \<Longrightarrow> P s \<Longrightarrow> \<exists>x s'. m s = Some (x, s') \<and> Q x s'"
  by (simp add: tot_def)

lemma tot_ret: "(\<And>s. P s \<Longrightarrow> Q x s) \<Longrightarrow> tot P (ret x) Q"
  by (simp add: tot_def ret_def)

lemma tot_bnd: "tot P m R \<Longrightarrow> (\<And>x. tot (R x) (f x) Q) \<Longrightarrow> tot P (bnd m f) Q"
  unfolding tot_def by (metis bnd_run)

text \<open>A call that succeeds: the error branch is never taken.\<close>

lemma tot_try: "tot P m (\<lambda>r s. \<exists>v. r = Ok v \<and> R v s) \<Longrightarrow> (\<And>v. tot (R v) (f v) Q) \<Longrightarrow> tot P (try_or m h f) Q"
  unfolding try_or_def by (rule tot_bnd, assumption) (auto simp: tot_def split: result.split)

lemma tot_weaken: "tot P' m Q' \<Longrightarrow> (\<And>s. P s \<Longrightarrow> P' s) \<Longrightarrow> (\<And>x s. Q' x s \<Longrightarrow> Q x s) \<Longrightarrow> tot P m Q"
  unfolding tot_def by blast

lemma tot_conj: "(b \<Longrightarrow> tot P m Q) \<Longrightarrow> tot (\<lambda>s. P s \<and> b) m Q"
  unfolding tot_def by blast

lemma tot_ex: "(\<And>y. tot (P y) m Q) \<Longrightarrow> tot (\<lambda>s. \<exists>y. P y s) m Q"
  unfolding tot_def by blast

section \<open>Views in which replication can go on\<close>

text \<open>
  No two registered nodes share an address, every chunk with replicas is stored at all of them,
  and a registered node that holds a copy is listed as a replica.
\<close>

definition tidy :: "cview \<Rightarrow> bool" where
  "tidy v \<longleftrightarrow> (\<forall>s t a. cv_reg v s = Some a \<and> cv_reg v t = Some a \<longrightarrow> s = t) \<and>
     (\<forall>i. cv_reps v i \<noteq> [] \<longrightarrow> (\<exists>d. chunk_stored v i d)) \<and>
     (\<forall>i s a. cv_reps v i \<noteq> [] \<and> cv_reg v s = Some a \<and> cv_blob v a i \<noteq> None \<longrightarrow> s \<in> set (cv_reps v i))"

lemma tidy_fresh:
  assumes "tidy v" "cv_reps v i \<noteq> []" "cv_reg v s = Some a" "s \<notin> set (cv_reps v i)"
  shows "cv_blob v a i = None"
  using assms unfolding tidy_def by meson

text \<open>The checksums on record are those of the stored bytes.\<close>

definition checked :: "'h crc32 \<Rightarrow> cview \<Rightarrow> (u64 \<Rightarrow> u32 option) \<Rightarrow> bool" where
  "checked H v sm \<longleftrightarrow> (\<forall>i d. chunk_stored v i d \<longrightarrow> sm i = Some (compute_checksum H d))"

text \<open>One more replica of a chunk, at a node that did not hold it.\<close>

definition one_more :: "u64 \<Rightarrow> cview \<Rightarrow> cview \<Rightarrow> bool" where
  "one_more i v v' \<longleftrightarrow> (\<exists>t a d. cv_reg v t = Some a \<and> t \<notin> set (cv_reps v i) \<and> cv_blob v a i = None \<and> chunk_stored v i d \<and>
     v' = cv_replica i t (cv_write a i d v))"

definition eligible :: "cview \<Rightarrow> u64 \<Rightarrow> bool" where
  "eligible v i \<longleftrightarrow> cv_reps v i \<noteq> [] \<and> (\<exists>t a. cv_reg v t = Some a \<and> t \<notin> set (cv_reps v i))"

lemma one_more_frame:
  assumes "one_more i v v'"
  shows "cv_objs v' = cv_objs v" "cv_reg v' = cv_reg v" "length (cv_reps v' i) = Suc (length (cv_reps v i))"
    "j \<noteq> i \<Longrightarrow> cv_reps v' j = cv_reps v j"
  using assms by (auto simp: one_more_def cv_replica_def cv_write_def)

lemma one_more_stored:
  assumes "one_more i v v'"
  shows "chunk_stored v' j d \<longleftrightarrow> chunk_stored v j d"
proof (cases "j = i")
  case False
  then have "cv_blob v' b j = cv_blob v b j" for b using assms by (auto simp: one_more_def cv_replica_def cv_write_def)
  then show ?thesis using one_more_frame(2,4) [OF assms] False by (simp add: chunk_stored_def)
next
  case True
  obtain t a e where m: "cv_reg v t = Some a" "t \<notin> set (cv_reps v i)" "cv_blob v a i = None" "chunk_stored v i e"
    "v' = cv_replica i t (cv_write a i e v)" using assms by (auto simp: one_more_def)
  have "b \<noteq> a" if "s \<in> set (cv_reps v i)" "cv_reg v s = Some b" for s b
    using m(3,4) that by (auto simp: chunk_stored_def)
  then have "chunk_stored v' i e" using m(1,4) unfolding m(5) by (fastforce simp: chunk_stored_def cv_replica_def cv_write_def)
  moreover have "d = e" if "chunk_stored w i d" "chunk_stored w i e" for w
  proof -
    have "hd (cv_reps w i) \<in> set (cv_reps w i)" using that(1) by (simp add: chunk_stored_def)
    then show ?thesis using that unfolding chunk_stored_def by (metis option.inject)
  qed
  ultimately show ?thesis using m(4) True by blast
qed

lemma one_more_checked: "one_more i v v' \<Longrightarrow> checked H v sm \<Longrightarrow> checked H v' sm"
  by (simp add: checked_def one_more_stored)

lemma one_more_tidy:
  assumes m: "one_more i v v'" and t: "tidy v"
  shows "tidy v'"
proof -
  obtain t a d where v': "cv_reg v t = Some a" "chunk_stored v i d" "v' = cv_replica i t (cv_write a i d v)"
    using m by (auto simp: one_more_def)
  have "\<exists>e. chunk_stored v' j e" if "cv_reps v' j \<noteq> []" for j
    using that t v'(2) one_more_frame(4) [OF m, of j] unfolding one_more_stored [OF m] tidy_def by metis
  moreover have "s \<in> set (cv_reps v' j)" if "cv_reps v' j \<noteq> []" "cv_reg v' s = Some b" "cv_blob v' b j \<noteq> None" for j s b
  proof (cases "j = i \<and> b = a")
    case True
    then have "s = t" using that(2) t v'(1) one_more_frame(2) [OF m] unfolding tidy_def by metis
    then show ?thesis using True by (simp add: v'(3) cv_replica_def)
  next
    case False
    then have "cv_blob v b j \<noteq> None" using that(3) by (auto simp: v'(3) cv_replica_def cv_write_def split: if_splits)
    moreover have "cv_reps v j \<noteq> []" using that(1) v'(2) one_more_frame(4) [OF m, of j] by (cases "j = i") (auto simp: chunk_stored_def)
    ultimately have "s \<in> set (cv_reps v j)" using t that(2) one_more_frame(2) [OF m] unfolding tidy_def by metis
    then show ?thesis by (auto simp: v'(3) cv_replica_def cv_write_def)
  qed
  ultimately show ?thesis using t one_more_frame(2) [OF m] unfolding tidy_def by (smt (verit))
qed

text \<open>One more replica of each eligible chunk of \<open>I\<close>, and nothing else.\<close>

definition advanced :: "u64 set \<Rightarrow> cview \<Rightarrow> cview \<Rightarrow> bool" where
  "advanced I v v' \<longleftrightarrow> cv_objs v' = cv_objs v \<and> cv_reg v' = cv_reg v \<and> chunk_stored v' = chunk_stored v \<and>
     (\<forall>i. if i \<in> I \<and> eligible v i then length (cv_reps v' i) = Suc (length (cv_reps v i)) else cv_reps v' i = cv_reps v i)"

lemma advanced_empty: "advanced {} v v"
  by (simp add: advanced_def)

lemma advanced_step:
  assumes one: "if eligible v i then one_more i v v1 else v1 = v" and rest: "advanced I v1 v2" and i: "i \<notin> I"
  shows "advanced (insert i I) v v2"
proof -
  have f: "cv_objs v1 = cv_objs v" "cv_reg v1 = cv_reg v" "chunk_stored v1 = chunk_stored v" "\<And>j. j \<noteq> i \<Longrightarrow> cv_reps v1 j = cv_reps v j"
    using one one_more_frame [of i v v1] one_more_stored [of i v v1] by (auto simp: fun_eq_iff split: if_splits)
  then have "eligible v1 j \<longleftrightarrow> eligible v j" if "j \<noteq> i" for j using that by (simp add: eligible_def)
  moreover have "eligible v i \<Longrightarrow> length (cv_reps v1 i) = Suc (length (cv_reps v i))" "\<not> eligible v i \<Longrightarrow> cv_reps v1 i = cv_reps v i"
    using one one_more_frame(3) [of i v v1] by (auto split: if_splits)
  ultimately show ?thesis using rest i f unfolding advanced_def by (smt (verit) insert_iff)
qed

lemma advanced_length:
  assumes t: "tidy v" and a: "advanced I v v'" and r: "cv_reps v i \<noteq> []" and I: "length (cv_reps v i) < 3 \<Longrightarrow> i \<in> I"
  shows "min 3 (min (card (dom (cv_reg v))) (Suc (length (cv_reps v i)))) \<le> length (cv_reps v' i)"
    and "length (cv_reps v i) \<le> length (cv_reps v' i)"
proof -
  have "card (dom (cv_reg v)) \<le> length (cv_reps v i)" if "\<not> eligible v i"
  proof -
    have "dom (cv_reg v) \<subseteq> set (cv_reps v i)" using that r unfolding eligible_def dom_def by blast
    then show ?thesis by (meson List.finite_set card_length card_mono le_trans)
  qed
  moreover have "if i \<in> I \<and> eligible v i then length (cv_reps v' i) = Suc (length (cv_reps v i)) else cv_reps v' i = cv_reps v i"
    using a by (simp add: advanced_def)
  ultimately show "min 3 (min (card (dom (cv_reg v))) (Suc (length (cv_reps v i)))) \<le> length (cv_reps v' i)"
    "length (cv_reps v i) \<le> length (cv_reps v' i)" using I
    by (cases "length (cv_reps v i) < 3"; cases "eligible v i"; cases "i \<in> I"; simp)+
qed

section \<open>The interface: a backend that answers the calls of a cycle\<close>

text \<open>
  \<open>sums\<close> is the recorded checksum of each confirmed chunk, \<open>space\<close> the free slots at an address.
\<close>

definition kept :: "('w \<Rightarrow> bool) \<Rightarrow> ('w \<Rightarrow> u64 \<Rightarrow> u32 option) \<Rightarrow> ('w \<Rightarrow> string \<Rightarrow> nat) \<Rightarrow> 'w \<Rightarrow> 'w \<Rightarrow> bool" where
  "kept ready sums space w w' \<longleftrightarrow> ready w' \<and> sums w' = sums w \<and> space w' = space w"

locale progress_backend = steady_backend +
  fixes ready :: "'a \<Rightarrow> bool" and sums :: "'a \<Rightarrow> u64 \<Rightarrow> u32 option" and space :: "'a \<Rightarrow> string \<Rightarrow> nat"
  assumes ready_nodes: "sound w \<Longrightarrow> ready w \<Longrightarrow> \<exists>ns w'. mcl_list_storage_nodes M w = Some (Ok ns, w') \<and>
      kept ready sums space w w' \<and> (\<forall>s a. cv_reg (view w) s = Some a \<longrightarrow> \<lparr>msn_id = s, msn_address = a\<rparr> \<in> set ns)"
    and ready_node: "sound w \<Longrightarrow> ready w \<Longrightarrow> cv_reg (view w) s = Some a \<Longrightarrow>
      \<exists>w'. mcl_get_storage_node M s w = Some (Ok a, w') \<and> kept ready sums space w w'"
    and ready_under: "sound w \<Longrightarrow> ready w \<Longrightarrow> k \<noteq> 0 \<Longrightarrow> \<exists>cs w'. mcl_list_under_replicated_chunks M k w = Some (Ok cs, w') \<and>
      kept ready sums space w w' \<and> distinct (map ur_chunk_id cs) \<and>
      (\<forall>c \<in> set cs. sums w (ur_chunk_id c) = Some (ur_checksum c)) \<and>
      (\<forall>i. i \<in> ur_chunk_id ` set cs \<longleftrightarrow> sums w i \<noteq> None \<and> length (cv_reps (view w) i) < unat k)"
    and ready_known: "sound w \<Longrightarrow> ready w \<Longrightarrow> cv_reps (view w) i \<noteq> [] \<Longrightarrow> sums w i \<noteq> None"
    and ready_connect: "sound w \<Longrightarrow> ready w \<Longrightarrow> cv_reg (view w) s = Some a \<Longrightarrow>
      \<exists>cl w'. ncl_connect N a w = Some (Ok cl, w') \<and> kept ready sums space w w'"
    and ready_free: "sound w \<Longrightarrow> ready w \<Longrightarrow> cv_reg (view w) s = Some (addr cl) \<Longrightarrow> 0 < space w (addr cl) \<Longrightarrow>
      \<exists>n w'. ncl_get_free_chunks N cl w = Some (Ok n, w') \<and> 0 < n \<and> kept ready sums space w w'"
    and ready_read: "sound w \<Longrightarrow> ready w \<Longrightarrow> cv_reg (view w) s = Some (addr cl) \<Longrightarrow> cv_blob (view w) (addr cl) i = Some d \<Longrightarrow>
      \<exists>e w'. ncl_read_chunk N cl i w = Some (Ok e, w') \<and> kept ready sums space w w'"
    and ready_write: "sound w \<Longrightarrow> ready w \<Longrightarrow> cv_reg (view w) s = Some (addr cl) \<Longrightarrow> 0 < space w (addr cl) \<Longrightarrow>
      cv_blob (view w) (addr cl) i = None \<Longrightarrow> cv_blob (view w) b i = Some d \<Longrightarrow>
      \<exists>z w'. ncl_write_chunk N cl i d w = Some (Ok z, w') \<and> ready w' \<and> sums w' = sums w \<and>
        space w' = (space w)(addr cl := space w (addr cl) - 1)"
    and ready_replica: "sound w \<Longrightarrow> ready w \<Longrightarrow> cv_reg (view w) s = Some a \<Longrightarrow> s \<notin> set (cv_reps (view w) i) \<Longrightarrow>
      sums w i \<noteq> None \<Longrightarrow> length (cv_reps (view w) i) < 3 \<Longrightarrow>
      \<exists>w'. mcl_add_chunk_replica M i s w = Some (Ok (), w') \<and> kept ready sums space w w'"
begin

text \<open>Everything known of a world: it is sound, steady and ready, and how it looks.\<close>

definition at_view :: "cview \<Rightarrow> (u64 \<Rightarrow> u32 option) \<Rightarrow> (string \<Rightarrow> nat) \<Rightarrow> ('z, 'a) ReplState \<Rightarrow> bool" where
  "at_view v sm sp s \<longleftrightarrow> sound (rp_world s) \<and> steady (rp_world s) \<and> ready (rp_world s) \<and>
     view (rp_world s) = v \<and> sums (rp_world s) = sm \<and> space (rp_world s) = sp"

lemma tot_call:
  assumes "\<And>w. sound w \<Longrightarrow> steady w \<Longrightarrow> ready w \<Longrightarrow> view w = v \<Longrightarrow> sums w = sm \<Longrightarrow> space w = sp \<Longrightarrow>
    \<exists>x w'. m w = Some (Ok x, w') \<and> sound w' \<and> steady w' \<and> kept ready sums space w w' \<and> view w' = v \<and> Q x"
  shows "tot (at_view v sm sp) (rp_call m) (\<lambda>r s. \<exists>x. r = Ok x \<and> at_view v sm sp s \<and> Q x)"
proof (rule totI)
  fix s :: "('z, 'a) ReplState" assume s: "at_view v sm sp s"
  then obtain x w' where "m (rp_world s) = Some (Ok x, w')" "sound w'" "steady w'" "kept ready sums space (rp_world s) w'" "view w' = v" "Q x"
    using assms [of "rp_world s"] unfolding at_view_def by blast
  then show "\<exists>r s'. rp_call m s = Some (r, s') \<and> (\<exists>x. r = Ok x \<and> at_view v sm sp s' \<and> Q x)"
    using s by (auto simp: rp_call_def at_view_def kept_def)
qed

lemma tot_connect:
  assumes "cv_reg v s = Some a"
  shows "tot (at_view v sm sp) (rp_call (ncl_connect N a)) (\<lambda>r s. \<exists>cl. r = Ok cl \<and> at_view v sm sp s \<and> addr cl = a)"
proof (rule tot_call)
  fix w assume w: "sound w" "steady w" "ready w" "view w = v"
  obtain cl w' where c: "ncl_connect N a w = Some (Ok cl, w')" "kept ready sums space w w'"
    using ready_connect [OF w(1,3)] assms w(4) by blast
  then show "\<exists>x w'. ncl_connect N a w = Some (Ok x, w') \<and> sound w' \<and> steady w' \<and> kept ready sums space w w' \<and> view w' = v \<and> addr x = a"
    using connect_law [OF w(1) c(1)] steady_connect [OF w(2) c(1)] w(4) by auto
qed

lemma tot_read:
  assumes "cv_reg v s = Some a" "cv_blob v a i = Some d" "addr cl = a"
  shows "tot (at_view v sm sp) (rp_call (ncl_read_chunk N cl i)) (\<lambda>r s. \<exists>x. r = Ok x \<and> at_view v sm sp s \<and> fst (snd x) = d)"
proof (rule tot_call)
  fix w assume w: "sound w" "steady w" "ready w" "view w = v"
  obtain e w' where c: "ncl_read_chunk N cl i w = Some (Ok e, w')" "kept ready sums space w w'"
    using ready_read [OF w(1,3), of s cl i d] assms w(4) by auto
  then show "\<exists>x w'. ncl_read_chunk N cl i w = Some (Ok x, w') \<and> sound w' \<and> steady w' \<and> kept ready sums space w w' \<and> view w' = v \<and> fst (snd x) = d"
    using read_law [OF w(1) c(1)] steady_read [OF w(2) c(1)] w(4) assms by (cases e) auto
qed

lemma tot_has_space:
  assumes "cv_reg v s = Some a" "0 < sp a"
  shows "tot (at_view v sm sp) (has_space N a) (\<lambda>b s. b \<and> at_view v sm sp s)"
proof -
  have free: "tot (\<lambda>s. at_view v sm sp s \<and> addr cl = a) (rp_call (ncl_get_free_chunks N cl))
      (\<lambda>r s. \<exists>n. r = Ok n \<and> at_view v sm sp s \<and> 0 < n)" for cl
  proof (rule tot_conj, rule tot_call)
    fix w assume w: "addr cl = a" "sound w" "steady w" "ready w" "view w = v" "space w = sp"
    obtain n w' where c: "ncl_get_free_chunks N cl w = Some (Ok n, w')" "0 < n" "kept ready sums space w w'"
      using ready_free [OF w(2,4), of s cl] assms w(1,5,6) by auto
    then show "\<exists>x w'. ncl_get_free_chunks N cl w = Some (Ok x, w') \<and> sound w' \<and> steady w' \<and> kept ready sums space w w' \<and> view w' = v \<and> 0 < x"
      using free_law [OF w(2) c(1)] steady_free [OF w(3) c(1)] w(5) by auto
  qed
  show ?thesis unfolding has_space_def
    by (rule tot_try [OF tot_connect [OF assms(1)]], rule tot_try [OF free], rule tot_ret) auto
qed

lemma tot_store_target:
  assumes t: "cv_reg v (msn_id t) = Some (msn_address t)" "msn_id t \<notin> set (cv_reps v (ur_chunk_id c))"
    and b: "cv_blob v (msn_address t) (ur_chunk_id c) = None" "0 < sp (msn_address t)"
    and d: "chunk_stored v (ur_chunk_id c) d" "sm (ur_chunk_id c) \<noteq> None" "length (cv_reps v (ur_chunk_id c)) < 3"
  shows "tot (at_view v sm sp) (store_target M N c t d) (\<lambda>_ s.
    at_view (cv_replica (ur_chunk_id c) (msn_id t) (cv_write (msn_address t) (ur_chunk_id c) d v)) sm
      (sp(msn_address t := sp (msn_address t) - 1)) s)"
proof -
  let ?i = "ur_chunk_id c" and ?a = "msn_address t"
  let ?v = "cv_write ?a ?i d v" and ?sp = "sp(?a := sp ?a - 1)"
  obtain e where e: "cv_blob v e ?i = Some d"
    using d(1) hd_in_set unfolding chunk_stored_def by blast
  have wr: "tot (\<lambda>s. at_view v sm sp s \<and> addr cl = ?a) (rp_call (ncl_write_chunk N cl ?i d)) (\<lambda>r s. \<exists>x. r = Ok x \<and> at_view ?v sm ?sp s)" for cl
  proof (rule totI)
    fix s :: "('z, 'a) ReplState" assume s: "at_view v sm sp s \<and> addr cl = ?a"
    let ?w = "rp_world s"
    have w: "sound ?w" "steady ?w" "ready ?w" "view ?w = v" "sums ?w = sm" "space ?w = sp" using s by (auto simp: at_view_def)
    obtain z w' where c: "ncl_write_chunk N cl ?i d ?w = Some (Ok z, w')" "ready w'" "sums w' = sums ?w"
      "space w' = (space ?w)(addr cl := space ?w (addr cl) - 1)"
      using ready_write [OF w(1,3), of "msn_id t" cl ?i e d] s t(1) b e w(4,6) by auto
    have "at_view ?v sm ?sp (s\<lparr>rp_world := w'\<rparr>)"
      using write_law [OF w(1) c(1)] steady_write [OF w(2) c(1)] c s w by (simp add: at_view_def)
    then show "\<exists>r s'. rp_call (ncl_write_chunk N cl ?i d) s = Some (r, s') \<and> (\<exists>x. r = Ok x \<and> at_view ?v sm ?sp s')"
      using c(1) by (simp add: rp_call_def)
  qed
  have ad: "tot (at_view ?v sm ?sp) (rp_call (mcl_add_chunk_replica M ?i (msn_id t)))
      (\<lambda>r s. \<exists>x. r = Ok x \<and> at_view (cv_replica ?i (msn_id t) ?v) sm ?sp s)"
  proof (rule totI)
    fix s :: "('z, 'a) ReplState" assume s: "at_view ?v sm ?sp s"
    let ?w = "rp_world s"
    have w: "sound ?w" "steady ?w" "ready ?w" "view ?w = ?v" "sums ?w = sm" "space ?w = ?sp" using s by (auto simp: at_view_def)
    obtain w' where c: "mcl_add_chunk_replica M ?i (msn_id t) ?w = Some (Ok (), w')" "kept ready sums space ?w w'"
      using ready_replica [OF w(1,3), of "msn_id t" ?a ?i] t d(2,3) w(4,5) by (auto simp: cv_write_def)
    have "at_view (cv_replica ?i (msn_id t) ?v) sm ?sp (s\<lparr>rp_world := w'\<rparr>)"
      using replica_law [OF w(1) c(1)] steady_replica [OF w(1,2) c(1)] c w by (simp add: at_view_def kept_def)
    then show "\<exists>r s'. rp_call (mcl_add_chunk_replica M ?i (msn_id t)) s = Some (r, s') \<and>
        (\<exists>x. r = Ok x \<and> at_view (cv_replica ?i (msn_id t) ?v) sm ?sp s')"
      using c(1) by (simp add: rp_call_def)
  qed
  show ?thesis unfolding store_target_def
    by (rule tot_try [OF tot_connect [OF t(1)]], rule tot_try [OF wr], rule tot_try [OF ad])
      (auto simp: tot_def bnd_def rp_metric_upd_def ret_def at_view_def)
qed

lemma tot_fetch_source:
  assumes s: "cv_reg v s = Some a" "cv_blob v a (ur_chunk_id c) = Some d" and ck: "compute_checksum H d = ur_checksum c"
    and k: "tot (at_view v sm sp) (k d) Q"
  shows "tot (at_view v sm sp) (fetch_source M N H c s k) Q"
proof -
  have nd: "tot (at_view v sm sp) (rp_call (mcl_get_storage_node M s)) (\<lambda>r s. \<exists>x. r = Ok x \<and> at_view v sm sp s \<and> x = a)"
  proof (rule tot_call)
    fix w assume w: "sound w" "steady w" "ready w" "view w = v"
    obtain w' where c: "mcl_get_storage_node M s w = Some (Ok a, w')" "kept ready sums space w w'"
      using ready_node [OF w(1,3), of s a] s w(4) by blast
    then show "\<exists>x w'. mcl_get_storage_node M s w = Some (Ok x, w') \<and> sound w' \<and> steady w' \<and> kept ready sums space w w' \<and> view w' = v \<and> x = a"
      using node_law [OF w(1) c(1)] steady_node [OF w(2) c(1)] w(4) by auto
  qed
  have conn: "tot (\<lambda>s. at_view v sm sp s \<and> b = a) (rp_call (ncl_connect N b)) (\<lambda>r s. \<exists>cl. r = Ok cl \<and> at_view v sm sp s \<and> addr cl = a)" for b
    by (rule tot_conj, simp only: , rule tot_connect [OF s(1)])
  have rd: "tot (\<lambda>s. at_view v sm sp s \<and> addr cl = a) (rp_call (ncl_read_chunk N cl (ur_chunk_id c)))
      (\<lambda>r s. \<exists>x. r = Ok x \<and> at_view v sm sp s \<and> fst (snd x) = d)" for cl
    by (rule tot_conj, rule tot_read [OF s])
  show ?thesis unfolding fetch_source_def
    by (rule tot_try [OF nd], rule tot_try [OF conn], rule tot_try [OF rd], rule tot_conj)
      (use ck k in \<open>auto split: prod.split\<close>)
qed

text \<open>One chunk, as the metadata service reports it, and the nodes it reports.\<close>

definition reported :: "cview \<Rightarrow> (u64 \<Rightarrow> u32 option) \<Rightarrow> UnderReplicatedChunk \<Rightarrow> bool" where
  "reported v sm c \<longleftrightarrow> ur_storage_node_ids c = cv_reps v (ur_chunk_id c) \<and> sm (ur_chunk_id c) = Some (ur_checksum c) \<and>
     length (cv_reps v (ur_chunk_id c)) < 3"

definition all_nodes :: "cview \<Rightarrow> MetaStorageNode list \<Rightarrow> bool" where
  "all_nodes v nodes \<longleftrightarrow> (\<forall>n \<in> set nodes. registered v n) \<and>
     (\<forall>s a. cv_reg v s = Some a \<longrightarrow> \<lparr>msn_id = s, msn_address = a\<rparr> \<in> set nodes)"

lemma tot_replicate_chunk:
  fixes R :: "'z rand"
  assumes rand: "\<And>n g. 0 < n \<Longrightarrow> fst (rand_choose R n g) < n"
    and v: "tidy v" "checked H v sm" and c: "reported v sm c" and ns: "all_nodes v nodes"
    and room: "\<And>s a. cv_reg v s = Some a \<Longrightarrow> 0 < sp a"
  shows "tot (at_view v sm sp) (replicate_chunk M N H R nodes c) (\<lambda>_ s. \<exists>v' sp'. at_view v' sm sp' s \<and>
    (if eligible v (ur_chunk_id c) then one_more (ur_chunk_id c) v v' else v' = v) \<and> (\<forall>a. sp a \<le> Suc (sp' a)))"
    (is "tot _ _ ?Q")
proof -
  let ?i = "ur_chunk_id c" and ?el = "filter (\<lambda>n. msn_id n \<notin> set (ur_storage_node_ids c)) nodes"
  have ids: "ur_storage_node_ids c = cv_reps v ?i" using c by (simp add: reported_def)
  have stay: "tot (at_view v sm sp) (ret False) ?Q" if "\<not> eligible v ?i"
    using that by (intro tot_ret) (auto intro!: exI [of _ v] exI [of _ sp])
  have choose: "tot (at_view v sm sp) (choose_target R ?el) (\<lambda>t s. at_view v sm sp s \<and> t \<in> set ?el)" if "?el \<noteq> []"
  proof (rule totI)
    fix s :: "('z, 'a) ReplState" assume s: "at_view v sm sp s"
    obtain k g where k: "rand_choose R (length ?el) (rp_rng s) = (k, g)" by fastforce
    have "k < length ?el" using rand [of "length ?el" "rp_rng s"] that k by (simp del: length_filter_conv_card)
    then have "?el ! k \<in> set ?el" by (rule nth_mem)
    then show "\<exists>t s'. choose_target R ?el s = Some (t, s') \<and> at_view v sm sp s' \<and> t \<in> set ?el"
      using k s by (simp add: choose_target_def at_view_def del: set_filter)
  qed
  have go: "tot (\<lambda>s. at_view v sm sp s \<and> t \<in> set ?el) (bnd (has_space N (msn_address t)) (\<lambda>space. if \<not> space then ret False else
      case cv_reps v ?i of [] \<Rightarrow> ret False | s # _ \<Rightarrow> fetch_source M N H c s (store_target M N c t))) ?Q" for t
  proof (rule tot_conj)
    assume "t \<in> set ?el"
    then have t: "cv_reg v (msn_id t) = Some (msn_address t)" "msn_id t \<notin> set (cv_reps v ?i)"
      using ns ids by (auto simp: all_nodes_def registered_def)
    have rest: "tot (at_view v sm sp)
      (case cv_reps v ?i of [] \<Rightarrow> ret False | s # _ \<Rightarrow> fetch_source M N H c s (store_target M N c t)) ?Q"
    proof (cases "cv_reps v ?i")
      case Nil
      then show ?thesis using stay by (simp add: eligible_def)
    next
      case (Cons src rs)
      have "cv_reps v ?i \<noteq> []" using Cons by simp
      then obtain d where d: "chunk_stored v ?i d" using v(1) unfolding tidy_def by blast
      obtain b where b: "cv_reg v src = Some b" "cv_blob v b ?i = Some d" using d Cons by (auto simp: chunk_stored_def)
      have "compute_checksum H d = ur_checksum c" using v(2) d c by (auto simp: checked_def reported_def)
      moreover have fresh: "cv_blob v (msn_address t) ?i = None" by (rule tidy_fresh [OF v(1) _ t]) (use Cons in simp)
      moreover have "tot (at_view v sm sp) (store_target M N c t d) ?Q"
      proof (rule tot_weaken [OF tot_store_target [OF t fresh _ d]])
        fix x and s :: "('z, 'a) ReplState"
        let ?v = "cv_replica ?i (msn_id t) (cv_write (msn_address t) ?i d v)" and ?sp = "sp(msn_address t := sp (msn_address t) - 1)"
        assume "at_view ?v sm ?sp s"
        moreover have "one_more ?i v ?v" using t fresh d by (auto simp: one_more_def)
        moreover have "eligible v ?i" using t Cons by (auto simp: eligible_def)
        ultimately show "?Q x s" by (intro exI [of _ ?v] exI [of _ ?sp]) auto
      qed (use room [OF t(1)] c in \<open>auto simp: reported_def\<close>)
      ultimately have "tot (at_view v sm sp) (fetch_source M N H c src (store_target M N c t)) ?Q"
        by (intro tot_fetch_source [OF b])
      then show ?thesis unfolding Cons by simp
    qed
    show "tot (at_view v sm sp) (bnd (has_space N (msn_address t)) (\<lambda>space. if \<not> space then ret False else
      case cv_reps v ?i of [] \<Rightarrow> ret False | s # _ \<Rightarrow> fetch_source M N H c s (store_target M N c t))) ?Q"
      by (rule tot_bnd [OF tot_has_space [where sp = sp, OF t(1) room [OF t(1)]]]) (use rest in \<open>auto simp: tot_def\<close>)
  qed
  have none: "\<not> eligible v ?i" if "?el = []"
    using that ns unfolding ids eligible_def all_nodes_def filter_empty_conv by force
  show ?thesis
  proof (cases "?el = []")
    case True
    show ?thesis unfolding replicate_chunk_def Let_def if_P [OF True] by (rule stay [OF none [OF True]])
  next
    case False
    show ?thesis unfolding replicate_chunk_def Let_def if_not_P [OF False] unfolding ids
      by (rule tot_bnd [OF choose go, unfolded ids], rule False [unfolded ids])
  qed
qed

lemma tot_replicate_chunks:
  fixes R :: "'z rand"
  assumes rand: "\<And>n g. 0 < n \<Longrightarrow> fst (rand_choose R n g) < n"
  shows "tidy v \<Longrightarrow> checked H v sm \<Longrightarrow> distinct (map ur_chunk_id cs) \<Longrightarrow> \<forall>c \<in> set cs. reported v sm c \<Longrightarrow> all_nodes v nodes \<Longrightarrow>
    \<forall>s a. cv_reg v s = Some a \<longrightarrow> length cs \<le> sp a \<Longrightarrow>
    tot (at_view v sm sp) (replicate_chunks M N H R nodes cs) (\<lambda>_ s. \<exists>v' sp'. at_view v' sm sp' s \<and>
      tidy v' \<and> advanced (ur_chunk_id ` set cs) v v' \<and> (\<forall>a. sp a \<le> sp' a + length cs))"
proof (induction cs arbitrary: v sp)
  case Nil
  then show ?case unfolding replicate_chunks.simps
    by (intro tot_ret exI [of _ v] exI [of _ sp]) (simp add: advanced_empty)
next
  case (Cons c cs)
  let ?i = "ur_chunk_id c"
  let ?Q = "\<lambda>_ s. \<exists>v' sp'. at_view v' sm sp' s \<and> tidy v' \<and> advanced (ur_chunk_id ` set (c # cs)) v v' \<and> (\<forall>a. sp a \<le> sp' a + length (c # cs))"
  have one: "tot (at_view v sm sp) (replicate_chunk M N H R nodes c) (\<lambda>_ s. \<exists>v' sp'. at_view v' sm sp' s \<and>
    ((if eligible v ?i then one_more ?i v v' else v' = v) \<and> (\<forall>a. sp a \<le> Suc (sp' a))))"
    by (rule tot_replicate_chunk [OF rand Cons.prems(1,2) _ Cons.prems(5)]) (use Cons.prems(4,6) in fastforce)+
  have rest: "tot (at_view v1 sm sp1) (bnd (replicate_chunks M N H R nodes cs) (\<lambda>n. ret ((if b then 1 else 0) + n))) ?Q"
    if st: "(if eligible v ?i then one_more ?i v v1 else v1 = v) \<and> (\<forall>a. sp a \<le> Suc (sp1 a))" for b v1 sp1
  proof -
    have k: "tidy v1" "checked H v1 sm" "cv_reg v1 = cv_reg v" "\<And>j. j \<noteq> ?i \<Longrightarrow> cv_reps v1 j = cv_reps v j"
      using st Cons.prems(1,2) one_more_tidy one_more_checked one_more_frame(2,4) by (auto split: if_splits)
    have i: "?i \<notin> ur_chunk_id ` set cs" using Cons.prems(3) by auto
    have "reported v1 sm d" if d: "d \<in> set cs" for d
    proof -
      have "ur_chunk_id d \<noteq> ?i" using i d by (metis image_eqI)
      moreover have "reported v sm d" using Cons.prems(4) d by simp
      ultimately show ?thesis using k(4) by (simp add: reported_def)
    qed
    moreover have "all_nodes v1 nodes" using Cons.prems(5) k(3) by (simp add: all_nodes_def registered_def)
    moreover have "length cs \<le> sp1 a" if "cv_reg v1 s = Some a" for s a
      using Cons.prems(6) st that k(3) by (metis Suc_le_mono le_trans length_Cons)
    ultimately have IH: "tot (at_view v1 sm sp1) (replicate_chunks M N H R nodes cs) (\<lambda>_ s. \<exists>v' sp'. at_view v' sm sp' s \<and>
      tidy v' \<and> advanced (ur_chunk_id ` set cs) v1 v' \<and> (\<forall>a. sp1 a \<le> sp' a + length cs))"
      using Cons.IH k(1,2) Cons.prems(3) by simp
    show ?thesis
    proof (rule tot_bnd [OF IH], rule tot_ret)
      fix x and s :: "('z, 'a) ReplState"
      assume "\<exists>v' sp'. at_view v' sm sp' s \<and> tidy v' \<and> advanced (ur_chunk_id ` set cs) v1 v' \<and> (\<forall>a. sp1 a \<le> sp' a + length cs)"
      then obtain v' sp' where f: "at_view v' sm sp' s" "tidy v'" "advanced (ur_chunk_id ` set cs) v1 v'" "\<forall>a. sp1 a \<le> sp' a + length cs" by blast
      have "advanced (ur_chunk_id ` set (c # cs)) v v'" using advanced_step [OF conjunct1 [OF st] f(3) i] by simp
      moreover have "sp a \<le> sp' a + length (c # cs)" for a
        using conjunct2 [OF st, rule_format, of a] f(4) [rule_format, of a] by simp
      ultimately show "?Q x s" using f(1,2) by blast
    qed
  qed
  show ?case unfolding replicate_chunks.simps
    by (rule tot_bnd [OF one], rule tot_ex, rule tot_ex, rule tot_conj, rule rest)
qed

text \<open>What the metadata service reports.\<close>

lemma tot_list_under:
  "tot (at_view v sm sp) (rp_call (mcl_list_under_replicated_chunks M (of_nat RP_MAX_REPLICAS)))
     (\<lambda>r s. \<exists>cs. r = Ok cs \<and> at_view v sm sp s \<and> (distinct (map ur_chunk_id cs) \<and> (\<forall>c \<in> set cs. reported v sm c) \<and>
        ur_chunk_id ` set cs = {i. sm i \<noteq> None \<and> length (cv_reps v i) < 3}))"
proof (rule tot_call)
  fix w assume w: "sound w" "steady w" "ready w" "view w = v" "sums w = sm"
  let ?k = "of_nat RP_MAX_REPLICAS :: u32"
  have k: "?k \<noteq> 0" "unat ?k = 3" by (simp_all add: RP_MAX_REPLICAS_def)
  obtain cs w' where c: "mcl_list_under_replicated_chunks M ?k w = Some (Ok cs, w')" "kept ready sums space w w'"
      "distinct (map ur_chunk_id cs)" "\<forall>c \<in> set cs. sums w (ur_chunk_id c) = Some (ur_checksum c)"
      "\<forall>i. i \<in> ur_chunk_id ` set cs \<longleftrightarrow> sums w i \<noteq> None \<and> length (cv_reps (view w) i) < unat ?k"
    using ready_under [OF w(1,3) k(1)] by metis
  have ids: "ur_chunk_id ` set cs = {i. sm i \<noteq> None \<and> length (cv_reps v i) < 3}"
    using c(5) unfolding w(4,5) k(2) by blast
  note law = under_law [OF w(1) c(1)]
  have "reported v sm d" if d: "d \<in> set cs" for d
  proof -
    have "ur_chunk_id d \<in> {i. sm i \<noteq> None \<and> length (cv_reps v i) < 3}" using d ids by blast
    then show ?thesis using law c(4) d w(4,5) by (simp add: reported_def)
  qed
  then show "\<exists>x w'. mcl_list_under_replicated_chunks M ?k w = Some (Ok x, w') \<and> sound w' \<and> steady w' \<and> kept ready sums space w w' \<and> view w' = v \<and>
      (distinct (map ur_chunk_id x) \<and> (\<forall>c \<in> set x. reported v sm c) \<and> ur_chunk_id ` set x = {i. sm i \<noteq> None \<and> length (cv_reps v i) < 3})"
    using c(1-3) ids law steady_under [OF w(1,2) c(1)] w(4) by blast
qed

lemma tot_list_nodes:
  "tot (at_view v sm sp) (rp_call (mcl_list_storage_nodes M)) (\<lambda>r s. \<exists>ns. r = Ok ns \<and> at_view v sm sp s \<and> all_nodes v ns)"
proof (rule tot_call)
  fix w assume w: "sound w" "steady w" "ready w" "view w = v"
  obtain ns w' where c: "mcl_list_storage_nodes M w = Some (Ok ns, w')" "kept ready sums space w w'"
      "\<forall>s a. cv_reg (view w) s = Some a \<longrightarrow> \<lparr>msn_id = s, msn_address = a\<rparr> \<in> set ns"
    using ready_nodes [OF w(1,3)] by metis
  note law = nodes_law [OF w(1) c(1)]
  have "all_nodes v ns" using law c(3) w(4) by (simp add: all_nodes_def registered_def)
  then show "\<exists>x w'. mcl_list_storage_nodes M w = Some (Ok x, w') \<and> sound w' \<and> steady w' \<and> kept ready sums space w w' \<and> view w' = v \<and> all_nodes v x"
    using c(1,2) law steady_nodes [OF w(2) c(1)] w(4) by blast
qed

lemma tot_cycle:
  fixes R :: "'z rand"
  assumes rand: "\<And>n g. 0 < n \<Longrightarrow> fst (rand_choose R n g) < n"
    and v: "tidy v" "checked H v sm" and k: "card (dom sm) \<le> k"
    and room: "\<forall>s a. cv_reg v s = Some a \<longrightarrow> card (dom sm) \<le> sp a"
  shows "tot (at_view v sm sp) (run_replication_cycle M N H R k) (\<lambda>_ s. \<exists>v' sp'. at_view v' sm sp' s \<and>
    tidy v' \<and> advanced {i. sm i \<noteq> None \<and> length (cv_reps v i) < 3} v v' \<and> (\<forall>a. sp a \<le> sp' a + card (dom sm)))"
    (is "tot _ _ ?Q")
proof -
  let ?I = "{i. sm i \<noteq> None \<and> length (cv_reps v i) < 3}"
  have metric: "tot (at_view v sm sp) (rp_metric_upd f) (\<lambda>_. at_view v sm sp)" for f
    by (simp add: tot_def rp_metric_upd_def at_view_def)
  have stop: "tot (at_view v sm sp) (ret 0) ?Q" if "\<And>i. i \<in> ?I \<Longrightarrow> \<not> eligible v i"
    by (rule tot_ret) (use that v(1) in \<open>auto simp: advanced_def intro!: exI [of _ v] exI [of _ sp]\<close>)
  have chunks: "tot (at_view v sm sp) (replicate_chunks M N H R ns (take k cs)) ?Q"
    if cs: "distinct (map ur_chunk_id cs)" "\<forall>c \<in> set cs. reported v sm c" "ur_chunk_id ` set cs = ?I" and ns: "all_nodes v ns" for cs ns
  proof -
    have "length cs = card (set (map ur_chunk_id cs))" using distinct_card [OF cs(1)] by simp
    also have "\<dots> = card ?I" using cs(3) by simp
    also have "\<dots> \<le> card (dom sm)" by (intro card_mono) auto
    finally have len: "length cs \<le> card (dom sm)" .
    then have all: "take k cs = cs" using k by simp
    have "\<forall>s a. cv_reg v s = Some a \<longrightarrow> length cs \<le> sp a" using room len le_trans by blast
    note t = tot_replicate_chunks [OF rand v cs(1,2) ns this]
    show ?thesis unfolding all
    proof (rule tot_weaken [OF t])
      fix x and s :: "('z, 'a) ReplState"
      assume "\<exists>v' sp'. at_view v' sm sp' s \<and> tidy v' \<and> advanced (ur_chunk_id ` set cs) v v' \<and> (\<forall>a. sp a \<le> sp' a + length cs)"
      then obtain v' sp' where f: "at_view v' sm sp' s" "tidy v'" "advanced ?I v v'" "\<And>a. sp a \<le> sp' a + length cs"
        unfolding cs(3) by blast
      have "sp a \<le> sp' a + card (dom sm)" for a using f(4) [of a] len by simp
      then show "?Q x s" using f(1-3) by blast
    qed
  qed
  have nodes: "tot (at_view v sm sp) (try_or (rp_call (mcl_list_storage_nodes M)) h (\<lambda>nodes.
      if nodes = [] then ret 0
      else bnd (rp_metric_upd f) (\<lambda>_. replicate_chunks M N H R nodes (take k cs)))) ?Q"
    if cs: "distinct (map ur_chunk_id cs)" "\<forall>c \<in> set cs. reported v sm c" "ur_chunk_id ` set cs = ?I" for cs h f
  proof (rule tot_try [OF tot_list_nodes], rule tot_conj)
    fix ns assume ns: "all_nodes v ns"
    show "tot (at_view v sm sp) (if ns = [] then ret 0
      else bnd (rp_metric_upd f) (\<lambda>_. replicate_chunks M N H R ns (take k cs))) ?Q"
    proof (cases "ns = []")
      case True
      have "tot (at_view v sm sp) (ret 0) ?Q" by (rule stop) (use ns True in \<open>auto simp: all_nodes_def eligible_def\<close>)
      then show ?thesis unfolding if_P [OF True] .
    next
      case False
      show ?thesis unfolding if_not_P [OF False] by (rule tot_bnd [OF metric chunks [OF cs ns]])
    qed
  qed
  show ?thesis unfolding run_replication_cycle_def
  proof (rule tot_bnd [OF metric], rule tot_try [OF tot_list_under], rule tot_conj, rule tot_bnd [OF metric])
    fix cs assume cs: "distinct (map ur_chunk_id cs) \<and> (\<forall>c \<in> set cs. reported v sm c) \<and> ur_chunk_id ` set cs = ?I"
    show "tot (at_view v sm sp) (if cs = [] then ret 0
      else try_or (rp_call (mcl_list_storage_nodes M)) (\<lambda>_. bnd (inc_failure ''list_nodes'') (\<lambda>_. ret 0)) (\<lambda>nodes.
          if nodes = [] then ret 0
          else bnd (rp_metric_upd (metric_add Rp_chunks_skipped_rate_limit (int (length cs - k)))) (\<lambda>_.
               replicate_chunks M N H R nodes (take k cs)))) ?Q"
    proof (cases "cs = []")
      case True
      have "?I = {}" using conjunct2 [OF conjunct2 [OF cs]] True by simp
      then have "tot (at_view v sm sp) (ret 0) ?Q" by (intro stop) blast
      then show ?thesis unfolding if_P [OF True] .
    next
      case False
      show ?thesis unfolding if_not_P [OF False] by (rule nodes) (use cs in auto)
    qed
  qed
qed

text \<open>Two cycles are enough: every chunk with a replica then has three, or one on every node.\<close>

lemma two_cycles:
  fixes R :: "'z rand"
  assumes rand: "\<And>n g. 0 < n \<Longrightarrow> fst (rand_choose R n g) < n"
    and s: "at_view v sm sp s" and v: "tidy v" "checked H v sm" and k: "card (dom sm) \<le> k"
    and room: "\<forall>s a. cv_reg v s = Some a \<longrightarrow> 2 * card (dom sm) \<le> sp a"
  shows "\<exists>n s' n' s''. run_replication_cycle M N H R k s = Some (n, s') \<and> run_replication_cycle M N H R k s' = Some (n', s'') \<and>
    (\<forall>i. cv_reps v i \<noteq> [] \<longrightarrow> min 3 (card (dom (cv_reg v))) \<le> length (cv_reps (view (rp_world s'')) i)) \<and>
    chunk_stored (view (rp_world s'')) = chunk_stored v \<and> cv_objs (view (rp_world s'')) = cv_objs v"
proof -
  let ?c = "card (dom sm)" and ?I = "\<lambda>v. {i. sm i \<noteq> None \<and> length (cv_reps v i) < 3}"
  have "\<forall>s a. cv_reg v s = Some a \<longrightarrow> ?c \<le> sp a" using room by force
  from totD [OF tot_cycle [OF rand v k this] s] obtain n s1 v1 sp1 where one:
    "run_replication_cycle M N H R k s = Some (n, s1)" "at_view v1 sm sp1 s1" "tidy v1" "advanced (?I v) v v1" "\<forall>a. sp a \<le> sp1 a + ?c"
    by blast
  have same: "cv_reg v1 = cv_reg v" "chunk_stored v1 = chunk_stored v" "cv_objs v1 = cv_objs v" using one(4) by (simp_all add: advanced_def)
  have "?c \<le> sp1 a" if "cv_reg v1 s = Some a" for s a
  proof -
    have "2 * ?c \<le> sp a" using room that same(1) by simp
    then show ?thesis using one(5) [rule_format, of a] by simp
  qed
  then have room1: "\<forall>s a. cv_reg v1 s = Some a \<longrightarrow> ?c \<le> sp1 a" by blast
  have "checked H v1 sm" using v(2) same(2) by (simp add: checked_def)
  from totD [OF tot_cycle [OF rand one(3) this k room1] one(2)] obtain n' s2 v2 sp2 where two:
    "run_replication_cycle M N H R k s1 = Some (n', s2)" "at_view v2 sm sp2 s2" "tidy v2" "advanced (?I v1) v1 v2"
    by blast
  have "min 3 (card (dom (cv_reg v))) \<le> length (cv_reps v2 i)" if r: "cv_reps v i \<noteq> []" for i
  proof -
    have "sm i \<noteq> None" using s r ready_known unfolding at_view_def by blast
    then have I: "length (cv_reps v i) < 3 \<Longrightarrow> i \<in> ?I v" "length (cv_reps v1 i) < 3 \<Longrightarrow> i \<in> ?I v1" by auto
    note l = advanced_length [OF v(1) one(4) r I(1)]
    have r1: "cv_reps v1 i \<noteq> []" using l(2) r by auto
    show ?thesis using l advanced_length [OF one(3) two(4) r1 I(2)] r unfolding same(1)
      by (cases "cv_reps v i") auto
  qed
  moreover have "view (rp_world s2) = v2" using two(2) by (simp add: at_view_def)
  moreover have "chunk_stored v2 = chunk_stored v" "cv_objs v2 = cv_objs v" using two(4) same by (simp_all add: advanced_def)
  ultimately show ?thesis using one(1) two(1) by blast
qed

end

section \<open>When nothing can be replicated\<close>

text \<open>Every registered node that is not listed holds the chunk already: its writes are refused.\<close>

definition saturated :: "cview \<Rightarrow> bool" where
  "saturated v \<longleftrightarrow> (\<forall>i t a. cv_reps v i \<noteq> [] \<and> cv_reg v t = Some a \<and> t \<notin> set (cv_reps v i) \<longrightarrow> cv_blob v a i \<noteq> None)"

context steady_backend
begin

abbreviation (input) still where "still v \<equiv> \<lambda>r :: bool. rgood sound steady view (\<lambda>v'. v' = v \<and> \<not> r)"

lemma rsat_skip_still: "(\<And>v'. \<Phi> v' \<Longrightarrow> v' = v) \<Longrightarrow> sat (rgood sound steady view \<Phi>) (skip_chunk t) (still v)"
  unfolding skip_chunk_def inc_failure_def by (rule sat_bnd [OF rsat_metric], rule rsat_ret) simp

lemma rsat_store_refused:
  assumes "cv_blob v (msn_address t) (ur_chunk_id c) \<noteq> None"
  shows "sat (rgood sound steady view ((=) v)) (store_target M N c t d) (still v)"
proof -
  have wr: "sat (rgood sound steady view (\<lambda>v'. v' = v \<and> (\<forall>cl'. Ok cl = Ok cl' \<longrightarrow> addr cl' = msn_address t)))
      (rp_call (ncl_write_chunk N cl (ur_chunk_id c) d)) (\<lambda>r. rgood sound steady view (\<lambda>v'. v' = v \<and> \<not> is_ok r))" for cl
    by (rule rsat_good, rule rsat_call, frule (1) write_law, drule (1) steady_write) (use assms in \<open>auto split: if_splits\<close>)
  have ok: "sat (rgood sound steady view (\<lambda>v'. v' = v \<and> \<not> is_ok (Ok x))) m Q" for m Q and x :: u64
    by (auto simp: sat_def rgood_def)
  show ?thesis unfolding store_target_def
    by (rule sat_try [OF rsat_connect rsat_skip_still], simp, rule sat_try [OF wr rsat_skip_still], simp, rule ok)
qed

lemma rsat_fetch_still:
  assumes k: "\<And>d. sat (rgood sound steady view ((=) v)) (k d) (still v)"
  shows "sat (rgood sound steady view ((=) v)) (fetch_source M N H c s k) (still v)"
proof -
  have node: "sat (rgood sound steady view ((=) v)) (rp_call (mcl_get_storage_node M s)) (\<lambda>_. rgood sound steady view ((=) v))"
    by (rule rsat_call, frule (1) node_law, drule (1) steady_node) simp
  have conn: "sat (rgood sound steady view ((=) v)) (rp_call (ncl_connect N a)) (\<lambda>_. rgood sound steady view ((=) v))" for a
    by (rule rsat_conseq [OF rsat_connect]) auto
  have rd: "sat (rgood sound steady view ((=) v)) (rp_call (ncl_read_chunk N cl i)) (\<lambda>_. rgood sound steady view ((=) v))" for cl i
    by (rule rsat_call, frule (1) read_law, drule (1) steady_read) simp
  show ?thesis unfolding fetch_source_def
    by (rule sat_try [OF node rsat_skip_still], simp, rule sat_try [OF conn rsat_skip_still], simp,
        rule sat_try [OF rd rsat_skip_still], simp) (auto split: prod.split intro!: k rsat_skip_still)
qed

lemma rsat_replicate_still:
  assumes rand: "\<And>n g. 0 < n \<Longrightarrow> fst (rand_choose R n g) < n"
    and c: "ur_storage_node_ids c = cv_reps v (ur_chunk_id c)" and ns: "\<forall>n \<in> set nodes. registered v n" and full: "saturated v"
  shows "sat (rgood sound steady view ((=) v)) (replicate_chunk M N H R nodes c) (still v)"
proof -
  let ?el = "filter (\<lambda>n. msn_id n \<notin> set (ur_storage_node_ids c)) nodes"
  have stay: "sat (rgood sound steady view ((=) v)) (ret False) (still v)" by (rule rsat_ret) simp
  have choose: "sat (rgood sound steady view ((=) v)) (choose_target R ?el) (\<lambda>t s. rgood sound steady view ((=) v) s \<and> t \<in> set ?el)" if "?el \<noteq> []"
  proof (rule satI)
    fix s t s' assume s: "rgood sound steady view ((=) v) s" "choose_target R ?el s = Some (t, s')"
    have "fst (rand_choose R (length ?el) (rp_rng s)) < length ?el" using rand [of "length ?el" "rp_rng s"] that by blast
    then have "t \<in> set ?el" using s(2) nth_mem by (auto simp: choose_target_def split: prod.splits simp del: set_filter)
    moreover have "rgood sound steady view ((=) v) s'" by (rule satD [OF rsat_choose s])
    ultimately show "rgood sound steady view ((=) v) s' \<and> t \<in> set ?el" by blast
  qed
  have rest: "sat (\<lambda>s. rgood sound steady view ((=) v) s \<and> t \<in> set ?el)
      (bnd (has_space N (msn_address t)) (\<lambda>space. if \<not> space then ret False else
         case ur_storage_node_ids c of [] \<Rightarrow> ret False | s # _ \<Rightarrow> fetch_source M N H c s (store_target M N c t))) (still v)" for t
  proof (cases "t \<in> set ?el")
    case True
    have f: "sat (rgood sound steady view ((=) v)) (fetch_source M N H c s (store_target M N c t)) (still v)"
      if "ur_storage_node_ids c \<noteq> []" for s
    proof -
      have "cv_blob v (msn_address t) (ur_chunk_id c) \<noteq> None"
        using True c ns full that by (auto simp: saturated_def registered_def)
      then show ?thesis by (rule rsat_fetch_still [OF rsat_store_refused])
    qed
    have go: "sat (rgood sound steady view ((=) v)) (bnd (has_space N (msn_address t)) (\<lambda>space. if \<not> space then ret False else
         case ur_storage_node_ids c of [] \<Rightarrow> ret False | s # _ \<Rightarrow> fetch_source M N H c s (store_target M N c t))) (still v)"
    proof (rule sat_bnd [OF rsat_has_space])
      fix space
      show "sat (rgood sound steady view ((=) v)) (if \<not> space then ret False else
         case ur_storage_node_ids c of [] \<Rightarrow> ret False | s # _ \<Rightarrow> fetch_source M N H c s (store_target M N c t)) (still v)"
        using stay f by (cases space; cases "ur_storage_node_ids c") simp_all
    qed
    show ?thesis by (rule sat_weaken [OF go]) auto
  next
    case False
    then show ?thesis by (auto simp: sat_def)
  qed
  show ?thesis unfolding replicate_chunk_def Let_def
    by (rule sat_if, rule stay, rule sat_bnd [OF choose rest])
qed

lemma rsat_chunks_still:
  assumes rand: "\<And>n g. 0 < n \<Longrightarrow> fst (rand_choose R n g) < n"
    and "\<forall>c \<in> set cs. ur_storage_node_ids c = cv_reps v (ur_chunk_id c)" and ns: "\<forall>n \<in> set nodes. registered v n" and full: "saturated v"
  shows "sat (rgood sound steady view ((=) v)) (replicate_chunks M N H R nodes cs) (\<lambda>n. rgood sound steady view (\<lambda>v'. v' = v \<and> n = 0))"
  using assms(2)
proof (induction cs)
  case Nil
  show ?case unfolding replicate_chunks.simps by (rule rsat_ret) simp
next
  case (Cons c cs)
  have one: "sat (rgood sound steady view ((=) v)) (replicate_chunk M N H R nodes c) (still v)"
    by (rule rsat_replicate_still [OF rand _ ns full]) (use Cons.prems in simp_all)
  have IH: "sat (rgood sound steady view ((=) v)) (replicate_chunks M N H R nodes cs) (\<lambda>n. rgood sound steady view (\<lambda>v'. v' = v \<and> n = 0))"
    using Cons by simp
  have rest: "sat (still v b) (bnd (replicate_chunks M N H R nodes cs) (\<lambda>n. ret ((if b then 1 else 0) + n)))
      (\<lambda>n. rgood sound steady view (\<lambda>v'. v' = v \<and> n = 0))" for b
  proof (cases b)
    case True
    then show ?thesis by (auto simp: sat_def rgood_def)
  next
    case False
    have "sat (rgood sound steady view ((=) v)) (bnd (replicate_chunks M N H R nodes cs) (\<lambda>n. ret ((if b then 1 else 0) + n)))
      (\<lambda>n. rgood sound steady view (\<lambda>v'. v' = v \<and> n = 0))"
      by (rule sat_bnd [OF IH], rule rsat_ret) (use False in simp)
    then show ?thesis by (rule sat_weaken) (auto simp: rgood_def)
  qed
  show ?case unfolding replicate_chunks.simps by (rule sat_bnd [OF one rest])
qed

lemma rsat_cycle_still:
  assumes rand: "\<And>n g. 0 < n \<Longrightarrow> fst (rand_choose R n g) < n" and full: "saturated v"
  shows "sat (rgood sound steady view ((=) v)) (run_replication_cycle M N H R k) (\<lambda>n. rgood sound steady view (\<lambda>v'. v' = v \<and> n = 0))"
proof -
  have under: "sat (rgood sound steady view ((=) v)) (rp_call (mcl_list_under_replicated_chunks M l))
      (\<lambda>r. rgood sound steady view (\<lambda>v'. v' = v \<and> (\<forall>cs. r = Ok cs \<longrightarrow> (\<forall>c \<in> set cs. ur_storage_node_ids c = cv_reps v (ur_chunk_id c)))))" for l
    by (rule rsat_call, frule (1) under_law, drule (2) steady_under) simp
  have nodes: "sat (rgood sound steady view ((=) v)) (rp_call (mcl_list_storage_nodes M))
      (\<lambda>r. rgood sound steady view (\<lambda>v'. v' = v \<and> (\<forall>ns. r = Ok ns \<longrightarrow> (\<forall>n \<in> set ns. registered v n))))"
    by (rule rsat_call, frule (1) nodes_law, drule (1) steady_nodes) (simp add: registered_def)
  have stop: "sat (rgood sound steady view \<Phi>) (bnd (inc_failure t) (\<lambda>_. ret 0)) (\<lambda>n. rgood sound steady view (\<lambda>v'. v' = v \<and> n = (0 :: nat)))"
      "sat (rgood sound steady view \<Phi>) (ret 0) (\<lambda>n. rgood sound steady view (\<lambda>v'. v' = v \<and> n = (0 :: nat)))"
    if "\<And>v'. \<Phi> v' \<Longrightarrow> v' = v" for \<Phi> t
    unfolding inc_failure_def
    by (rule sat_bnd [OF rsat_metric rsat_ret], drule that, simp, rule rsat_ret, drule that, simp)
  show ?thesis unfolding run_replication_cycle_def
    apply (rule sat_bnd [OF rsat_metric])
    apply (rule sat_try [OF under], rule stop, simp)
    apply (rule sat_bnd [OF rsat_metric])
    apply (rule sat_if, rule stop, simp)
    apply (rule rsat_good, elim conjE, simp only: )
    apply (rule sat_try [OF nodes], rule stop, simp)
    apply (rule sat_if, rule stop, simp)
    apply (rule sat_bnd [OF rsat_metric])
    apply (rule rsat_good, elim conjE, simp only: )
    apply (rule rsat_chunks_still [OF rand _ _ full], assumption)
     apply (auto dest: in_set_takeD)
    done
qed

end

end
