(* ===== verification/Deployment.thy ===== *)
theory Deployment
  imports GatewayRequests ReplicationProgress
begin

text \<open>
  The services of the repository behind the clients: one metadata service and the storage nodes
  by their addresses. A call of a client is delivered to the handler of the service it names
  (\<^verbatim>\<open>api-gateway/src/clients.rs\<close> and \<^verbatim>\<open>replication-service/src/clients.rs\<close> only delegate). The
  deployment keeps the contract of the backend, so the results on the gateway and on replication
  hold for it.
\<close>

section \<open>The world\<close>

record ('g, 'c, 'p) net =
  net_meta :: "('g, 'c) StorageMetadataImpl"
  net_peers :: 'p
  net_nodes :: "string \<Rightarrow> StorageNodeImpl option"

definition to_meta ::
  "(('g, 'c) StorageMetadataImpl \<Rightarrow> 'p \<Rightarrow> 'a \<times> ('g, 'c) StorageMetadataImpl \<times> 'p) \<Rightarrow> (('g, 'c, 'p) net, 'a) act" where
  "to_meta f w = (case f (net_meta w) (net_peers w) of (r, svc, p) \<Rightarrow> Some (r, w\<lparr>net_meta := svc, net_peers := p\<rparr>))"

definition to_meta_option ::
  "(('g, 'c) StorageMetadataImpl \<Rightarrow> 'p \<Rightarrow> ('a \<times> ('g, 'c) StorageMetadataImpl \<times> 'p) option) \<Rightarrow> (('g, 'c, 'p) net, 'a) act" where
  "to_meta_option f w =
     (case f (net_meta w) (net_peers w) of
        None \<Rightarrow> None
      | Some (r, svc, p) \<Rightarrow> Some (r, w\<lparr>net_meta := svc, net_peers := p\<rparr>))"

definition net_metadata ::
  "('c, 'p) peer_rpc \<Rightarrow> (string \<Rightarrow> u64) \<Rightarrow> 'g rand \<Rightarrow> (string \<Rightarrow> bool) \<Rightarrow> json_ser \<Rightarrow> ('g, 'c, 'p) net MetadataClient" where
  "net_metadata P x R uri ser = \<lparr>
     mcl_list_storage_nodes = to_meta (\<lambda>svc p. (md_list_storage_nodes svc, svc, p)),
     mcl_put_object = (\<lambda>c n. to_meta (md_put_object P x ser c n)),
     mcl_get_object = (\<lambda>n. to_meta (md_get_object P x n)),
     mcl_delete_object = (\<lambda>n. to_meta (md_delete_object P x ser n)),
     mcl_allocate_chunk = (\<lambda>n c. to_meta_option (md_allocate_chunk P R x n)),
     mcl_confirm_chunk = (\<lambda>i n c s. to_meta (md_confirm_chunk P x ser i n c s)),
     mcl_list_objects = to_meta (md_list_objects P),
     mcl_delete_chunk = (\<lambda>i. to_meta (md_delete_chunk P x ser i)),
     mcl_put_chunk = (\<lambda>n c. to_meta_option (md_put_chunk P R x ser n c)),
     mcl_put_storage_node = (\<lambda>a. to_meta_option (md_put_storage_node P R uri a)),
     mcl_get_chunk = (\<lambda>i. to_meta (md_get_chunk P x i)),
     mcl_get_storage_node = (\<lambda>i. to_meta (\<lambda>svc p. (md_get_storage_node i svc, svc, p))),
     mcl_delete_storage_node = (\<lambda>i. to_meta_option (md_delete_storage_node P i)),
     mcl_list_under_replicated_chunks = (\<lambda>k. to_meta (md_list_under_replicated_chunks P k)),
     mcl_add_chunk_replica = (\<lambda>i s. to_meta (md_add_chunk_replica P x ser i s)),
     mcl_update_object_checksum = (\<lambda>n c t. to_meta (\<lambda>svc p.
       case md_update_object_checksum ser n c t svc of (r, svc') \<Rightarrow> (r, svc', p)))\<rparr>"

definition to_node :: "string \<Rightarrow> (StorageNodeImpl \<Rightarrow> 'a rpc \<times> StorageNodeImpl) \<Rightarrow> (('g, 'c, 'p) net, 'a rpc) act" where
  "to_node a f w =
     (case net_nodes w a of
        None \<Rightarrow> Some (Err Code_Unavailable, w)
      | Some sn \<Rightarrow> (case f sn of (r, sn') \<Rightarrow> Some (r, w\<lparr>net_nodes := (net_nodes w)(a \<mapsto> sn')\<rparr>)))"

definition net_storage :: "'h crc32 \<Rightarrow> (string, ('g, 'c, 'p) net) StorageNodeClient" where
  "net_storage H = \<lparr>
     ncl_connect = (\<lambda>a w. Some (if net_nodes w a = None then Err Code_Unavailable else Ok a, w)),
     ncl_get_chunk_size = (\<lambda>a. to_node a (\<lambda>sn. (sn_get_chunk_size sn, sn))),
     ncl_write_chunk = (\<lambda>a i d. to_node a (sn_write_chunk H i d)),
     ncl_read_chunk = (\<lambda>a i. to_node a (sn_read_chunk H i)),
     ncl_delete_chunk = (\<lambda>a i. to_node a (sn_delete_chunk i)),
     ncl_get_free_chunks = (\<lambda>a. to_node a (\<lambda>sn. (sn_get_free_chunks sn, sn))),
     ncl_check_health = (\<lambda>a. to_node a (\<lambda>sn. (sn_check_health sn, sn)))\<rparr>"

section \<open>Abstraction and invariant\<close>

definition store_objs :: "'g MetadataStore \<Rightarrow> string \<Rightarrow> u64 list option" where
  "store_objs st n = map_option mo_chunks (hm_get (ms_objects st) n)"

definition store_reps :: "'g MetadataStore \<Rightarrow> u64 \<Rightarrow> u64 list" where
  "store_reps st i = (case hm_get (ms_chunks st) i of Some c \<Rightarrow> mc_storage_nodes c | None \<Rightarrow> [])"

definition store_reg :: "'g MetadataStore \<Rightarrow> u64 \<Rightarrow> string option" where
  "store_reg st s = map_option msn_address (hm_get (ms_storage_nodes st) s)"

definition meta_view :: "(string \<Rightarrow> u64 \<Rightarrow> bytes option) \<Rightarrow> 'g MetadataStore \<Rightarrow> cview" where
  "meta_view blob st = \<lparr>cv_objs = store_objs st, cv_reps = store_reps st, cv_reg = store_reg st, cv_blob = blob\<rparr>"

definition net_blob :: "('g, 'c, 'p) net \<Rightarrow> string \<Rightarrow> u64 \<Rightarrow> bytes option" where
  "net_blob w a i = (case net_nodes w a of None \<Rightarrow> None | Some sn \<Rightarrow> sn_chunks sn i)"

definition net_view :: "('g, 'c, 'p) net \<Rightarrow> cview" where
  "net_view w = meta_view (net_blob w) (md_store (net_meta w))"

text \<open>No other service has published an address: the service as it starts, or without a cluster.\<close>

definition md_alone :: "('g, 'c) StorageMetadataImpl \<Rightarrow> bool" where
  "md_alone svc \<longleftrightarrow> (\<forall>cm. md_cluster svc = Some cm \<longrightarrow> fst ` set (cm_peer_addrs cm) \<subseteq> {cm_node_id cm})"

text \<open>
  The metadata service runs alone, its store is well-formed, every node's store is consistent, and
  the random choice picks an index in range.
\<close>

definition net_sound :: "'g rand \<Rightarrow> 'h crc32 \<Rightarrow> ('g, 'c, 'p) net \<Rightarrow> bool" where
  "net_sound R H w \<longleftrightarrow> ms_wf (md_store (net_meta w)) \<and> md_alone (net_meta w) \<and>
     (\<forall>a sn. net_nodes w a = Some sn \<longrightarrow> sn_invar H sn) \<and> (\<forall>n g. 0 < n \<longrightarrow> fst (rand_choose R n g) < n)"

definition net_healthy :: "json_ser \<Rightarrow> ('g, 'c, 'p) net \<Rightarrow> bool" where
  "net_healthy ser w \<longleftrightarrow> calm ser (md_store (net_meta w)) \<and>
     (\<forall>a sn. net_nodes w a = Some sn \<longrightarrow> cs_live (store sn))"

section \<open>The metadata service, alone\<close>

lemma alone_None [simp]: "md_cluster svc = None \<Longrightarrow> md_alone svc"
  by (simp add: md_alone_def)

lemma alone_addrs: "md_alone svc \<Longrightarrow> md_cluster svc = Some cm \<Longrightarrow> get_all_peer_addrs cm = []"
  by (force simp: md_alone_def get_all_peer_addrs_def filter_empty_conv)

lemma alone_handlers:
  assumes "md_alone svc"
  shows "md_list_objects P svc p = (Ok (map (list_object (md_store svc)) (list_objects (md_store svc))), svc, p)"
    and "md_list_under_replicated_chunks P k svc p =
      (Ok (sort_key (\<lambda>c. length (ur_storage_node_ids c))
         (map under_replicated (list_under_replicated_chunks (default_replicas k) (md_store svc)))),
       md_count ''list_under_replicated_chunks'' ''ok'' svc, p)"
    and "md_put_storage_node P R uri a svc p =
      (case construct_storage_node R uri a (md_store svc) of
         None \<Rightarrow> None
       | Some (Err e, st) \<Rightarrow> Some (Err (if e = InvalidInput then Code_InvalidArgument else Code_Internal), svc\<lparr>md_store := st\<rparr>, p)
       | Some (Ok i, st) \<Rightarrow> Some (Ok i, md_gauge Md_storage_nodes_total 1 (md_count ''put_storage_node'' ''ok'' (svc\<lparr>md_store := st\<rparr>)), p))"
proof -
  have "svc\<lparr>md_cluster := Some cm\<rparr> = svc" if "md_cluster svc = Some cm" for cm using that by simp
  note a = this alone_addrs [OF assms]
  show "md_list_objects P svc p = (Ok (map (list_object (md_store svc)) (list_objects (md_store svc))), svc, p)"
    by (cases "md_cluster svc") (simp_all add: md_list_objects_def scatter_gather_list_objects_def a)
  show "md_list_under_replicated_chunks P k svc p =
      (Ok (sort_key (\<lambda>c. length (ur_storage_node_ids c))
         (map under_replicated (list_under_replicated_chunks (default_replicas k) (md_store svc)))),
       md_count ''list_under_replicated_chunks'' ''ok'' svc, p)"
    by (cases "md_cluster svc") (simp_all add: md_list_under_replicated_chunks_def scatter_gather_under_replicated_chunks_def a Let_def)
  have "svc\<lparr>md_store := st, md_cluster := Some cm\<rparr> = svc\<lparr>md_store := st\<rparr>" if "md_cluster svc = Some cm" for st cm using that by simp
  then show "md_put_storage_node P R uri a svc p =
      (case construct_storage_node R uri a (md_store svc) of
         None \<Rightarrow> None
       | Some (Err e, st) \<Rightarrow> Some (Err (if e = InvalidInput then Code_InvalidArgument else Code_Internal), svc\<lparr>md_store := st\<rparr>, p)
       | Some (Ok i, st) \<Rightarrow> Some (Ok i, md_gauge Md_storage_nodes_total 1 (md_count ''put_storage_node'' ''ok'' (svc\<lparr>md_store := st\<rparr>)), p))"
    by (cases "md_cluster svc")
      (auto simp: md_put_storage_node_def broadcast_put_storage_node_def a Let_def md_count_def md_gauge_def
        split: option.split prod.split result.split)
qed

lemma alone_routes:
  assumes "md_alone svc"
  shows "md_route_by_object x svc n = Local" and "md_route_by_chunk x svc i = Ok Local \<or> md_route_by_chunk x svc i = Err Code_NotFound"
proof -
  have "fl_route_by_object x cm n = Local" if "md_cluster svc = Some cm" for cm n
  proof -
    have "hm_get (cm_peer_addrs cm) own = None" if "own \<noteq> cm_node_id cm" for own
      using assms \<open>md_cluster svc = Some cm\<close> that by (auto simp: md_alone_def map_of_eq_None_iff)
    then show ?thesis by (auto simp: fl_route_by_object_def get_owner_addr_def split: option.split)
  qed
  then show "md_route_by_object x svc n = Local" "md_route_by_chunk x svc i = Ok Local \<or> md_route_by_chunk x svc i = Err Code_NotFound"
    by (auto simp: md_route_by_object_def md_route_by_chunk_def fl_route_by_chunk_def split: option.split)
qed

lemma alone:
  assumes "md_alone svc"
  shows "object_scoped x n fw h svc p = (case h svc of (r, svc') \<Rightarrow> (r, svc', p))"
    and "object_scoped_option x n fw' h' svc p = (case h' svc of None \<Rightarrow> None | Some (r, svc') \<Rightarrow> Some (r, svc', p))"
    and "chunk_scoped x i fw'' h'' svc p = (case h'' svc of (r, svc') \<Rightarrow> (r, svc', p))"
  using alone_routes(1) [OF assms, of x n] alone_routes(2) [OF assms, of x i]
  by (auto simp: object_scoped_def object_scoped_option_def chunk_scoped_def)

lemma allocate_alone:
  "md_alone svc \<Longrightarrow> md_allocate_chunk P R x n svc p =
     (case md_allocate_chunk_local R n svc of None \<Rightarrow> None | Some (r, svc') \<Rightarrow> Some (r, svc', p))"
  by (simp add: md_allocate_chunk_def alone)

text \<open>A handler that works on the store alone.\<close>

definition meta_step where
  "meta_step svc svc' st' \<longleftrightarrow> md_store svc' = st' \<and> md_cluster svc' = md_cluster svc"

lemma local_steps:
  "meta_step svc (snd (md_put_object_local ser c n svc)) (snd (put_object ser c n (md_store svc)))"
  "is_ok (fst (md_put_object_local ser c n svc)) = is_ok (fst (put_object ser c n (md_store svc)))"
  "meta_step svc (snd (md_confirm_chunk_local ser i n c s svc)) (snd (confirm_chunk ser i n c s (md_store svc)))"
  "is_ok (fst (md_confirm_chunk_local ser i n c s svc)) = is_ok (fst (confirm_chunk ser i n c s (md_store svc)))"
  "meta_step svc (snd (md_delete_object_local ser n svc)) (snd (delete_object ser n (md_store svc)))"
  "is_ok (fst (md_delete_object_local ser n svc)) = is_ok (fst (delete_object ser n (md_store svc)))"
  "meta_step svc (snd (md_delete_chunk_local ser i svc)) (snd (delete_chunk ser i (md_store svc)))"
  "meta_step svc (snd (md_add_chunk_replica_local ser i s svc)) (snd (add_chunk_replica ser i s (md_store svc)))"
  "is_ok (fst (md_add_chunk_replica_local ser i s svc)) = is_ok (fst (add_chunk_replica ser i s (md_store svc)))"
  "meta_step svc (snd (md_update_object_checksum ser n c t svc)) (snd (update_object_checksum ser n c t (md_store svc)))"
  by (auto simp: md_handlers meta_step_def split: prod.split result.split)

section \<open>The metadata store as the abstract state\<close>

lemmas view_defs = meta_view_def store_objs_def store_reps_def store_reg_def

lemma view_env [simp]:
  "meta_view b (st\<lparr>ms_disk := d\<rparr>) = meta_view b st" "meta_view b (st\<lparr>ms_rng := g\<rparr>) = meta_view b st"
  by (simp_all add: view_defs fun_eq_iff)

lemma view_save: "ms_save ser st = (r, st') \<Longrightarrow> meta_view b st' = meta_view b st"
  using ms_save_effect [of ser st r st'] by auto

lemma view_put:
  assumes "put_object ser c n st = (r, st')"
  shows "if is_ok r then cv_objs (meta_view b st) n = None \<and> meta_view b st' = cv_put n (meta_view b st)
    else meta_view b st' = meta_view b st \<or>
      cv_objs (meta_view b st) n = None \<and> meta_view b st' = cv_put n (meta_view b st)"
proof (cases "hm_contains (ms_objects st) n")
  case True
  then show ?thesis using assms by (auto simp: put_object_def)
next
  case False
  then have "ms_save ser (st\<lparr>ms_objects := hm_insert n (MetaObject_new n c) (ms_objects st)\<rparr>) = (r, st')"
    using assms by (simp add: put_object_def)
  then have "meta_view b st' = meta_view b (st\<lparr>ms_objects := hm_insert n (MetaObject_new n c) (ms_objects st)\<rparr>)"
    by (rule view_save)
  also have "\<dots> = cv_put n (meta_view b st)" by (auto simp: view_defs cv_put_def MetaObject_new_def fun_eq_iff)
  finally show ?thesis using False by (simp add: view_defs)
qed

lemma listed_confirmed:
  assumes "ms_wf st" "cv_objs (meta_view b st) n = Some is" "i \<in> set is"
  obtains ob c where "hm_get (ms_objects st) n = Some ob" "is = mo_chunks ob"
    "hm_get (ms_chunks st) i = Some c" "mc_object_name c = n" "mc_status c = Confirmed"
proof -
  obtain ob where ob: "hm_get (ms_objects st) n = Some ob" "is = mo_chunks ob"
    using assms(2) by (auto simp: view_defs simp del: map_of_eq_Some_iff)
  moreover obtain c where "hm_get (ms_chunks st) i = Some c" "mc_object_name c = n" "mc_status c = Confirmed"
    using referenced_chunk [OF assms(1) ob(1)] assms(3) ob(2) by auto
  ultimately show ?thesis using that by blast
qed

lemma view_unlisted:
  assumes "ms_wf st" "\<And>c. hm_get (ms_chunks st) i = Some c \<Longrightarrow> mc_status c \<noteq> Confirmed"
  shows "unlisted (meta_view b st) i"
  unfolding unlisted_def
proof (intro allI impI notI)
  fix n "is" assume "cv_objs (meta_view b st) n = Some is" "i \<in> set is"
  then obtain ob c where "hm_get (ms_chunks st) i = Some c" "mc_status c = Confirmed"
    using assms(1) listed_confirmed by metis
  then show False using assms(2) by blast
qed

lemma meta_view_wf: assumes "ms_wf st" shows "cv_wf (meta_view b st)"
  unfolding cv_wf_def
proof (intro allI impI conjI)
  fix n "is" assume o: "cv_objs (meta_view b st) n = Some is"
  then show "distinct is" using ms_wfD(4) [OF assms] by (auto simp: view_defs object_wf_def simp del: map_of_eq_Some_iff)
  fix m js assume o': "cv_objs (meta_view b st) m = Some js" and ne: "m \<noteq> n"
  show "set is \<inter> set js = {}"
  proof (rule ccontr)
    assume "set is \<inter> set js \<noteq> {}"
    then obtain i where i: "i \<in> set is" "i \<in> set js" by auto
    obtain ob c where c: "hm_get (ms_chunks st) i = Some c" "mc_object_name c = n"
      using listed_confirmed [OF assms o i(1)] by blast
    obtain ob' c' where "hm_get (ms_chunks st) i = Some c'" "mc_object_name c' = m"
      using listed_confirmed [OF assms o' i(2)] by blast
    then show False using c ne by simp
  qed
qed

lemma view_confirm:
  assumes wf: "ms_wf st" and c: "confirm_chunk ser i n ck s st = (r, st')"
  shows "if is_ok r then unlisted (meta_view b st) i \<and> meta_view b st' = cv_confirm i n s (meta_view b st)
    else meta_view b st' = meta_view b st \<or>
      unlisted (meta_view b st) i \<and> meta_view b st' = cv_confirm i n s (meta_view b st)"
proof (cases "\<not> hm_contains (ms_storage_nodes st) s \<or>
    (\<exists>e. hm_get (ms_chunks st) i = Some e \<and> mc_status e = Confirmed) \<or> hm_get (ms_objects st) n = None")
  case True
  then have "st' = st \<and> \<not> is_ok r" using c
    by (auto simp: confirm_chunk_def simp del: map_of_eq_Some_iff map_of_eq_None_iff split: option.splits if_splits)
  then show ?thesis by simp
next
  case False
  then obtain ob where ob: "hm_get (ms_objects st) n = Some ob" by auto
  let ?st = "st\<lparr>ms_chunks := hm_insert i (add_storage_node s (MetaChunk_new i ck n)) (ms_chunks st),
      ms_objects := hm_insert n (add_chunk i ob) (ms_objects st)\<rparr>"
  have "ms_save ser ?st = (r, st')"
    using False ob c by (auto simp: confirm_chunk_def Let_def simp del: map_of_eq_Some_iff split: option.splits)
  then have "meta_view b st' = meta_view b ?st" by (rule view_save)
  also have "\<dots> = cv_confirm i n s (meta_view b st)"
    using ob by (auto simp: view_defs cv_confirm_def add_chunk_def add_storage_node_def MetaChunk_new_def fun_eq_iff)
  finally show ?thesis using view_unlisted [OF wf, of i b] False by auto
qed

lemma view_drop:
  assumes wf: "ms_wf st" and d: "delete_object ser n st = (r, st')"
  shows "if is_ok r then meta_view b st' = cv_drop n (meta_view b st)
    else meta_view b st' = meta_view b st \<or> meta_view b st' = cv_drop n (meta_view b st)"
proof (cases "hm_get (ms_objects st) n")
  case None
  then have "st' = st" using d by (auto simp: delete_object_def)
  moreover have "\<not> is_ok r" using None d by (auto simp: delete_object_def)
  ultimately show ?thesis by simp
next
  case (Some ob)
  let ?st = "remove_chunks (mo_chunks ob) (st\<lparr>ms_objects := hm_remove n (ms_objects st)\<rparr>)"
  have "ms_save ser ?st = (r, st')" using d Some by (simp add: delete_object_def)
  then have "meta_view b st' = meta_view b ?st" by (rule view_save)
  also have "\<dots> = cv_drop n (meta_view b st)"
    using Some by (auto simp: view_defs cv_drop_def remove_chunks_def fold_remove_get fun_eq_iff)
  finally show ?thesis by simp
qed

lemma view_replica:
  assumes "add_chunk_replica ser i s st = (r, st')"
  shows "if is_ok r then s \<notin> set (cv_reps (meta_view b st) i) \<and> meta_view b st' = cv_replica i s (meta_view b st)
    else meta_view b st' = meta_view b st \<or>
      s \<notin> set (cv_reps (meta_view b st) i) \<and> meta_view b st' = cv_replica i s (meta_view b st)"
proof (cases "\<exists>c. hm_contains (ms_storage_nodes st) s \<and> hm_get (ms_chunks st) i = Some c \<and>
    s \<notin> set (mc_storage_nodes c) \<and> length (mc_storage_nodes c) < MAX_REPLICAS")
  case False
  then have "st' = st \<and> \<not> is_ok r" using assms
    by (auto simp: add_chunk_replica_def simp del: map_of_eq_Some_iff map_of_eq_None_iff split: option.splits if_splits)
  then show ?thesis by simp
next
  case True
  then obtain c where c: "hm_contains (ms_storage_nodes st) s" "hm_get (ms_chunks st) i = Some c"
    "s \<notin> set (mc_storage_nodes c)" "length (mc_storage_nodes c) < MAX_REPLICAS" by blast
  let ?st = "st\<lparr>ms_chunks := hm_insert i (add_storage_node s c) (ms_chunks st)\<rparr>"
  have "ms_save ser ?st = (r, st')"
    using assms c by (simp add: add_chunk_replica_def del: map_of_eq_Some_iff map_of_eq_None_iff)
  then have "meta_view b st' = meta_view b ?st" by (rule view_save)
  also have "\<dots> = cv_replica i s (meta_view b st)"
    using c(2) by (auto simp: view_defs cv_replica_def add_storage_node_def fun_eq_iff)
  finally show ?thesis using c by (auto simp: view_defs)
qed

lemma replica_refused:
  assumes "calm ser st" "add_chunk_replica ser i s st = (r, st')" "\<not> is_ok r"
  shows "st' = st"
proof (cases "\<exists>c. hm_contains (ms_storage_nodes st) s \<and> hm_get (ms_chunks st) i = Some c \<and>
    s \<notin> set (mc_storage_nodes c) \<and> length (mc_storage_nodes c) < MAX_REPLICAS")
  case True
  then obtain c where c: "hm_contains (ms_storage_nodes st) s" "hm_get (ms_chunks st) i = Some c"
    "s \<notin> set (mc_storage_nodes c)" "length (mc_storage_nodes c) < MAX_REPLICAS" by blast
  let ?st = "st\<lparr>ms_chunks := hm_insert i (add_storage_node s c) (ms_chunks st)\<rparr>"
  have "ms_save ser ?st = (r, st')"
    using assms(2) c by (simp add: add_chunk_replica_def del: map_of_eq_Some_iff map_of_eq_None_iff)
  moreover obtain d where "ms_save ser ?st = (Ok (), ?st\<lparr>ms_disk := d\<rparr>)"
    using calm_save [of ser ?st] assms(1) by auto
  ultimately have "r = Ok ()" by simp
  then show ?thesis using assms(3) by simp
next
  case False
  then show ?thesis using assms(2)
    by (auto simp: add_chunk_replica_def simp del: map_of_eq_Some_iff map_of_eq_None_iff split: option.splits if_splits)
qed

lemma view_checksum:
  "update_object_checksum ser n c t st = (r, st') \<Longrightarrow> meta_view b st' = meta_view b st"
proof (cases "hm_get (ms_objects st) n")
  case (Some ob)
  let ?st = "st\<lparr>ms_objects := hm_insert n (ob\<lparr>mo_checksum := c, mo_total_size := t\<rparr>) (ms_objects st)\<rparr>"
  assume "update_object_checksum ser n c t st = (r, st')"
  then have "ms_save ser ?st = (r, st')" using Some by (simp add: update_object_checksum_def)
  then have "meta_view b st' = meta_view b ?st" by (rule view_save)
  also have "\<dots> = meta_view b st" using Some by (auto simp: view_defs fun_eq_iff)
  finally show ?thesis .
qed (simp add: update_object_checksum_def)

lemma view_unlink:
  assumes wf: "ms_wf st" and d: "delete_chunk ser i st = (r, st')"
  shows "meta_view b st' = meta_view b st \<or> meta_view b st' = cv_unlink i (meta_view b st)"
proof (cases "hm_get (ms_chunks st) i")
  case None
  then show ?thesis using d by (auto simp: delete_chunk_def)
next
  case (Some c)
  let ?n = "mc_object_name c" and ?st = "st\<lparr>ms_chunks := hm_remove i (ms_chunks st)\<rparr>"
  have other: "filter (\<lambda>j. j \<noteq> i) (mo_chunks ob) = mo_chunks ob"
    if "hm_get (ms_objects st) m = Some ob" "m \<noteq> ?n" for m ob
  proof -
    have "i \<notin> set (mo_chunks ob)" using referenced_chunk [OF wf that(1), of i] Some that(2) by (metis option.inject)
    then show ?thesis by (auto simp: filter_id_conv)
  qed
  show ?thesis
  proof (cases "hm_get (ms_objects st) ?n")
    case None
    then have "st' = ?st" using d Some by (auto simp: delete_chunk_def Let_def)
    moreover have "meta_view b ?st = cv_unlink i (meta_view b st)"
    proof -
      have "map_option mo_chunks (hm_get (ms_objects st) m) =
          map_option (filter (\<lambda>j. j \<noteq> i)) (map_option mo_chunks (hm_get (ms_objects st) m))" for m
        using other [of m] None by (cases "hm_get (ms_objects st) m"; cases "m = ?n") auto
      then show ?thesis by (auto simp: view_defs cv_unlink_def fun_eq_iff)
    qed
    ultimately show ?thesis by simp
  next
    case ob: (Some ob)
    let ?st2 = "?st\<lparr>ms_objects := hm_insert ?n (ob\<lparr>mo_chunks := filter (\<lambda>j. j \<noteq> i) (mo_chunks ob)\<rparr>) (ms_objects ?st)\<rparr>"
    have "ms_save ser ?st2 = (r, st')" using d Some ob by (simp add: delete_chunk_def Let_def)
    then have "meta_view b st' = meta_view b ?st2" by (rule view_save)
    also have "\<dots> = cv_unlink i (meta_view b st)"
    proof -
      have "map_option mo_chunks (hm_get (ms_objects ?st2) m) =
          map_option (filter (\<lambda>j. j \<noteq> i)) (map_option mo_chunks (hm_get (ms_objects st) m))" for m
        using other [of m] ob by (cases "hm_get (ms_objects st) m"; cases "m = ?n") auto
      then show ?thesis by (auto simp: view_defs cv_unlink_def fun_eq_iff)
    qed
    finally show ?thesis by simp
  qed
qed

lemma value_registered:
  assumes "ms_wf st" "nd \<in> set (hm_values (ms_storage_nodes st))"
  shows "store_reg st (msn_id nd) = Some (msn_address nd)"
proof -
  obtain s where s: "hm_get (ms_storage_nodes st) s = Some nd"
    using assms hm_values_iff [of "ms_storage_nodes st" nd] ms_wfD(3) [OF assms(1)] by blast
  then show ?thesis using ms_wfD(6) [OF assms(1) s] by (simp add: store_reg_def)
qed

lemma view_allocate:
  assumes wf: "ms_wf st" and rand: "\<And>n g. 0 < n \<Longrightarrow> fst (rand_choose R n g) < n"
    and p: "allocate_chunk R n st = Some (r, st')"
  shows "meta_view b st' = meta_view b st \<and>
    (\<forall>i s a. r = Ok (i, s, a) \<longrightarrow> unlisted (meta_view b st) i \<and> cv_reg (meta_view b st) s = Some a)"
proof -
  obtain i g where ig: "generate_unique_id (rand_u64 R) (ms_chunks st) (ms_rng st) = Some (i, g)"
    using p by (auto simp: allocate_chunk_def split: option.splits)
  have new: "hm_get (ms_chunks st) i = None" by (rule generate_unique_id_fresh [OF ig])
  show ?thesis
  proof (cases "ms_storage_nodes st = []")
    case True
    then show ?thesis using p ig by (auto simp: allocate_chunk_def choose_storage_node_def)
  next
    case False
    obtain k h where k: "rand_choose R (length (ms_storage_nodes st)) g = (k, h)" by fastforce
    let ?nd = "hm_values (ms_storage_nodes st) ! k"
    have "k < length (ms_storage_nodes st)" using rand [of "length (ms_storage_nodes st)" g] k False by simp
    then have "?nd \<in> set (hm_values (ms_storage_nodes st))" by (intro nth_mem) simp
    then have reg: "store_reg st (msn_id ?nd) = Some (msn_address ?nd)" by (rule value_registered [OF wf])
    have e: "r = Ok (i, msn_id ?nd, msn_address ?nd) \<and>
        st' = st\<lparr>ms_rng := h, ms_chunks := hm_insert i (MetaChunk_new_pending i n) (ms_chunks st)\<rparr>"
      using p ig k False by (auto simp: allocate_chunk_def choose_storage_node_def)
    moreover have "meta_view b (st\<lparr>ms_rng := h, ms_chunks := hm_insert i (MetaChunk_new_pending i n) (ms_chunks st)\<rparr>) = meta_view b st"
      using new by (auto simp: view_defs MetaChunk_new_pending_def fun_eq_iff)
    moreover have "unlisted (meta_view b st) i" using new by (intro view_unlisted [OF wf]) simp
    ultimately show ?thesis using reg by (auto simp: meta_view_def)
  qed
qed

text \<open>The reply to a lookup names the chunks and the addresses of their replicas.\<close>

lemma view_get:
  assumes wf: "ms_wf (md_store svc)" and g: "md_get_object_local n svc = (Ok resp, svc')"
  shows "cv_objs (meta_view b (md_store svc)) n = Some (map pc_id (go_chunks resp)) \<and>
    (\<forall>c \<in> set (go_chunks resp). map (Some \<circ> msn_address) (pc_storage_nodes c) =
       map (cv_reg (meta_view b (md_store svc))) (cv_reps (meta_view b (md_store svc)) (pc_id c)))"
proof -
  let ?st = "md_store svc"
  obtain ob where ob: "hm_get (ms_objects ?st) n = Some ob"
    using g by (auto simp: md_get_object_local_def md_get_object_read_def get_object_def
        simp del: map_of_eq_Some_iff split: option.splits)
  have k: "\<forall>i \<in> set (mo_chunks ob). replicas_known ?st i"
    and r: "go_chunks resp = map (\<lambda>i. list_chunk ?st (the (hm_get (ms_chunks ?st) i))) (mo_chunks ob)"
    using g ob by (auto simp: md_get_object_local_def md_get_object_read_def get_object_def md_get_object_reply_def
        resolve_chunks_eq Let_def split: if_splits)
  have c: "pc_id (list_chunk ?st (the (hm_get (ms_chunks ?st) i))) = i \<and>
      map (Some \<circ> msn_address) (pc_storage_nodes (list_chunk ?st (the (hm_get (ms_chunks ?st) i)))) =
      map (store_reg ?st) (store_reps ?st i)" if i: "i \<in> set (mo_chunks ob)" for i
  proof -
    obtain c where c: "hm_get (ms_chunks ?st) i = Some c" "\<forall>s \<in> set (mc_storage_nodes c). hm_contains (ms_storage_nodes ?st) s"
      using bspec [OF k i]
      by (cases "hm_get (ms_chunks ?st) i") (simp_all add: replicas_known_def del: map_of_eq_Some_iff map_of_eq_None_iff)
    then show ?thesis using ms_wfD(5) [OF wf c(1)]
      by (auto simp: list_chunk_def known_nodes_eq store_reps_def store_reg_def chunk_wf_def
          simp del: map_of_eq_Some_iff map_of_eq_None_iff)
  qed
  have "map pc_id (go_chunks resp) = mo_chunks ob" using c by (simp add: r map_idI)
  then show ?thesis using ob c by (auto simp: r meta_view_def store_objs_def)
qed

section \<open>The nodes as the abstract state\<close>

lemma to_node_Some:
  "to_node a f w = Some (r, w') \<longleftrightarrow>
     (net_nodes w a = None \<and> r = Err Code_Unavailable \<and> w' = w) \<or>
     (\<exists>sn sn'. net_nodes w a = Some sn \<and> f sn = (r, sn') \<and> w' = w\<lparr>net_nodes := (net_nodes w)(a \<mapsto> sn')\<rparr>)"
  by (auto simp: to_node_def split: option.splits prod.splits)

text \<open>A step of one node that keeps its invariant, and what it does to the view.\<close>

lemma node_step:
  assumes w: "net_sound R H w" and sn: "net_nodes w a = Some sn" and inv: "sn_invar H sn'"
  shows "net_sound R H (w\<lparr>net_nodes := (net_nodes w)(a \<mapsto> sn')\<rparr>)"
    and "net_view (w\<lparr>net_nodes := (net_nodes w)(a \<mapsto> sn')\<rparr>) = (net_view w)\<lparr>cv_blob := (cv_blob (net_view w))(a := sn_chunks sn')\<rparr>"
  using assms by (auto simp: net_sound_def net_view_def meta_view_def net_blob_def fun_eq_iff)

lemma node_blob: "net_nodes w a = Some sn \<Longrightarrow> cv_blob (net_view w) a = sn_chunks sn"
  by (simp add: net_view_def meta_view_def net_blob_def fun_eq_iff)

lemma blob_same: "cv_blob v a = f \<Longrightarrow> v\<lparr>cv_blob := (cv_blob v)(a := f)\<rparr> = v"
  by (simp add: fun_upd_idem)

lemma node_same:
  assumes "net_sound R H w" "net_nodes w a = Some sn" "sn_invar H sn'" "sn_chunks sn' = sn_chunks sn"
  shows "net_sound R H (w\<lparr>net_nodes := (net_nodes w)(a \<mapsto> sn')\<rparr>)"
    and "net_view (w\<lparr>net_nodes := (net_nodes w)(a \<mapsto> sn')\<rparr>) = net_view w"
  using node_step [OF assms(1-3)] assms(4) blob_same [OF node_blob [OF assms(2)]] by simp_all

lemma node_invar: "net_sound R H w \<Longrightarrow> net_nodes w a = Some sn \<Longrightarrow> sn_invar H sn"
  by (simp add: net_sound_def)

lemma node_query:
  assumes w: "net_sound R H w" and c: "to_node a (\<lambda>sn. (q sn, sn)) w = Some (r, w')"
  shows "net_sound R H w' \<and> net_view w' = net_view w"
  using c node_same [OF w _ node_invar [OF w]] w by (auto simp: to_node_Some)

lemma node_write:
  assumes w: "net_sound R H w" and c: "to_node a (sn_write_chunk H i d) w = Some (r, w')"
  shows "net_sound R H w' \<and> (if is_ok r then cv_blob (net_view w) a i = None \<and> net_view w' = cv_write a i d (net_view w)
    else net_view w' = net_view w)"
proof (cases "net_nodes w a")
  case None
  then show ?thesis using c w by (simp add: to_node_Some)
next
  case (Some sn)
  then obtain sn' where s: "sn_write_chunk H i d sn = (r, sn')" "w' = w\<lparr>net_nodes := (net_nodes w)(a \<mapsto> sn')\<rparr>"
    using c by (auto simp: to_node_Some)
  note inv = node_invar [OF w Some]
  note st = node_step [OF w Some sn.put_invar [OF inv s(1)]]
  show ?thesis
  proof (cases "is_ok r")
    case True
    then show ?thesis using st s(2) sn.put_abs [OF inv s(1)] sn.put_fresh [OF inv s(1)] node_blob [OF Some]
      by (simp add: cv_write_def)
  next
    case False
    then show ?thesis using st s(2) sn.put_abs [OF inv s(1)] blob_same [OF node_blob [OF Some]] by simp
  qed
qed

lemma node_read:
  assumes w: "net_sound R H w" and c: "to_node a (sn_read_chunk H i) w = Some (r, w')"
  shows "net_sound R H w' \<and> net_view w' = net_view w \<and> (\<forall>j e ck. r = Ok (j, e, ck) \<longrightarrow> cv_blob (net_view w) a i = Some e)"
proof (cases "net_nodes w a")
  case None
  then show ?thesis using c w by (simp add: to_node_Some)
next
  case (Some sn)
  then obtain sn' where s: "sn_read_chunk H i sn = (r, sn')" "w' = w\<lparr>net_nodes := (net_nodes w)(a \<mapsto> sn')\<rparr>"
    using c by (auto simp: to_node_Some)
  note inv = node_invar [OF w Some]
  have "sn_chunks sn i = Some e" if "r = Ok (j, e, ck)" for j e ck
    using sn.get_sound [OF inv s(1)] that by simp
  then show ?thesis
    using node_same [OF w Some sn.get_invar [OF inv s(1)] sn.get_abs [OF inv s(1)]] s(2) node_blob [OF Some] by simp
qed

lemma node_erase:
  assumes w: "net_sound R H w" and c: "to_node a (sn_delete_chunk i) w = Some (r, w')"
  shows "net_sound R H w' \<and> (net_view w' = net_view w \<or> net_view w' = cv_erase a i (net_view w))"
proof (cases "net_nodes w a")
  case None
  then show ?thesis using c w by (simp add: to_node_Some)
next
  case (Some sn)
  then obtain sn' where s: "sn_delete_chunk i sn = (r, sn')" "w' = w\<lparr>net_nodes := (net_nodes w)(a \<mapsto> sn')\<rparr>"
    using c by (auto simp: to_node_Some)
  note inv = node_invar [OF w Some]
  show ?thesis using node_step [OF w Some sn.del_invar [OF inv s(1)]] s(2) sn.del_abs [OF inv s(1)] node_blob [OF Some]
      blob_same [OF node_blob [OF Some]]
    by (auto simp: cv_erase_def)
qed

section \<open>The deployment keeps the contract\<close>

lemma meta_alone: "net_sound R H w \<Longrightarrow> md_alone (net_meta w) \<and> ms_wf (md_store (net_meta w))"
  by (simp add: net_sound_def)

lemma meta_sound:
  assumes "net_sound R H w" "meta_step (net_meta w) svc' st'" "ms_wf st'"
  shows "net_sound R H (w\<lparr>net_meta := svc', net_peers := p\<rparr>)"
    and "net_view (w\<lparr>net_meta := svc', net_peers := p\<rparr>) = meta_view (net_blob w) st'"
  using assms by (auto simp: net_sound_def meta_step_def md_alone_def net_view_def meta_view_def net_blob_def fun_eq_iff)

text \<open>A handler of the metadata service that runs alone: what it does to its store decides.\<close>

lemma meta_law:
  assumes w: "net_sound R H w" and c: "to_meta f w = Some (r, w')"
    and f: "f (net_meta w) (net_peers w) = (case h (net_meta w) of (r, svc) \<Rightarrow> (r, svc, net_peers w))"
    and st: "meta_step (net_meta w) (snd (h (net_meta w))) st'" and wf: "ms_wf st'"
  shows "net_sound R H w' \<and> net_view w' = meta_view (net_blob w) st' \<and> r = fst (h (net_meta w))"
proof -
  obtain svc where h: "h (net_meta w) = (r, svc)" "w' = w\<lparr>net_meta := svc, net_peers := net_peers w\<rparr>"
    using c f by (auto simp: to_meta_def split: prod.splits)
  then show ?thesis using meta_sound [OF w _ wf, of svc "net_peers w"] st by simp
qed

lemma net_nodes_law:
  assumes w: "net_sound R H w" and c: "mcl_list_storage_nodes (net_metadata P x R uri ser) w = Some (r, w')"
  shows "w' = w \<and> r = Ok (map (\<lambda>n. \<lparr>msn_id = msn_id n, msn_address = msn_address n\<rparr>) (hm_values (ms_storage_nodes (md_store (net_meta w))))) \<and>
    (\<forall>ns. r = Ok ns \<longrightarrow> (\<forall>n \<in> set ns. cv_reg (net_view w) (msn_id n) = Some (msn_address n)))"
  using c value_registered [of "md_store (net_meta w)"] meta_alone [OF w]
  by (fastforce simp: net_metadata_def to_meta_def md_list_storage_nodes_def list_storage_nodes_def net_view_def meta_view_def)

lemma net_put_law:
  assumes w: "net_sound R H w" and c: "mcl_put_object (net_metadata P x R uri ser) ck n w = Some (u, w')"
  shows "net_sound R H w' \<and>
      (if is_ok u then cv_objs (net_view w) n = None \<and> net_view w' = cv_put n (net_view w)
       else net_view w' = net_view w \<or> cv_objs (net_view w) n = None \<and> net_view w' = cv_put n (net_view w))"
proof -
  note a = meta_alone [OF w]
  have "to_meta (md_put_object P x ser ck n) w = Some (u, w')" using c by (simp add: net_metadata_def)
  then have l: "net_sound R H w' \<and> net_view w' = meta_view (net_blob w) (snd (put_object ser ck n (md_store (net_meta w)))) \<and>
      u = fst (md_put_object_local ser ck n (net_meta w))"
    by (rule meta_law [where h = "md_put_object_local ser ck n", OF w _ _ local_steps(1)]) (use a in \<open>simp_all add: md_put_object_def alone wf_put\<close>)
  obtain q st' where p: "put_object ser ck n (md_store (net_meta w)) = (q, st')" by fastforce
  have "is_ok u = is_ok q" using l local_steps(2) [of ser ck n "net_meta w"] p by simp
  then show ?thesis using view_put [OF p, of "net_blob w"] l p by (simp add: net_view_def)
qed

lemma net_confirm_law:
  assumes w: "net_sound R H w" and c: "mcl_confirm_chunk (net_metadata P x R uri ser) i n ck s w = Some (u, w')"
  shows "net_sound R H w' \<and>
      (if is_ok u then unlisted (net_view w) i \<and> net_view w' = cv_confirm i n s (net_view w)
       else net_view w' = net_view w \<or> unlisted (net_view w) i \<and> net_view w' = cv_confirm i n s (net_view w))"
proof -
  note a = meta_alone [OF w]
  have "to_meta (md_confirm_chunk P x ser i n ck s) w = Some (u, w')" using c by (simp add: net_metadata_def)
  then have l: "net_sound R H w' \<and> net_view w' = meta_view (net_blob w) (snd (confirm_chunk ser i n ck s (md_store (net_meta w)))) \<and>
      u = fst (md_confirm_chunk_local ser i n ck s (net_meta w))"
    by (rule meta_law [where h = "md_confirm_chunk_local ser i n ck s", OF w _ _ local_steps(3)]) (use a in \<open>simp_all add: md_confirm_chunk_def alone wf_confirm_chunk\<close>)
  obtain q st' where p: "confirm_chunk ser i n ck s (md_store (net_meta w)) = (q, st')" by fastforce
  have "is_ok u = is_ok q" using l local_steps(4) [of ser i n ck s "net_meta w"] p by simp
  then show ?thesis using view_confirm [OF _ p, of "net_blob w"] a l p by (simp add: net_view_def)
qed

lemma net_drop_law:
  assumes w: "net_sound R H w" and c: "mcl_delete_object (net_metadata P x R uri ser) n w = Some (u, w')"
  shows "net_sound R H w' \<and> (if is_ok u then net_view w' = cv_drop n (net_view w)
      else net_view w' = net_view w \<or> net_view w' = cv_drop n (net_view w))"
proof -
  note a = meta_alone [OF w]
  have "to_meta (md_delete_object P x ser n) w = Some (u, w')" using c by (simp add: net_metadata_def)
  then have l: "net_sound R H w' \<and> net_view w' = meta_view (net_blob w) (snd (delete_object ser n (md_store (net_meta w)))) \<and>
      u = fst (md_delete_object_local ser n (net_meta w))"
    by (rule meta_law [where h = "md_delete_object_local ser n", OF w _ _ local_steps(5)]) (use a in \<open>simp_all add: md_delete_object_def alone wf_delete_object\<close>)
  obtain q st' where p: "delete_object ser n (md_store (net_meta w)) = (q, st')" by fastforce
  have "is_ok u = is_ok q" using l local_steps(6) [of ser n "net_meta w"] p by simp
  then show ?thesis using view_drop [OF _ p, of "net_blob w"] a l p by (simp add: net_view_def)
qed

lemma net_unlink_law:
  assumes w: "net_sound R H w" and c: "mcl_delete_chunk (net_metadata P x R uri ser) i w = Some (u, w')"
  shows "net_sound R H w' \<and> (net_view w' = net_view w \<or> net_view w' = cv_unlink i (net_view w))"
proof -
  note a = meta_alone [OF w]
  have "to_meta (md_delete_chunk P x ser i) w = Some (u, w')" using c by (simp add: net_metadata_def)
  then have l: "net_sound R H w' \<and> net_view w' = meta_view (net_blob w) (snd (delete_chunk ser i (md_store (net_meta w)))) \<and>
      u = fst (md_delete_chunk_local ser i (net_meta w))"
    by (rule meta_law [where h = "md_delete_chunk_local ser i", OF w _ _ local_steps(7)]) (use a in \<open>simp_all add: md_delete_chunk_def alone wf_delete_chunk\<close>)
  obtain q st' where p: "delete_chunk ser i (md_store (net_meta w)) = (q, st')" by fastforce
  then show ?thesis using view_unlink [OF _ p, of "net_blob w"] a l by (simp add: net_view_def)
qed

lemma net_replica_law:
  assumes w: "net_sound R H w" and c: "mcl_add_chunk_replica (net_metadata P x R uri ser) i s w = Some (u, w')"
  shows "net_sound R H w' \<and>
      (if is_ok u then s \<notin> set (cv_reps (net_view w) i) \<and> net_view w' = cv_replica i s (net_view w)
       else net_view w' = net_view w \<or> s \<notin> set (cv_reps (net_view w) i) \<and> net_view w' = cv_replica i s (net_view w))"
    and "calm ser (md_store (net_meta w)) \<Longrightarrow> \<not> is_ok u \<Longrightarrow> net_view w' = net_view w"
proof -
  note a = meta_alone [OF w]
  have "to_meta (md_add_chunk_replica P x ser i s) w = Some (u, w')" using c by (simp add: net_metadata_def)
  then have l: "net_sound R H w' \<and> net_view w' = meta_view (net_blob w) (snd (add_chunk_replica ser i s (md_store (net_meta w)))) \<and>
      u = fst (md_add_chunk_replica_local ser i s (net_meta w))"
    by (rule meta_law [where h = "md_add_chunk_replica_local ser i s", OF w _ _ local_steps(8)]) (use a in \<open>simp_all add: md_add_chunk_replica_def alone wf_add_chunk_replica\<close>)
  obtain q st' where p: "add_chunk_replica ser i s (md_store (net_meta w)) = (q, st')" by fastforce
  have ok: "is_ok u = is_ok q" using l local_steps(9) [of ser i s "net_meta w"] p by simp
  then show "net_sound R H w' \<and>
      (if is_ok u then s \<notin> set (cv_reps (net_view w) i) \<and> net_view w' = cv_replica i s (net_view w)
       else net_view w' = net_view w \<or> s \<notin> set (cv_reps (net_view w) i) \<and> net_view w' = cv_replica i s (net_view w))"
    using view_replica [OF p, of "net_blob w"] l p by (simp add: net_view_def)
  assume h: "calm ser (md_store (net_meta w))" "\<not> is_ok u"
  have "st' = md_store (net_meta w)"
    using replica_refused [OF h(1) p] h(2) ok by simp
  then show "net_view w' = net_view w" using l p by (simp add: net_view_def)
qed

lemma net_checksum_law:
  assumes w: "net_sound R H w" and c: "mcl_update_object_checksum (net_metadata P x R uri ser) n ck t w = Some (u, w')"
  shows "net_sound R H w' \<and> net_view w' = net_view w"
proof -
  note a = meta_alone [OF w]
  obtain q st' where p: "update_object_checksum ser n ck t (md_store (net_meta w)) = (q, st')" by fastforce
  have wf: "ms_wf (snd (update_object_checksum ser n ck t (md_store (net_meta w))))" using a wf_update_object_checksum by blast
  have "to_meta (\<lambda>svc p. case md_update_object_checksum ser n ck t svc of (r, svc') \<Rightarrow> (r, svc', p)) w = Some (u, w')"
    using c by (simp add: net_metadata_def)
  then have "net_sound R H w' \<and> net_view w' = meta_view (net_blob w) (snd (update_object_checksum ser n ck t (md_store (net_meta w)))) \<and>
      u = fst (md_update_object_checksum ser n ck t (net_meta w))"
    by (rule meta_law [where h = "md_update_object_checksum ser n ck t", OF w _ _ local_steps(10) wf]) simp
  then show ?thesis using view_checksum [OF p, of "net_blob w"] p by (simp add: net_view_def)
qed

lemma net_allocate_law:
  assumes w: "net_sound R H w" and c: "mcl_allocate_chunk (net_metadata P x R uri ser) n ck w = Some (al, w')"
  shows "net_sound R H w' \<and> net_view w' = net_view w \<and>
    (\<forall>i s a. al = Ok (i, s, a) \<longrightarrow> unlisted (net_view w) i \<and> cv_reg (net_view w) s = Some a)"
proof -
  note a = meta_alone [OF w]
  have "to_meta_option (md_allocate_chunk P R x n) w = Some (al, w')" using c by (simp add: net_metadata_def)
  then obtain svc where h: "md_allocate_chunk_local R n (net_meta w) = Some (al, svc)"
    "w' = w\<lparr>net_meta := svc, net_peers := net_peers w\<rparr>"
    using allocate_alone [of "net_meta w" P R x n "net_peers w"] a by (auto simp: to_meta_option_def split: option.splits)
  then obtain q st' where p: "allocate_chunk R n (md_store (net_meta w)) = Some (q, st')"
    "meta_step (net_meta w) svc st'" "\<forall>v. al = Ok v \<longrightarrow> q = Ok v"
    by (auto simp: md_allocate_chunk_local_def meta_step_def split: option.splits prod.splits result.splits)
  have "\<And>n g. 0 < n \<Longrightarrow> fst (rand_choose R n g) < n" using w by (simp add: net_sound_def)
  then show ?thesis
    using view_allocate [OF _ _ p(1), of "net_blob w"] a p(3) h(2)
      meta_sound [OF w p(2) wf_allocate_chunk [OF _ p(1)], of "net_peers w"]
    by (auto simp: net_view_def)
qed

lemma net_get_law:
  assumes w: "net_sound R H w" and c: "mcl_get_object (net_metadata P x R uri ser) n w = Some (ob, w')"
  shows "net_sound R H w' \<and> net_view w' = net_view w \<and>
    (\<forall>resp. ob = Ok resp \<longrightarrow> cv_objs (net_view w) n = Some (map pc_id (go_chunks resp)) \<and>
       (\<forall>c \<in> set (go_chunks resp). map (Some \<circ> msn_address) (pc_storage_nodes c) =
          map (cv_reg (net_view w)) (cv_reps (net_view w) (pc_id c))))"
proof -
  note a = meta_alone [OF w]
  have st: "meta_step (net_meta w) (snd (md_get_object_local n (net_meta w))) (md_store (net_meta w))"
    by (auto simp: md_get_object_local_def md_get_object_reply_def meta_step_def Let_def split: result.split)
  have "to_meta (md_get_object P x n) w = Some (ob, w')" using c by (simp add: net_metadata_def)
  then have l: "net_sound R H w' \<and> net_view w' = meta_view (net_blob w) (md_store (net_meta w)) \<and>
      ob = fst (md_get_object_local n (net_meta w))"
    by (rule meta_law [where h = "md_get_object_local n", OF w _ _ st]) (use a in \<open>simp_all add: md_get_object_def alone\<close>)
  then show ?thesis using view_get [of "net_meta w" n _ "snd (md_get_object_local n (net_meta w))" "net_blob w"] a
    by (auto simp: net_view_def prod_eq_iff)
qed

lemma net_live_get:
  assumes w: "net_sound R H w" and h: "net_healthy ser w" and o: "cv_objs (net_view w) n = Some is"
    and r: "\<And>i s. i \<in> set is \<Longrightarrow> s \<in> set (cv_reps (net_view w) i) \<Longrightarrow> cv_reg (net_view w) s \<noteq> None"
  shows "\<exists>resp w'. mcl_get_object (net_metadata P x R uri ser) n w = Some (Ok resp, w') \<and> net_healthy ser w'"
proof -
  note a = meta_alone [OF w]
  let ?st = "md_store (net_meta w)"
  obtain ob where ob: "hm_get (ms_objects ?st) n = Some ob" "is = mo_chunks ob"
    using o by (auto simp: net_view_def view_defs simp del: map_of_eq_Some_iff)
  have "replicas_known ?st i" if i: "i \<in> set (mo_chunks ob)" for i
  proof -
    obtain c where c: "hm_get (ms_chunks ?st) i = Some c" using referenced_chunk [OF _ ob(1) i] a by blast
    have "hm_contains (ms_storage_nodes ?st) s" if "s \<in> set (mc_storage_nodes c)" for s
      using r [of i s] that i c ob(2) by (auto simp: net_view_def view_defs simp del: map_of_eq_Some_iff)
    then show ?thesis using c by (simp add: replicas_known_def)
  qed
  then have "\<exists>resp. md_get_object_local n (net_meta w) = (Ok resp, md_count ''get_object'' ''ok'' (net_meta w))"
    using ob by (simp add: md_get_object_local_def md_get_object_read_def get_object_def md_get_object_reply_def resolve_chunks_eq Let_def)
  then show ?thesis using a h
    by (auto simp: net_metadata_def to_meta_def md_get_object_def alone net_healthy_def)
qed

lemma net_live_read:
  assumes w: "net_sound R H w" and h: "net_healthy ser w" and b: "cv_blob (net_view w) a i = Some d"
  shows "\<exists>e w'. to_node a (sn_read_chunk H i) w = Some (Ok e, w') \<and> net_healthy ser w'"
proof -
  obtain sn where sn: "net_nodes w a = Some sn" "sn_chunks sn i = Some d"
    using b by (auto simp: net_view_def meta_view_def net_blob_def split: option.splits)
  have inv: "sn_invar H sn" "cs_live (store sn)" using w h sn(1) by (auto simp: net_sound_def net_healthy_def)
  obtain r sn' where r: "sn_read_chunk H i sn = (r, sn')" by fastforce
  have "sn_fetched r = Some d" using sn.get_answers [OF inv, of i] r sn(2) by simp
  then obtain e where e: "r = Ok e" by (cases r) simp_all
  have "cs_live (store sn')" using sn.live_get [OF inv, of i] r by simp
  then have "net_healthy ser (w\<lparr>net_nodes := (net_nodes w)(a \<mapsto> sn')\<rparr>)" using h by (auto simp: net_healthy_def)
  then show ?thesis using sn(1) r e by (intro exI [of _ e] exI conjI) (simp_all add: to_node_def)
qed

lemma net_under_law:
  assumes w: "net_sound R H w" and c: "mcl_list_under_replicated_chunks (net_metadata P x R uri ser) k w = Some (ul, w')"
  shows "net_sound R H w' \<and> net_view w' = net_view w \<and> md_store (net_meta w') = md_store (net_meta w) \<and>
    (\<forall>cs. ul = Ok cs \<longrightarrow> (\<forall>c \<in> set cs. ur_storage_node_ids c = cv_reps (net_view w) (ur_chunk_id c)))"
proof -
  note a = meta_alone [OF w]
  let ?st = "md_store (net_meta w)"
  have e: "w' = w\<lparr>net_meta := md_count ''list_under_replicated_chunks'' ''ok'' (net_meta w)\<rparr>"
    "ul = Ok (sort_key (\<lambda>c. length (ur_storage_node_ids c)) (map under_replicated (list_under_replicated_chunks (default_replicas k) ?st)))"
    using c alone_handlers(2) [OF conjunct1 [OF a], of P k "net_peers w"] by (auto simp: net_metadata_def to_meta_def)
  have "ur_storage_node_ids c = store_reps ?st (ur_chunk_id c)"
    if l: "c \<in> set (map under_replicated (list_under_replicated_chunks (default_replicas k) ?st))" for c
  proof -
    obtain mc where mc: "mc \<in> set (hm_values (ms_chunks ?st))" "c = under_replicated mc"
      using l by (auto simp: list_under_replicated_chunks_def)
    then obtain i where "hm_get (ms_chunks ?st) i = Some mc"
      using hm_values_iff [of "ms_chunks ?st" mc] ms_wfD(2) [of ?st] a by blast
    moreover from this have "mc_id mc = i" using ms_wfD(5) [of ?st] a unfolding chunk_wf_def by blast
    ultimately show ?thesis using mc(2) by (simp add: under_replicated_def store_reps_def)
  qed
  then show ?thesis using w e by (simp add: net_sound_def md_alone_def net_view_def meta_view_def net_blob_def fun_eq_iff)
qed

interpretation net: live_backend "net_metadata P x R uri ser" "net_storage H" "net_sound R H" net_view "\<lambda>a. a" "net_healthy ser"
  for P :: "('c, 'p) peer_rpc" and x R uri ser and H :: "'h crc32"
proof (unfold_locales, goal_cases)
  case (1 w) then show ?case by (simp add: net_view_def meta_view_wf meta_alone)
next
  case (2 w r w') then show ?case using net_nodes_law [OF 2(1,2)] by simp
next
  case (3 w s q w') then show ?case
    by (auto simp: net_metadata_def to_meta_def md_get_storage_node_def get_storage_node_def net_view_def view_defs
        simp del: map_of_eq_Some_iff split: option.splits)
next
  case (4 w c n u w') then show ?case by (rule net_put_law)
next
  case (5 w n c al w') then show ?case by (rule net_allocate_law)
next
  case (6 w i n c s u w') then show ?case by (rule net_confirm_law)
next
  case (7 w n c t u w') then show ?case by (rule net_checksum_law)
next
  case (8 w n ob w') then show ?case by (rule net_get_law)
next
  case (9 w n u w') then show ?case by (rule net_drop_law)
next
  case (10 w i u w') then show ?case by (rule net_unlink_law)
next
  case (11 w k ul w') then show ?case using net_under_law [OF 11(1,2)] by blast
next
  case (12 w ol w')
  then show ?case using meta_alone [of R H w] by (auto simp: net_metadata_def to_meta_def alone_handlers(1))
next
  case (13 w i s u w') then show ?case by (rule net_replica_law(1))
next
  case (14 w a cn w') then show ?case by (auto simp: net_storage_def split: if_splits)
next
  case (15 w cl z w') then show ?case using node_query by (simp add: net_storage_def)
next
  case (16 w cl z w') then show ?case using node_query by (simp add: net_storage_def)
next
  case (17 w cl i d z w') then show ?case using node_write [OF 17(1), of cl i d z w'] by (simp add: net_storage_def)
next
  case (18 w cl i rd w') then show ?case using node_read by (simp add: net_storage_def)
next
  case (19 w cl i z w') then show ?case using node_erase by (simp add: net_storage_def)
next
  case (20 w n "is") then show ?case by (rule net_live_get)
next
  case (21 w a i d) then show ?case
    by (auto simp: net_storage_def net_view_def meta_view_def net_blob_def split: option.splits)
next
  case (22 w cl i d) then show ?case using net_live_read by (simp add: net_storage_def)
qed

definition net_steady :: "json_ser \<Rightarrow> ('g, 'c, 'p) net \<Rightarrow> bool" where
  "net_steady ser w \<longleftrightarrow> calm ser (md_store (net_meta w))"

lemma steady_node_call: "net_steady ser w \<Longrightarrow> to_node a f w = Some (r, w') \<Longrightarrow> net_steady ser w'"
  by (auto simp: to_node_Some net_steady_def)

lemma calm_add_replica: "calm ser st \<Longrightarrow> calm ser (snd (add_chunk_replica ser i s st))"
proof -
  assume c: "calm ser st"
  have "calm ser (snd (ms_save ser (st\<lparr>ms_chunks := m\<rparr>)))" for m
    by (rule calm_save [of ser "st\<lparr>ms_chunks := m\<rparr>"]) (use c in simp_all)
  then show ?thesis using c by (simp add: add_chunk_replica_def split: option.split)
qed

lemma steady_add_replica:
  assumes w: "net_sound R H w" and s: "net_steady ser w"
    and c: "mcl_add_chunk_replica (net_metadata P x R uri ser) i s w = Some (u, w')"
  shows "net_steady ser w'"
proof -
  have "w' = w\<lparr>net_meta := snd (md_add_chunk_replica_local ser i s (net_meta w))\<rparr>"
    using c meta_alone [OF w] by (auto simp: net_metadata_def to_meta_def md_add_chunk_replica_def alone split: prod.splits)
  then show ?thesis using s local_steps(8) [of "net_meta w" ser i s] calm_add_replica [of ser "md_store (net_meta w)" i s]
    by (simp add: net_steady_def meta_step_def)
qed

interpretation netst: steady_backend "net_metadata P x R uri ser" "net_storage H" "net_sound R H" net_view "\<lambda>a. a" "net_steady ser"
  for P :: "('c, 'p) peer_rpc" and x R uri ser and H :: "'h crc32"
proof (unfold_locales, goal_cases)
  case (1 w i s u w')
  then show ?case using steady_add_replica [OF 1] net_replica_law(2) [OF 1(1,3)] by (simp add: net_steady_def)
next
  case (2 w r w')
  then show ?case by (auto simp: net_metadata_def to_meta_def net_steady_def)
next
  case (3 w s q w')
  then show ?case by (auto simp: net_metadata_def to_meta_def net_steady_def)
next
  case (4 w k ul w')
  then show ?case using net_under_law [OF 4(1,3)] by (simp add: net_steady_def)
next
  case (5 w a cn w')
  then show ?case by (auto simp: net_storage_def split: if_splits)
qed (auto simp: net_storage_def intro: steady_node_call)

end
