(* ===== verification/EndToEnd.thy ===== *)
theory EndToEnd
  imports Deployment
begin

text \<open>
  The gateway in front of the deployment: what clients of the store observe. The handlers run on
  the metadata service and the storage nodes of the earlier theories; every property is the
  instance of a lemma on the interface.
\<close>

section \<open>A small deployment\<close>

definition toy_net :: "(nat, unit, unit) net" where
  "toy_net = \<lparr>net_meta = toy_service, net_peers = (), net_nodes = [''http://n'' \<mapsto> fresh_node 2]\<rparr>"

definition toy_app :: "(string, (nat, unit, unit) net) AppState" where
  "toy_app = \<lparr>gw_connections = [], gw_metrics = (\<lambda>_. 0), gw_world = toy_net\<rparr>"

definition lower :: "nat \<Rightarrow> bool" where
  "lower c \<longleftrightarrow> 97 \<le> c \<and> c \<le> 122"

definition toy_enc :: "bytes \<Rightarrow> string" where
  "toy_enc bs = map (\<lambda>b. char_of (unat b)) bs"

lemma toy_sound: "net_sound toy_rand sum_crc toy_net"
  using fresh_node_2 toy_store_wf by (auto simp: net_sound_def toy_net_def toy_service_def toy_rand_def)

lemma toy_app_good: "net_sound toy_rand sum_crc (gw_world toy_app)" "cache_ok (\<lambda>a. a) toy_app"
  using toy_sound by (auto simp: toy_app_def cache_ok_def)

lemma toy_name: "validate_object_name lower ''a'' = Ok ()" "validate_object_name lower ''b'' = Ok ()"
  by (simp_all add: validate_object_name_def MAX_OBJECT_NAME_LENGTH_def name_char_def lower_def)

lemma fresh_node_write:
  "\<exists>sn1. sn_write_chunk sum_crc 1 [1, 2] (fresh_node 2) = (Ok 1, sn1)"
proof -
  have "fst (sn_write_chunk sum_crc 1 [1, 2] (fresh_node 2)) = Ok 1"
    by (simp add: sn_write_chunk_def fresh_node_def fresh_store_def ChunkStoreOptions_default_def
        DEFAULT_FSYNC_EVERY_N_WRITES_def cs_put_chunk_def find_slot_def should_fsync_write_def
        write_chunk_at_def SLOT_DATA_SIZE_eq write_all_at_no_faults empty_file_def Let_def sync_data.simps)
  then show ?thesis by (metis prod.collapse)
qed

text \<open>The upload of two bytes to it succeeds and leaves it healthy.\<close>

lemma toy_calls:
  "mcl_list_storage_nodes (net_metadata P x toy_rand uri toy_ser) toy_net =
     Some (Ok [\<lparr>msn_id = 9, msn_address = ''http://n''\<rparr>], toy_net)"
  "ncl_connect (net_storage sum_crc) ''http://n'' toy_net = Some (Ok ''http://n'', toy_net)"
  "ncl_get_chunk_size (net_storage sum_crc) ''http://n'' toy_net = Some (Ok (of_nat SLOT_DATA_SIZE), toy_net)"
  by (simp_all add: net_metadata_def to_meta_def md_list_storage_nodes_def list_storage_nodes_def toy_net_def
      toy_service_def toy_store_def net_storage_def to_node_def sn_get_chunk_size_def get_chunk_size_def fun_upd_idem)

lemma toy_query:
  "query_chunk_size (net_metadata P x toy_rand uri toy_ser) (net_storage sum_crc) e toy_app = Some (Ok SLOT_DATA_SIZE, toy_app)"
  by (simp add: query_chunk_size_def gw_call_def toy_app_def toy_calls try_or_def bnd_def ret_def SLOT_DATA_SIZE_eq)

lemma toy_query_then:
  "try_or (query_chunk_size (net_metadata P x toy_rand uri toy_ser) (net_storage sum_crc) e) h f toy_app = f SLOT_DATA_SIZE toy_app"
  by (rule try_or_run(1), rule toy_query)

text \<open>The states of the metadata service during an upload to it.\<close>

definition toy_svc1 :: "(nat, unit) StorageMetadataImpl" where
  "toy_svc1 = snd (md_put_object_local toy_ser 3 ''a'' toy_service)"

definition toy_svc2 :: "(nat, unit) StorageMetadataImpl" where
  "toy_svc2 = snd (the (md_allocate_chunk_local toy_rand ''a'' toy_svc1))"

definition toy_svc3 :: "(nat, unit) StorageMetadataImpl" where
  "toy_svc3 = snd (md_confirm_chunk_local toy_ser 1 ''a'' 3 9 toy_svc2)"

lemma toy_alone: "md_cluster toy_service = None"
  by (simp add: toy_service_def)

lemma toy_put:
  "md_put_object_local toy_ser 3 ''a'' toy_service = (Ok (), toy_svc1)"
  "ms_objects (md_store toy_svc1) = [(''a'', MetaObject_new ''a'' 3)]" "ms_chunks (md_store toy_svc1) = []"
  "ms_storage_nodes (md_store toy_svc1) = [(9, \<lparr>msn_id = 9, msn_address = ''http://n''\<rparr>)]"
  "ms_rng (md_store toy_svc1) = 1" "fs_plan (ms_disk (md_store toy_svc1)) = []" "md_cluster toy_svc1 = None"
  "ms_path (md_store toy_svc1) = ''m.dat''"
  by (simp_all add: toy_svc1_def toy_defs)

lemma toy_allocate:
  "md_allocate_chunk_local toy_rand ''a'' toy_svc1 = Some (Ok (1, 9, ''http://n''), toy_svc2)"
  "ms_objects (md_store toy_svc2) = [(''a'', MetaObject_new ''a'' 3)]" "ms_chunks (md_store toy_svc2) = [(1, MetaChunk_new_pending 1 ''a'')]"
  "ms_storage_nodes (md_store toy_svc2) = [(9, \<lparr>msn_id = 9, msn_address = ''http://n''\<rparr>)]"
  "fs_plan (ms_disk (md_store toy_svc2)) = []" "md_cluster toy_svc2 = None" "ms_path (md_store toy_svc2) = ''m.dat''"
proof -
  have "generate_unique_id (\<lambda>g. (word_of_nat g :: u64, Suc g)) ([] :: (u64, MetaChunk) hashmap) 1 = Some (1, 2)"
    by (subst generate_unique_id.simps) simp
  then have a: "allocate_chunk toy_rand ''a'' (md_store toy_svc1) = Some (Ok (1, 9, ''http://n''),
      (md_store toy_svc1)\<lparr>ms_rng := 2, ms_chunks := [(1, MetaChunk_new_pending 1 ''a'')]\<rparr>)"
    by (simp add: allocate_chunk_def choose_storage_node_def toy_put toy_rand_def)
  then show "md_allocate_chunk_local toy_rand ''a'' toy_svc1 = Some (Ok (1, 9, ''http://n''), toy_svc2)"
    by (simp add: toy_svc2_def md_allocate_chunk_local_def)
  show "ms_objects (md_store toy_svc2) = [(''a'', MetaObject_new ''a'' 3)]" "ms_chunks (md_store toy_svc2) = [(1, MetaChunk_new_pending 1 ''a'')]"
    "ms_storage_nodes (md_store toy_svc2) = [(9, \<lparr>msn_id = 9, msn_address = ''http://n''\<rparr>)]"
    "fs_plan (ms_disk (md_store toy_svc2)) = []" "md_cluster toy_svc2 = None" "ms_path (md_store toy_svc2) = ''m.dat''"
    using a by (simp_all add: toy_svc2_def md_allocate_chunk_local_def toy_put)
qed

lemma toy_confirm:
  "md_confirm_chunk_local toy_ser 1 ''a'' 3 9 toy_svc2 = (Ok (), toy_svc3)"
  "fs_plan (ms_disk (md_store toy_svc3)) = []" "md_cluster toy_svc3 = None"
  "hm_get (ms_objects (md_store toy_svc3)) ''b'' = None"
  by (simp_all add: toy_svc3_def md_confirm_chunk_local_def confirm_chunk_def toy_allocate MetaChunk_new_pending_def
      ms_save_def fs_ops toy_ser_def Let_def)

lemma net_calls:
  "mcl_put_object (net_metadata P x R uri ser) c n w = to_meta (md_put_object P x ser c n) w"
  "mcl_allocate_chunk (net_metadata P x R uri ser) n c w = to_meta_option (md_allocate_chunk P R x n) w"
  "mcl_confirm_chunk (net_metadata P x R uri ser) i n c s w = to_meta (md_confirm_chunk P x ser i n c s) w"
  "mcl_get_object (net_metadata P x R uri ser) n w = to_meta (md_get_object P x n) w"
  "ncl_write_chunk (net_storage H) a i d w = to_node a (sn_write_chunk H i d) w"
  "ncl_connect (net_storage H) a w = Some (if net_nodes w a = None then Err Code_Unavailable else Ok a, w)"
  by (simp_all add: net_metadata_def net_storage_def)

definition toy_after_upload :: "StorageNodeImpl \<Rightarrow> (nat, unit, unit) net" where
  "toy_after_upload sn = \<lparr>net_meta = toy_svc3, net_peers = (), net_nodes = [''http://n'' \<mapsto> sn]\<rparr>"

lemma toy_upload:
  obtains s1 sn1 where "handle_put_object (net_metadata P x toy_rand uri toy_ser) (net_storage sum_crc) sum_crc lower
      (\<lambda>_. Some [1, 2]) ''a'' p toy_app = Some (Ok 2, s1)"
    "gw_world s1 = toy_after_upload sn1" "cs_live (store sn1)"
proof -
  obtain sn1 where w: "sn_write_chunk sum_crc 1 [1, 2] (fresh_node 2) = (Ok 1, sn1)" using fresh_node_write by blast
  have l: "cs_live (store sn1)" using sn.live_put [OF fresh_node_2, of "[1, 2]" 1] w by (simp add: cs_fits_def SLOT_DATA_SIZE_eq)
  have ch: "slice_chunks SLOT_DATA_SIZE [1 :: u8, 2] = [[1, 2]]" by (rule slice_chunks_short) (simp_all add: SLOT_DATA_SIZE_eq)
  have pos: "SLOT_DATA_SIZE \<noteq> 0" by (simp add: SLOT_DATA_SIZE_eq)
  have c: "compute_checksum sum_crc [1, 2] = 3" by (simp add: compute_checksum_def sum_crc_def)
  have "\<exists>s1. handle_put_object (net_metadata P x toy_rand uri toy_ser) (net_storage sum_crc) sum_crc lower
      (\<lambda>_. Some [1, 2]) ''a'' p toy_app = Some (Ok 2, s1) \<and> gw_world s1 = toy_after_upload sn1"
    by (simp add: handle_put_object_def toy_name MAX_OBJECT_SIZE_def toy_query_then ch pos c del: slice_chunks.simps)
      (simp add: upload_chunk_def c toy_app_def toy_net_def net_calls to_meta_def to_meta_option_def to_node_def w
        gw_call_def try_or_def bnd_def ret_def get_or_connect_def md_put_object_def md_confirm_chunk_def
        alone allocate_alone toy_put toy_allocate toy_confirm toy_after_upload_def
        toy_alone upload_done_def gw_metric_upd_def)
  then show ?thesis using that l by blast
qed

section \<open>Properties\<close>

lemma put_valid:
  "handle_put_object M N H alnum dec n p s = Some (Ok k, s') \<Longrightarrow> validate_object_name alnum n = Ok ()"
  by (cases "validate_object_name alnum n") (auto simp: handle_put_object_def count_fail_def fail_def bnd_Some)

lemma net_good:
  "net_sound R H (gw_world s) \<Longrightarrow> cache_ok (\<lambda>a. a) s \<Longrightarrow> good (net_sound R H) net_view (\<lambda>a. a) ((=) (net_view (gw_world s))) s"
  by (simp add: good_def)

text \<open>
  C1. Once the gateway has answered an upload with success, a download of that name returns
  exactly the uploaded bytes, whatever requests for whatever objects were served in between and
  however those ended, as long as none of them deletes the object and the metadata service and
  the storage nodes are healthy when the download runs.
\<close>

theorem upload_then_download:
  assumes "net_sound R H (gw_world s)" and "cache_ok (\<lambda>a. a) s" and "b64_decode payload = Some data"
    and put: "handle_put_object (net_metadata P x R uri ser) (net_storage H) H alnum b64_decode n payload s = Some (Ok k, s1)"
    and qs: "DeleteRequest n \<notin> set qs"
    and run: "serve_all (net_metadata P x R uri ser) (net_storage H) H alnum b64_decode b64_encode from_json qs s1 = Some ((), s2)"
    and healthy: "net_healthy ser (gw_world s2)"
  shows "k = length data \<and>
    (\<exists>s3. handle_get_object (net_metadata P x R uri ser) (net_storage H) alnum b64_encode n s2 = Some (Ok (b64_encode data), s3))"
proof -
  let ?G = "good (net_sound R H) net_view (\<lambda>a. a)"
  have u: "?G (uploaded n data (net_view (gw_world s)) (Ok k)) s1"
    by (rule satD [OF net.sat_put_object [where b64_decode = b64_decode and payload = payload, OF assms(3)] net_good [OF assms(1,2)] put])
  then have "?G (\<lambda>v. stored v n data) s1" by (auto simp: good_def uploaded_def)
  then have "?G (\<lambda>v. stored v n data) s2" using satD [OF net.sat_serve_all [OF qs]] run by blast
  then have st: "?G ((=) (net_view (gw_world s2))) s2" "stored (net_view (gw_world s2)) n data" by (auto simp: good_def)
  have "\<exists>s3. handle_get_object (net_metadata P x R uri ser) (net_storage H) alnum b64_encode n s2 = Some (Ok (b64_encode data), s3)"
    using net.live_get_object [OF conjI [OF st(1) healthy] st(2) put_valid [OF put]] by blast
  then show ?thesis using u by (simp add: good_def uploaded_def)
qed

lemma toy_other_requests:
  assumes "gw_world s1 = toy_after_upload sn1"
  shows "\<exists>s2. serve_all (net_metadata P x toy_rand uri toy_ser) (net_storage sum_crc) sum_crc lower dec enc fj
      [DeleteRequest ''b'', PutRequest ''a'' None None None] s1 = Some ((), s2) \<and> gw_world s2 = toy_after_upload sn1"
  using assms
  by (simp add: handle_delete_object_def toy_name handle_put_dispatch_def run_state_def fail_def net_calls gw_call_def
      try_or_def bnd_def ret_def to_meta_def md_get_object_def alone toy_after_upload_def toy_confirm
      md_get_object_local_def md_get_object_read_def get_object_def count_fail_def gw_metric_upd_def)

theorem upload_then_download_witness:
  "\<forall>P :: (unit, unit) peer_rpc. \<exists>s1 s2 s3.
     handle_put_object (net_metadata P (\<lambda>_. 0) toy_rand (\<lambda>_. True) toy_ser) (net_storage sum_crc) sum_crc lower
       (\<lambda>_. Some [1, 2]) ''a'' ''AQI='' toy_app = Some (Ok 2, s1) \<and>
     serve_all (net_metadata P (\<lambda>_. 0) toy_rand (\<lambda>_. True) toy_ser) (net_storage sum_crc) sum_crc lower
       (\<lambda>_. Some [1, 2]) toy_enc (\<lambda>_. None) [DeleteRequest ''b'', PutRequest ''a'' None None None] s1 = Some ((), s2) \<and>
     handle_get_object (net_metadata P (\<lambda>_. 0) toy_rand (\<lambda>_. True) toy_ser) (net_storage sum_crc) lower
       toy_enc ''a'' s2 = Some (Ok (toy_enc [1, 2]), s3)"
proof (intro allI)
  fix P :: "(unit, unit) peer_rpc"
  let ?M = "net_metadata P (\<lambda>_. 0) toy_rand (\<lambda>_. True) toy_ser" and ?N = "net_storage sum_crc"
  obtain s1 sn1 where s1: "handle_put_object ?M ?N sum_crc lower (\<lambda>_. Some [1, 2]) ''a'' ''AQI='' toy_app = Some (Ok 2, s1)"
    "gw_world s1 = toy_after_upload sn1" "cs_live (store sn1)" by (rule toy_upload)
  obtain s2 where s2: "serve_all ?M ?N sum_crc lower (\<lambda>_. Some [1, 2]) toy_enc (\<lambda>_. None)
      [DeleteRequest ''b'', PutRequest ''a'' None None None] s1 = Some ((), s2)" "gw_world s2 = toy_after_upload sn1"
    using toy_other_requests [OF s1(2)] by blast
  have "net_healthy toy_ser (gw_world s2)"
    using s2(2) s1(3) by (simp add: net_healthy_def toy_after_upload_def calm_def toy_confirm toy_ser_def)
  then show "\<exists>s1 s2 s3. handle_put_object ?M ?N sum_crc lower (\<lambda>_. Some [1, 2]) ''a'' ''AQI='' toy_app = Some (Ok 2, s1) \<and>
      serve_all ?M ?N sum_crc lower (\<lambda>_. Some [1, 2]) toy_enc (\<lambda>_. None)
        [DeleteRequest ''b'', PutRequest ''a'' None None None] s1 = Some ((), s2) \<and>
      handle_get_object ?M ?N lower toy_enc ''a'' s2 = Some (Ok (toy_enc [1, 2]), s3)"
    using upload_then_download [where b64_decode = "\<lambda>_. Some [1, 2]" and payload = "''AQI=''", OF toy_app_good refl s1(1) _ s2(1)] s1(1) s2(1) by auto
qed

lemma split_empty_piece:
  "([] \<in> set (str_split c s) \<longleftrightarrow> s = [] \<or> hd s = c \<or> last s = c \<or> str_contains s [c, c]) \<and>
   ([] \<in> set (tl (str_split c s)) \<longleftrightarrow> s \<noteq> [] \<and> (last s = c \<or> str_contains s [c, c]))"
proof (induction s)
  case (Cons d s)
  obtain p ps where s: "str_split c s = p # ps" by (cases "str_split c s") auto
  have two: "starts_with (d # s) [c, c] \<longleftrightarrow> d = c \<and> s \<noteq> [] \<and> hd s = c" by (cases s) auto
  show ?case
  proof (cases "d = c")
    case True
    then show ?thesis using Cons.IH two by (cases s) auto
  next
    case False
    then show ?thesis using Cons.IH s two by (cases s) auto
  qed
qed simp


text \<open>
  C12. A multipart upload, however its body is cut into pieces by the network, does what slicing
  the whole body would do: it creates the object, writes the slices of the chunk size in order,
  then sets the checksum and the size of the whole body, and on a failure of any of these steps
  deletes the object again.
\<close>

theorem multipart_upload_is_slicing:
  assumes "validate_object_name alnum n = Ok ()" and "crc_streams H"
    and "find_file_field fs = Some (map Ok ds)" and "length (concat ds) \<le> MAX_OBJECT_SIZE"
    and "query_chunk_size M N (fail INTERNAL_SERVER_ERROR) s = Some (Ok z, s1)" and "0 < z"
  shows "handle_put_object_multipart M N H alnum n fs s =
    try_or (gw_call (mcl_put_object M 0 n)) (\<lambda>_. count_fail ''PUT'' ''object_multipart'' ''409'' CONFLICT) (\<lambda>_.
    try_or (flush_each (flush_chunk_to_storage M N H n) (slice_chunks z (concat ds))) (rollback M n) (\<lambda>_.
    try_or (gw_call (mcl_update_object_checksum M n (compute_checksum H (concat ds)) (of_nat (length (concat ds)))))
      (\<lambda>_. rollback M n INTERNAL_SERVER_ERROR) (\<lambda>_. upload_done ''object_multipart'' (length (concat ds))))) s1"
proof -
  let ?k = "\<lambda>hs t. try_or (gw_call (mcl_update_object_checksum M n (h_finalize H hs) (of_nat t)))
      (\<lambda>_. rollback M n INTERNAL_SERVER_ERROR) (\<lambda>_. upload_done ''object_multipart'' t)"
  have "handle_put_object_multipart M N H alnum n fs s =
    try_or (gw_call (mcl_put_object M 0 n)) (\<lambda>_. count_fail ''PUT'' ''object_multipart'' ''409'' CONFLICT) (\<lambda>_.
      try_or (stream_field (flush_chunk_to_storage M N H n) H z (map Ok ds) (h_new H) [] 0) (rollback M n) (\<lambda>(hs', buf', t').
      try_or (if buf' \<noteq> [] then flush_chunk_to_storage M N H n buf' else ret (Ok ())) (rollback M n) (\<lambda>_. ?k hs' t'))) s1"
    using assms(1,3) by (simp add: handle_put_object_multipart_def try_or_run(1) [where m = "query_chunk_size M N (fail INTERNAL_SERVER_ERROR)", OF assms(5)])
  also have "\<dots> = try_or (gw_call (mcl_put_object M 0 n)) (\<lambda>_. count_fail ''PUT'' ''object_multipart'' ''409'' CONFLICT) (\<lambda>_.
      try_or (flush_each (flush_chunk_to_storage M N H n) (slice_chunks z ([] @ concat ds))) (rollback M n)
        (\<lambda>_. ?k (fold (\<lambda>d h. h_update H h d) ds (h_new H)) (0 + length (concat ds)))) s1"
    using assms(4,6) by (intro try_or_cong stream_field_slices) simp_all
  finally show ?thesis using hash_pieces [OF assms(2)] by (simp add: compute_checksum_def)
qed

lemma sum_crc_streams: "crc_streams sum_crc"
  by (simp add: crc_streams_def sum_crc_def algebra_simps)

theorem multipart_upload_is_slicing_witness:
  "\<forall>P :: (unit, unit) peer_rpc.
     handle_put_object_multipart (net_metadata P (\<lambda>_. 0) toy_rand (\<lambda>_. True) toy_ser) (net_storage sum_crc) sum_crc lower ''a''
       [Ok (Some ''note'', []), Ok (Some ''file'', [Ok [1], Ok [2]])] toy_app =
     try_or (gw_call (mcl_put_object (net_metadata P (\<lambda>_. 0) toy_rand (\<lambda>_. True) toy_ser) 0 ''a''))
       (\<lambda>_. count_fail ''PUT'' ''object_multipart'' ''409'' CONFLICT) (\<lambda>_.
     try_or (flush_each (flush_chunk_to_storage (net_metadata P (\<lambda>_. 0) toy_rand (\<lambda>_. True) toy_ser) (net_storage sum_crc) sum_crc ''a'') [[1, 2]])
       (rollback (net_metadata P (\<lambda>_. 0) toy_rand (\<lambda>_. True) toy_ser) ''a'') (\<lambda>_.
     try_or (gw_call (mcl_update_object_checksum (net_metadata P (\<lambda>_. 0) toy_rand (\<lambda>_. True) toy_ser) ''a'' 3 2))
       (\<lambda>_. rollback (net_metadata P (\<lambda>_. 0) toy_rand (\<lambda>_. True) toy_ser) ''a'' INTERNAL_SERVER_ERROR)
       (\<lambda>_. upload_done ''object_multipart'' 2))) toy_app"
proof -
  have "slice_chunks SLOT_DATA_SIZE [1 :: u8, 2] = [[1, 2]]" by (rule slice_chunks_short) (simp_all add: SLOT_DATA_SIZE_eq)
  moreover have "compute_checksum sum_crc [1, 2] = 3" by (simp add: compute_checksum_def sum_crc_def)
  ultimately show ?thesis
    using multipart_upload_is_slicing [OF toy_name(1) sum_crc_streams, of "[Ok (Some ''note'', []), Ok (Some ''file'', [Ok [1], Ok [2]])]"
        "[[1], [2]]", OF _ _ toy_query]
    by (simp add: MAX_OBJECT_SIZE_def SLOT_DATA_SIZE_eq numeral_2_eq_2 del: slice_chunks.simps)
qed

lemma get_missing:
  assumes w: "net_sound R H (gw_world s)" and n: "cv_objs (net_view (gw_world s)) n = None"
    and v: "validate_object_name alnum n = Ok ()"
  shows "\<exists>s'. handle_get_object (net_metadata P x R uri ser) N alnum enc n s = Some (Err NOT_FOUND, s')"
proof -
  have "hm_get (ms_objects (md_store (net_meta (gw_world s)))) n = None"
    using n by (simp add: net_view_def view_defs)
  then show ?thesis using v meta_alone [OF w]
    by (simp add: handle_get_object_def net_calls gw_call_def try_or_def bnd_def to_meta_def md_get_object_def alone
        md_get_object_local_def md_get_object_read_def get_object_def count_fail_def gw_metric_upd_def fail_def ret_def)
qed

lemma delete_valid:
  "handle_delete_object M N alnum n s = Some (Ok (), s') \<Longrightarrow> validate_object_name alnum n = Ok ()"
  by (cases "validate_object_name alnum n") (auto simp: handle_delete_object_def count_fail_def fail_def bnd_Some)

text \<open>
  C11. A deletion answered with success removes the object: a download of it finds nothing. And
  no deletion, successful or not, touches what is stored under any other name.
\<close>

theorem deleted_object_is_gone:
  assumes "net_sound R H (gw_world s)" and "cache_ok (\<lambda>a. a) s"
    and del: "handle_delete_object (net_metadata P x R uri ser) (net_storage H) alnum n s = Some (r, s1)"
  shows "(\<forall>m b. m \<noteq> n \<and> stored (net_view (gw_world s)) m b \<longrightarrow> stored (net_view (gw_world s1)) m b) \<and>
    (r = Ok () \<longrightarrow> (\<exists>s2. handle_get_object (net_metadata P x R uri ser) (net_storage H) alnum enc n s1 = Some (Err NOT_FOUND, s2)))"
proof -
  let ?v = "net_view (gw_world s)" and ?v1 = "net_view (gw_world s1)"
  have "good (net_sound R H) net_view (\<lambda>a. a) (\<lambda>v. keeps n ?v v \<and> (is_ok r \<longrightarrow> cv_objs ?v n \<noteq> None \<and> cv_objs v n = None)) s1"
    by (rule satD [OF net.sat_delete_object net_good [OF assms(1,2)] del])
  then have g: "net_sound R H (gw_world s1)" "keeps n ?v ?v1" "is_ok r \<longrightarrow> cv_objs ?v1 n = None" by (auto simp: good_def)
  have "\<exists>s2. handle_get_object (net_metadata P x R uri ser) (net_storage H) alnum enc n s1 = Some (Err NOT_FOUND, s2)" if "r = Ok ()"
    using that g(3) by (intro get_missing [OF g(1)] delete_valid [OF del [unfolded that]]) simp
  then show ?thesis using g(2) unfolding keeps_def by blast
qed

text \<open>The small deployment after the upload.\<close>

lemma toy_stored:
  obtains s1 sn1 where "handle_put_object (net_metadata P x toy_rand uri toy_ser) (net_storage sum_crc) sum_crc lower
      (\<lambda>_. Some [1, 2]) ''a'' ''AQI='' toy_app = Some (Ok 2, s1)"
    "net_sound toy_rand sum_crc (gw_world s1)" "cache_ok (\<lambda>a. a) s1" "net_healthy toy_ser (gw_world s1)"
    "stored (net_view (gw_world s1)) ''a'' [1, 2]" "gw_world s1 = toy_after_upload sn1" "cs_live (store sn1)"
proof -
  obtain s1 sn1 where s1: "handle_put_object (net_metadata P x toy_rand uri toy_ser) (net_storage sum_crc) sum_crc lower
      (\<lambda>_. Some [1, 2]) ''a'' ''AQI='' toy_app = Some (Ok 2, s1)"
    "gw_world s1 = toy_after_upload sn1" "cs_live (store sn1)" by (rule toy_upload)
  have h: "net_healthy toy_ser (gw_world s1)"
    using s1(2,3) by (simp add: net_healthy_def toy_after_upload_def calm_def toy_confirm toy_ser_def)
  have g: "good (net_sound toy_rand sum_crc) net_view (\<lambda>a. a) (uploaded ''a'' [1, 2] (net_view (gw_world toy_app)) (Ok 2)) s1"
    by (rule satD [OF net.sat_put_object [where b64_decode = "\<lambda>_. Some [1, 2]" and payload = "''AQI=''"] net_good [OF toy_app_good] s1(1)]) simp
  show ?thesis by (rule that [OF s1(1) _ _ h _ s1(2,3)]) (use g in \<open>auto simp: good_def uploaded_def\<close>)
qed

lemma toy_svc3_store:
  "ms_objects (md_store toy_svc3) = [(''a'', (MetaObject_new ''a'' 3)\<lparr>mo_chunks := [1]\<rparr>)]"
  "ms_chunks (md_store toy_svc3) = [(1, add_storage_node 9 (MetaChunk_new 1 3 ''a''))]"
  "ms_storage_nodes (md_store toy_svc3) = [(9, \<lparr>msn_id = 9, msn_address = ''http://n''\<rparr>)]"
  "ms_path (md_store toy_svc3) = ''m.dat''"
  by (simp_all add: toy_svc3_def md_confirm_chunk_local_def confirm_chunk_def toy_allocate MetaChunk_new_pending_def
      ms_save_def fs_ops toy_ser_def Let_def MetaObject_new_def add_chunk_def)

lemma toy_delete_meta:
  "\<exists>svc. md_delete_chunk_local toy_ser 1 (md_count ''get_object'' ''ok'' toy_svc3) = (Ok (), svc) \<and> md_cluster svc = None \<and>
     (\<exists>svc'. md_delete_object_local toy_ser ''a'' svc = (Ok (), svc'))"
  by (simp add: md_handlers delete_chunk_def delete_object_def get_object_def toy_svc3_store toy_confirm MetaObject_new_def
      MetaChunk_new_def add_storage_node_def ms_save_def fs_ops toy_ser_def Let_def remove_chunks_def)

lemma net_delete_calls:
  "mcl_delete_chunk (net_metadata P x R uri ser) i w = to_meta (md_delete_chunk P x ser i) w"
  "mcl_delete_object (net_metadata P x R uri ser) n w = to_meta (md_delete_object P x ser n) w"
  "ncl_delete_chunk (net_storage H) a i w = to_node a (sn_delete_chunk i) w"
  by (simp_all add: net_metadata_def net_storage_def)

lemma toy_delete:
  assumes s: "gw_world s = toy_after_upload sn" and live: "sn_invar sum_crc sn" "cs_live (store sn)" and c: "cache_ok (\<lambda>a. a) s"
  shows "\<exists>s'. handle_delete_object (net_metadata P x toy_rand uri toy_ser) (net_storage sum_crc) lower ''a'' s = Some (Ok (), s')"
proof -
  let ?M = "net_metadata P x toy_rand uri toy_ser" and ?N = "net_storage sum_crc"
  let ?a = "''http://n''" and ?svc = "md_count ''get_object'' ''ok'' toy_svc3"
  obtain svc svc' where m: "md_delete_chunk_local toy_ser 1 ?svc = (Ok (), svc)" "md_cluster svc = None"
    "md_delete_object_local toy_ser ''a'' svc = (Ok (), svc')" using toy_delete_meta by blast
  obtain r sn' where d: "sn_delete_chunk 1 sn = (r, sn')" by fastforce
  then obtain j where j: "r = Ok j" using sn.del_answers [OF live, of 1] by (cases r) auto
  let ?c = "\<lparr>pc_id = 1, pc_checksum = 3, pc_storage_nodes = [\<lparr>msn_id = 9, msn_address = ?a\<rparr>]\<rparr>"
  define s1 where "s1 = s\<lparr>gw_world := \<lparr>net_meta = ?svc, net_peers = (), net_nodes = [?a \<mapsto> sn]\<rparr>\<rparr>"
  have "md_get_object_local ''a'' toy_svc3 = (Ok \<lparr>go_checksum = 3, go_chunks = [?c]\<rparr>, ?svc)"
    by (simp add: md_get_object_local_def md_get_object_read_def md_get_object_reply_def get_object_def toy_svc3_store
        MetaObject_new_def MetaChunk_new_def add_storage_node_def Let_def)
  then have get: "gw_call (mcl_get_object ?M ''a'') s = Some (Ok \<lparr>go_checksum = 3, go_chunks = [?c]\<rparr>, s1)"
    by (simp add: gw_call_def net_calls s toy_after_upload_def to_meta_def md_get_object_def alone toy_confirm s1_def)
  obtain s2 where conn: "get_or_connect ?N ?a s1 = Some (Ok ?a, s2)" "gw_world s2 = gw_world s1"
    using c by (cases "hm_get (gw_connections s) ?a")
      (auto simp: get_or_connect_def s1_def cache_ok_def try_or_def bnd_def gw_call_def net_calls)
  define s3 where "s3 = s2\<lparr>gw_world := \<lparr>net_meta = ?svc, net_peers = (), net_nodes = [?a \<mapsto> sn']\<rparr>\<rparr>"
  have "ncl_delete_chunk ?N ?a 1 (gw_world s2) = Some (Ok j, gw_world s3)"
    using d j conn(2) by (simp add: s1_def s3_def net_delete_calls to_node_def)
  then have "retry_with_backoff 2 (ncl_delete_chunk ?N ?a 1) (gw_world s2) = Some (Ok j, gw_world s3)"
    by (rule retry_first)
  then have del: "gw_call (retry_with_backoff 2 (ncl_delete_chunk ?N ?a 1)) s2 = Some (Ok j, s3)"
    by (simp add: gw_call_def s3_def)
  then have join: "join_deletes ?N (delete_targets [?c]) s1 = Some ([True], s3)"
    using conn(1) by (simp add: delete_targets_def delete_at_def try_or_run(1) bnd_def ret_def)
  define s4 where "s4 = s3\<lparr>gw_world := (gw_world s3)\<lparr>net_meta := svc\<rparr>\<rparr>"
  have chunk: "gw_call (mcl_delete_chunk ?M 1) s3 = Some (Ok (), s4)"
    using m(1) by (simp add: gw_call_def net_delete_calls s3_def s4_def to_meta_def md_delete_chunk_def alone toy_confirm)
  have obj: "gw_call (mcl_delete_object ?M ''a'') s4 = Some (Ok (), s4\<lparr>gw_world := (gw_world s4)\<lparr>net_meta := svc'\<rparr>\<rparr>)"
    using m by (simp add: gw_call_def net_delete_calls s3_def s4_def to_meta_def md_delete_object_def alone)
  show ?thesis using get join chunk obj toy_name
    by (simp add: handle_delete_object_def try_or_run(1) bnd_run gw_metric_upd_def ret_def)
qed

theorem deleted_object_is_gone_witness:
  "\<forall>P :: (unit, unit) peer_rpc. \<exists>s1 s2 s3. stored (net_view (gw_world s1)) ''a'' [1, 2] \<and>
     handle_delete_object (net_metadata P (\<lambda>_. 0) toy_rand (\<lambda>_. True) toy_ser) (net_storage sum_crc) lower ''a'' s1 = Some (Ok (), s2) \<and>
     handle_get_object (net_metadata P (\<lambda>_. 0) toy_rand (\<lambda>_. True) toy_ser) (net_storage sum_crc) lower toy_enc ''a'' s2 =
       Some (Err NOT_FOUND, s3)"
proof (intro allI)
  fix P :: "(unit, unit) peer_rpc"
  let ?M = "net_metadata P (\<lambda>_. 0) toy_rand (\<lambda>_. True) toy_ser" and ?N = "net_storage sum_crc"
  obtain s1 sn1 where s1: "handle_put_object ?M ?N sum_crc lower (\<lambda>_. Some [1, 2]) ''a'' ''AQI='' toy_app = Some (Ok 2, s1)"
    "net_sound toy_rand sum_crc (gw_world s1)" "cache_ok (\<lambda>a. a) s1" "net_healthy toy_ser (gw_world s1)"
    "stored (net_view (gw_world s1)) ''a'' [1, 2]" "gw_world s1 = toy_after_upload sn1" "cs_live (store sn1)" by (rule toy_stored)
  have "sn_invar sum_crc sn1" using s1(2,6) by (simp add: net_sound_def toy_after_upload_def)
  then obtain s2 where s2: "handle_delete_object ?M ?N lower ''a'' s1 = Some (Ok (), s2)"
    using toy_delete [OF s1(6) _ s1(7,3)] by blast
  then show "\<exists>s1 s2 s3. stored (net_view (gw_world s1)) ''a'' [1, 2] \<and>
     handle_delete_object ?M ?N lower ''a'' s1 = Some (Ok (), s2) \<and> handle_get_object ?M ?N lower toy_enc ''a'' s2 = Some (Err NOT_FOUND, s3)"
    using deleted_object_is_gone [OF s1(2,3) s2] s1(5) by blast
qed

text \<open>
  C14. The two downloads agree: from a healthy deployment the streamed body of a stored object is
  a sequence of pieces without an error whose concatenation is the object, and the JSON download
  carries the encoding of the same bytes.
\<close>

theorem streamed_download_equals_json:
  assumes "net_sound R H (gw_world s)" and "cache_ok (\<lambda>a. a) s" and "net_healthy ser (gw_world s)"
    and "stored (net_view (gw_world s)) n b" and "validate_object_name alnum n = Ok ()"
  shows "(\<exists>cs s1 bs s2. handle_get_object_stream (net_metadata P x R uri ser) (net_storage H) alnum n s = Some (Ok cs, s1) \<and>
      stream_body (net_storage H) cs s1 = Some (map Ok bs, s2) \<and> concat bs = b) \<and>
    (\<exists>s'. handle_get_object (net_metadata P x R uri ser) (net_storage H) alnum b64_encode n s = Some (Ok (b64_encode b), s'))"
  using net.live_get_object [OF conjI [OF net_good [OF assms(1,2)] assms(3)] assms(4,5)]
    net.live_get_object_stream [OF conjI [OF net_good [OF assms(1,2)] assms(3)] assms(4,5)] by blast

theorem streamed_download_equals_json_witness:
  "\<forall>P :: (unit, unit) peer_rpc. \<exists>s1 cs s2 bs s3.
     handle_put_object (net_metadata P (\<lambda>_. 0) toy_rand (\<lambda>_. True) toy_ser) (net_storage sum_crc) sum_crc lower
       (\<lambda>_. Some [1, 2]) ''a'' ''AQI='' toy_app = Some (Ok 2, s1) \<and>
     handle_get_object_stream (net_metadata P (\<lambda>_. 0) toy_rand (\<lambda>_. True) toy_ser) (net_storage sum_crc) lower ''a'' s1 = Some (Ok cs, s2) \<and>
     stream_body (net_storage sum_crc) cs s2 = Some (map Ok bs, s3) \<and> concat bs = [1, 2]"
proof (intro allI)
  fix P :: "(unit, unit) peer_rpc"
  let ?M = "net_metadata P (\<lambda>_. 0) toy_rand (\<lambda>_. True) toy_ser" and ?N = "net_storage sum_crc"
  obtain s1 sn1 where s1: "handle_put_object ?M ?N sum_crc lower (\<lambda>_. Some [1, 2]) ''a'' ''AQI='' toy_app = Some (Ok 2, s1)"
    "net_sound toy_rand sum_crc (gw_world s1)" "cache_ok (\<lambda>a. a) s1" "net_healthy toy_ser (gw_world s1)"
    "stored (net_view (gw_world s1)) ''a'' [1, 2]" "gw_world s1 = toy_after_upload sn1" "cs_live (store sn1)" by (rule toy_stored)
  show "\<exists>s1 cs s2 bs s3. handle_put_object ?M ?N sum_crc lower (\<lambda>_. Some [1, 2]) ''a'' ''AQI='' toy_app = Some (Ok 2, s1) \<and>
     handle_get_object_stream ?M ?N lower ''a'' s1 = Some (Ok cs, s2) \<and>
     stream_body ?N cs s2 = Some (map Ok bs, s3) \<and> concat bs = [1, 2]"
    using streamed_download_equals_json [OF s1(2-5) toy_name(1)] s1(1) by blast
qed

text \<open>The upload loop returns on a failed connection without deleting the object.\<close>

lemma put_stops_at_connect:
  assumes "validate_object_name alnum n = Ok ()" and "b64_decode payload = Some data" and "data \<noteq> []"
    and "length data \<le> MAX_OBJECT_SIZE" and "0 < z"
    and q: "query_chunk_size M N (count_fail ''PUT'' ''object'' ''500'' INTERNAL_SERVER_ERROR) s = Some (Ok z, s1)"
    and p: "mcl_put_object M (compute_checksum H data) n (gw_world s1) = Some (Ok (), w2)"
    and a: "mcl_allocate_chunk M n (compute_checksum H (take z data)) w2 = Some (Ok (i, sid, a), w3)"
    and c: "hm_get (gw_connections s1) a = None" "ncl_connect N a w3 = Some (Err e, w3)"
  shows "handle_put_object M N H alnum b64_decode n payload s = Some (Err INTERNAL_SERVER_ERROR, s1\<lparr>gw_world := w3\<rparr>)"
proof -
  obtain cs where cs: "slice_chunks z data = take z data # cs" using assms(3,5) by (cases data; cases z) auto
  have p': "gw_call (mcl_put_object M (compute_checksum H data) n) s1 = Some (Ok (), s1\<lparr>gw_world := w2\<rparr>)"
    using p by (simp add: gw_call_def)
  have "upload_chunks M N H n (slice_chunks z data) (s1\<lparr>gw_world := w2\<rparr>) = Some (Err INTERNAL_SERVER_ERROR, s1\<lparr>gw_world := w3\<rparr>)"
    using a c by (simp add: cs upload_chunk_def gw_call_def try_or_def bnd_def get_or_connect_def fail_def ret_def)
  then show ?thesis using assms(1,2,4,5) p'
    by (simp add: handle_put_object_def fail_def ret_def try_or_run(1) [where m = "query_chunk_size M N e" for e, OF q]
        try_or_run(1) [where m = "gw_call m" for m, OF p'] try_or_run(2))
qed

text \<open>
  C28. An upload whose first chunk is placed on a node that cannot be reached is answered with an
  internal error, but not rolled back as the other failures are: the object stays listed, empty,
  and every later upload under that name is refused as a duplicate.
\<close>

theorem unreachable_node_leaves_object:
  assumes "net_sound R H (gw_world s)" and "cache_ok (\<lambda>a. a) s" and "validate_object_name alnum n = Ok ()"
    and "b64_decode payload = Some data" and "data \<noteq> []" and "length data \<le> MAX_OBJECT_SIZE" and "0 < z"
    and q: "query_chunk_size (net_metadata P x R uri ser) (net_storage H) (count_fail ''PUT'' ''object'' ''500'' INTERNAL_SERVER_ERROR) s =
      Some (Ok z, s1)"
    and p: "mcl_put_object (net_metadata P x R uri ser) (compute_checksum H data) n (gw_world s1) = Some (Ok (), w2)"
    and a: "mcl_allocate_chunk (net_metadata P x R uri ser) n (compute_checksum H (take z data)) w2 = Some (Ok (i, sid, a), w3)"
    and c: "hm_get (gw_connections s1) a = None" "net_nodes w3 a = None"
  shows "\<exists>s'. handle_put_object (net_metadata P x R uri ser) (net_storage H) H alnum b64_decode n payload s =
      Some (Err INTERNAL_SERVER_ERROR, s') \<and> cv_objs (net_view (gw_world s')) n = Some [] \<and>
    (\<forall>c. \<exists>w4. mcl_put_object (net_metadata P x R uri ser) c n (gw_world s') = Some (Err Code_AlreadyExists, w4))"
proof -
  have err: "sat (good (net_sound R H) net_view (\<lambda>a. a) ((=) (net_view (gw_world s)))) (count_fail ''PUT'' ''object'' ''500'' INTERNAL_SERVER_ERROR)
      (\<lambda>r. good (net_sound R H) net_view (\<lambda>a. a) (\<lambda>v. \<not> is_ok r \<and> v = net_view (gw_world s)))"
    by (rule sat_count_fail) simp
  have s1: "net_sound R H (gw_world s1)"
    using satD [OF net.sat_query_chunk_size [OF err] net_good [OF assms(1,2)] q] by (simp add: good_def)
  have w2: "net_sound R H w2" "net_view w2 = cv_put n (net_view (gw_world s1))" using net_put_law [OF s1 p] by auto
  have w3: "net_sound R H w3" "net_view w3 = net_view w2" using net_allocate_law [OF w2(1) a] by auto
  have o: "cv_objs (net_view w3) n = Some []" using w2(2) w3(2) by (simp add: cv_put_def)
  then have "hm_contains (ms_objects (md_store (net_meta w3))) n" by (auto simp: net_view_def view_defs)
  then have "\<exists>w4. mcl_put_object (net_metadata P x R uri ser) c n w3 = Some (Err Code_AlreadyExists, w4)" for c
    using meta_alone [OF w3(1)]
    by (simp add: net_calls to_meta_def md_put_object_def alone md_put_object_local_def put_object_def del: map_of_eq_None_iff)
  moreover have "handle_put_object (net_metadata P x R uri ser) (net_storage H) H alnum b64_decode n payload s =
      Some (Err INTERNAL_SERVER_ERROR, s1\<lparr>gw_world := w3\<rparr>)"
    by (rule put_stops_at_connect [where b64_decode = b64_decode and payload = payload, OF assms(3-7) q p a c(1)])
      (use c(2) in \<open>simp add: net_calls\<close>)
  ultimately show ?thesis using o by auto
qed

definition toy_rand_last :: "nat rand" where
  "toy_rand_last = \<lparr>rand_u64 = (\<lambda>g. (of_nat g, Suc g)), rand_choose = (\<lambda>n g. (n - 1, g))\<rparr>"

definition toy_half :: "(string, (nat, unit, unit) net) AppState" where
  "toy_half = toy_app\<lparr>gw_world := toy_net\<lparr>net_meta := toy_service\<lparr>md_store := toy_store\<lparr>ms_storage_nodes :=
     [(9, \<lparr>msn_id = 9, msn_address = ''http://n''\<rparr>), (10, \<lparr>msn_id = 10, msn_address = ''http://m''\<rparr>)]\<rparr>\<rparr>\<rparr>\<rparr>"

lemma toy_half_good: "net_sound toy_rand_last sum_crc (gw_world toy_half)" "cache_ok (\<lambda>a. a) toy_half"
  using fresh_node_2
  by (auto simp: toy_half_def toy_app_def cache_ok_def net_sound_def toy_net_def toy_service_def toy_rand_last_def toy_store_def ms_wf_def)

lemma toy_half_query:
  "query_chunk_size (net_metadata P x toy_rand_last uri toy_ser) (net_storage sum_crc) e toy_half = Some (Ok SLOT_DATA_SIZE, toy_half)"
  by (simp add: query_chunk_size_def gw_call_def toy_half_def toy_app_def try_or_def bnd_def ret_def net_metadata_def net_storage_def
      to_meta_def md_list_storage_nodes_def list_storage_nodes_def toy_net_def toy_service_def toy_store_def to_node_def
      sn_get_chunk_size_def get_chunk_size_def fun_upd_idem SLOT_DATA_SIZE_eq)

lemma toy_half_calls:
  obtains w2 w3 where "mcl_put_object (net_metadata P x toy_rand_last uri toy_ser) 3 ''a'' (gw_world toy_half) = Some (Ok (), w2)"
    "mcl_allocate_chunk (net_metadata P x toy_rand_last uri toy_ser) ''a'' 3 w2 = Some (Ok (1, 10, ''http://m''), w3)"
    "net_nodes w3 ''http://m'' = None"
proof -
  have id: "generate_unique_id (\<lambda>g. (word_of_nat g :: u64, Suc g)) ([] :: (u64, MetaChunk) hashmap) 1 = Some (1, 2)"
    by (subst generate_unique_id.simps) simp
  have "\<exists>w2. mcl_put_object (net_metadata P x toy_rand_last uri toy_ser) 3 ''a'' (gw_world toy_half) = Some (Ok (), w2) \<and>
    (\<exists>w3. mcl_allocate_chunk (net_metadata P x toy_rand_last uri toy_ser) ''a'' 3 w2 = Some (Ok (1, 10, ''http://m''), w3) \<and>
      net_nodes w3 ''http://m'' = None)"
    by (simp add: net_calls to_meta_def to_meta_option_def md_put_object_def object_scoped_def md_route_by_object_def
        md_allocate_chunk_def object_scoped_option_def allocate_chunk_def choose_storage_node_def
        toy_half_def toy_app_def toy_net_def toy_defs toy_rand_last_def id [unfolded One_nat_def])
  then show ?thesis using that by blast
qed

theorem unreachable_node_leaves_object_witness:
  "\<forall>P :: (unit, unit) peer_rpc. \<exists>s'. handle_put_object (net_metadata P (\<lambda>_. 0) toy_rand_last (\<lambda>_. True) toy_ser) (net_storage sum_crc) sum_crc
       lower (\<lambda>_. Some [1, 2]) ''a'' ''AQI='' toy_half = Some (Err INTERNAL_SERVER_ERROR, s') \<and>
     cv_objs (net_view (gw_world s')) ''a'' = Some []"
proof (intro allI)
  fix P :: "(unit, unit) peer_rpc"
  let ?M = "net_metadata P (\<lambda>_. 0) toy_rand_last (\<lambda>_. True) toy_ser" and ?N = "net_storage sum_crc"
  have ck: "compute_checksum sum_crc [1, 2] = 3" "take SLOT_DATA_SIZE [1 :: u8, 2] = [1, 2]"
    by (simp_all add: compute_checksum_def sum_crc_def SLOT_DATA_SIZE_eq)
  obtain w2 w3 where w: "mcl_put_object ?M (compute_checksum sum_crc [1, 2]) ''a'' (gw_world toy_half) = Some (Ok (), w2)"
    "mcl_allocate_chunk ?M ''a'' (compute_checksum sum_crc (take SLOT_DATA_SIZE [1, 2])) w2 = Some (Ok (1, 10, ''http://m''), w3)"
    "net_nodes w3 ''http://m'' = None"
    using toy_half_calls [of P "\<lambda>_. 0" "\<lambda>_. True"] unfolding ck by metis
  show "\<exists>s'. handle_put_object ?M ?N sum_crc lower (\<lambda>_. Some [1, 2]) ''a'' ''AQI='' toy_half = Some (Err INTERNAL_SERVER_ERROR, s') \<and>
     cv_objs (net_view (gw_world s')) ''a'' = Some []"
    using unreachable_node_leaves_object [where b64_decode = "\<lambda>_. Some [1, 2]" and payload = "''AQI=''",
        OF toy_half_good toy_name(1) refl _ _ _ toy_half_query w(1,2) _ w(3)]
    by (auto simp: MAX_OBJECT_SIZE_def SLOT_DATA_SIZE_eq toy_half_def toy_app_def)
qed

section \<open>Properties of replication\<close>

lemma net_reps_bound:
  assumes "net_sound R H w" shows "length (cv_reps (net_view w) i) \<le> 3"
proof -
  have "chunk_wf i c" if "hm_get (ms_chunks (md_store (net_meta w))) i = Some c" for c
    using ms_wfD(5) [of "md_store (net_meta w)"] meta_alone [OF assms] that by blast
  then show ?thesis
    by (auto simp: net_view_def view_defs chunk_wf_def MAX_REPLICAS_def simp del: map_of_eq_Some_iff split: option.split)
qed

text \<open>
  C8. A replication cycle only adds replicas. While the metadata service can save its state, a
  cycle, whatever calls to nodes fail in it, removes no object and no replica, never gives a chunk
  more than three replicas, and every object that was stored (all replicas of all its chunks hold
  its bytes) is stored afterwards with the same bytes.
\<close>

theorem replication_keeps_objects:
  assumes "net_sound R H (rp_world s)" and "net_steady ser (rp_world s)"
    and "\<forall>n g. 0 < n \<longrightarrow> fst (rand_choose R' n g) < n"
    and run: "run_replication_cycle (net_metadata P x R uri ser) (net_storage H) H' R' k s = Some (c, s')"
  shows "(\<forall>n b. stored (net_view (rp_world s)) n b \<longrightarrow> stored (net_view (rp_world s')) n b) \<and>
    cv_objs (net_view (rp_world s')) = cv_objs (net_view (rp_world s)) \<and>
    (\<forall>i. set (cv_reps (net_view (rp_world s)) i) \<subseteq> set (cv_reps (net_view (rp_world s')) i) \<and>
         length (cv_reps (net_view (rp_world s')) i) \<le> 3)"
proof -
  let ?v = "net_view (rp_world s)"
  have rand: "\<And>n g. 0 < n \<Longrightarrow> fst (rand_choose R' n g) < n" using assms(3) by blast
  have "rgood (net_sound R H) (net_steady ser) net_view ((=) ?v) s" using assms(1,2) by (simp add: rgood_def)
  from satD [OF netst.rsat_cycle [OF rand] this run]
  have g: "net_sound R H (rp_world s')" "grown ?v (net_view (rp_world s'))" by (auto simp: rgood_def)
  then show ?thesis using net_reps_bound [OF g(1)] unfolding grown_def by blast
qed

lemma to_meta_returns: "to_meta f w \<noteq> None" "to_node a h w \<noteq> None"
  by (auto simp: to_meta_def to_node_def split: prod.split option.split)

lemma net_answers: "answers (net_metadata P x R uri ser) (net_storage H)"
  by (simp add: answers_def returns_def net_metadata_def net_storage_def to_meta_returns)

lemma net_probed: "probed (net_metadata P x R uri ser)"
  by (simp add: probed_def net_metadata_def to_meta_def md_list_storage_nodes_def)

definition toy_repl :: "(nat, (nat, unit, unit) net) ReplState" where
  "toy_repl = \<lparr>rp_metrics = (\<lambda>_. 0), rp_rng = 1, rp_world = toy_net\<rparr>"

theorem replication_keeps_objects_witness:
  "\<forall>P :: (unit, unit) peer_rpc. \<exists>s c s'. stored (net_view (rp_world s)) ''a'' [1, 2] \<and>
     run_replication_cycle (net_metadata P (\<lambda>_. 0) toy_rand (\<lambda>_. True) toy_ser) (net_storage sum_crc) sum_crc toy_rand 100 s = Some (c, s') \<and>
     stored (net_view (rp_world s')) ''a'' [1, 2]"
proof (intro allI)
  fix P :: "(unit, unit) peer_rpc"
  let ?M = "net_metadata P (\<lambda>_. 0) toy_rand (\<lambda>_. True) toy_ser"
  obtain s1 sn1 where s1: "handle_put_object ?M (net_storage sum_crc) sum_crc lower (\<lambda>_. Some [1, 2]) ''a'' ''AQI='' toy_app = Some (Ok 2, s1)"
    "net_sound toy_rand sum_crc (gw_world s1)" "cache_ok (\<lambda>a. a) s1" "net_healthy toy_ser (gw_world s1)"
    "stored (net_view (gw_world s1)) ''a'' [1, 2]" "gw_world s1 = toy_after_upload sn1" "cs_live (store sn1)" by (rule toy_stored)
  let ?s = "toy_repl\<lparr>rp_world := gw_world s1\<rparr>"
  obtain c s' where run: "run_replication_cycle ?M (net_storage sum_crc) sum_crc toy_rand 100 ?s = Some (c, s')"
    using cycle_runs [OF net_answers] by blast
  have "net_sound toy_rand sum_crc (rp_world ?s)" "net_steady toy_ser (rp_world ?s)"
    using s1 by (simp_all add: net_healthy_def net_steady_def)
  from replication_keeps_objects [OF this _ run] have "stored (net_view (rp_world s')) ''a'' [1, 2]"
    using s1(5) by (simp add: toy_rand_def)
  then show "\<exists>s c s'. stored (net_view (rp_world s)) ''a'' [1, 2] \<and>
     run_replication_cycle ?M (net_storage sum_crc) sum_crc toy_rand 100 s = Some (c, s') \<and>
     stored (net_view (rp_world s')) ''a'' [1, 2]"
    using run s1(5) by (intro exI [of _ ?s] exI [of _ c] exI [of _ s']) simp
qed

text \<open>
  C13. The replication service recovers from the loss of its metadata service: when every probe
  over its client fails but some address accepts connections, then whatever the count of failures
  it has reached, at most four intervals later it holds the new client, has counted no failure
  since, and has run a cycle.
\<close>

theorem replication_recovers:
  assumes "dead (use (rl_client l))"
    and "\<forall>w. \<exists>w'. connect_any connect urls w = Some (Some c, w')" and "probed (use c)" and "answers (use c) N"
  shows "\<exists>n l'. n \<le> 4 \<and> ticks connect urls use N H R k n l = Some l' \<and> rl_client l' = c \<and>
    rl_consecutive_failures l' = 0 \<and> runs l' = runs l + 1"
proof -
  have "\<exists>l'. ticks connect urls use N H R k (Suc d) l = Some l' \<and> rl_client l' = c \<and> rl_consecutive_failures l' = 0 \<and> runs l' = runs l + 1"
    if "d = MAX_CONSECUTIVE_FAILURES - rl_consecutive_failures l" "dead (use (rl_client l))" for d l
    using that
  proof (induction d arbitrary: l)
    case 0
    then have "MAX_CONSECUTIVE_FAILURES \<le> rl_consecutive_failures l" by simp
    from tick_reconnects [where use = use and connect = connect and urls = urls, OF this assms(2-4), of H R k]
    obtain l' where "replication_tick connect urls use N H R k l = Some ((), l')" "rl_client l' = c"
      "rl_consecutive_failures l' = 0" "runs l' = runs l + 1" by blast
    then show ?case by simp
  next
    case (Suc d)
    obtain l1 where l1: "probe_and_run use N H R k l = Some ((), l1)" "rl_client l1 = rl_client l"
      "rl_consecutive_failures l1 = rl_consecutive_failures l + 1" "runs l1 = runs l"
      using probe_dead [where use = use, OF Suc.prems(2)] by blast
    then have "replication_tick connect urls use N H R k l = Some ((), l1)"
      using Suc.prems(1) by (auto simp: replication_tick_def)
    moreover have "d = MAX_CONSECUTIVE_FAILURES - rl_consecutive_failures l1" using l1(3) Suc.prems(1) by simp
    ultimately show ?case using Suc.IH [of l1] Suc.prems(2) l1 by simp
  qed
  then obtain l' where "ticks connect urls use N H R k (Suc (MAX_CONSECUTIVE_FAILURES - rl_consecutive_failures l)) l = Some l'"
    "rl_client l' = c" "rl_consecutive_failures l' = 0" "runs l' = runs l + 1"
    using assms(1) by blast
  moreover have "Suc (MAX_CONSECUTIVE_FAILURES - rl_consecutive_failures l) \<le> 4" by (simp add: MAX_CONSECUTIVE_FAILURES_def)
  ultimately show ?thesis by blast
qed

definition toy_loop :: "(bool, nat, (nat, unit, unit) net) ReplLoop" where
  "toy_loop = \<lparr>rl_client = False, rl_consecutive_failures = 1, rl_state = toy_repl\<rparr>"

definition toy_use :: "(unit, unit) peer_rpc \<Rightarrow> bool \<Rightarrow> (nat, unit, unit) net MetadataClient" where
  "toy_use P alive = (let M = net_metadata P (\<lambda>_. 0) toy_rand (\<lambda>_. True) toy_ser in
     if alive then M else M\<lparr>mcl_list_storage_nodes := (\<lambda>w. Some (Err Code_Unavailable, w))\<rparr>)"

theorem replication_recovers_witness:
  "\<forall>P. \<exists>n l'. n \<le> 4 \<and> ticks (\<lambda>a w. Some (if a = ''http://m2'' then Ok True else Err Code_Unavailable, w))
     [''http://m1'', ''http://m2''] (toy_use P) (net_storage sum_crc) sum_crc toy_rand 100 n toy_loop = Some l' \<and>
     rl_client l' \<and> rl_consecutive_failures l' = 0 \<and> runs l' = runs toy_loop + 1"
proof (intro allI)
  fix P
  have "dead (toy_use P (rl_client toy_loop))" by (simp add: toy_use_def toy_loop_def dead_def Let_def)
  moreover have "probed (toy_use P True)" "answers (toy_use P True) (net_storage sum_crc)"
    by (simp_all add: toy_use_def net_probed net_answers)
  ultimately show "\<exists>n l'. n \<le> 4 \<and> ticks (\<lambda>a w. Some (if a = ''http://m2'' then Ok True else Err Code_Unavailable, w))
     [''http://m1'', ''http://m2''] (toy_use P) (net_storage sum_crc) sum_crc toy_rand 100 n toy_loop = Some l' \<and>
     rl_client l' \<and> rl_consecutive_failures l' = 0 \<and> runs l' = runs toy_loop + 1"
    using replication_recovers [of "toy_use P" toy_loop "\<lambda>a w. Some (if a = ''http://m2'' then Ok True else Err Code_Unavailable, w)"
        "[''http://m1'', ''http://m2'']" True "net_storage sum_crc" sum_crc toy_rand 100]
    by (simp add: try_or_def bnd_def ret_def)
qed

lemma net_repl_calls:
  "mcl_add_chunk_replica (net_metadata P x R uri ser) i s w = to_meta (md_add_chunk_replica P x ser i s) w"
  by (simp add: net_metadata_def)

text \<open>
  C29. When the metadata service cannot save a new replica, the replication service takes the
  refusal at its word and deletes the copy it has just written; but the metadata service keeps the
  replica in memory, so the chunk now lists a node that does not hold it.
\<close>

theorem failed_save_leaves_dangling_replica:
  assumes "net_sound R H (rp_world s)"
    and sn: "net_nodes (rp_world s) (msn_address t) = Some sn" "cs_live (store sn)"
    and wr: "sn_write_chunk H (ur_chunk_id c) d sn = (Ok j, sn1)" and fits: "length d \<le> SLOT_DATA_SIZE"
    and mc: "hm_get (ms_chunks (md_store (net_meta (rp_world s)))) (ur_chunk_id c) = Some mc"
      "msn_id t \<notin> set (mc_storage_nodes mc)" "length (mc_storage_nodes mc) < MAX_REPLICAS"
    and reg: "hm_contains (ms_storage_nodes (md_store (net_meta (rp_world s)))) (msn_id t)"
    and save: "ms_save ser ((md_store (net_meta (rp_world s)))\<lparr>ms_chunks := hm_insert (ur_chunk_id c)
        (add_storage_node (msn_id t) mc) (ms_chunks (md_store (net_meta (rp_world s))))\<rparr>) = (Err e, st')"
  shows "\<exists>s'. store_target (net_metadata P x R uri ser) (net_storage H) c t d s = Some (False, s') \<and>
    msn_id t \<in> set (cv_reps (net_view (rp_world s')) (ur_chunk_id c)) \<and>
    cv_blob (net_view (rp_world s')) (msn_address t) (ur_chunk_id c) = None"
proof -
  let ?i = "ur_chunk_id c" and ?a = "msn_address t" and ?w = "rp_world s" and ?N = "net_storage H"
  let ?st = "md_store (net_meta ?w)" and ?M = "net_metadata P x R uri ser"
  have inv: "sn_invar H sn" using assms(1) sn(1) by (simp add: net_sound_def)
  have sn1: "sn_invar H sn1" "cs_live (store sn1)"
    using sn.put_invar [OF inv wr] sn.live_put [OF inv sn(2), of d ?i] wr fits by (simp_all add: cs_fits_def)
  obtain r sn2 where del: "sn_delete_chunk ?i sn1 = (r, sn2)" by fastforce
  have gone: "sn_chunks sn2 ?i = None"
    using sn.del_removed [OF sn1(1) del] sn.del_answers [OF sn1, of ?i] del by simp
  have "add_chunk_replica ser ?i (msn_id t) ?st = (Err e, st')"
    using mc reg save by (simp add: add_chunk_replica_def del: map_of_eq_Some_iff map_of_eq_None_iff)
  then obtain svc' where svc': "md_add_chunk_replica_local ser ?i (msn_id t) (net_meta ?w) = (Err (replica_status e), svc')"
    "md_store svc' = st'" by (simp add: md_add_chunk_replica_local_def)
  have reps: "store_reps st' ?i = mc_storage_nodes mc @ [msn_id t]"
    using view_save [OF save, of "\<lambda>_ _. None"] by (simp add: meta_view_def store_reps_def add_storage_node_def fun_eq_iff)
  let ?w2 = "\<lparr>net_meta = svc', net_peers = net_peers ?w, net_nodes = (net_nodes ?w)(?a \<mapsto> sn2)\<rparr>"
  have "\<exists>s'. store_target ?M ?N c t d s = Some (False, s') \<and> rp_world s' = ?w2"
    using sn(1) wr del svc' meta_alone [OF assms(1)]
    by (cases ?w) (simp add: store_target_def cleanup_target_def skip_chunk_def inc_failure_def rp_call_def try_or_def bnd_def ret_def
        rp_metric_upd_def net_calls net_delete_calls net_repl_calls to_node_def to_meta_def md_add_chunk_replica_def alone)
  moreover have "msn_id t \<in> set (cv_reps (net_view ?w2) ?i)" "cv_blob (net_view ?w2) ?a ?i = None"
    using reps svc'(2) gone by (simp_all add: net_view_def meta_view_def net_blob_def)
  ultimately show ?thesis by metis
qed

definition toy_full_disk :: "(nat, (nat, unit, unit) net) ReplState" where
  "toy_full_disk = toy_repl\<lparr>rp_world := \<lparr>net_meta = toy_service\<lparr>md_store := toy_store\<lparr>
     ms_chunks := [(1, add_storage_node 8 (MetaChunk_new 1 3 ''a''))],
     ms_disk := \<lparr>fs_files = (\<lambda>_. None), fs_plan = [Failed StorageFull 0]\<rparr>\<rparr>\<rparr>,
     net_peers = (), net_nodes = [''http://n'' \<mapsto> fresh_node 2]\<rparr>\<rparr>"

theorem failed_save_leaves_dangling_replica_witness:
  "\<forall>P :: (unit, unit) peer_rpc. \<exists>s'. store_target (net_metadata P (\<lambda>_. 0) toy_rand (\<lambda>_. True) toy_ser) (net_storage sum_crc)
       \<lparr>ur_chunk_id = 1, ur_checksum = 3, ur_storage_node_ids = [8]\<rparr> \<lparr>msn_id = 9, msn_address = ''http://n''\<rparr> [1, 2] toy_full_disk =
       Some (False, s') \<and> 9 \<in> set (cv_reps (net_view (rp_world s')) 1) \<and> cv_blob (net_view (rp_world s')) ''http://n'' 1 = None"
proof (intro allI)
  fix P :: "(unit, unit) peer_rpc"
  let ?c = "\<lparr>ur_chunk_id = 1, ur_checksum = 3, ur_storage_node_ids = [8]\<rparr>" and ?t = "\<lparr>msn_id = 9, msn_address = ''http://n''\<rparr>"
  let ?st = "md_store (net_meta (rp_world toy_full_disk))"
  obtain sn1 where w: "sn_write_chunk sum_crc (ur_chunk_id ?c) [1, 2] (fresh_node 2) = (Ok 1, sn1)" using fresh_node_write by auto
  have "net_sound toy_rand sum_crc (rp_world toy_full_disk)"
    using fresh_node_2 by (auto simp: toy_full_disk_def net_sound_def toy_service_def toy_store_def toy_rand_def ms_wf_def chunk_wf_def
        MetaChunk_new_def add_storage_node_def MAX_REPLICAS_def)
  moreover have "net_nodes (rp_world toy_full_disk) (msn_address ?t) = Some (fresh_node 2)" by (simp add: toy_full_disk_def)
  moreover have "hm_get (ms_chunks ?st) (ur_chunk_id ?c) = Some (add_storage_node 8 (MetaChunk_new 1 3 ''a''))"
    by (simp add: toy_full_disk_def)
  moreover obtain st' where "ms_save toy_ser (?st\<lparr>ms_chunks := hm_insert (ur_chunk_id ?c)
      (add_storage_node (msn_id ?t) (add_storage_node 8 (MetaChunk_new 1 3 ''a''))) (ms_chunks ?st)\<rparr>) = (Err StorageFull, st')"
    by (simp add: toy_full_disk_def toy_service_def toy_store_def ms_save_def fs_ops toy_ser_def)
  ultimately show "\<exists>s'. store_target (net_metadata P (\<lambda>_. 0) toy_rand (\<lambda>_. True) toy_ser) (net_storage sum_crc) ?c ?t [1, 2] toy_full_disk =
       Some (False, s') \<and> 9 \<in> set (cv_reps (net_view (rp_world s')) 1) \<and> cv_blob (net_view (rp_world s')) ''http://n'' 1 = None"
    using failed_save_leaves_dangling_replica [where t = ?t and c = ?c and s = toy_full_disk and sn = "fresh_node 2",
        OF _ _ fresh_node_2(2) w] by (simp add: SLOT_DATA_SIZE_eq MAX_REPLICAS_def MetaChunk_new_def add_storage_node_def toy_full_disk_def
        toy_service_def toy_store_def)
qed

end
