(* ===== verification/DeploymentProgress.thy ===== *)
theory DeploymentProgress
  imports Deployment
begin

text \<open>
  The deployment answers the calls of a replication cycle when its metadata service saves and its
  registered nodes are there, without I/O errors and with free slots: the interpretation \<open>netpr\<close> of
  \<open>progress_backend\<close>. Hence two cycles bring every chunk to its target number of replicas.
\<close>

section \<open>A node with free slots\<close>

definition sn_free :: "StorageNodeImpl \<Rightarrow> nat" where
  "sn_free sn = length (free_slots (store sn))"

lemma sn_free_bound:
  assumes "sn_invar H sn" shows "sn_free sn < 2 ^ 64"
proof -
  have "set (free_slots (store sn)) \<subseteq> {s. s < total_slots (store sn)}" "distinct (free_slots (store sn))"
    using assms by (auto simp: cs_invar_def)
  then have "sn_free sn \<le> card {s. s < total_slots (store sn)}"
    unfolding sn_free_def by (metis card_mono distinct_card finite)
  also have "\<dots> = unat (total_slots (store sn))" by (rule card_word_below)
  also have "\<dots> < 2 ^ 64" using unsigned_less [of "total_slots (store sn)"] by simp
  finally show ?thesis .
qed

lemma chunk_fits: "sn_invar H sn \<Longrightarrow> sn_chunks sn i = Some d \<Longrightarrow> cs_fits d"
proof -
  assume inv: "sn_invar H sn" and d: "sn_chunks sn i = Some d"
  then obtain s where s: "hm_get (index (store sn)) i = Some s" by (cases "hm_get (index (store sn)) i") (simp_all add: chunks_of_def)
  then obtain e where e: "holds H (store_file (store sn)) s i e" using inv unfolding cs_invar_def by blast
  then have "e = d" using chunks_of_eq [OF s e] d by simp
  then show "cs_fits d" using e by (simp add: holds_def cs_fits_def)
qed

lemma live_write:
  assumes inv: "sn_invar H sn" and live: "cs_live (store sn)" and new: "sn_chunks sn i = None" and fits: "cs_fits d" and free: "0 < sn_free sn"
  shows "\<exists>z sn'. sn_write_chunk H i d sn = (Ok z, sn') \<and> cs_live (store sn') \<and> sn_free sn' = sn_free sn - 1"
proof -
  obtain r st where p: "cs_put_chunk H i d (store sn) = (r, st)" by fastforce
  obtain z sn' where w: "sn_write_chunk H i d sn = (z, sn')" by fastforce
  have "cs_stored r \<and> length (free_slots st) = length (free_slots (store sn)) - 1"
    using inv p by (cases rule: put_chunk_cases)
      (use live new fits free in \<open>auto simp: cs_live_def cs_fits_def sn_free_def cs_stored_def chunks_of_None\<close>)
  moreover have "store sn' = st" "is_ok z = cs_stored r" using sn_write_store [of H i d sn] p w by simp_all
  moreover have "cs_live (store sn')" using sn.live_put [OF inv live fits, of i] w by simp
  ultimately show ?thesis using w by (cases z) (auto simp: sn_free_def)
qed

lemma read_frees_nothing:
  assumes "sn_invar H sn" and "sn_read_chunk H i sn = (r, sn')"
  shows "sn_free sn' = sn_free sn"
proof -
  obtain q st where p: "cs_get_chunk H i (store sn) = (q, st)" by fastforce
  have "free_slots st = free_slots (store sn)" using assms(1) p by (cases rule: get_chunk_cases) auto
  then show ?thesis using sn_read_store [of H i sn] p assms(2) by (simp add: sn_free_def)
qed

section \<open>The deployment answers\<close>

definition net_sums :: "('g, 'c, 'p) net \<Rightarrow> u64 \<Rightarrow> u32 option" where
  "net_sums w i = (case hm_get (ms_chunks (md_store (net_meta w))) i of
     None \<Rightarrow> None
   | Some c \<Rightarrow> if mc_status c = Confirmed then Some (mc_checksum c) else None)"

definition net_space :: "('g, 'c, 'p) net \<Rightarrow> string \<Rightarrow> nat" where
  "net_space w a = (case net_nodes w a of None \<Rightarrow> 0 | Some sn \<Rightarrow> sn_free sn)"

text \<open>
  The metadata service saves, a chunk that is not confirmed has no replica, and every registered
  address has a node without I/O errors.
\<close>

definition net_ready :: "json_ser \<Rightarrow> ('g, 'c, 'p) net \<Rightarrow> bool" where
  "net_ready ser w \<longleftrightarrow> calm ser (md_store (net_meta w)) \<and>
     (\<forall>i c. hm_get (ms_chunks (md_store (net_meta w))) i = Some c \<and> mc_storage_nodes c \<noteq> [] \<longrightarrow> mc_status c = Confirmed) \<and>
     (\<forall>s a. cv_reg (net_view w) s = Some a \<longrightarrow> (\<exists>sn. net_nodes w a = Some sn \<and> cs_live (store sn)))"

lemma ready_node_at: "net_ready ser w \<Longrightarrow> cv_reg (net_view w) s = Some a \<Longrightarrow> \<exists>sn. net_nodes w a = Some sn \<and> cs_live (store sn)"
  by (simp add: net_ready_def)

lemma net_reg: "cv_reg (net_view w) = store_reg (md_store (net_meta w))"
  by (simp add: net_view_def meta_view_def)

lemma net_reps: "cv_reps (net_view w) = store_reps (md_store (net_meta w))"
  by (simp add: net_view_def meta_view_def)

text \<open>A step of one node leaves the rest as it is.\<close>

lemma node_kept:
  assumes "net_ready ser w" "cs_live (store sn')" "net_nodes w a \<noteq> None"
  shows "net_ready ser (w\<lparr>net_nodes := (net_nodes w)(a \<mapsto> sn')\<rparr>) \<and> net_sums (w\<lparr>net_nodes := (net_nodes w)(a \<mapsto> sn')\<rparr>) = net_sums w \<and>
    net_space (w\<lparr>net_nodes := (net_nodes w)(a \<mapsto> sn')\<rparr>) = (net_space w)(a := sn_free sn')"
  using assms by (auto simp: net_ready_def net_reg net_sums_def net_space_def fun_eq_iff)

text \<open>The list of under-replicated chunks names each of them once.\<close>

lemma distinct_sorted: "distinct (map f (sort_key g xs)) = distinct (map f xs)"
  by (simp add: distinct_map)

lemma values_ids:
  assumes "ms_wf st"
  shows "distinct (map mc_id (hm_values (ms_chunks st)))"
    and "c \<in> set (hm_values (ms_chunks st)) \<longleftrightarrow> hm_get (ms_chunks st) (mc_id c) = Some c"
proof -
  have id: "mc_id c = i" if "(i, c) \<in> set (ms_chunks st)" for i c
    using ms_wfD(2,5) [OF assms] that by (auto simp: chunk_wf_def)
  then have "map mc_id (hm_values (ms_chunks st)) = map fst (ms_chunks st)" by force
  then show "distinct (map mc_id (hm_values (ms_chunks st)))" using ms_wfD(2) [OF assms] by (simp only: )
  show "c \<in> set (hm_values (ms_chunks st)) \<longleftrightarrow> hm_get (ms_chunks st) (mc_id c) = Some c"
    using hm_values_iff [of "ms_chunks st" c] ms_wfD(2) [OF assms] ms_wfD(5) [OF assms] by (metis chunk_wf_def)
qed

lemma under_list:
  fixes st :: "'g MetadataStore" and k :: u32
  assumes wf: "ms_wf st" and cs: "cs = sort_key (\<lambda>c. length (ur_storage_node_ids c)) (map under_replicated (list_under_replicated_chunks k st))"
  shows "distinct (map ur_chunk_id cs)"
    and "c \<in> set cs \<Longrightarrow> \<exists>mc. hm_get (ms_chunks st) (ur_chunk_id c) = Some mc \<and> mc_status mc = Confirmed \<and> mc_checksum mc = ur_checksum c"
    and "i \<in> ur_chunk_id ` set cs \<longleftrightarrow> (\<exists>mc. hm_get (ms_chunks st) i = Some mc \<and> mc_status mc = Confirmed \<and> length (mc_storage_nodes mc) < unat k)"
proof -
  let ?vs = "filter (\<lambda>c. mc_status c = Confirmed \<and> length (mc_storage_nodes c) < unat k) (hm_values (ms_chunks st))"
  have ids: "map ur_chunk_id (map under_replicated ys) = map mc_id ys" for ys by (simp add: under_replicated_def)
  have "distinct (map mc_id ?vs)" using values_ids(1) [OF wf] by (rule distinct_map_filter)
  then show "distinct (map ur_chunk_id cs)"
    unfolding cs list_under_replicated_chunks_def by (simp only: distinct_sorted ids)
  have s: "set cs = under_replicated ` set ?vs" by (simp add: cs list_under_replicated_chunks_def)
  show "c \<in> set cs \<Longrightarrow> \<exists>mc. hm_get (ms_chunks st) (ur_chunk_id c) = Some mc \<and> mc_status mc = Confirmed \<and> mc_checksum mc = ur_checksum c"
    using values_ids(2) [OF wf] unfolding s by (auto simp: under_replicated_def simp del: map_of_eq_Some_iff)
  have "i \<in> ur_chunk_id ` set cs \<longleftrightarrow> i \<in> mc_id ` set ?vs" unfolding s by (force simp: under_replicated_def image_iff)
  also have "\<dots> \<longleftrightarrow> (\<exists>mc. hm_get (ms_chunks st) i = Some mc \<and> mc_status mc = Confirmed \<and> length (mc_storage_nodes mc) < unat k)"
  proof
    assume "i \<in> mc_id ` set ?vs"
    then show "\<exists>mc. hm_get (ms_chunks st) i = Some mc \<and> mc_status mc = Confirmed \<and> length (mc_storage_nodes mc) < unat k"
      using values_ids(2) [OF wf] by auto
  next
    assume "\<exists>mc. hm_get (ms_chunks st) i = Some mc \<and> mc_status mc = Confirmed \<and> length (mc_storage_nodes mc) < unat k"
    then obtain mc where mc: "hm_get (ms_chunks st) i = Some mc" "mc_status mc = Confirmed" "length (mc_storage_nodes mc) < unat k" by blast
    have "mc_id mc = i" using ms_wfD(5) [OF wf mc(1)] by (simp add: chunk_wf_def)
    then have "mc \<in> set ?vs" using values_ids(2) [OF wf, of mc] mc by simp
    then show "i \<in> mc_id ` set ?vs" using \<open>mc_id mc = i\<close> by blast
  qed
  finally show "i \<in> ur_chunk_id ` set cs \<longleftrightarrow> (\<exists>mc. hm_get (ms_chunks st) i = Some mc \<and> mc_status mc = Confirmed \<and> length (mc_storage_nodes mc) < unat k)" .
qed

lemma sums_iff: "net_sums w i \<noteq> None \<longleftrightarrow> (\<exists>c. hm_get (ms_chunks (md_store (net_meta w))) i = Some c \<and> mc_status c = Confirmed)"
  by (auto simp: net_sums_def simp del: map_of_eq_Some_iff split: option.split)

lemma netpr_under:
  assumes w: "net_sound R H w" and r: "net_ready ser w" and k: "k \<noteq> 0"
  shows "\<exists>cs w'. mcl_list_under_replicated_chunks (net_metadata P x R uri ser) k w = Some (Ok cs, w') \<and>
    kept (net_ready ser) net_sums net_space w w' \<and> distinct (map ur_chunk_id cs) \<and>
    (\<forall>c \<in> set cs. net_sums w (ur_chunk_id c) = Some (ur_checksum c)) \<and>
    (\<forall>i. i \<in> ur_chunk_id ` set cs \<longleftrightarrow> net_sums w i \<noteq> None \<and> length (cv_reps (net_view w) i) < unat k)"
proof -
  let ?st = "md_store (net_meta w)"
  note a = meta_alone [OF w]
  define cs where "cs = sort_key (\<lambda>c. length (ur_storage_node_ids c)) (map under_replicated (list_under_replicated_chunks k ?st))"
  note u = under_list [OF conjunct2 [OF a] cs_def]
  let ?w = "w\<lparr>net_meta := md_count ''list_under_replicated_chunks'' ''ok'' (net_meta w)\<rparr>"
  have run: "mcl_list_under_replicated_chunks (net_metadata P x R uri ser) k w = Some (Ok cs, ?w)"
    using alone_handlers(2) [OF conjunct1 [OF a], of P k "net_peers w"] k
    by (simp add: net_metadata_def to_meta_def cs_def default_replicas_def)
  moreover have "kept (net_ready ser) net_sums net_space w ?w"
    using r by (auto simp: kept_def net_ready_def net_reg net_sums_def net_space_def fun_eq_iff
        simp del: map_of_eq_Some_iff map_of_eq_None_iff)
  moreover have "net_sums w (ur_chunk_id c) = Some (ur_checksum c)" if "c \<in> set cs" for c
    using u(2) [OF that] by (auto simp: net_sums_def simp del: map_of_eq_Some_iff)
  moreover have "i \<in> ur_chunk_id ` set cs \<longleftrightarrow> net_sums w i \<noteq> None \<and> length (cv_reps (net_view w) i) < unat k" for i
    unfolding u(3) sums_iff net_reps store_reps_def by (auto simp del: map_of_eq_Some_iff)
  ultimately show ?thesis using u(1) by blast
qed

lemma netpr_write:
  assumes w: "net_sound R H w" and r: "net_ready ser w" and a: "cv_reg (net_view w) s = Some a" "0 < net_space w a"
    and b: "cv_blob (net_view w) a i = None" "cv_blob (net_view w) b i = Some d"
  shows "\<exists>z w'. to_node a (sn_write_chunk H i d) w = Some (Ok z, w') \<and> net_ready ser w' \<and> net_sums w' = net_sums w \<and>
    net_space w' = (net_space w)(a := net_space w a - 1)"
proof -
  obtain sn where sn: "net_nodes w a = Some sn" "cs_live (store sn)" using ready_node_at [OF r a(1)] by blast
  obtain sb where sb: "net_nodes w b = Some sb" "sn_chunks sb i = Some d"
    using b(2) by (auto simp: net_view_def meta_view_def net_blob_def split: option.splits)
  have "cs_fits d" by (rule chunk_fits [OF node_invar [OF w sb(1)] sb(2)])
  moreover have "sn_chunks sn i = None" using b(1) sn(1) by (simp add: net_view_def meta_view_def net_blob_def)
  moreover have "0 < sn_free sn" using a(2) sn(1) by (simp add: net_space_def)
  ultimately obtain z sn' where p: "sn_write_chunk H i d sn = (Ok z, sn')" "cs_live (store sn')" "sn_free sn' = sn_free sn - 1"
    using live_write [OF node_invar [OF w sn(1)] sn(2)] by metis
  have "net_space w a = sn_free sn" using sn(1) by (simp add: net_space_def)
  then show ?thesis using node_kept [OF r p(2), of a] sn(1) p
    by (intro exI [of _ z] exI [of _ "w\<lparr>net_nodes := (net_nodes w)(a \<mapsto> sn')\<rparr>"]) (simp add: to_node_def)
qed

lemma netpr_read:
  assumes w: "net_sound R H w" and r: "net_ready ser w" and a: "cv_reg (net_view w) s = Some a" and b: "cv_blob (net_view w) a i = Some d"
  shows "\<exists>e w'. to_node a (sn_read_chunk H i) w = Some (Ok e, w') \<and> kept (net_ready ser) net_sums net_space w w'"
proof -
  obtain sn where sn: "net_nodes w a = Some sn" "cs_live (store sn)" using ready_node_at [OF r a] by blast
  note inv = node_invar [OF w sn(1)]
  obtain q sn' where p: "sn_read_chunk H i sn = (q, sn')" by fastforce
  have "sn_chunks sn i = Some d" using b sn(1) by (simp add: net_view_def meta_view_def net_blob_def)
  then obtain e where e: "q = Ok e" using sn.get_answers [OF inv sn(2), of i] p by (cases q) auto
  have "cs_live (store sn')" using sn.live_get [OF inv sn(2), of i] p by simp
  then have "kept (net_ready ser) net_sums net_space w (w\<lparr>net_nodes := (net_nodes w)(a \<mapsto> sn')\<rparr>)"
    using node_kept [OF r, of sn' a] sn(1) read_frees_nothing [OF inv p]
    by (simp add: kept_def fun_eq_iff net_space_def)
  then show ?thesis using sn(1) p unfolding e
    by (intro exI [of _ e] exI [of _ "w\<lparr>net_nodes := (net_nodes w)(a \<mapsto> sn')\<rparr>"]) (simp add: to_node_def)
qed

lemma netpr_replica:
  assumes w: "net_sound R H w" and r: "net_ready ser w" and s: "cv_reg (net_view w) s = Some a"
    and i: "s \<notin> set (cv_reps (net_view w) i)" "net_sums w i \<noteq> None" "length (cv_reps (net_view w) i) < 3"
  shows "\<exists>w'. mcl_add_chunk_replica (net_metadata P x R uri ser) i s w = Some (Ok (), w') \<and> kept (net_ready ser) net_sums net_space w w'"
proof -
  let ?st = "md_store (net_meta w)"
  obtain c where c: "hm_get (ms_chunks ?st) i = Some c" "mc_status c = Confirmed" using i(2) sums_iff by blast
  have n: "s \<notin> set (mc_storage_nodes c)" "length (mc_storage_nodes c) < MAX_REPLICAS"
    using i(1,3) c(1) by (simp_all add: net_reps store_reps_def MAX_REPLICAS_def)
  have reg: "hm_contains (ms_storage_nodes ?st) s" using s by (auto simp: net_reg store_reg_def)
  let ?st1 = "?st\<lparr>ms_chunks := hm_insert i (add_storage_node s c) (ms_chunks ?st)\<rparr>"
  have calm: "calm ser ?st1" using r by (simp add: net_ready_def calm_def)
  obtain d where d: "ms_save ser ?st1 = (Ok (), ?st1\<lparr>ms_disk := d\<rparr>)" "calm ser (?st1\<lparr>ms_disk := d\<rparr>)"
    by (rule calm_save [OF calm])
  have add: "add_chunk_replica ser i s ?st = (Ok (), ?st1\<lparr>ms_disk := d\<rparr>)"
    using reg c(1) n d(1) by (simp add: add_chunk_replica_def)
  let ?w = "w\<lparr>net_meta := md_count ''add_chunk_replica'' ''ok'' ((net_meta w)\<lparr>md_store := ?st1\<lparr>ms_disk := d\<rparr>\<rparr>)\<rparr>"
  have "mcl_add_chunk_replica (net_metadata P x R uri ser) i s w = Some (Ok (), ?w)"
    using add meta_alone [OF w] by (simp add: net_metadata_def to_meta_def md_add_chunk_replica_def alone md_add_chunk_replica_local_def)
  moreover have "kept (net_ready ser) net_sums net_space w ?w"
    using r c d(2) by (auto simp: kept_def net_ready_def net_reg store_reg_def net_sums_def net_space_def add_storage_node_def fun_eq_iff
        simp del: map_of_eq_Some_iff)
  ultimately show ?thesis by blast
qed

lemma netpr_free:
  assumes w: "net_sound R H w" and r: "net_ready ser w" and a: "cv_reg (net_view w) s = Some a" "0 < net_space w a"
  shows "\<exists>n w'. to_node a (\<lambda>sn. (sn_get_free_chunks sn, sn)) w = Some (Ok n, w') \<and> 0 < n \<and> kept (net_ready ser) net_sums net_space w w'"
proof -
  obtain sn where sn: "net_nodes w a = Some sn" using ready_node_at [OF r a(1)] by blast
  have "0 < sn_free sn" "sn_free sn < 2 ^ 64" using a(2) sn sn_free_bound [OF node_invar [OF w sn]] by (simp_all add: net_space_def)
  then have "(0 :: u64) < of_nat (sn_free sn)" by (simp add: word_less_nat_alt unat_of_nat)
  moreover have "w\<lparr>net_nodes := (net_nodes w)(a \<mapsto> sn)\<rparr> = w" using sn by (simp add: fun_upd_idem)
  ultimately show ?thesis using sn r
    by (simp add: to_node_def sn_get_free_chunks_def cs_free_slots_def sn_free_def [symmetric] kept_def)
qed

interpretation netpr: progress_backend "net_metadata P x R uri ser" "net_storage H" "net_sound R H" net_view "\<lambda>a. a" "net_steady ser"
    "net_ready ser" net_sums net_space
  for P :: "('c, 'p) peer_rpc" and x R uri ser and H :: "'h crc32"
proof (unfold_locales, goal_cases)
  case (1 w)
  have "\<lparr>msn_id = s, msn_address = a\<rparr> \<in> set (map (\<lambda>n. \<lparr>msn_id = msn_id n, msn_address = msn_address n\<rparr>) (hm_values (ms_storage_nodes (md_store (net_meta w)))))"
    if reg: "cv_reg (net_view w) s = Some a" for s a
  proof -
    obtain n where n: "hm_get (ms_storage_nodes (md_store (net_meta w))) s = Some n" "a = msn_address n"
      using reg by (cases "hm_get (ms_storage_nodes (md_store (net_meta w))) s") (simp_all add: net_reg store_reg_def)
    have "msn_id n = s" using ms_wfD(6) [OF conjunct2 [OF meta_alone [OF 1(1)]] n(1)] .
    moreover have "n \<in> set (hm_values (ms_storage_nodes (md_store (net_meta w))))"
      using n(1) hm_values_iff [of "ms_storage_nodes (md_store (net_meta w))" n] ms_wfD(3) [OF conjunct2 [OF meta_alone [OF 1(1)]]] by blast
    ultimately show ?thesis using n(2) by force
  qed
  then show ?case using 1(2)
    by (simp add: net_metadata_def to_meta_def md_list_storage_nodes_def list_storage_nodes_def kept_def)
next
  case (2 w s a)
  then show ?case
    by (auto simp: net_metadata_def to_meta_def md_get_storage_node_def get_storage_node_def net_reg store_reg_def kept_def
        simp del: map_of_eq_Some_iff)
next
  case (3 w k) then show ?case by (rule netpr_under)
next
  case (4 w i)
  then show ?case
    by (auto simp: net_reps store_reps_def net_ready_def net_sums_def simp del: map_of_eq_Some_iff split: option.splits)
next
  case (5 w s a)
  then obtain sn where "net_nodes w a = Some sn" using ready_node_at by blast
  then show ?case using 5(2) by (simp add: net_storage_def kept_def)
next
  case (6 w s cl) then show ?case using netpr_free by (simp add: net_storage_def)
next
  case (7 w s cl i d) then show ?case using netpr_read by (simp add: net_storage_def)
next
  case (8 w s cl i b d) then show ?case using netpr_write [OF 8] by (simp add: net_storage_def)
next
  case (9 w s a i) then show ?case by (rule netpr_replica)
qed

section \<open>Properties\<close>


text \<open>Two nodes, and one chunk at the first.\<close>

definition two_nodes :: "StorageNodeImpl \<Rightarrow> (nat, unit, unit) net" where
  "two_nodes sn = \<lparr>net_meta = toy_after\<lparr>md_store := (md_store toy_after)\<lparr>ms_storage_nodes :=
       [(9, \<lparr>msn_id = 9, msn_address = ''http://n''\<rparr>), (8, \<lparr>msn_id = 8, msn_address = ''http://m''\<rparr>)]\<rparr>\<rparr>,
     net_peers = (), net_nodes = [''http://n'' \<mapsto> sn, ''http://m'' \<mapsto> fresh_node 4]\<rparr>"

lemma fresh_4: "sn_invar sum_crc (fresh_node 4)" "cs_live (store (fresh_node 4))" "sn_chunks (fresh_node 4) = Map.empty" "sn_free (fresh_node 4) = 4"
  using fresh_node_ok [of 4 sum_crc] fresh_arena(3) [of 4 ChunkStoreOptions_default]
  by (auto simp: SLOT_SIZE_eq fresh_node_def sn_free_def fresh_store_def)

lemma two_nodes_view:
  assumes "sn_chunks sn = [4 \<mapsto> [7]]"
  shows "cv_reg (net_view (two_nodes sn)) = [9 \<mapsto> ''http://n'', 8 \<mapsto> ''http://m'']"
    and "cv_reps (net_view (two_nodes sn)) = (\<lambda>i. if i = 4 then [9] else [])"
    and "cv_blob (net_view (two_nodes sn)) a i = (if a = ''http://n'' \<and> i = 4 then Some [7] else None)"
    and "net_sums (two_nodes sn) = [4 \<mapsto> 7]"
    and "net_space (two_nodes sn) a = (if a = ''http://n'' then sn_free sn else if a = ''http://m'' then 4 else 0)"
  using assms fresh_4(3,4)
  by (auto simp: two_nodes_def net_view_def view_defs net_blob_def toy_after_store net_sums_def net_space_def fun_eq_iff)


text \<open>
  C39. A storage node registered twice is taken for two nodes. When every registered node that is not
  listed for a chunk is at an address that holds the chunk already, as after the restart of
  the node that holds it, a replication cycle adds no replica to any chunk: it picks the second
  registration as the target and its write is refused.
\<close>

theorem double_registration_blocks_replication:
  assumes "\<And>n g. 0 < n \<Longrightarrow> fst (rand_choose R' n g) < n"
    and "net_sound R H (rp_world s)" and "net_steady ser (rp_world s)" and "saturated (net_view (rp_world s))"
    and run: "run_replication_cycle (net_metadata P x R uri ser) (net_storage H) H R' k s = Some (n, s')"
  shows "n = 0 \<and> net_view (rp_world s') = net_view (rp_world s)"
proof -
  let ?v = "net_view (rp_world s)"
  have "sat (rgood (net_sound R H) (net_steady ser) net_view ((=) ?v)) (run_replication_cycle (net_metadata P x R uri ser) (net_storage H) H R' k)
      (\<lambda>n. rgood (net_sound R H) (net_steady ser) net_view (\<lambda>v'. v' = ?v \<and> n = 0))"
    by (rule netst.rsat_cycle_still [OF assms(1,4)])
  from satD [OF this _ run] show ?thesis using assms(2,3) by (simp add: rgood_def)
qed

definition same_node_twice :: "StorageNodeImpl \<Rightarrow> (nat, unit, unit) net" where
  "same_node_twice sn = \<lparr>net_meta = toy_after\<lparr>md_store := (md_store toy_after)\<lparr>ms_storage_nodes :=
       [(9, \<lparr>msn_id = 9, msn_address = ''http://n''\<rparr>), (8, \<lparr>msn_id = 8, msn_address = ''http://n''\<rparr>)]\<rparr>\<rparr>,
     net_peers = (), net_nodes = [''http://n'' \<mapsto> sn]\<rparr>"

theorem double_registration_blocks_replication_witness:
  "\<exists>sn. \<forall>P :: (unit, unit) peer_rpc. \<forall>n s'.
     cv_reps (net_view (same_node_twice sn)) 4 = [9] \<and> cv_reg (net_view (same_node_twice sn)) 8 \<noteq> None \<and>
     (run_replication_cycle (net_metadata P (\<lambda>_. 0) toy_rand (\<lambda>_. True) toy_ser) (net_storage sum_crc) sum_crc toy_rand 100
       \<lparr>rp_metrics = (\<lambda>_. 0), rp_rng = 0, rp_world = same_node_twice sn\<rparr> = Some (n, s') \<longrightarrow> n = 0)"
proof -
  have "cs_fits [7]" by (simp add: cs_fits_def SLOT_DATA_SIZE_eq)
  then obtain z sn where sn: "sn_write_chunk sum_crc 4 [7] (fresh_node 4) = (Ok z, sn)"
    using live_write [OF fresh_4(1,2), of 4 "[7]"] fresh_4(3,4) by auto
  have ch: "sn_invar sum_crc sn" "sn_chunks sn = [4 \<mapsto> [7]]"
    using sn.put_invar [OF fresh_4(1) sn] sn.put_abs [OF fresh_4(1) sn] fresh_4(3) by auto
  have v: "cv_reg (net_view (same_node_twice sn)) = [9 \<mapsto> ''http://n'', 8 \<mapsto> ''http://n'']"
    "cv_reps (net_view (same_node_twice sn)) = (\<lambda>i. if i = 4 then [9] else [])"
    "cv_blob (net_view (same_node_twice sn)) ''http://n'' 4 = Some [7]"
    using ch(2) by (auto simp: same_node_twice_def net_view_def view_defs net_blob_def toy_after_store fun_eq_iff)
  let ?s = "\<lparr>rp_metrics = (\<lambda>_. 0), rp_rng = 0 :: nat, rp_world = same_node_twice sn\<rparr>"
  have wf: "ms_wf (md_store (net_meta (same_node_twice sn)))" using toy_after_wf by (auto simp: same_node_twice_def ms_wf_def)
  then have sound: "net_sound toy_rand sum_crc (rp_world ?s)"
    using ch(1) by (auto simp: net_sound_def same_node_twice_def toy_after_store toy_rand_def md_alone_def)
  have steady: "net_steady toy_ser (rp_world ?s)"
    by (simp add: net_steady_def same_node_twice_def toy_after_store calm_def toy_ser_def)
  have sat: "saturated (net_view (rp_world ?s))" using v by (auto simp: saturated_def split: if_splits)
  have "n = 0" if "run_replication_cycle (net_metadata P (\<lambda>_. 0) toy_rand (\<lambda>_. True) toy_ser) (net_storage sum_crc) sum_crc toy_rand 100 ?s = Some (n, s')"
    for P :: "(unit, unit) peer_rpc" and n s'
    using double_registration_blocks_replication [OF _ sound steady sat that] by (simp add: toy_rand_def)
  then show ?thesis using v(1,2) by (intro exI [of _ sn]) auto
qed

end
