(* ===== verification/Startup.thy ===== *)
theory Startup
  imports Deployment
begin

text \<open>
  The start of the processes: \<open>main\<close> of \<^verbatim>\<open>storage-node/src/main.rs\<close> (configuration, connection,
  registration, opening of the store), of \<^verbatim>\<open>storage-metadata/src/main.rs\<close> (configuration from the
  environment, loading of the snapshot, the cluster layer), of \<^verbatim>\<open>replication-service/src/main.rs\<close>
  and the state of \<^verbatim>\<open>api-gateway/src/main.rs\<close>. Then what the restart of a storage node does to a
  deployment.

  The environment, the files, the local address and the connections are arguments. Binding the
  listening sockets is not modelled.
\<close>

section \<open>The storage node\<close>

datatype node_start = Exited | Start_failed io_error_kind | Start_panicked | Serving StorageNodeImpl

definition register_config :: RetryConfig where
  "register_config = \<lparr>max_attempts = 3, timeout_per_attempt = 5000, delay_between_attempts = 2000\<rparr>"

text \<open>One attempt to register: a call that never returns runs into the time-out.\<close>

definition register_attempt :: "'w MetadataClient \<Rightarrow> string \<Rightarrow> 'w \<Rightarrow> (u64, code) attempt \<times> 'w" where
  "register_attempt M address w =
     (case mcl_put_storage_node M address w of
        None \<Rightarrow> (Elapsed, w)
      | Some (r, w') \<Rightarrow> (Answered r, w'))"

definition register_addr :: "string \<Rightarrow> StorageNodeConfig \<Rightarrow> string" where
  "register_addr local_addr config = ''http://'' @ local_addr @ '':'' @ show_nat (port config)"

definition config_path :: "(string \<Rightarrow> string option) \<Rightarrow> string" where
  "config_path env = (case env ''CONFIG_PATH'' of Some p \<Rightarrow> p | None \<Rightarrow> ''config.yaml'')"

text \<open>
  \<open>files\<close> gives for a path whether it exists and the file it opens. The node registers before it
  opens its store.
\<close>

definition node_main ::
  "'h crc32 \<Rightarrow> (string \<Rightarrow> StorageNodeConfig option) \<Rightarrow> (string \<Rightarrow> string option) \<Rightarrow> (string \<Rightarrow> string io)
     \<Rightarrow> (string \<Rightarrow> 'w \<Rightarrow> 'm option \<times> 'w) \<Rightarrow> ('m \<Rightarrow> 'w MetadataClient) \<Rightarrow> string option \<Rightarrow> (string \<Rightarrow> bool io \<times> os_file)
     \<Rightarrow> 'w \<Rightarrow> node_start \<times> 'w" where
  "node_main H from_yaml env read_file connect use local_ip files w =
     (case load from_yaml env (read_file (config_path env)) of
        Err _ \<Rightarrow> (Exited, w)
      | Ok config \<Rightarrow>
      case connect_metadata connect (metadata_addresses config) MAX_CONNECT_ATTEMPTS w of
        (None, w1) \<Rightarrow> (Exited, w1)
      | (Some client, w1) \<Rightarrow>
      case local_ip of
        None \<Rightarrow> (Exited, w1)
      | Some local_addr \<Rightarrow>
      case call_with_retry (register_attempt (use client) (register_addr local_addr config)) register_config w1 of
        (Err _, _, w2) \<Rightarrow> (Exited, w2)
      | (Ok _, _, w2) \<Rightarrow>
      case files (chunk_store_path config) of (exists, f) \<Rightarrow>
      case construct H exists f (allocated_slots config) (chunk_store_options config) of
        Panic \<Rightarrow> (Start_panicked, w2)
      | Ret (Err e) \<Rightarrow> (Start_failed e, w2)
      | Ret (Ok st) \<Rightarrow> (Serving \<lparr>store = st, sn_metrics = (\<lambda>_. 0)\<rparr>, w2))"

section \<open>The metadata service\<close>

text \<open>A variable that is set and parses, or the default.\<close>

definition env_num :: "(string \<Rightarrow> string option) \<Rightarrow> string \<Rightarrow> nat \<Rightarrow> nat \<Rightarrow> nat" where
  "env_num env var bound def =
     (case env var of
        None \<Rightarrow> def
      | Some s \<Rightarrow> (case parse_uint bound s of Some n \<Rightarrow> n | None \<Rightarrow> def))"

record MetadataConfig =
  mdc_node_id :: string
  mdc_grpc_port :: nat
  mdc_gossip_port :: nat
  mdc_seed_nodes :: "string list"
  mdc_data_dir :: string
  mdc_metrics_port :: nat

definition metadata_config :: "string \<Rightarrow> (string \<Rightarrow> string option) \<Rightarrow> MetadataConfig" where
  "metadata_config hostname env = \<lparr>
     mdc_node_id = (case env ''NODE_ID'' of Some s \<Rightarrow> s | None \<Rightarrow> hostname),
     mdc_grpc_port = env_num env ''GRPC_PORT'' (2 ^ 16) 3001,
     mdc_gossip_port = env_num env ''GOSSIP_PORT'' (2 ^ 16) 3002,
     mdc_seed_nodes = filter (\<lambda>s. s \<noteq> [])
       (map str_trim (str_split (CHR '','') (case env ''SEED_NODES'' of Some s \<Rightarrow> s | None \<Rightarrow> []))),
     mdc_data_dir = (case env ''DATA_DIR'' of Some s \<Rightarrow> s | None \<Rightarrow> ''.''),
     mdc_metrics_port = env_num env ''METRICS_PORT'' (2 ^ 16) 9091\<rparr>"

text \<open>The service before its background tasks start; \<open>None\<close> is the panic of \<open>expect\<close>.\<close>

definition metadata_main ::
  "(string \<Rightarrow> u64) \<Rightarrow> json_de \<Rightarrow> string \<Rightarrow> (string \<Rightarrow> string option) \<Rightarrow> bool \<Rightarrow> fs \<Rightarrow> 'g
     \<Rightarrow> ('g, 'c) StorageMetadataImpl option" where
  "metadata_main xxh3_64 de hostname env exists d g =
     (let config = metadata_config hostname env in
      case md_construct de exists (mdc_data_dir config) (mdc_node_id config) d g of
        Err _ \<Rightarrow> None
      | Ok svc \<Rightarrow>
          let cluster = cluster_new xxh3_64 (mdc_node_id config) (mdc_grpc_port config) in
          Some (set_forwarding_layer cluster (populate_chunk_index svc)))"

section \<open>The replication service and the gateway\<close>

definition replication_interval_secs :: "(string \<Rightarrow> string option) \<Rightarrow> nat" where
  "replication_interval_secs env = env_num env ''REPLICATION_INTERVAL_SECS'' (2 ^ 64) DEFAULT_REPLICATION_INTERVAL_SECS"

definition max_chunks_per_cycle :: "(string \<Rightarrow> string option) \<Rightarrow> nat" where
  "max_chunks_per_cycle env = env_num env ''REPLICATION_MAX_CHUNKS_PER_CYCLE'' (2 ^ 64) DEFAULT_MAX_CHUNKS_PER_CYCLE"

text \<open>
  The state of the loop when it starts, or the error \<open>main\<close> returns, or the panic of
  \<open>time::interval\<close> when it is given a period of zero.
\<close>

datatype 'l loop_start = Connect_error | Interval_panicked | Looping 'l

definition replication_main ::
  "(string \<Rightarrow> string option) \<Rightarrow> (string \<Rightarrow> ('w, ('m, code) result) act) \<Rightarrow> 'g \<Rightarrow> 'w
     \<Rightarrow> ('m, 'g, 'w) ReplLoop loop_start option" where
  "replication_main env connect g w =
     (case startup_connect env connect w of
        None \<Rightarrow> None
      | Some (None, _) \<Rightarrow> Some Connect_error
      | Some (Some client, w') \<Rightarrow>
          if replication_interval_secs env = 0 then Some Interval_panicked
          else Some (Looping \<lparr>rl_client = client, rl_consecutive_failures = 0,
                 rl_state = \<lparr>rp_metrics = (\<lambda>_. 0), rp_rng = g, rp_world = w'\<rparr>\<rparr>))"

text \<open>The gateway's client and its initial state; \<open>None\<close> inside is the exit of the process.\<close>

definition app ::
  "(string \<Rightarrow> string option) \<Rightarrow> (string \<Rightarrow> ('w, ('m, code) result) act) \<Rightarrow> 'w
     \<Rightarrow> ('m \<times> ('n, 'w) AppState) option option" where
  "app env connect w =
     (case app_connect env connect w of
        None \<Rightarrow> None
      | Some (None, _) \<Rightarrow> Some None
      | Some (Some client, w') \<Rightarrow>
          Some (Some (client, \<lparr>gw_connections = [], gw_metrics = (\<lambda>_. 0), gw_world = w'\<rparr>)))"

section \<open>Lemmas: registration\<close>

text \<open>A view with more registrations and otherwise the same.\<close>

definition registered_more :: "cview \<Rightarrow> cview \<Rightarrow> bool" where
  "registered_more v v' \<longleftrightarrow> cv_objs v' = cv_objs v \<and> cv_reps v' = cv_reps v \<and> cv_blob v' = cv_blob v \<and>
     (\<forall>i a. cv_reg v i = Some a \<longrightarrow> cv_reg v' i = Some a)"

lemma registered_more_refl [simp]: "registered_more v v"
  by (simp add: registered_more_def)

lemma registered_more_trans: "registered_more v v' \<Longrightarrow> registered_more v' v'' \<Longrightarrow> registered_more v v''"
  by (simp add: registered_more_def)

lemma stored_registered_more:
  assumes "registered_more v v'" and "stored v n b"
  shows "stored v' n b"
proof -
  have "chunk_stored v' i d" if "chunk_stored v i d" for i d
    using that assms(1) by (fastforce simp: chunk_stored_def registered_more_def)
  then have "list_all2 (chunk_stored v') is ds" if "list_all2 (chunk_stored v) is ds" for "is" ds
    using that by (metis list_all2_mono)
  then show ?thesis using assms unfolding stored_def registered_more_def by metis
qed

text \<open>What one registration does to the deployment.\<close>

lemma construct_node_cases:
  assumes "construct_storage_node R uri a st = Some (r, st')"
  obtains (Refused) e g where "r = Err e" "st' = st\<lparr>ms_rng := g\<rparr>"
    | (Registered) i g where "r = Ok i" "hm_get (ms_storage_nodes st) i = None"
        "st' = st\<lparr>ms_rng := g, ms_storage_nodes := hm_insert i \<lparr>msn_id = i, msn_address = a\<rparr> (ms_storage_nodes st)\<rparr>"
  using assms generate_unique_id_fresh [of "rand_u64 R" "ms_storage_nodes st" "ms_rng st"]
  by (auto simp: construct_storage_node_def MetaStorageNode_new_def simp del: map_of_eq_None_iff map_of_eq_Some_iff
      split: option.splits result.splits if_splits)

lemma net_register:
  assumes w: "net_sound R H w" and c: "mcl_put_storage_node (net_metadata P x R uri ser) a w = Some (r, w')"
  shows "net_sound R H w' \<and> registered_more (net_view w) (net_view w') \<and> net_nodes w' = net_nodes w \<and>
    (\<forall>i. r = Ok i \<longrightarrow> cv_reg (net_view w) i = None \<and> cv_reg (net_view w') i = Some a)"
proof -
  note al = meta_alone [OF w]
  obtain svc where svc: "md_put_storage_node P R uri a (net_meta w) (net_peers w) = Some (r, svc, net_peers w)"
    "w' = w\<lparr>net_meta := svc, net_peers := net_peers w\<rparr>"
    using c alone_handlers(3) [OF conjunct1 [OF al], of P R uri a "net_peers w"]
    by (auto simp: net_metadata_def to_meta_option_def split: option.splits prod.splits result.splits)
  then obtain q st' where st': "construct_storage_node R uri a (md_store (net_meta w)) = Some (q, st')"
    "meta_step (net_meta w) svc st'" "w' = w\<lparr>net_meta := svc, net_peers := net_peers w\<rparr>" "\<forall>i. r = Ok i \<longrightarrow> q = Ok i"
    using alone_handlers(3) [OF conjunct1 [OF al], of P R uri a "net_peers w"]
    by (auto simp: meta_step_def md_gauge_def md_count_def split: option.splits prod.splits result.splits)
  note s = meta_sound [OF w st'(2) wf_construct_storage_node [OF conjunct2 [OF al] st'(1)], of "net_peers w"]
  have v: "net_view w' = meta_view (net_blob w) st'" using s(2) st'(3) by simp
  from st'(1) show ?thesis
  proof (cases rule: construct_node_cases)
    case (Refused e g)
    then show ?thesis using s(1) st'(3,4) v by (auto simp: net_view_def)
  next
    case (Registered i g)
    then have "registered_more (net_view w) (net_view w')" "cv_reg (net_view w) i = None" "cv_reg (net_view w') i = Some a"
      using v by (auto simp: registered_more_def net_view_def view_defs simp del: map_of_eq_None_iff map_of_eq_Some_iff)
    then show ?thesis using s(1) st'(3,4) Registered by auto
  qed
qed

text \<open>A retried call: an invariant of every attempt holds when the last one starts.\<close>

lemma retry_loop_Ok:
  assumes "retry_loop operation delay n last_error slept s = (Ok v, t, s')" and "I s"
    and "\<And>s x s'. I s \<Longrightarrow> operation s = (x, s') \<Longrightarrow> I s'"
  shows "\<exists>s1. I s1 \<and> operation s1 = (Answered (Ok v), s')"
  using assms(1,2)
proof (induction n arbitrary: last_error slept s)
  case 0
  then show ?case by (auto split: option.splits)
next
  case (Suc n)
  obtain y s1 where op: "operation s = (y, s1)" by fastforce
  then have "I s1" using assms(3) Suc.prems(2) by blast
  then show ?case using Suc op
    by (cases y) (auto split: result.splits option.splits simp: Let_def)
qed

lemma register_Ok:
  assumes w: "net_sound R H w"
    and c: "call_with_retry (register_attempt (net_metadata P x R uri ser) a) k w = (Ok i, t, w')"
  shows "net_sound R H w' \<and> registered_more (net_view w) (net_view w') \<and> net_nodes w' = net_nodes w \<and>
    cv_reg (net_view w) i = None \<and> cv_reg (net_view w') i = Some a"
proof -
  let ?I = "\<lambda>w1. net_sound R H w1 \<and> registered_more (net_view w) (net_view w1) \<and> net_nodes w1 = net_nodes w"
  have step: "?I w2" if "?I w1" "register_attempt (net_metadata P x R uri ser) a w1 = (y, w2)" for w1 y w2
    using that net_register [of R H w1 P x uri ser a] registered_more_trans
    by (auto simp: register_attempt_def split: option.splits prod.splits)
  obtain w1 where w1: "?I w1" "register_attempt (net_metadata P x R uri ser) a w1 = (Answered (Ok i), w')"
    using retry_loop_Ok [where I = ?I, OF c [unfolded call_with_retry_def]] step w by (smt (verit) registered_more_refl)
  then have "mcl_put_storage_node (net_metadata P x R uri ser) a w1 = Some (Ok i, w')"
    by (auto simp: register_attempt_def split: option.splits prod.splits)
  from net_register [OF conjunct1 [OF w1(1)] this] w1(1) show ?thesis
    using registered_more_trans [of "net_view w" "net_view w1" "net_view w'"]
    by (cases "cv_reg (net_view w) i") (auto simp: registered_more_def)
qed

lemma connect_metadata_world:
  assumes "\<And>a w. snd (connect a w) = w"
  shows "snd (connect_metadata connect addrs n w) = w"
proof -
  have round: "snd (connect_round connect addrs w) = w" for w
    by (induction addrs) (auto split: prod.split option.split simp: assms prod_eq_iff)
  show ?thesis
    by (induction n) (use round in \<open>auto split: prod.split option.split simp: prod_eq_iff\<close>)
qed

section \<open>Properties\<close>

lemma node_main_Serving:
  assumes "node_main H from_yaml env rd connect use ip files w = (Serving sn, w2)" and "\<And>a w. snd (connect a w) = w"
  obtains config local_addr c i t st where "load from_yaml env (rd (config_path env)) = Ok config" "ip = Some local_addr"
    "call_with_retry (register_attempt (use c) (register_addr local_addr config)) register_config w = (Ok i, t, w2)"
    "construct H (fst (files (chunk_store_path config))) (snd (files (chunk_store_path config)))
       (allocated_slots config) (chunk_store_options config) = Ret (Ok st)"
    "sn = \<lparr>store = st, sn_metrics = (\<lambda>_. 0)\<rparr>"
proof -
  obtain config where l: "load from_yaml env (rd (config_path env)) = Ok config"
    using assms(1) by (cases "load from_yaml env (rd (config_path env))") (auto simp: node_main_def)
  obtain q w1 where c: "connect_metadata connect (metadata_addresses config) MAX_CONNECT_ATTEMPTS w = (q, w1)"
    by fastforce
  have w1: "w1 = w" using connect_metadata_world [of connect, OF assms(2)] c by (metis snd_conv)
  obtain cl where q: "q = Some cl" using assms(1) l c by (cases q) (simp_all add: node_main_def)
  obtain local_addr where ip: "ip = Some local_addr" using assms(1) l c q by (cases ip) (simp_all add: node_main_def)
  obtain u t w3 where r: "call_with_retry (register_attempt (use cl) (register_addr local_addr config)) register_config w = (u, t, w3)"
    using prod_cases3 by blast
  obtain i where u: "u = Ok i" using assms(1) l c q ip r w1 by (cases u) (simp_all add: node_main_def)
  obtain ex f where f: "files (chunk_store_path config) = (ex, f)" by fastforce
  show ?thesis
    using assms(1) l c q ip r u f w1 that
    by (cases "construct H ex f (allocated_slots config) (chunk_store_options config)")
      (auto simp: node_main_def split: result.splits)
qed

lemma stored_node_replaced:
  assumes "net_nodes w a = Some sn" and "sn_chunks sn' = sn_chunks sn"
  shows "net_view (w\<lparr>net_nodes := (net_nodes w)(a \<mapsto> sn')\<rparr>) = net_view w"
  using assms by (auto simp: net_view_def meta_view_def net_blob_def fun_eq_iff)

text \<open>
  C19. A storage node that stops and starts again with its file loses nothing: when its \<open>main\<close> reaches
  the point of serving, every object of the deployment is stored as before, whatever attempts to
  register failed on the way. But the node is now registered once more: its address is listed
  under a new id beside the old one.
\<close>

theorem restarted_node_keeps_objects:
  assumes "net_sound R H w" and "net_nodes w a = Some sn" and "cs_clean (store sn)"
    and "load from_yaml env (rd (config_path env)) = Ok config" and "allocated_slots config = Some (total_slots (store sn))"
    and "register_addr local_addr config = a"
    and "files (chunk_store_path config) = (Ok True, f)"
    and "flen f = flen (store_file (store sn))" and "fdata f = fdata (store_file (store sn))" and "fplan f = []"
    and "\<forall>b w. snd (connect b w) = w"
    and run: "node_main H from_yaml env rd connect (\<lambda>_. net_metadata P x R uri ser) (Some local_addr) files w = (Serving sn', w')"
  shows "net_sound R H (w'\<lparr>net_nodes := (net_nodes w')(a \<mapsto> sn')\<rparr>) \<and>
    (\<forall>n b. stored (net_view w) n b \<longrightarrow> stored (net_view (w'\<lparr>net_nodes := (net_nodes w')(a \<mapsto> sn')\<rparr>)) n b) \<and>
    (\<exists>i. cv_reg (net_view w) i = None \<and> cv_reg (net_view w') i = Some a)"
proof -
  obtain config' l c i t st where r: "load from_yaml env (rd (config_path env)) = Ok config'" "Some local_addr = Some l"
    "call_with_retry (register_attempt (net_metadata P x R uri ser) (register_addr l config')) register_config w = (Ok i, t, w')"
    "construct H (fst (files (chunk_store_path config'))) (snd (files (chunk_store_path config')))
       (allocated_slots config') (chunk_store_options config') = Ret (Ok st)"
    "sn' = \<lparr>store = st, sn_metrics = (\<lambda>_. 0)\<rparr>"
    using node_main_Serving [OF run] assms(11) by metis
  have inv: "sn_invar H sn" using assms(1,2) by (simp add: net_sound_def)
  obtain st' where st': "construct H (Ok True) f (Some (total_slots (store sn))) (chunk_store_options config) = Ret (Ok st')"
    "cs_good H st'" "chunks_of st' = chunks_of (store sn)"
    using restart_same_chunks [OF inv assms(3,8-10)] by blast
  have sn': "sn_invar H sn'" "sn_chunks sn' = sn_chunks sn"
    using r(1,4,5) st' assms(4,5,7) by (simp_all add: cs_good_def)
  have reg: "net_sound R H w' \<and> registered_more (net_view w) (net_view w') \<and> net_nodes w' = net_nodes w \<and>
      cv_reg (net_view w) i = None \<and> cv_reg (net_view w') i = Some a"
    using register_Ok [OF assms(1) r(3)] r(1,2) assms(4,6) by simp
  have v: "net_view (w'\<lparr>net_nodes := (net_nodes w')(a \<mapsto> sn')\<rparr>) = net_view w'"
    by (rule stored_node_replaced) (use reg assms(2) sn'(2) in auto)
  then show ?thesis using reg sn'(1) stored_registered_more by (auto simp: net_sound_def)
qed

definition start_config :: StorageNodeConfig where
  "start_config = StorageNodeConfig_default\<lparr>allocated_slots := Some 2\<rparr>"

definition start_net :: "(nat, unit, unit) net" where
  "start_net = \<lparr>net_meta = toy_service, net_peers = (), net_nodes = [''http://h:3000'' \<mapsto> fresh_node 2]\<rparr>"

definition start_file :: os_file where
  "start_file = store_file (store (fresh_node 2))"

lemma start_load: "load (\<lambda>_. Some start_config) (\<lambda>_. None) (Ok []) = Ok start_config"
  by (simp add: load_def start_config_def StorageNodeConfig_default_def apply_env_overrides_def env_override_def
      normalize_address_def validate_def str_trim_def is_ascii_space_def Let_def)

lemma start_addr: "register_addr ''h'' start_config = ''http://h:3000''"
  by (simp add: register_addr_def start_config_def StorageNodeConfig_default_def show_nat.simps char_of_def bit_0)

lemma start_good:
  "net_sound toy_rand sum_crc start_net" "net_nodes start_net ''http://h:3000'' = Some (fresh_node 2)" "cs_clean (store (fresh_node 2))"
  "total_slots (store (fresh_node 2)) = 2" "fplan start_file = []"
  using fresh_node_2 toy_store_wf fresh_arena(2) [of 2 sum_crc ChunkStoreOptions_default]
  by (auto simp: net_sound_def start_net_def toy_service_def toy_rand_def fresh_node_def cs_good_def SLOT_SIZE_eq
      fresh_store_def start_file_def empty_file_def)

lemma start_registers:
  "\<exists>w'. mcl_put_storage_node (net_metadata P x toy_rand (\<lambda>_. True) toy_ser) a start_net = Some (Ok 1, w')"
proof -
  have "generate_unique_id (\<lambda>g. (word_of_nat g :: u64, Suc g)) [(9, \<lparr>msn_id = 9, msn_address = ''http://n''\<rparr>)] 1 = Some (1, 2)"
    by (subst generate_unique_id.simps) simp
  then show ?thesis
    by (simp add: net_metadata_def to_meta_option_def md_put_storage_node_def start_net_def toy_service_def toy_store_def
        toy_rand_def construct_storage_node_def MetaStorageNode_new_def)
qed

lemma start_run:
  obtains sn' w' where "node_main sum_crc (\<lambda>_. Some start_config) (\<lambda>_. None) (\<lambda>_. Ok []) (\<lambda>_ w. (Some (), w))
    (\<lambda>_. net_metadata P x toy_rand (\<lambda>_. True) toy_ser) (Some ''h'') (\<lambda>_. (Ok True, start_file)) start_net = (Serving sn', w')"
proof -
  obtain st' where st': "construct sum_crc (Ok True) start_file (Some 2) (chunk_store_options start_config) = Ret (Ok st')"
    using restart_same_chunks [OF fresh_node_2(1) start_good(3), of start_file] start_good(4,5) by (auto simp: start_file_def)
  obtain w' where w': "mcl_put_storage_node (net_metadata P x toy_rand (\<lambda>_. True) toy_ser) ''http://h:3000'' start_net = Some (Ok 1, w')"
    using start_registers by blast
  have "connect_metadata (\<lambda>_ w. (Some (), w)) (metadata_addresses start_config) n w = (Some (), w)" for n and w :: "(nat, unit, unit) net"
    by (subst connect_metadata.simps) (simp add: start_config_def StorageNodeConfig_default_def)
  moreover have "allocated_slots start_config = Some 2" by (simp add: start_config_def)
  ultimately show ?thesis using that st' w'
    by (simp add: node_main_def start_load start_addr call_with_retry_def register_config_def numeral_3_eq_3 register_attempt_def)
qed

theorem restarted_node_keeps_objects_witness:
  "\<forall>P :: (unit, unit) peer_rpc. \<exists>sn' w' i.
     node_main sum_crc (\<lambda>_. Some start_config) (\<lambda>_. None) (\<lambda>_. Ok []) (\<lambda>_ w. (Some (), w))
       (\<lambda>_. net_metadata P (\<lambda>_. 0) toy_rand (\<lambda>_. True) toy_ser) (Some ''h'') (\<lambda>_. (Ok True, start_file)) start_net = (Serving sn', w') \<and>
     cv_reg (net_view start_net) i = None \<and> cv_reg (net_view w') i = Some ''http://h:3000''"
proof (intro allI)
  fix P :: "(unit, unit) peer_rpc"
  let ?run = "node_main sum_crc (\<lambda>_. Some start_config) (\<lambda>_. None) (\<lambda>_. Ok []) (\<lambda>_ w. (Some (), w))
       (\<lambda>_. net_metadata P (\<lambda>_. 0) toy_rand (\<lambda>_. True) toy_ser) (Some ''h'') (\<lambda>_. (Ok True, start_file)) start_net"
  obtain sn' w' where run: "?run = (Serving sn', w')" by (rule start_run)
  have "\<exists>i. cv_reg (net_view start_net) i = None \<and> cv_reg (net_view w') i = Some ''http://h:3000''"
    using restarted_node_keeps_objects [OF start_good(1-3), where from_yaml = "\<lambda>_. Some start_config" and env = "\<lambda>_. None"
        and rd = "\<lambda>_. Ok []" and config = start_config and files = "\<lambda>_. (Ok True, start_file)" and f = start_file
        and local_addr = "''h''" and connect = "\<lambda>_ w. (Some (), w)" and P = P and x = "\<lambda>_. 0" and uri = "\<lambda>_. True" and ser = toy_ser
        and sn' = sn' and w' = w'] run start_load start_addr start_good(4,5)
    by (simp add: start_config_def start_file_def)
  then show "\<exists>sn' w' i. ?run = (Serving sn', w') \<and> cv_reg (net_view start_net) i = None \<and> cv_reg (net_view w') i = Some ''http://h:3000''"
    using run by blast
qed

section \<open>The metadata service starts\<close>

definition metadata_path :: "string \<Rightarrow> (string \<Rightarrow> string option) \<Rightarrow> string" where
  "metadata_path hostname env =
     mdc_data_dir (metadata_config hostname env) @ ''/metadata-'' @ mdc_node_id (metadata_config hostname env) @ ''.dat''"

lemma metadata_main_loads:
  assumes "ms_new de exists (metadata_path hostname env) d g = (Ok st, d')"
  shows "metadata_main x de hostname env exists d g =
    Some (set_forwarding_layer (cluster_new x (mdc_node_id (metadata_config hostname env)) (mdc_grpc_port (metadata_config hostname env)))
      (populate_chunk_index \<lparr>md_store = st, md_metrics = (\<lambda>_. 0), md_cluster = None, md_index = ChunkIndex_new\<rparr>))"
  using assms by (simp add: metadata_main_def md_construct_def ms_new_with_node_def metadata_path_def Let_def)

lemma live_addrs_self: "set (live_ids live) \<subseteq> {self} \<Longrightarrow> fst ` set (live_addrs live) \<subseteq> {self}"
proof -
  have "fst ` set (fold (\<lambda>(nid, kv) addrs. case kv GRPC_ADDR_KEY of Some a \<Rightarrow> hm_insert nid a addrs | None \<Rightarrow> addrs) live m) \<subseteq>
      fst ` set m \<union> set (map fst live)" for m
  proof (induction live arbitrary: m)
    case (Cons p live)
    obtain nid kv where p: "p = (nid, kv)" by fastforce
    show ?case
    proof (cases "kv GRPC_ADDR_KEY")
      case None
      then show ?thesis using Cons.IH [of m] p by auto
    next
      case (Some a)
      have "fst ` set (hm_insert nid a m) = insert nid (fst ` set m)" by (simp add: dom_map_of_conv_image_fst [symmetric])
      then show ?thesis using Cons.IH [of "hm_insert nid a m"] p Some by auto
    qed
  qed simp
  from this [of "[]"] show "set (live_ids live) \<subseteq> {self} \<Longrightarrow> ?thesis" by (auto simp: live_addrs_def live_ids_def)
qed

text \<open>A tick of the membership watcher, when the service is a member of a cluster.\<close>

definition md_tick :: "(string \<Rightarrow> u64) \<Rightarrow> gossip \<Rightarrow> ('g, 'c) StorageMetadataImpl \<Rightarrow> ('g, 'c) StorageMetadataImpl" where
  "md_tick x live svc = svc\<lparr>md_cluster := map_option (membership_tick x live) (md_cluster svc)\<rparr>"

lemma ticks_alone:
  assumes "\<forall>live \<in> set ls. set (live_ids live) \<subseteq> {self}" and "md_alone svc" and "\<forall>cm. md_cluster svc = Some cm \<longrightarrow> cm_node_id cm = self"
  shows "md_store (fold (md_tick x) ls svc) = md_store svc \<and> md_alone (fold (md_tick x) ls svc)"
  using assms
proof (induction ls arbitrary: svc)
  case (Cons live ls)
  have "a = self" if "(a, b) \<in> set (live_addrs live)" for a b
    using live_addrs_self [of live self] Cons.prems(1) that by force
  then have "md_alone (md_tick x live svc)" "\<forall>cm. md_cluster (md_tick x live svc) = Some cm \<longrightarrow> cm_node_id cm = self"
    using Cons.prems(3) by (auto simp: md_alone_def md_tick_def membership_tick_def)
  moreover have "md_store (md_tick x live svc) = md_store svc" by (simp add: md_tick_def)
  ultimately show ?case using Cons.IH [of "md_tick x live svc"] Cons.prems(1) by simp
qed simp

text \<open>
  C18. When the metadata service of a deployment stops and its \<open>main\<close> runs again on the snapshot its last
  save wrote, the deployment is the one before without its registered nodes: the new service, also
  after any number of membership ticks that see no other node, keeps the contract the
  clients rely on, and lists the same objects with the same chunks and replicas.
\<close>

theorem restarted_metadata_service_keeps_contents:
  fixes w :: "('g, 'c, 'p) net"
  assumes "net_sound R H w" and "json_roundtrip ser de" and "fs_plan d = []"
    and "ser (persistent_state (md_store (net_meta w))) = Some j" and "fs_files d (metadata_path hostname env) = Some j"
    and "\<forall>live \<in> set rounds. set (live_ids live) \<subseteq> {mdc_node_id (metadata_config hostname env)}"
  shows "\<exists>svc. metadata_main x de hostname env True d g = Some svc \<and>
    (let w' = w\<lparr>net_meta := fold (md_tick x) rounds svc\<rparr> in
     net_sound R H w' \<and> cv_objs (net_view w') = cv_objs (net_view w) \<and> cv_reps (net_view w') = cv_reps (net_view w) \<and>
     cv_blob (net_view w') = cv_blob (net_view w) \<and> cv_reg (net_view w') = Map.empty)"
proof -
  let ?st = "md_store (net_meta w)" and ?id = "mdc_node_id (metadata_config hostname env)"
  note wf = ms_wfD [OF conjunct2 [OF meta_alone [OF assms(1)]]]
  obtain ps where ps: "j \<noteq> []" "de j = Some ps" "hm_invar (ps_objects ps)" "hm_invar (ps_chunks ps)"
    "hm_get (ps_objects ps) = hm_get (ms_objects ?st)" "hm_get (ps_chunks ps) = hm_get (ms_chunks ?st)"
    using assms(2,4) wf(1,2) unfolding json_roundtrip_def by (force simp: persistent_state_def)
  let ?st' = "\<lparr>ms_path = metadata_path hostname env, ms_objects = ps_objects ps, ms_chunks = ps_chunks ps,
      ms_storage_nodes = [], ms_disk = d, ms_rng = g\<rparr>"
  have wf': "ms_wf ?st'"
  proof (rule ms_wfI)
    show "object_wf (hm_get (ms_chunks ?st')) n ob" if "hm_get (ms_objects ?st') n = Some ob" for n ob
      using wf(4) that ps(5,6) by simp
    show "chunk_wf i c" if "hm_get (ms_chunks ?st') i = Some c" for i c using wf(5) that ps(6) by simp
  qed (use ps in simp_all)
  let ?cm = "cluster_new x ?id (mdc_grpc_port (metadata_config hostname env)) :: 'c ClusterManager"
  let ?svc = "set_forwarding_layer ?cm
      (populate_chunk_index \<lparr>md_store = ?st', md_metrics = (\<lambda>_. 0), md_cluster = None, md_index = ChunkIndex_new\<rparr>)"
  have main: "metadata_main x de hostname env True d g = Some ?svc"
    by (rule metadata_main_loads [OF ms_new_reads [where de = de and g = g and j = j and ps = ps, OF assms(3,5) ps(1,2)]])
  have "md_store (fold (md_tick x) rounds ?svc) = ?st' \<and> md_alone (fold (md_tick x) rounds ?svc)"
    using ticks_alone [OF assms(6), of ?svc x]
    by (simp add: set_forwarding_layer_def populate_chunk_index_def md_alone_def cluster_new_def)
  then have "let w' = w\<lparr>net_meta := fold (md_tick x) rounds ?svc\<rparr> in
     net_sound R H w' \<and> cv_objs (net_view w') = cv_objs (net_view w) \<and> cv_reps (net_view w') = cv_reps (net_view w) \<and>
     cv_blob (net_view w') = cv_blob (net_view w) \<and> cv_reg (net_view w') = Map.empty"
    using assms(1) wf' ps(5,6) unfolding Let_def
    by (simp add: net_sound_def net_view_def view_defs net_blob_def fun_eq_iff)
  then show ?thesis using main by blast
qed

definition saved_net :: "(nat, unit, unit) net" where
  "saved_net = \<lparr>net_meta = toy_after, net_peers = (), net_nodes = Map.empty\<rparr>"

theorem restarted_metadata_service_keeps_contents_witness:
  "\<exists>svc. metadata_main (\<lambda>_. 0) (\<lambda>_. Some toy_saved) ''h'' (\<lambda>_. None) True \<lparr>fs_files = (\<lambda>_. Some ''x''), fs_plan = []\<rparr> 0 = Some svc \<and>
     cv_objs (net_view (saved_net\<lparr>net_meta := svc\<rparr>)) ''a'' = Some [4]"
proof -
  have s: "net_sound toy_rand sum_crc saved_net"
    using toy_after_wf by (auto simp: net_sound_def saved_net_def toy_after_store toy_rand_def)
  have inv: "hm_invar (ps_objects toy_saved)" "hm_invar (ps_chunks toy_saved)"
    using ms_wfD(1,2) [OF toy_after_wf] by (simp_all add: toy_saved_def persistent_state_def)
  have o: "cv_objs (net_view saved_net) ''a'' = Some [4]"
    by (simp add: saved_net_def net_view_def view_defs toy_after_store)
  show ?thesis
    using restarted_metadata_service_keeps_contents [OF s one_codec [OF inv],
        of "\<lparr>fs_files = (\<lambda>_. Some ''x''), fs_plan = []\<rparr>" "''x''" "''h''" "\<lambda>_. None" "[]" "\<lambda>_. 0" 0] o
    by (simp add: one_ser_def toy_saved_def saved_net_def Let_def) (metis)
qed

end
