(* ===== verification/MetadataCluster.thy ===== *)
theory MetadataCluster
  imports MetadataService
begin

text \<open>
  Several metadata services together: the calls between peers are delivered to the handlers of
  \<^verbatim>\<open>storage-metadata/src/cluster_service.rs\<close> at the service with that address, and a client
  may send its request to any of them. When the services agree on the ring, the cluster answers
  like one store of objects; and a joining service takes over the objects it owns.

  A request is handled as one step. A service never calls itself: it forwards only to another
  node's address.
\<close>

section \<open>The world of services\<close>

text \<open>The services by the endpoint they listen on; a client of a peer is its endpoint.\<close>

type_synonym 'g services = "string \<Rightarrow> ('g, string) StorageMetadataImpl option"

definition at_peer ::
  "string \<Rightarrow> (('g, string) StorageMetadataImpl \<Rightarrow> 'a rpc \<times> ('g, string) StorageMetadataImpl) \<Rightarrow> 'g services
     \<Rightarrow> 'a rpc \<times> 'g services" where
  "at_peer e f w =
     (case w e of
        None \<Rightarrow> (Err Code_Unavailable, w)
      | Some svc \<Rightarrow> (case f svc of (r, svc') \<Rightarrow> (r, w(e \<mapsto> svc'))))"

definition at_peer_option ::
  "string \<Rightarrow> (('g, string) StorageMetadataImpl \<Rightarrow> ('a rpc \<times> ('g, string) StorageMetadataImpl) option) \<Rightarrow> 'g services
     \<Rightarrow> ('a rpc \<times> 'g services) option" where
  "at_peer_option e f w =
     (case w e of
        None \<Rightarrow> Some (Err Code_Unavailable, w)
      | Some svc \<Rightarrow> (case f svc of None \<Rightarrow> None | Some (r, svc') \<Rightarrow> Some (r, w(e \<mapsto> svc'))))"

definition cluster_rpc ::
  "(string \<Rightarrow> u64) \<Rightarrow> 'g rand \<Rightarrow> (string \<Rightarrow> bool) \<Rightarrow> json_ser \<Rightarrow> (string, 'g services) peer_rpc" where
  "cluster_rpc xxh3_64 R valid_uri ser = \<lparr>
     pr_connect = (\<lambda>e w. (if w e = None then None else Some e, w)),
     pr_put_object = (\<lambda>e c name. at_peer e (peer_put_object ser c name)),
     pr_get_object = (\<lambda>e name. at_peer e (\<lambda>svc. (peer_get_object name svc, svc))),
     pr_delete_object = (\<lambda>e name. at_peer e (peer_delete_object ser name)),
     pr_put_chunk = (\<lambda>e name c. at_peer_option e (peer_put_chunk R ser name c)),
     pr_allocate_chunk = (\<lambda>e name. at_peer_option e (peer_allocate_chunk R name)),
     pr_confirm_chunk = (\<lambda>e i name c node. at_peer e (peer_confirm_chunk ser i name c node)),
     pr_get_chunk = (\<lambda>e i. at_peer e (\<lambda>svc. (peer_get_chunk i svc, svc))),
     pr_delete_chunk = (\<lambda>e i. at_peer e (peer_delete_chunk ser i)),
     pr_add_chunk_replica = (\<lambda>e i node. at_peer e (peer_add_chunk_replica ser i node)),
     pr_put_storage_node = (\<lambda>e address. at_peer_option e (peer_put_storage_node R valid_uri address)),
     pr_delete_storage_node = (\<lambda>e i. at_peer e (peer_delete_storage_node i)),
     pr_list_local_objects = (\<lambda>e. at_peer e (\<lambda>svc. (peer_list_local_objects svc, svc))),
     pr_list_local_under_replicated = (\<lambda>e m. at_peer e (\<lambda>svc. (peer_list_local_under_replicated_chunks m svc, svc))),
     pr_transfer_partition = (\<lambda>e ranges. at_peer e (\<lambda>svc. (peer_transfer_partition xxh3_64 ranges svc, svc))),
     pr_broadcast_chunk_index = (\<lambda>e entries. at_peer e (peer_broadcast_chunk_index entries))\<rparr>"

text \<open>A client's request at the service with endpoint \<open>e\<close>.\<close>

definition at_node ::
  "string \<Rightarrow> (('g, string) StorageMetadataImpl \<Rightarrow> 'g services \<Rightarrow> 'a rpc \<times> ('g, string) StorageMetadataImpl \<times> 'g services)
     \<Rightarrow> 'g services \<Rightarrow> 'a rpc \<times> 'g services" where
  "at_node e f w =
     (case w e of
        None \<Rightarrow> (Err Code_Unavailable, w)
      | Some svc \<Rightarrow> (case f svc w of (r, svc', w') \<Rightarrow> (r, w'(e \<mapsto> svc'))))"

section \<open>The interface: one store of objects with several entrances\<close>

datatype object_request = Put_object u32 string | Get_object string | Delete_object string

datatype object_answer = Stored bool | Found "(u32 \<times> u64 list) option" | Deleted bool

text \<open>The reference: a map from names to checksums and chunk lists.\<close>

fun answer_one :: "object_request \<Rightarrow> (string \<Rightarrow> (u32 \<times> u64 list) option) \<Rightarrow> object_answer \<times> (string \<Rightarrow> (u32 \<times> u64 list) option)" where
  "answer_one (Put_object c n) m = (if m n = None then (Stored True, m(n \<mapsto> (c, []))) else (Stored False, m))"
| "answer_one (Get_object n) m = (Found (m n), m)"
| "answer_one (Delete_object n) m = (Deleted (m n \<noteq> None), m(n := None))"

fun answer_all where
  "answer_all [] m = ([], m)"
| "answer_all (q # qs) m =
     (case answer_one q m of (a, m') \<Rightarrow> case answer_all qs m' of (as, m'') \<Rightarrow> (a # as, m''))"

fun run_requests :: "('e \<Rightarrow> object_request \<Rightarrow> 's \<Rightarrow> object_answer \<times> 's) \<Rightarrow> ('e \<times> object_request) list \<Rightarrow> 's \<Rightarrow> object_answer list \<times> 's" where
  "run_requests serve [] s = ([], s)"
| "run_requests serve ((e, q) # qs) s =
     (case serve e q s of (a, s') \<Rightarrow> case run_requests serve qs s' of (as, s'') \<Rightarrow> (a # as, s''))"

locale object_cluster =
  fixes serve :: "'e \<Rightarrow> object_request \<Rightarrow> 's \<Rightarrow> object_answer \<times> 's"
    and entrance :: "'e \<Rightarrow> bool" and invar :: "'s \<Rightarrow> bool" and contents :: "'s \<Rightarrow> string \<Rightarrow> (u32 \<times> u64 list) option"
  assumes serve_law: "invar s \<Longrightarrow> entrance e \<Longrightarrow> serve e q s = (a, s') \<Longrightarrow>
    invar s' \<and> (a, contents s') = answer_one q (contents s)"
begin

lemma runs_as_one:
  assumes "invar s" and "\<forall>(e, q) \<in> set qs. entrance e" and "run_requests serve qs s = (as, s')"
  shows "invar s' \<and> (as, contents s') = answer_all (map snd qs) (contents s)"
  using assms
proof (induction qs arbitrary: s as)
  case Nil
  then show ?case by simp
next
  case (Cons eq qs)
  obtain e q where eq: "eq = (e, q)" by fastforce
  obtain a s1 where s1: "serve e q s = (a, s1)" by fastforce
  obtain as' where as': "run_requests serve qs s1 = (as', s')" "as = a # as'"
    using Cons.prems(3) eq s1 by (auto split: prod.splits)
  have "invar s1 \<and> (a, contents s1) = answer_one q (contents s)"
    using serve_law [OF Cons.prems(1) _ s1] Cons.prems(2) eq by auto
  moreover from this have "invar s' \<and> (as', contents s') = answer_all (map snd qs) (contents s1)"
    using Cons.IH [OF _ _ as'(1)] Cons.prems(2) by auto
  ultimately show ?case using eq as'(2) by (auto split: prod.splits)
qed

end

section \<open>Services that agree on the ring\<close>

definition endpoint :: "string \<Rightarrow> string" where
  "endpoint addr = (if starts_with addr ''http://'' \<or> starts_with addr ''https://'' then addr else ''http://'' @ addr)"

text \<open>Every cached client is a client of the address it is cached for.\<close>

definition clients_ok :: "string ClusterManager \<Rightarrow> bool" where
  "clients_ok cm \<longleftrightarrow> (\<forall>(nid, a) \<in> set (cm_peer_addrs cm). \<forall>c. hm_get (cm_peers cm) nid = Some c \<longrightarrow> c = endpoint a)"

definition manager_ok :: "(string \<Rightarrow> string) \<Rightarrow> ring \<Rightarrow> string \<Rightarrow> string ClusterManager \<Rightarrow> bool" where
  "manager_ok E r e cm \<longleftrightarrow> cm_ring cm = r \<and> cm_node_id cm \<in> set (hm_values r) \<and> E (cm_node_id cm) = e \<and> hm_invar (cm_peer_addrs cm) \<and> clients_ok cm \<and>
     (\<forall>nid \<in> set (hm_values r). nid \<noteq> cm_node_id cm \<longrightarrow> (\<exists>a. hm_get (cm_peer_addrs cm) nid = Some a \<and> endpoint a = E nid))"

text \<open>A store that saves, is well-formed and knows every replica's node.\<close>

definition store_ok :: "json_ser \<Rightarrow> 'g MetadataStore \<Rightarrow> bool" where
  "store_ok ser st \<longleftrightarrow> ms_wf st \<and> calm ser st \<and>
     (\<forall>n ob. hm_get (ms_objects st) n = Some ob \<longrightarrow> (\<forall>i \<in> set (mo_chunks ob). replicas_known st i))"

text \<open>\<open>E\<close> is the endpoint of each member.\<close>

definition agreed :: "json_ser \<Rightarrow> (string \<Rightarrow> string) \<Rightarrow> ring \<Rightarrow> 'g services \<Rightarrow> bool" where
  "agreed ser E r w \<longleftrightarrow> r \<noteq> [] \<and> inj_on E (set (hm_values r)) \<and> (\<forall>nid \<in> set (hm_values r). w (E nid) \<noteq> None) \<and>
     (\<forall>e svc. w e = Some svc \<longrightarrow> store_ok ser (md_store svc) \<and> (\<exists>cm. md_cluster svc = Some cm \<and> manager_ok E r e cm))"

definition object_of :: "'g MetadataStore \<Rightarrow> string \<Rightarrow> (u32 \<times> u64 list) option" where
  "object_of st n = map_option (\<lambda>ob. (mo_checksum ob, mo_chunks ob)) (hm_get (ms_objects st) n)"

text \<open>What the cluster holds: each object at the owner of its name.\<close>

definition cluster_objects ::
  "(string \<Rightarrow> u64) \<Rightarrow> (string \<Rightarrow> string) \<Rightarrow> ring \<Rightarrow> 'g services \<Rightarrow> string \<Rightarrow> (u32 \<times> u64 list) option" where
  "cluster_objects x E r w n =
     (case get_owner x r n of
        None \<Rightarrow> None
      | Some own \<Rightarrow> (case w (E own) of None \<Rightarrow> None | Some svc \<Rightarrow> object_of (md_store svc) n))"

definition cluster_serve ::
  "(string \<Rightarrow> u64) \<Rightarrow> 'g rand \<Rightarrow> (string \<Rightarrow> bool) \<Rightarrow> json_ser \<Rightarrow> string \<Rightarrow> object_request \<Rightarrow> 'g services \<Rightarrow> object_answer \<times> 'g services" where
  "cluster_serve x R uri ser e q w =
     (let P = cluster_rpc x R uri ser in
      case q of
        Put_object c n \<Rightarrow> (case at_node e (md_put_object P x ser c n) w of (u, w') \<Rightarrow> (Stored (is_ok u), w'))
      | Get_object n \<Rightarrow> (case at_node e (md_get_object P x n) w of (u, w') \<Rightarrow>
          (Found (case u of Ok resp \<Rightarrow> Some (go_checksum resp, map pc_id (go_chunks resp)) | Err _ \<Rightarrow> None), w'))
      | Delete_object n \<Rightarrow> (case at_node e (md_delete_object P x ser n) w of (u, w') \<Rightarrow> (Deleted (is_ok u), w')))"

section \<open>Lemmas: reaching the owner\<close>

lemma cached_client_ok:
  assumes "\<forall>(nid, a) \<in> set pa. \<forall>c. hm_get peers nid = Some c \<longrightarrow> c = endpoint a" and "cached_client peers addr pa = Some c"
  shows "c = endpoint addr"
  using assms by (induction pa) (auto simp del: map_of_eq_Some_iff map_of_eq_None_iff split: if_splits)

lemma cache_client_get:
  "hm_get (cache_client c addr pa peers) nid = Some d \<Longrightarrow>
     hm_get peers nid = Some d \<or> d = c \<and> (nid, addr) \<in> set pa"
  by (induction pa) (auto simp del: map_of_eq_Some_iff map_of_eq_None_iff split: if_splits)

lemma distinct_addr:
  "distinct (map fst pa) \<Longrightarrow> (nid, a) \<in> set pa \<Longrightarrow> (nid, b) \<in> set pa \<Longrightarrow> a = b"
  by (metis map_of_is_SomeI option.inject)

lemma peer_client:
  assumes m: "manager_ok E r e cm" and up: "w (endpoint addr) \<noteq> None"
  shows "\<exists>cm'. get_peer_client (cluster_rpc x R uri ser) addr cm w = (Some (endpoint addr), cm', w) \<and> manager_ok E r e cm' \<and>
    get_all_peer_addrs cm' = get_all_peer_addrs cm"
proof (cases "cached_client (cm_peers cm) addr (cm_peer_addrs cm)")
  case None
  let ?cm = "cm\<lparr>cm_peers := cache_client (endpoint addr) addr (cm_peer_addrs cm) (cm_peers cm)\<rparr>"
  have run: "get_peer_client (cluster_rpc x R uri ser) addr cm w = (Some (endpoint addr), ?cm, w)"
    using None up by (simp add: get_peer_client_def cluster_rpc_def endpoint_def Let_def)
  have "c = endpoint a" if "(nid, a) \<in> set (cm_peer_addrs cm)" "hm_get (cm_peers ?cm) nid = Some c" for nid a c
    using cache_client_get [of "endpoint addr" addr "cm_peer_addrs cm" "cm_peers cm" nid c] that m
      distinct_addr [of "cm_peer_addrs cm" nid a addr]
    by (auto simp: manager_ok_def clients_ok_def simp del: map_of_eq_Some_iff)
  then have "manager_ok E r e ?cm" using m by (auto simp: manager_ok_def clients_ok_def simp del: map_of_eq_Some_iff)
  then show ?thesis using run by (auto simp: get_all_peer_addrs_def)
next
  case (Some c)
  then have "c = endpoint addr" using m cached_client_ok unfolding manager_ok_def clients_ok_def by blast
  then show ?thesis using Some m by (simp add: get_peer_client_def)
qed

text \<open>The stores of a cluster, and a change of one of them.\<close>

definition store_at :: "'g services \<Rightarrow> string \<Rightarrow> 'g MetadataStore option" where
  "store_at w e = map_option md_store (w e)"

lemma store_at_upd: "store_at (w(e \<mapsto> svc)) = (store_at w)(e \<mapsto> md_store svc)"
  by (auto simp: store_at_def)

lemma cluster_objects_store:
  "cluster_objects x E r w n = (case get_owner x r n of None \<Rightarrow> None | Some own \<Rightarrow>
     (case store_at w (E own) of None \<Rightarrow> None | Some st \<Rightarrow> object_of st n))"
  by (auto simp: cluster_objects_def store_at_def split: option.split)

lemma agreed_upd:
  assumes "agreed ser E r w" "store_ok ser (md_store svc)" "md_cluster svc = Some cm" "manager_ok E r e cm"
  shows "agreed ser E r (w(e \<mapsto> svc))"
  using assms by (auto simp: agreed_def)

lemma owner_member: "get_owner x r n = Some own \<Longrightarrow> own \<in> set (hm_values r)"
proof -
  assume own: "get_owner x r n = Some own"
  then have ne: "r \<noteq> []" by (auto simp: get_owner_def owner_at_def)
  have "\<exists>p. (p, own) \<in> set r"
  proof (cases "find (\<lambda>(p, _). x n \<le> p) r")
    case None
    then have "own = snd (hd r)" using own ne by (simp add: get_owner_def owner_at_def)
    then show ?thesis using hd_in_set [OF ne] by (metis prod.collapse)
  next
    case (Some y)
    moreover from this have "y \<in> set r" by (metis find_Some_iff nth_mem)
    ultimately show ?thesis using own ne by (cases y) (auto simp: get_owner_def owner_at_def)
  qed
  then show ?thesis by force
qed

lemma owner_exists: "r \<noteq> [] \<Longrightarrow> \<exists>own. get_owner x r n = Some own"
  by (auto simp: get_owner_def owner_at_def split: option.split)

text \<open>
  An object-scoped request at any node runs one of two handlers at the owner: the local one or
  the one peers call. \<open>spec\<close> is what both do to the store.
\<close>

lemma scoped_at_owner:
  assumes ag: "agreed ser E r w" and e: "w e = Some svc" and own: "get_owner x r n = Some own"
    and st: "store_at w (E own) = Some st"
    and h: "\<And>s. spec (md_store s) (fst (h s)) (md_store (snd (h s))) \<and> md_cluster (snd (h s)) = md_cluster s"
    and p: "\<And>s. spec (md_store s) (fst (p s)) (md_store (snd (p s))) \<and> md_cluster (snd (p s)) = md_cluster s"
    and ok: "\<And>q st'. spec st q st' \<Longrightarrow> store_ok ser st'"
    and run: "at_node e (object_scoped x n (\<lambda>addr. with_peer (cluster_rpc x R uri ser) addr (\<lambda>cl. at_peer cl p)) h) w = (q, w')"
  shows "\<exists>st'. spec st q st' \<and> agreed ser E r w' \<and> store_at w' = (store_at w)(E own \<mapsto> st')"
proof -
  obtain cm where cm: "md_cluster svc = Some cm" "manager_ok E r e cm" using ag e unfolding agreed_def by blast
  show ?thesis
  proof (cases "cm_node_id cm = own")
    case True
    then have "md_route_by_object x svc n = Local" "E own = e"
      using cm own by (auto simp: md_route_by_object_def fl_route_by_object_def get_owner_addr_def manager_ok_def)
    moreover obtain svc' where "h svc = (fst (h svc), svc')" by (metis prod.collapse)
    ultimately have r: "q = fst (h svc)" "w' = w(e \<mapsto> snd (h svc))" "md_store svc = st" "E own = e"
      using run e st by (auto simp: at_node_def object_scoped_def store_at_def split: prod.splits)
    have s: "spec st q (md_store (snd (h svc)))" using h [of svc] r by simp
    have "agreed ser E r w'" unfolding r(2) using h [of svc] cm ok [OF s] by (intro agreed_upd [OF ag]) auto
    then show ?thesis using s r by (auto simp: store_at_upd)
  next
    case False
    have mem: "own \<in> set (hm_values r)" by (rule owner_member [OF own])
    then obtain a where a: "hm_get (cm_peer_addrs cm) own = Some a" "endpoint a = E own"
      using cm(2) False unfolding manager_ok_def by metis
    have ne: "E own \<noteq> e" using ag mem False cm(2) unfolding agreed_def manager_ok_def inj_on_def by metis
    obtain osvc where o: "w (E own) = Some osvc" "md_store osvc = st" using st by (auto simp: store_at_def)
    have route: "md_route_by_object x svc n = Forward a"
      using cm own a(1) False
      by (auto simp: md_route_by_object_def fl_route_by_object_def get_owner_addr_def manager_ok_def simp del: map_of_eq_Some_iff)
    obtain cm' where cm': "get_peer_client (cluster_rpc x R uri ser) a cm w = (Some (E own), cm', w)" "manager_ok E r e cm'"
      using peer_client [OF cm(2), of w a x R uri ser] o(1) a(2) by auto
    let ?svc = "svc\<lparr>md_cluster := Some cm'\<rparr>"
    have r: "q = fst (p osvc)" "w' = w(E own \<mapsto> snd (p osvc), e \<mapsto> ?svc)"
      using run e route cm(1) cm'(1) o(1) by (auto simp: at_node_def object_scoped_def with_peer_def at_peer_def split: prod.splits)
    have s: "spec st q (md_store (snd (p osvc)))" using p [of osvc] r(1) o(2) by simp
    obtain ocm where ocm: "md_cluster osvc = Some ocm" "manager_ok E r (E own) ocm" using ag o(1) unfolding agreed_def by blast
    have "agreed ser E r (w(E own \<mapsto> snd (p osvc)))" using p [of osvc] ocm ok [OF s] by (intro agreed_upd [OF ag]) auto
    moreover have "store_ok ser (md_store ?svc)" using ag e by (simp add: agreed_def)
    ultimately have "agreed ser E r w'" unfolding r(2) using cm'(2) by (rule_tac agreed_upd [where cm = cm']) auto
    moreover have "store_at w' = (store_at w)(E own \<mapsto> md_store (snd (p osvc)))"
      using r(2) e ne by (auto simp: store_at_def fun_eq_iff)
    ultimately show ?thesis using s by blast
  qed
qed

section \<open>Lemmas: the handlers on the owner's store\<close>

lemma object_of_None: "object_of st n = None \<longleftrightarrow> hm_get (ms_objects st) n = None"
  by (simp add: object_of_def del: map_of_eq_None_iff)

lemma replicas_known_env [simp]:
  "replicas_known (st\<lparr>ms_objects := a\<rparr>) i = replicas_known st i" "replicas_known (st\<lparr>ms_disk := d\<rparr>) i = replicas_known st i"
  by (simp_all add: replicas_known_def split: option.split)

lemma put_store_ok:
  assumes ok: "store_ok ser st" and p: "put_object ser c n st = (q, st')"
  shows "store_ok ser st' \<and> is_ok q = (object_of st n = None) \<and>
    object_of st' = (if object_of st n = None then (object_of st)(n \<mapsto> (c, [])) else object_of st)"
proof (cases "hm_get (ms_objects st) n")
  case None
  let ?st = "st\<lparr>ms_objects := hm_insert n (MetaObject_new n c) (ms_objects st)\<rparr>"
  obtain d where d: "ms_save ser ?st = (Ok (), ?st\<lparr>ms_disk := d\<rparr>)" "calm ser (?st\<lparr>ms_disk := d\<rparr>)"
    by (rule calm_save [of ser ?st]) (use ok in \<open>simp_all add: store_ok_def\<close>)
  have r: "q = Ok ()" "st' = ?st\<lparr>ms_disk := d\<rparr>" using p None d(1) by (simp_all add: put_object_def del: map_of_eq_None_iff)
  have "ms_wf st'" using wf_put [of st ser c n] p ok by (simp add: store_ok_def)
  then have "store_ok ser st'" using ok d(2) r(2)
    by (auto simp: store_ok_def MetaObject_new_def simp del: map_of_eq_Some_iff split: if_splits)
  then show ?thesis using None r by (auto simp: object_of_def MetaObject_new_def fun_eq_iff)
next
  case (Some ob)
  then show ?thesis using p ok by (auto simp: put_object_def object_of_def)
qed

lemma delete_store_ok:
  assumes ok: "store_ok ser st" and p: "delete_object ser n st = (q, st')"
  shows "store_ok ser st' \<and> is_ok q = (object_of st n \<noteq> None) \<and> object_of st' = (object_of st)(n := None)"
proof (cases "hm_get (ms_objects st) n")
  case None
  then show ?thesis using p ok by (auto simp: delete_object_def object_of_def fun_eq_iff simp del: map_of_eq_None_iff)
next
  case (Some ob)
  let ?st = "remove_chunks (mo_chunks ob) (st\<lparr>ms_objects := hm_remove n (ms_objects st)\<rparr>)"
  obtain d where d: "ms_save ser ?st = (Ok (), ?st\<lparr>ms_disk := d\<rparr>)" "calm ser (?st\<lparr>ms_disk := d\<rparr>)"
    by (rule calm_save [of ser ?st]) (use ok in \<open>simp_all add: store_ok_def remove_chunks_def\<close>)
  have r: "q = Ok ()" "st' = ?st\<lparr>ms_disk := d\<rparr>" using p Some d(1) by (simp_all add: delete_object_def del: map_of_eq_Some_iff)
  have wf: "ms_wf st'" using wf_delete_object [of st ser n] p ok by (simp add: store_ok_def)
  have "replicas_known st' i" if o: "hm_get (ms_objects st') m = Some o'" "i \<in> set (mo_chunks o')" for m o' i
  proof -
    have "hm_contains (ms_chunks st') i" by (rule referenced_present [OF wf o])
    then have "hm_get (ms_chunks st') i = hm_get (ms_chunks st) i"
      using r(2) by (auto simp: remove_chunks_def fold_remove_get simp del: map_of_eq_None_iff split: if_splits)
    moreover have "replicas_known st i"
      using o ok r(2) by (auto simp: store_ok_def remove_chunks_def simp del: map_of_eq_Some_iff split: if_splits)
    ultimately show ?thesis using r(2) by (simp add: replicas_known_def remove_chunks_def split: option.splits)
  qed
  then have "store_ok ser st'" using wf d(2) r(2) by (auto simp: store_ok_def)
  then show ?thesis using Some r
    by (auto simp: object_of_def remove_chunks_def fun_eq_iff simp del: map_of_eq_Some_iff map_of_eq_None_iff)
qed

text \<open>Reading: both handlers resolve every chunk, since every replica's node is known.\<close>

definition read_answer :: "GetObjectResponse rpc \<Rightarrow> (u32 \<times> u64 list) option" where
  "read_answer q = (case q of Ok resp \<Rightarrow> Some (go_checksum resp, map pc_id (go_chunks resp)) | Err _ \<Rightarrow> None)"

lemma read_store_ok:
  assumes ok: "store_ok ser (md_store svc)"
  shows "read_answer (fst (md_get_object_local n svc)) = object_of (md_store svc) n"
    and "read_answer (peer_get_object n svc) = object_of (md_store svc) n"
proof -
  let ?st = "md_store svc"
  have ids: "map (\<lambda>i. pc_id (list_chunk ?st (the (hm_get (ms_chunks ?st) i)))) is = is"
    if "\<forall>i \<in> set is. hm_contains (ms_chunks ?st) i" for "is"
  proof (rule map_idI)
    fix i assume "i \<in> set is"
    with that have "hm_contains (ms_chunks ?st) i" by blast
    then obtain c where c: "hm_get (ms_chunks ?st) i = Some c" by blast
    then have "mc_id c = i" using ms_wfD(5) [of ?st] ok unfolding store_ok_def chunk_wf_def by blast
    then show "pc_id (list_chunk ?st (the (hm_get (ms_chunks ?st) i))) = i"
      using c by (simp add: list_chunk_def del: map_of_eq_Some_iff)
  qed
  have present: "\<forall>i \<in> set (mo_chunks ob). hm_contains (ms_chunks ?st) i" "\<forall>i \<in> set (mo_chunks ob). replicas_known ?st i"
    if "hm_get (ms_objects ?st) n = Some ob" for ob
    using that ok referenced_present [of ?st n ob] unfolding store_ok_def by blast+
  show "read_answer (fst (md_get_object_local n svc)) = object_of ?st n"
    using present ids
    by (cases "hm_get (ms_objects ?st) n")
      (auto simp: read_answer_def md_get_object_local_def md_get_object_read_def get_object_def md_get_object_reply_def
        object_of_def resolve_chunks_eq comp_def Let_def simp del: map_of_eq_Some_iff map_of_eq_None_iff)
  show "read_answer (peer_get_object n svc) = object_of ?st n"
    using present ids
    by (cases "hm_get (ms_objects ?st) n")
      (auto simp: read_answer_def peer_get_object_def get_object_def object_of_def peer_chunks_eq comp_def
        simp del: map_of_eq_Some_iff map_of_eq_None_iff)
qed

section \<open>The cluster is one store of objects\<close>

text \<open>What a handler does to a store that is in order: its answer and the store it leaves.\<close>

definition does ::
  "json_ser \<Rightarrow> ('a rpc \<Rightarrow> 'b) \<Rightarrow> ('g MetadataStore \<Rightarrow> 'b) \<Rightarrow> ('g MetadataStore \<Rightarrow> 'g MetadataStore)
     \<Rightarrow> (('g, string) StorageMetadataImpl \<Rightarrow> 'a rpc \<times> ('g, string) StorageMetadataImpl) \<Rightarrow> bool" where
  "does ser ans g f h \<longleftrightarrow> (\<forall>s. md_cluster (snd (h s)) = md_cluster s \<and>
     (store_ok ser (md_store s) \<longrightarrow> ans (fst (h s)) = g (md_store s) \<and> md_store (snd (h s)) = f (md_store s)))"

lemma handlers_do:
  "does ser is_ok (\<lambda>st. is_ok (fst (put_object ser c n st))) (\<lambda>st. snd (put_object ser c n st)) (md_put_object_local ser c n)"
  "does ser is_ok (\<lambda>st. is_ok (fst (put_object ser c n st))) (\<lambda>st. snd (put_object ser c n st)) (peer_put_object ser c n)"
  "does ser is_ok (\<lambda>st. is_ok (fst (delete_object ser n st))) (\<lambda>st. snd (delete_object ser n st)) (md_delete_object_local ser n)"
  "does ser is_ok (\<lambda>st. is_ok (fst (delete_object ser n st))) (\<lambda>st. snd (delete_object ser n st)) (peer_delete_object ser n)"
  "does ser read_answer (\<lambda>st. object_of st n) (\<lambda>st. st) (md_get_object_local n)"
  "does ser read_answer (\<lambda>st. object_of st n) (\<lambda>st. st) (\<lambda>svc. (peer_get_object n svc, svc))"
  by (auto simp: does_def read_store_ok md_put_object_local_def peer_put_object_def md_delete_object_local_def
      md_delete_object_commit_def peer_delete_object_def md_gauge_def md_count_def Let_def split: prod.split result.split)
    (auto simp: md_get_object_local_def md_get_object_reply_def md_count_def Let_def split: result.split)

text \<open>A change of the owner's store changes only the object with that name.\<close>

lemma cluster_objects_upd:
  assumes "get_owner x r n = Some own" "store_at w (E own) = Some st" "store_at w' = (store_at w)(E own \<mapsto> st')"
    and "inj_on E (set (hm_values r))" and "\<And>m. m \<noteq> n \<Longrightarrow> object_of st' m = object_of st m"
  shows "cluster_objects x E r w' = (cluster_objects x E r w)(n := object_of st' n)"
proof
  fix m
  show "cluster_objects x E r w' m = ((cluster_objects x E r w)(n := object_of st' n)) m"
  proof (cases "get_owner x r m")
    case None
    then show ?thesis using assms(1) by (auto simp: cluster_objects_store)
  next
    case (Some o')
    have "E o' = E own \<longleftrightarrow> o' = own"
      using assms(4) owner_member [OF Some] owner_member [OF assms(1)] by (auto simp: inj_on_def)
    then show ?thesis using assms(1-3,5) Some by (auto simp: cluster_objects_store)
  qed
qed

text \<open>The answer and the new object of a name depend on the object alone.\<close>

lemma object_call:
  assumes ag: "agreed ser E r w" and e: "w e = Some svc"
    and h: "does ser ans g f h" and p: "does ser ans g f p"
    and f: "\<And>st. store_ok ser st \<Longrightarrow> store_ok ser (f st) \<and> g st = G (object_of st n) \<and>
      object_of (f st) = (object_of st)(n := F (object_of st n))"
    and run: "at_node e (object_scoped x n (\<lambda>addr. with_peer (cluster_rpc x R uri ser) addr (\<lambda>cl. at_peer cl p)) h) w = (u, w')"
  shows "agreed ser E r w' \<and> ans u = G (cluster_objects x E r w n) \<and>
    cluster_objects x E r w' = (cluster_objects x E r w)(n := F (cluster_objects x E r w n))"
proof -
  obtain own where own: "get_owner x r n = Some own" using owner_exists ag unfolding agreed_def by blast
  then obtain st where st: "store_at w (E own) = Some st" "store_ok ser st"
    using ag owner_member [OF own] unfolding agreed_def store_at_def by fastforce
  let ?spec = "\<lambda>st u st'. store_ok ser st \<longrightarrow> ans u = g st \<and> st' = f st"
  have "\<exists>st'. ?spec st u st' \<and> agreed ser E r w' \<and> store_at w' = (store_at w)(E own \<mapsto> st')"
    by (rule scoped_at_owner [where spec = ?spec, OF ag e own st(1) _ _ _ run]) (use h p f st(2) in \<open>simp_all add: does_def\<close>)
  then have u: "ans u = g st" "agreed ser E r w'" "store_at w' = (store_at w)(E own \<mapsto> f st)" using st(2) by auto
  have "cluster_objects x E r w' = (cluster_objects x E r w)(n := object_of (f st) n)"
    by (rule cluster_objects_upd [where E = E and own = own and st' = "f st", OF own st(1) u(3)]) (use ag f [OF st(2)] in \<open>simp_all add: agreed_def\<close>)
  moreover have "cluster_objects x E r w n = object_of st n" using own st(1) by (simp add: cluster_objects_store)
  ultimately show ?thesis using u f [OF st(2)] by simp
qed

definition is_member :: "(string \<Rightarrow> string) \<Rightarrow> ring \<Rightarrow> string \<Rightarrow> bool" where
  "is_member E r e \<longleftrightarrow> e \<in> E ` set (hm_values r)"

lemma object_forwards:
  "forward_put_object (cluster_rpc x R uri ser) addr c n = with_peer (cluster_rpc x R uri ser) addr (\<lambda>cl. at_peer cl (peer_put_object ser c n))"
  "forward_get_object (cluster_rpc x R uri ser) addr n = with_peer (cluster_rpc x R uri ser) addr (\<lambda>cl. at_peer cl (\<lambda>svc. (peer_get_object n svc, svc)))"
  "forward_delete_object (cluster_rpc x R uri ser) addr n = with_peer (cluster_rpc x R uri ser) addr (\<lambda>cl. at_peer cl (peer_delete_object ser n))"
  by (simp_all add: forward_put_object_def forward_get_object_def forward_delete_object_def cluster_rpc_def)

lemma cluster_serve_law:
  assumes ag: "agreed ser E r w" and e: "is_member E r e" and run: "cluster_serve x R uri ser e q w = (a, w')"
  shows "agreed ser E r w' \<and> (a, cluster_objects x E r w') = answer_one q (cluster_objects x E r w)"
proof -
  obtain svc where svc: "w e = Some svc" using ag e by (auto simp: agreed_def is_member_def)
  note call = object_call [OF ag svc]
  show ?thesis
  proof (cases q)
    case (Put_object c n)
    obtain u where u: "at_node e (md_put_object (cluster_rpc x R uri ser) x ser c n) w = (u, w')" "a = Stored (is_ok u)"
      using run Put_object by (auto simp: cluster_serve_def split: prod.splits)
    have "agreed ser E r w' \<and> is_ok u = (cluster_objects x E r w n = None) \<and> cluster_objects x E r w' =
        (cluster_objects x E r w)(n := (case cluster_objects x E r w n of None \<Rightarrow> Some (c, []) | Some v \<Rightarrow> Some v))"
      by (rule call [OF handlers_do(1,2) _ u(1) [unfolded md_put_object_def object_forwards]])
        (use put_store_ok [OF _ prod.collapse [symmetric]] in \<open>auto simp: fun_eq_iff split: option.split\<close>)
    then show ?thesis using u(2) Put_object by (auto simp: fun_eq_iff split: option.splits)
  next
    case (Get_object n)
    obtain u where u: "at_node e (md_get_object (cluster_rpc x R uri ser) x n) w = (u, w')" "a = Found (read_answer u)"
      using run Get_object by (auto simp: cluster_serve_def read_answer_def split: prod.splits)
    have "agreed ser E r w' \<and> read_answer u = cluster_objects x E r w n \<and>
        cluster_objects x E r w' = (cluster_objects x E r w)(n := cluster_objects x E r w n)"
      by (rule call [OF handlers_do(5,6) _ u(1) [unfolded md_get_object_def object_forwards]]) simp
    then show ?thesis using u(2) Get_object by simp
  next
    case (Delete_object n)
    obtain u where u: "at_node e (md_delete_object (cluster_rpc x R uri ser) x ser n) w = (u, w')" "a = Deleted (is_ok u)"
      using run Delete_object by (auto simp: cluster_serve_def split: prod.splits)
    have "agreed ser E r w' \<and> is_ok u = (cluster_objects x E r w n \<noteq> None) \<and>
        cluster_objects x E r w' = (cluster_objects x E r w)(n := None)"
      by (rule call [OF handlers_do(3,4) _ u(1) [unfolded md_delete_object_def object_forwards]])
        (use delete_store_ok [OF _ prod.collapse [symmetric]] in auto)
    then show ?thesis using u(2) Delete_object by simp
  qed
qed

interpretation mc: object_cluster "cluster_serve x R uri ser" "is_member E r" "agreed ser E r" "cluster_objects x E r"
  for x R uri ser E r
  by unfold_locales (rule cluster_serve_law)

section \<open>A joining service\<close>

text \<open>The service that joins: its maps are in order, it can save, and \<open>A\<close> are its peers.\<close>

definition joiner_ok :: "json_ser \<Rightarrow> (string \<Rightarrow> string) \<Rightarrow> ring \<Rightarrow> string \<Rightarrow> string list \<Rightarrow> ('g, string) StorageMetadataImpl \<Rightarrow> bool" where
  "joiner_ok ser E r e A svc \<longleftrightarrow> (\<exists>cm. md_cluster svc = Some cm \<and> manager_ok E r e cm \<and> get_all_peer_addrs cm = A) \<and>
     hm_invar (ms_objects (md_store svc)) \<and> hm_invar (ms_chunks (md_store svc)) \<and> hm_invar (md_index svc) \<and> calm ser (md_store svc)"

definition peers_up :: "string list \<Rightarrow> 'g services \<Rightarrow> bool" where
  "peers_up A w \<longleftrightarrow> (\<forall>a \<in> set A. \<exists>st. store_at w (endpoint a) = Some st \<and> ms_wf st)"

text \<open>The object is here as it is there, with its chunks and their index entries.\<close>

definition holds_copy :: "('g, string) StorageMetadataImpl \<Rightarrow> 'g MetadataStore \<Rightarrow> string \<Rightarrow> bool" where
  "holds_copy svc st n \<longleftrightarrow> (\<forall>ob. hm_get (ms_objects st) n = Some ob \<longrightarrow>
     hm_get (ms_objects (md_store svc)) n = Some (ob\<lparr>mo_total_size := 0\<rparr>) \<and>
     (\<forall>i \<in> set (mo_chunks ob). hm_get (ms_chunks (md_store svc)) i = hm_get (ms_chunks st) i \<and> ci_get i (md_index svc) = Some n))"

text \<open>Two stores share no object and no chunk.\<close>

definition apart :: "'g MetadataStore \<Rightarrow> 'g MetadataStore \<Rightarrow> bool" where
  "apart st st' \<longleftrightarrow> (\<forall>n ob m ob'. hm_get (ms_objects st) n = Some ob \<and> hm_get (ms_objects st') m = Some ob' \<longrightarrow>
     n \<noteq> m \<and> set (mo_chunks ob) \<inter> set (mo_chunks ob') = {})"

lemma broadcast_index_keeps:
  assumes "manager_ok E r e cm" and "\<forall>a \<in> set as. store_at w (endpoint a) \<noteq> None"
    and "broadcast_chunk_index_to (cluster_rpc x R uri ser) entries as cm w = (cm', w')"
  shows "manager_ok E r e cm' \<and> get_all_peer_addrs cm' = get_all_peer_addrs cm \<and> store_at w' = store_at w"
  using assms
proof (induction as arbitrary: cm w)
  case Nil
  then show ?case by simp
next
  case (Cons a as)
  obtain svc where svc: "w (endpoint a) = Some svc" using Cons.prems(2) by (auto simp: store_at_def)
  obtain cm1 where cm1: "get_peer_client (cluster_rpc x R uri ser) a cm w = (Some (endpoint a), cm1, w)" "manager_ok E r e cm1"
    "get_all_peer_addrs cm1 = get_all_peer_addrs cm"
    using peer_client [OF Cons.prems(1), of w a x R uri ser] svc by auto
  let ?w = "w(endpoint a \<mapsto> snd (peer_broadcast_chunk_index entries svc :: unit rpc \<times> _))"
  have s: "store_at ?w = store_at w" using svc by (auto simp: store_at_def peer_broadcast_chunk_index_def fun_eq_iff)
  have run: "broadcast_chunk_index_to (cluster_rpc x R uri ser) entries as cm1 ?w = (cm', w')"
    using Cons.prems(3) cm1(1) svc by (simp add: cluster_rpc_def at_peer_def split: prod.splits)
  have "\<forall>a \<in> set as. store_at ?w (endpoint a) \<noteq> None" unfolding s using Cons.prems(2) by simp
  from Cons.IH [OF cm1(2) this run] show ?case by (simp only: s cm1(3))
qed

lemma fold_insert_invar: "hm_invar m \<Longrightarrow> hm_invar (fold (\<lambda>v. hm_insert (f v) v) vs m)"
  by (induction vs arbitrary: m) simp_all

lemma apartD:
  "apart st st' \<Longrightarrow> hm_get (ms_objects st) n = Some ob \<Longrightarrow> hm_get (ms_objects st') m = Some ob' \<Longrightarrow>
     n \<noteq> m \<and> (i \<in> set (mo_chunks ob) \<longrightarrow> i \<notin> set (mo_chunks ob'))"
  unfolding apart_def by blast

lemma ingest_joiner:
  assumes j: "joiner_ok ser E r e A svc" and m: "manager_ok E r e cm" "get_all_peer_addrs cm = A" and up: "peers_up A w"
    and ing: "ingest_entries (cluster_rpc x R uri ser) ser es cm svc w = (res, svc', w')"
  shows "res = Ok () \<and> joiner_ok ser E r e A svc' \<and> store_at w' = store_at w"
proof (cases "collect_objects es = [] \<and> collect_chunks es = []")
  case True
  then show ?thesis using j m ing by (auto simp: ingest_entries_def joiner_ok_def Let_def)
next
  case False
  let ?st = "(md_store svc)\<lparr>
      ms_objects := fold (\<lambda>ob. hm_insert (mo_name ob) ob) (collect_objects es) (ms_objects (md_store svc)),
      ms_chunks := fold (\<lambda>c. hm_insert (mc_id c) c) (collect_chunks es) (ms_chunks (md_store svc))\<rparr>"
  let ?ix = "map (\<lambda>c. (mc_id c, mc_object_name c)) (collect_chunks es)"
  obtain d where d: "ms_save ser ?st = (Ok (), ?st\<lparr>ms_disk := d\<rparr>)" "calm ser (?st\<lparr>ms_disk := d\<rparr>)"
    by (rule calm_save [of ser ?st]) (use j in \<open>simp_all add: joiner_ok_def\<close>)
  obtain cm1 w1 where b: "broadcast_chunk_index_update (cluster_rpc x R uri ser) ?ix cm w = (cm1, w1)" by fastforce
  have up': "\<forall>a \<in> set (get_all_peer_addrs cm). store_at w (endpoint a) \<noteq> None" using up m(2) by (auto simp: peers_up_def)
  note k = broadcast_index_keeps [OF m(1) up' b [unfolded broadcast_chunk_index_update_def]]
  have r: "res = Ok ()" "svc' = svc\<lparr>md_store := ?st\<lparr>ms_disk := d\<rparr>, md_cluster := Some cm1, md_index := ci_bulk_insert ?ix (md_index svc)\<rparr>"
    "w' = w1" using ing False d(1) b by (auto simp: ingest_entries_def ingest_partition_def Let_def)
  have "hm_invar (ci_bulk_insert ?ix (md_index svc))"
    unfolding ci_bulk_insert_def using j by (intro hm.invar_fold_ins) (simp add: joiner_ok_def)
  then show ?thesis using r k d(2) j m(2) by (simp add: joiner_ok_def fold_insert_invar)
qed

lemma pull_step:
  assumes j: "joiner_ok ser E r e A svc" and cm: "md_cluster svc = Some cm" and a: "a \<in> set A" and up: "peers_up A w"
    and st: "store_at w (endpoint a) = Some st"
    and run: "pull_partition (cluster_rpc x R uri ser) ser a ranges cm svc w = (res, svc', w')"
  shows "joiner_ok ser E r e A svc' \<and> store_at w' = store_at w \<and>
    (\<forall>n. hash_in_ranges (x n) ranges \<longrightarrow> holds_copy svc' st n) \<and>
    (\<forall>st2 n. apart st2 st \<and> holds_copy svc st2 n \<longrightarrow> holds_copy svc' st2 n) \<and>
    (\<forall>n. \<not> hash_in_ranges (x n) ranges \<longrightarrow> hm_get (ms_objects (md_store svc')) n = hm_get (ms_objects (md_store svc)) n)"
proof -
  obtain src where src: "w (endpoint a) = Some src" "md_store src = st" using st by (auto simp: store_at_def)
  have wf: "ms_wf (md_store src)" using up a st src(2) by (auto simp: peers_up_def)
  have m: "manager_ok E r e cm" "get_all_peer_addrs cm = A" using j cm by (auto simp: joiner_ok_def)
  obtain cm1 where cm1: "get_peer_client (cluster_rpc x R uri ser) a cm w = (Some (endpoint a), cm1, w)" "manager_ok E r e cm1"
    "get_all_peer_addrs cm1 = A"
    using peer_client [OF m(1), of w a x R uri ser] src(1) m(2) by auto
  obtain es where es: "peer_transfer_partition x ranges src = Ok es" by (simp add: peer_transfer_partition_def)
  have "pr_transfer_partition (cluster_rpc x R uri ser) (endpoint a) ranges w = (Ok es, w)"
    using src(1) es by (simp add: cluster_rpc_def at_peer_def fun_upd_idem)
  then have ing: "ingest_entries (cluster_rpc x R uri ser) ser es cm1 svc w = (res, svc', w')"
    using run cm1(1) by (simp add: pull_partition_def)
  note k = ingest_joiner [OF j cm1(2,3) up ing]
  have ok: "ingest_entries (cluster_rpc x R uri ser) ser es cm1 svc w = (Ok (), svc', w')" using ing k by simp
  have inv: "hm_invar (ms_objects (md_store svc))" "hm_invar (ms_chunks (md_store svc))" "hm_invar (md_index svc)"
    using j by (simp_all add: joiner_ok_def)
  note frame = ingestion_frame [OF wf inv(3) es ok]
  have "holds_copy svc' st n" if "hash_in_ranges (x n) ranges" for n
    using migrated_objects [OF wf inv es ok _ that] src(2) unfolding holds_copy_def by blast
  moreover have "holds_copy svc' st2 n" if ap: "apart st2 st" and h: "holds_copy svc st2 n" for st2 n
    unfolding holds_copy_def
  proof (intro allI impI)
    fix ob assume ob: "hm_get (ms_objects st2) n = Some ob"
    have "hm_get (ms_objects (md_store svc')) n = hm_get (ms_objects (md_store svc)) n"
      by (rule frame(1)) (use apartD [OF ap ob] src(2) in blast)
    moreover have "hm_get (ms_chunks (md_store svc')) i = hm_get (ms_chunks (md_store svc)) i \<and> ci_get i (md_index svc') = ci_get i (md_index svc)"
      if "i \<in> set (mo_chunks ob)" for i
      by (rule frame(2)) (use apartD [OF ap ob] src(2) that in blast)
    ultimately show "hm_get (ms_objects (md_store svc')) n = Some (ob\<lparr>mo_total_size := 0\<rparr>) \<and>
      (\<forall>i \<in> set (mo_chunks ob). hm_get (ms_chunks (md_store svc')) i = hm_get (ms_chunks st2) i \<and> ci_get i (md_index svc') = Some n)"
      using h ob unfolding holds_copy_def by metis
  qed
  moreover have "hm_get (ms_objects (md_store svc')) n = hm_get (ms_objects (md_store svc)) n"
    if "\<not> hash_in_ranges (x n) ranges" for n by (rule frame(1)) (use that in blast)
  ultimately show ?thesis using k by blast
qed

lemma pull_all_steps:
  assumes "joiner_ok ser E r e A svc" and "set as \<subseteq> set A" and "distinct (map endpoint as)" and "peers_up A w"
    and "\<forall>a \<in> set as. \<forall>b \<in> set as. \<forall>st st'. endpoint a \<noteq> endpoint b \<and> store_at w (endpoint a) = Some st \<and>
      store_at w (endpoint b) = Some st' \<longrightarrow> apart st st'"
    and "pull_all (cluster_rpc x R uri ser) ser ranges as svc w = (svc', w')"
  shows "joiner_ok ser E r e A svc' \<and> store_at w' = store_at w \<and>
    (\<forall>a \<in> set as. \<forall>st n. store_at w (endpoint a) = Some st \<and> hash_in_ranges (x n) ranges \<longrightarrow> holds_copy svc' st n) \<and>
    (\<forall>st n. (\<forall>b \<in> set as. \<forall>st'. store_at w (endpoint b) = Some st' \<longrightarrow> apart st st') \<and> holds_copy svc st n \<longrightarrow> holds_copy svc' st n) \<and>
    (\<forall>n. \<not> hash_in_ranges (x n) ranges \<longrightarrow> hm_get (ms_objects (md_store svc')) n = hm_get (ms_objects (md_store svc)) n)"
  using assms
proof (induction as arbitrary: svc w)
  case Nil
  then show ?case by simp
next
  case (Cons a as)
  obtain cm where cm: "md_cluster svc = Some cm" using Cons.prems(1) by (auto simp: joiner_ok_def)
  obtain st where st: "store_at w (endpoint a) = Some st" using Cons.prems(2,4) by (auto simp: peers_up_def)
  obtain res svc1 w1 where p: "pull_partition (cluster_rpc x R uri ser) ser a ranges cm svc w = (res, svc1, w1)"
    using prod_cases3 by blast
  have rest: "pull_all (cluster_rpc x R uri ser) ser ranges as svc1 w1 = (svc', w')" using Cons.prems(6) cm p by simp
  have one: "joiner_ok ser E r e A svc1" "store_at w1 = store_at w"
    "\<And>n. hash_in_ranges (x n) ranges \<Longrightarrow> holds_copy svc1 st n"
    "\<And>st2 n. apart st2 st \<Longrightarrow> holds_copy svc st2 n \<Longrightarrow> holds_copy svc1 st2 n"
    "\<And>n. \<not> hash_in_ranges (x n) ranges \<Longrightarrow> hm_get (ms_objects (md_store svc1)) n = hm_get (ms_objects (md_store svc)) n"
    using pull_step [OF Cons.prems(1) cm _ Cons.prems(4) st p] Cons.prems(2) by auto
  have up: "peers_up A w1" using Cons.prems(4) one(2) by (simp add: peers_up_def)
  have ap: "\<forall>c \<in> set as. \<forall>b \<in> set as. \<forall>st st'. endpoint c \<noteq> endpoint b \<and> store_at w1 (endpoint c) = Some st \<and>
      store_at w1 (endpoint b) = Some st' \<longrightarrow> apart st st'" unfolding one(2) using Cons.prems(5) by simp
  have IH: "joiner_ok ser E r e A svc'" "store_at w' = store_at w"
    "\<And>b st n. b \<in> set as \<Longrightarrow> store_at w (endpoint b) = Some st \<Longrightarrow> hash_in_ranges (x n) ranges \<Longrightarrow> holds_copy svc' st n"
    "\<And>st n. \<forall>b \<in> set as. \<forall>st'. store_at w (endpoint b) = Some st' \<longrightarrow> apart st st' \<Longrightarrow> holds_copy svc1 st n \<Longrightarrow> holds_copy svc' st n"
    "\<And>n. \<not> hash_in_ranges (x n) ranges \<Longrightarrow> hm_get (ms_objects (md_store svc')) n = hm_get (ms_objects (md_store svc1)) n"
    using Cons.IH [OF one(1) _ _ up ap rest] Cons.prems(2,3) unfolding one(2) by auto
  have others: "apart st st'" if "b \<in> set as" "store_at w (endpoint b) = Some st'" for b st'
  proof -
    have "endpoint a \<noteq> endpoint b" using Cons.prems(3) that(1) by auto
    then show ?thesis using Cons.prems(5) st that by (meson list.set_intros)
  qed
  have "holds_copy svc' st n" if "hash_in_ranges (x n) ranges" for n
    by (rule IH(4)) (use others one(3) [OF that] in blast)+
  then have "holds_copy svc' st2 n" if "b \<in> set (a # as)" "store_at w (endpoint b) = Some st2" "hash_in_ranges (x n) ranges" for b st2 n
    using that IH(3) st by auto
  moreover have "holds_copy svc' st2 n"
    if "\<forall>b \<in> set (a # as). \<forall>st'. store_at w (endpoint b) = Some st' \<longrightarrow> apart st2 st'" "holds_copy svc st2 n" for st2 n
    by (rule IH(4)) (use that st one(4) in auto)
  ultimately show ?case using IH(1,2,5) one(5) by simp
qed

lemma waited: "(\<exists>k. a \<le> k \<and> k \<le> a + n \<and> polls k) \<Longrightarrow> wait_for_peers n polls a"
proof (induction n arbitrary: a)
  case 0
  then show ?case by auto
next
  case (Suc n)
  then obtain k where k: "a \<le> k" "k \<le> a + Suc n" "polls k" by blast
  show ?case
  proof (cases "k = a")
    case False
    then have "Suc a \<le> k \<and> k \<le> Suc a + n" using k by simp
    then have "wait_for_peers n polls (Suc a)" using Suc.IH k(3) by blast
    then show ?thesis by simp
  qed (use k in simp)
qed

text \<open>The last step of joining changes no store.\<close>

lemma joined:
  assumes j: "joiner_ok ser E r e A svc" and up: "peers_up A w" and cm: "md_cluster svc = Some cm"
    and polls: "\<exists>k \<le> 30. polls k"
    and run: "migrate_on_join (cluster_rpc x R uri ser) ser polls svc w = (svc', w')"
    and pulled: "\<And>svc1 w1. pull_all (cluster_rpc x R uri ser) ser (get_owned_ranges r (cm_node_id cm)) A svc w = (svc1, w1) \<Longrightarrow>
      joiner_ok ser E r e A svc1 \<and> store_at w1 = store_at w"
  obtains svc1 w1 where "pull_all (cluster_rpc x R uri ser) ser (get_owned_ranges r (cm_node_id cm)) A svc w = (svc1, w1) \<or>
      get_owned_ranges r (cm_node_id cm) = [] \<and> svc1 = svc \<and> w1 = w"
    "md_store svc' = md_store svc1" "md_index svc' = md_index svc1" "store_at w' = store_at w"
proof -
  have A: "cm_ring cm = r" "get_all_peer_addrs cm = A" using j cm by (auto simp: joiner_ok_def manager_ok_def)
  have wait: "wait_for_peers 30 polls 0" using polls by (intro waited) auto
  show ?thesis
  proof (cases "get_owned_ranges r (cm_node_id cm) = []")
    case True
    then show ?thesis using that [of svc w] run wait cm A by (simp add: migrate_on_join_def)
  next
    case False
    obtain svc1 w1 where p: "pull_all (cluster_rpc x R uri ser) ser (get_owned_ranges r (cm_node_id cm)) A svc w = (svc1, w1)" by fastforce
    note k = pulled [OF p]
    obtain cm1 where cm1: "md_cluster svc1 = Some cm1" "manager_ok E r e cm1" "get_all_peer_addrs cm1 = A"
      using k by (auto simp: joiner_ok_def)
    obtain cm2 w2 where b: "broadcast_chunk_index_update (cluster_rpc x R uri ser) (ci_entries (md_index svc1)) cm1 w1 = (cm2, w2)" by fastforce
    have "\<forall>a \<in> set (get_all_peer_addrs cm1). store_at w1 (endpoint a) \<noteq> None" using up k cm1(3) by (auto simp: peers_up_def)
    note s = broadcast_index_keeps [OF cm1(2) this b [unfolded broadcast_chunk_index_update_def]]
    show ?thesis
    proof (cases "ci_entries (md_index svc1) = []")
      case True
      then have "svc' = svc1 \<and> w' = w1" using run wait cm A False p by (simp add: migrate_on_join_def Let_def)
      then show ?thesis using that [of svc1 w1] p k by simp
    next
      case upd: False
      have "svc' = svc1\<lparr>md_cluster := Some cm2\<rparr> \<and> w' = w2"
        using run wait cm A False p upd cm1(1) b by (simp add: migrate_on_join_def Let_def)
      then show ?thesis using that [of svc1 w1] p k s by simp
    qed
  qed
qed

section \<open>Properties\<close>


definition toy_manager :: "string \<Rightarrow> string ClusterManager" where
  "toy_manager nid = \<lparr>cm_ring = [(10, ''a''), (20, ''b'')], cm_node_id = nid, cm_grpc_addr = nid, cm_peers = [],
     cm_peer_addrs = [(''a'', ''a''), (''b'', ''b'')]\<rparr>"

definition toy_services :: "nat services" where
  "toy_services = [''http://a'' \<mapsto> \<lparr>md_store = toy_store, md_metrics = (\<lambda>_. 0), md_cluster = Some (toy_manager ''a''), md_index = []\<rparr>,
     ''http://b'' \<mapsto> \<lparr>md_store = toy_store, md_metrics = (\<lambda>_. 0), md_cluster = Some (toy_manager ''b''), md_index = []\<rparr>]"

lemma toy_agreed: "agreed toy_ser (\<lambda>n. ''http://'' @ n) [(10, ''a''), (20, ''b'')] toy_services"
  using toy_store_wf
  by (auto simp: agreed_def toy_services_def store_ok_def toy_store_def calm_def toy_ser_def manager_ok_def clients_ok_def
      toy_manager_def endpoint_def split: if_splits)

lemma toy_owners:
  "get_owner (\<lambda>n. if n = ''k'' then 15 else 5) [(10, ''a''), (20, ''b'')] n = Some (if n = ''k'' then ''b'' else ''a'')"
  by (simp add: get_owner_def owner_at_def)



definition toy_joiner :: "(nat, string) StorageMetadataImpl" where
  "toy_joiner = \<lparr>md_store = toy_store, md_metrics = (\<lambda>_. 0), md_cluster = Some (toy_manager ''b''), md_index = []\<rparr>"

definition toy_peer :: "nat services" where
  "toy_peer = [''http://a'' \<mapsto> toy_joiner\<lparr>md_store := md_store toy_after\<rparr>]"


end
