(* ===== verification/Mocks.thy ===== *)
theory Mocks
  imports Gateway
begin

text \<open>
  The in-memory clients the gateway is tested against (\<open>mocks\<close> of \<^verbatim>\<open>api-gateway/src/clients.rs\<close>),
  as instances of the client traits. The mutexes the clones of a mock share are fields of one
  state; a counter that overflows panics (\<open>None\<close>), as it does in a test build.
\<close>

section \<open>State\<close>

record StoredObject =
  so_checksum :: u32
  so_chunk_ids :: "u64 list"

record StoredChunk =
  sc_object_name :: string
  sc_checksum :: u32
  sc_storage_node_ids :: "u64 list"

record MockMetadataClient =
  mm_storage_nodes :: "MetaStorageNode list"
  mm_objects :: "(string, StoredObject) hashmap"
  mm_chunks :: "(u64, StoredChunk) hashmap"
  mm_next_chunk_id :: u64
  mm_fail_list_storage_nodes :: bool
  mm_fail_put_object :: bool
  mm_fail_allocate_chunk :: bool

definition MockMetadataClient_default :: MockMetadataClient where
  "MockMetadataClient_default =
     \<lparr>mm_storage_nodes = [\<lparr>msn_id = 1, msn_address = ''http://mock-storage:3000''\<rparr>],
      mm_objects = [], mm_chunks = [], mm_next_chunk_id = 1,
      mm_fail_list_storage_nodes = False, mm_fail_put_object = False, mm_fail_allocate_chunk = False\<rparr>"

text \<open>A storage node client; the chunks it shares with its factory are in the state.\<close>

record MockStorageNodeClient =
  mn_chunk_size :: u64
  mn_fail_write :: bool
  mn_fail_read :: bool

definition MockStorageNodeClient_default :: MockStorageNodeClient where
  "MockStorageNodeClient_default =
     \<lparr>mn_chunk_size = 8 * 1024 * 1024, mn_fail_write = False, mn_fail_read = False\<rparr>"

record MockStorageNodeClientFactory =
  mf_shared_chunks :: "(u64, bytes) hashmap"
  mf_chunk_size :: u64

definition MockStorageNodeClientFactory_default :: MockStorageNodeClientFactory where
  "MockStorageNodeClientFactory_default = \<lparr>mf_shared_chunks = [], mf_chunk_size = 8 * 1024 * 1024\<rparr>"

record mock =
  mk_metadata :: MockMetadataClient
  mk_factory :: MockStorageNodeClientFactory

abbreviation mk_nodes :: "mock \<Rightarrow> MetaStorageNode list" where
  "mk_nodes w \<equiv> mm_storage_nodes (mk_metadata w)"

abbreviation mk_objects :: "mock \<Rightarrow> (string, StoredObject) hashmap" where
  "mk_objects w \<equiv> mm_objects (mk_metadata w)"

abbreviation mk_chunks :: "mock \<Rightarrow> (u64, StoredChunk) hashmap" where
  "mk_chunks w \<equiv> mm_chunks (mk_metadata w)"

abbreviation mk_blobs :: "mock \<Rightarrow> (u64, bytes) hashmap" where
  "mk_blobs w \<equiv> mf_shared_chunks (mk_factory w)"

definition on_metadata :: "(MockMetadataClient \<Rightarrow> MockMetadataClient) \<Rightarrow> mock \<Rightarrow> mock" where
  "on_metadata f w = w\<lparr>mk_metadata := f (mk_metadata w)\<rparr>"

definition on_blobs :: "((u64, bytes) hashmap \<Rightarrow> (u64, bytes) hashmap) \<Rightarrow> mock \<Rightarrow> mock" where
  "on_blobs f w = w\<lparr>mk_factory := mf_shared_chunks_update f (mk_factory w)\<rparr>"

section \<open>The metadata client\<close>

definition mock_list_storage_nodes :: "(mock, MetaStorageNode list rpc) act" where
  "mock_list_storage_nodes w =
     (if mm_fail_list_storage_nodes (mk_metadata w) then Some (Err Code_Unavailable, w)
      else Some (Ok (mk_nodes w), w))"

definition mock_put_object :: "u32 \<Rightarrow> string \<Rightarrow> (mock, unit rpc) act" where
  "mock_put_object c name w =
     (if mm_fail_put_object (mk_metadata w) then Some (Err Code_Internal, w)
      else if hm_contains (mk_objects w) name then Some (Err Code_AlreadyExists, w)
      else Some (Ok (), on_metadata (mm_objects_update
        (hm_insert name \<lparr>so_checksum = c, so_chunk_ids = []\<rparr>)) w))"

text \<open>Replicas on unknown nodes and unknown chunks are left out of an answer.\<close>

definition mock_nodes_of :: "mock \<Rightarrow> u64 list \<Rightarrow> MetaStorageNode list" where
  "mock_nodes_of w is = List.map_filter (\<lambda>i. find (\<lambda>n. msn_id n = i) (mk_nodes w)) is"

definition mock_chunks_of :: "mock \<Rightarrow> u64 list \<Rightarrow> PMetaChunk list" where
  "mock_chunks_of w is =
     List.map_filter (\<lambda>i. map_option (\<lambda>c.
       \<lparr>pc_id = i, pc_checksum = sc_checksum c, pc_storage_nodes = mock_nodes_of w (sc_storage_node_ids c)\<rparr>)
       (hm_get (mk_chunks w) i)) is"

definition mock_get_object :: "string \<Rightarrow> (mock, GetObjectResponse rpc) act" where
  "mock_get_object name w =
     (case hm_get (mk_objects w) name of
        Some ob \<Rightarrow> Some (Ok \<lparr>go_checksum = so_checksum ob, go_chunks = mock_chunks_of w (so_chunk_ids ob)\<rparr>, w)
      | None \<Rightarrow> Some (Err Code_NotFound, w))"

definition mock_delete_object :: "string \<Rightarrow> (mock, unit rpc) act" where
  "mock_delete_object name w =
     (if hm_contains (mk_objects w) name then Some (Ok (), on_metadata (mm_objects_update (hm_remove name)) w)
      else Some (Err Code_NotFound, w))"

text \<open>The next chunk id.\<close>

definition mock_next_id :: "(mock, u64) act" where
  "mock_next_id w =
     (let i = mm_next_chunk_id (mk_metadata w) in
      if unat i + 1 < 2 ^ 64 then Some (i, on_metadata (mm_next_chunk_id_update (\<lambda>_. i + 1)) w) else None)"

definition mock_allocate_chunk :: "string \<Rightarrow> u32 \<Rightarrow> (mock, (u64 \<times> u64 \<times> string) rpc) act" where
  "mock_allocate_chunk name c w =
     (if mm_fail_allocate_chunk (mk_metadata w) then Some (Err Code_Internal, w)
      else case mk_nodes w of
             [] \<Rightarrow> Some (Err Code_Unavailable, w)
           | node # _ \<Rightarrow> bnd mock_next_id (\<lambda>i. ret (Ok (i, msn_id node, msn_address node))) w)"

text \<open>The chunk id is added to the object, when there is such an object.\<close>

definition mock_attach :: "u64 \<Rightarrow> string \<Rightarrow> mock \<Rightarrow> mock" where
  "mock_attach i name w =
     (case hm_get (mk_objects w) name of
        None \<Rightarrow> w
      | Some ob \<Rightarrow> on_metadata (mm_objects_update
          (hm_insert name (ob\<lparr>so_chunk_ids := so_chunk_ids ob @ [i]\<rparr>))) w)"

definition mock_confirm_chunk :: "u64 \<Rightarrow> string \<Rightarrow> u32 \<Rightarrow> u64 \<Rightarrow> (mock, unit rpc) act" where
  "mock_confirm_chunk i name c node w =
     Some (Ok (), mock_attach i name (on_metadata (mm_chunks_update
       (hm_insert i \<lparr>sc_object_name = name, sc_checksum = c, sc_storage_node_ids = [node]\<rparr>)) w))"

definition mock_list_objects :: "(mock, PMetaObject list rpc) act" where
  "mock_list_objects w =
     Some (Ok (map (\<lambda>(name, ob). \<lparr>po_name = name, po_checksum = so_checksum ob,
       po_chunks = mock_chunks_of w (so_chunk_ids ob), po_total_size = 0\<rparr>) (mk_objects w)), w)"

definition mock_delete_chunk :: "u64 \<Rightarrow> (mock, unit rpc) act" where
  "mock_delete_chunk i w = Some (Ok (), on_metadata (mm_chunks_update (hm_remove i)) w)"

definition mock_put_chunk :: "string \<Rightarrow> u32 \<Rightarrow> (mock, (u64 \<times> string) rpc) act" where
  "mock_put_chunk name c w =
     (case mk_nodes w of
        [] \<Rightarrow> Some (Err Code_Unavailable, w)
      | node # _ \<Rightarrow>
          bnd mock_next_id (\<lambda>i w.
            Some (Ok (i, msn_address node), mock_attach i name (on_metadata (mm_chunks_update
              (hm_insert i \<lparr>sc_object_name = name, sc_checksum = c, sc_storage_node_ids = [msn_id node]\<rparr>)) w))) w)"

definition mock_put_storage_node :: "string \<Rightarrow> (mock, u64 rpc) act" where
  "mock_put_storage_node address w =
     (let i = of_nat (length (mk_nodes w)) + 1 in
      Some (Ok i, on_metadata (mm_storage_nodes_update (\<lambda>ns. ns @ [\<lparr>msn_id = i, msn_address = address\<rparr>])) w))"

definition mock_get_chunk :: "u64 \<Rightarrow> (mock, GetChunkResponse rpc) act" where
  "mock_get_chunk i w =
     (case hm_get (mk_chunks w) i of
        Some c \<Rightarrow> Some (Ok \<lparr>gc_object_name = sc_object_name c, gc_checksum = sc_checksum c,
          gc_storage_nodes = mock_nodes_of w (sc_storage_node_ids c)\<rparr>, w)
      | None \<Rightarrow> Some (Err Code_NotFound, w))"

definition mock_get_storage_node :: "u64 \<Rightarrow> (mock, string rpc) act" where
  "mock_get_storage_node i w =
     (case find (\<lambda>n. msn_id n = i) (mk_nodes w) of
        Some node \<Rightarrow> Some (Ok (msn_address node), w)
      | None \<Rightarrow> Some (Err Code_NotFound, w))"

definition mock_delete_storage_node :: "u64 \<Rightarrow> (mock, unit rpc) act" where
  "mock_delete_storage_node i w =
     (let kept = filter (\<lambda>n. msn_id n \<noteq> i) (mk_nodes w);
          w' = on_metadata (mm_storage_nodes_update (\<lambda>_. kept)) w in
      if length kept = length (mk_nodes w) then Some (Err Code_NotFound, w') else Some (Ok (), w'))"

definition mock_list_under_replicated_chunks :: "u32 \<Rightarrow> (mock, UnderReplicatedChunk list rpc) act" where
  "mock_list_under_replicated_chunks max_replicas w =
     Some (Ok (map (\<lambda>(i, c). \<lparr>ur_chunk_id = i, ur_checksum = sc_checksum c, ur_storage_node_ids = sc_storage_node_ids c\<rparr>)
       (filter (\<lambda>(_, c). length (sc_storage_node_ids c) < unat max_replicas) (mk_chunks w))), w)"

definition mock_add_chunk_replica :: "u64 \<Rightarrow> u64 \<Rightarrow> (mock, unit rpc) act" where
  "mock_add_chunk_replica i node w =
     (case hm_get (mk_chunks w) i of
        Some c \<Rightarrow> Some (Ok (), on_metadata (mm_chunks_update
          (hm_insert i (c\<lparr>sc_storage_node_ids := sc_storage_node_ids c @ [node]\<rparr>))) w)
      | None \<Rightarrow> Some (Err Code_NotFound, w))"

definition mock_update_object_checksum :: "string \<Rightarrow> u32 \<Rightarrow> u64 \<Rightarrow> (mock, unit rpc) act" where
  "mock_update_object_checksum name c total_size w =
     (case hm_get (mk_objects w) name of
        Some ob \<Rightarrow> Some (Ok (), on_metadata (mm_objects_update (hm_insert name (ob\<lparr>so_checksum := c\<rparr>))) w)
      | None \<Rightarrow> Some (Err Code_NotFound, w))"

definition mock_metadata :: "mock MetadataClient" where
  "mock_metadata =
     \<lparr>mcl_list_storage_nodes = mock_list_storage_nodes, mcl_put_object = mock_put_object,
      mcl_get_object = mock_get_object, mcl_delete_object = mock_delete_object,
      mcl_allocate_chunk = mock_allocate_chunk, mcl_confirm_chunk = mock_confirm_chunk,
      mcl_list_objects = mock_list_objects, mcl_delete_chunk = mock_delete_chunk,
      mcl_put_chunk = mock_put_chunk, mcl_put_storage_node = mock_put_storage_node,
      mcl_get_chunk = mock_get_chunk, mcl_get_storage_node = mock_get_storage_node,
      mcl_delete_storage_node = mock_delete_storage_node,
      mcl_list_under_replicated_chunks = mock_list_under_replicated_chunks,
      mcl_add_chunk_replica = mock_add_chunk_replica,
      mcl_update_object_checksum = mock_update_object_checksum\<rparr>"

section \<open>The storage node client\<close>

definition mock_connect :: "string \<Rightarrow> (mock, (MockStorageNodeClient, code) result) act" where
  "mock_connect address w =
     Some (Ok \<lparr>mn_chunk_size = mf_chunk_size (mk_factory w), mn_fail_write = False, mn_fail_read = False\<rparr>, w)"

definition mock_get_chunk_size :: "MockStorageNodeClient \<Rightarrow> (mock, u64 rpc) act" where
  "mock_get_chunk_size cl = ret (Ok (mn_chunk_size cl))"

definition mock_write_chunk :: "MockStorageNodeClient \<Rightarrow> u64 \<Rightarrow> bytes \<Rightarrow> (mock, u64 rpc) act" where
  "mock_write_chunk cl i chunk_bytes w =
     (if mn_fail_write cl then Some (Err Code_Internal, w)
      else Some (Ok i, on_blobs (hm_insert i chunk_bytes) w))"

definition mock_read_chunk :: "'h crc32 \<Rightarrow> MockStorageNodeClient \<Rightarrow> u64 \<Rightarrow> (mock, (u64 \<times> bytes \<times> u32) rpc) act" where
  "mock_read_chunk H cl i w =
     (if mn_fail_read cl then Some (Err Code_Internal, w)
      else case hm_get (mk_blobs w) i of
             Some bs \<Rightarrow> Some (Ok (i, bs, h_finalize H (h_update H (h_new H) bs)), w)
           | None \<Rightarrow> Some (Err Code_NotFound, w))"

definition mock_remove_chunk :: "MockStorageNodeClient \<Rightarrow> u64 \<Rightarrow> (mock, u64 rpc) act" where
  "mock_remove_chunk cl i w = Some (Ok i, on_blobs (hm_remove i) w)"

definition mock_get_free_chunks :: "MockStorageNodeClient \<Rightarrow> (mock, u64 rpc) act" where
  "mock_get_free_chunks cl = ret (Ok 100)"

definition mock_check_health :: "MockStorageNodeClient \<Rightarrow> (mock, bool rpc) act" where
  "mock_check_health cl = ret (Ok True)"

definition mock_storage :: "'h crc32 \<Rightarrow> (MockStorageNodeClient, mock) StorageNodeClient" where
  "mock_storage H =
     \<lparr>ncl_connect = mock_connect, ncl_get_chunk_size = mock_get_chunk_size,
      ncl_write_chunk = mock_write_chunk, ncl_read_chunk = mock_read_chunk H,
      ncl_delete_chunk = mock_remove_chunk, ncl_get_free_chunks = mock_get_free_chunks,
      ncl_check_health = mock_check_health\<rparr>"

end
