(* ===== verification/MocksCorrect.thy ===== *)
theory MocksCorrect
  imports Mocks GatewayCorrect
begin

text \<open>
  The gateway over its mock clients, for every object name, every data and every chunk size: an
  upload is accepted, stores the data, and both downloads return it; a deletion is accepted and
  leaves no object. These are total: each request is answered.
\<close>

section \<open>What the mocks hold\<close>

definition mock_chunk :: "mock \<Rightarrow> u64 \<Rightarrow> bytes \<Rightarrow> bool" where
  "mock_chunk w i d \<longleftrightarrow> unat i < unat (mm_next_chunk_id (mk_metadata w)) \<and> hm_get (mk_blobs w) i = Some d \<and>
     (\<exists>c. hm_get (mk_chunks w) i = Some c \<and> sc_storage_node_ids c = [msn_id (hd (mk_nodes w))])"

definition mock_holds :: "mock \<Rightarrow> string \<Rightarrow> bytes list \<Rightarrow> bool" where
  "mock_holds w n ds \<longleftrightarrow>
     (\<exists>ob. hm_get (mk_objects w) n = Some ob \<and> list_all2 (mock_chunk w) (so_chunk_ids ob) ds)"

text \<open>A test state: a node, no injected failure, and connections made by the factory.\<close>

definition mock_ready :: "(MockStorageNodeClient, mock) AppState \<Rightarrow> bool" where
  "mock_ready s \<longleftrightarrow> mk_nodes (gw_world s) \<noteq> [] \<and> 0 < mf_chunk_size (mk_factory (gw_world s)) \<and>
     \<not> mm_fail_list_storage_nodes (mk_metadata (gw_world s)) \<and> \<not> mm_fail_put_object (mk_metadata (gw_world s)) \<and>
     \<not> mm_fail_allocate_chunk (mk_metadata (gw_world s)) \<and>
     (\<forall>a cl. hm_get (gw_connections s) a = Some cl \<longrightarrow> \<not> mn_fail_write cl \<and> \<not> mn_fail_read cl)"

text \<open>Room for \<open>k\<close> more chunk ids.\<close>

definition mock_room :: "mock \<Rightarrow> nat \<Rightarrow> bool" where
  "mock_room w k \<longleftrightarrow> unat (mm_next_chunk_id (mk_metadata w)) + k < 2 ^ 64"

lemmas mock_ops = mock_list_storage_nodes_def mock_put_object_def mock_get_object_def mock_delete_object_def
  mock_allocate_chunk_def mock_next_id_def mock_attach_def mock_confirm_chunk_def mock_list_objects_def
  mock_delete_chunk_def mock_update_object_checksum_def
  mock_connect_def mock_get_chunk_size_def mock_write_chunk_def mock_read_chunk_def mock_remove_chunk_def
  on_metadata_def on_blobs_def

lemma mock_fields [simp]:
  "mcl_list_storage_nodes mock_metadata = mock_list_storage_nodes"
  "mcl_put_object mock_metadata = mock_put_object"
  "mcl_get_object mock_metadata = mock_get_object"
  "mcl_delete_object mock_metadata = mock_delete_object"
  "mcl_allocate_chunk mock_metadata = mock_allocate_chunk"
  "mcl_confirm_chunk mock_metadata = mock_confirm_chunk"
  "mcl_list_objects mock_metadata = mock_list_objects"
  "mcl_delete_chunk mock_metadata = mock_delete_chunk"
  "mcl_update_object_checksum mock_metadata = mock_update_object_checksum"
  "ncl_connect (mock_storage H) = mock_connect"
  "ncl_get_chunk_size (mock_storage H) = mock_get_chunk_size"
  "ncl_write_chunk (mock_storage H) = mock_write_chunk"
  "ncl_read_chunk (mock_storage H) = mock_read_chunk H"
  "ncl_delete_chunk (mock_storage H) = mock_remove_chunk"
  by (simp_all add: mock_metadata_def mock_storage_def)

section \<open>Uploads\<close>

lemma mock_get_or_connect:
  assumes "mock_ready s"
  shows "\<exists>cl s'. get_or_connect (mock_storage H) a s = Some (Ok cl, s') \<and> mock_ready s' \<and>
    gw_world s' = gw_world s \<and> gw_metrics s' = gw_metrics s \<and> \<not> mn_fail_write cl \<and> \<not> mn_fail_read cl"
  using assms
  by (cases "hm_get (gw_connections s) a")
     (auto simp: get_or_connect_def mock_ready_def try_or_def bnd_def gw_call_def mock_connect_def simp del: map_of_eq_Some_iff)

text \<open>The state after a chunk is stored: a fresh id, its bytes, and its entry in the object.\<close>

definition mock_stored :: "string \<Rightarrow> bytes \<Rightarrow> u32 \<Rightarrow> mock \<Rightarrow> mock" where
  "mock_stored n d ck w =
     (let i = mm_next_chunk_id (mk_metadata w) in
      mock_attach i n (on_metadata (mm_chunks_update (hm_insert i
          \<lparr>sc_object_name = n, sc_checksum = ck, sc_storage_node_ids = [msn_id (hd (mk_nodes w))]\<rparr>))
        (on_blobs (hm_insert i d) (on_metadata (mm_next_chunk_id_update (\<lambda>_. i + 1)) w))))"

lemma mock_attach_frame [simp]:
  "mk_factory (mock_attach i n w) = mk_factory w" "mk_chunks (mock_attach i n w) = mk_chunks w"
  "mk_nodes (mock_attach i n w) = mk_nodes w"
  "mm_next_chunk_id (mk_metadata (mock_attach i n w)) = mm_next_chunk_id (mk_metadata w)"
  "mm_fail_list_storage_nodes (mk_metadata (mock_attach i n w)) = mm_fail_list_storage_nodes (mk_metadata w)"
  "mm_fail_put_object (mk_metadata (mock_attach i n w)) = mm_fail_put_object (mk_metadata w)"
  "mm_fail_allocate_chunk (mk_metadata (mock_attach i n w)) = mm_fail_allocate_chunk (mk_metadata w)"
  by (simp_all add: mock_attach_def on_metadata_def split: option.split)

lemma mock_attach_objects:
  "hm_get (mk_objects (mock_attach i n w)) m =
     (if m = n then map_option (\<lambda>ob. ob\<lparr>so_chunk_ids := so_chunk_ids ob @ [i]\<rparr>) (hm_get (mk_objects w) n)
      else hm_get (mk_objects w) m)"
  by (simp add: mock_attach_def on_metadata_def split: option.split)

text \<open>
  What an upload to \<open>n\<close> leaves alone: the other objects, every chunk stored, and the list of
  the object names but for \<open>n\<close>.
\<close>

definition others_kept :: "string \<Rightarrow> mock \<Rightarrow> mock \<Rightarrow> bool" where
  "others_kept n w w' \<longleftrightarrow> (\<forall>m. m \<noteq> n \<longrightarrow> hm_get (mk_objects w') m = hm_get (mk_objects w) m) \<and>
     (\<forall>i d. mock_chunk w i d \<longrightarrow> mock_chunk w' i d) \<and>
     hm_keys (mk_objects w') = (if n \<in> set (hm_keys (mk_objects w)) then hm_keys (mk_objects w) else hm_keys (mk_objects w) @ [n])"

lemma others_kept_trans:
  "others_kept n w w' \<Longrightarrow> others_kept n w' w'' \<Longrightarrow> others_kept n w w''"
  by (auto simp: others_kept_def)

lemma hm_keys_insert:
  "hm_keys (hm_insert k v m) = (if k \<in> set (hm_keys m) then hm_keys m else hm_keys m @ [k])"
  by (induction m) auto

lemma mock_stored_grows:
  assumes "mock_room w 1" and "mock_chunk w j e"
  shows "mock_chunk (mock_stored n d ck w) j e"
  using assms by (auto simp: mock_room_def unat_word_ariths mock_chunk_def mock_stored_def Let_def on_metadata_def on_blobs_def)

lemma mock_stored_holds:
  assumes room: "mock_room w 1" and h: "mock_holds w n ds"
  shows "mock_holds (mock_stored n d ck w) n (ds @ [d])"
proof -
  obtain ob where ob: "hm_get (mk_objects w) n = Some ob" "list_all2 (mock_chunk w) (so_chunk_ids ob) ds"
    using h unfolding mock_holds_def by blast
  let ?i = "mm_next_chunk_id (mk_metadata w)" and ?w = "mock_stored n d ck w"
  have next_id: "unat (?i + 1) = unat ?i + 1"
    using room by (simp add: mock_room_def unat_word_ariths)
  have "list_all2 (mock_chunk ?w) (so_chunk_ids ob) ds"
    using ob(2) mock_stored_grows [OF room] by (blast intro: list_all2_mono)
  moreover have "mock_chunk ?w ?i d"
    using next_id by (auto simp: mock_chunk_def mock_stored_def Let_def on_metadata_def on_blobs_def)
  moreover have "hm_get (mk_objects ?w) n = Some (ob\<lparr>so_chunk_ids := so_chunk_ids ob @ [?i]\<rparr>)"
    using ob(1) by (simp add: mock_stored_def Let_def mock_attach_objects on_metadata_def on_blobs_def)
  ultimately show ?thesis by (auto simp: mock_holds_def intro: list_all2_appendI)
qed

lemma mock_ready_stored:
  "mock_ready (s\<lparr>gw_world := mock_stored n d ck w\<rparr>) = mock_ready (s\<lparr>gw_world := w\<rparr>)"
  by (simp add: mock_ready_def mock_stored_def Let_def on_metadata_def on_blobs_def)

text \<open>One chunk of an upload.\<close>

lemma mock_upload_chunk:
  assumes r: "mock_ready s" and room: "mock_room (gw_world s) 1"
  shows "\<exists>s'. upload_chunk mock_metadata (mock_storage H) H n d s = Some (Ok (), s') \<and> mock_ready s' \<and>
    gw_world s' = mock_stored n d (compute_checksum H d) (gw_world s)"
proof -
  let ?w = "gw_world s" and ?i = "mm_next_chunk_id (mk_metadata (gw_world s))" and ?nd = "hd (mk_nodes (gw_world s))"
  let ?w1 = "on_metadata (mm_next_chunk_id_update (\<lambda>_. ?i + 1)) ?w"
  have al: "gw_call (mock_allocate_chunk n c) s = Some (Ok (?i, msn_id ?nd, msn_address ?nd), s\<lparr>gw_world := ?w1\<rparr>)" for c
    using r room by (cases "mk_nodes ?w")
      (auto simp: gw_call_def mock_ready_def mock_allocate_chunk_def mock_next_id_def mock_room_def bnd_def ret_def Let_def)
  have "mock_ready (s\<lparr>gw_world := ?w1\<rparr>)" using r by (simp add: mock_ready_def on_metadata_def)
  from mock_get_or_connect [OF this, of H "msn_address ?nd"]
  obtain cl s2 where s2: "get_or_connect (mock_storage H) (msn_address ?nd) (s\<lparr>gw_world := ?w1\<rparr>) = Some (Ok cl, s2)"
    "mock_ready s2" "gw_world s2 = ?w1" "\<not> mn_fail_write cl" by auto
  let ?s3 = "s2\<lparr>gw_world := mock_stored n d (compute_checksum H d) ?w\<rparr>"
  have "upload_chunk mock_metadata (mock_storage H) H n d s = Some (Ok (), ?s3)"
    using s2(3,4) by (simp add: upload_chunk_def try_or_run(1) al s2(1))
      (simp add: try_or_def bnd_def gw_call_def mock_write_chunk_def mock_confirm_chunk_def mock_stored_def ret_def Let_def
        on_metadata_def on_blobs_def)
  moreover have "mock_ready ?s3"
    using s2(2,3) by (simp add: mock_ready_def mock_stored_def Let_def on_metadata_def on_blobs_def)
  ultimately show ?thesis by auto
qed

lemma mock_stored_room: "mock_room w (Suc k) \<Longrightarrow> mock_room (mock_stored n d ck w) k"
  by (simp add: mock_room_def mock_stored_def Let_def on_metadata_def on_blobs_def unat_word_ariths)

lemma mock_stored_other:
  assumes "mock_room w 1" and "mock_holds w n ds"
  shows "others_kept n w (mock_stored n d ck w)"
proof -
  have "hm_keys (mk_objects (mock_attach i n w')) = hm_keys (mk_objects w')" if "mk_objects w' = mk_objects w" for i w'
    using assms(2) that
    by (auto simp: mock_holds_def mock_attach_def on_metadata_def hm_keys_insert split: option.split
        dest!: map_of_SomeD intro: rev_image_eqI)
  moreover have "n \<in> set (hm_keys (mk_objects w))"
    using assms(2) by (auto simp: mock_holds_def dest!: map_of_SomeD intro: rev_image_eqI)
  ultimately show ?thesis
    using mock_stored_grows [OF assms(1)]
    by (auto simp: others_kept_def mock_stored_def Let_def mock_attach_objects on_metadata_def on_blobs_def)
qed

lemma mock_room_mono: "mock_room w k \<Longrightarrow> j \<le> k \<Longrightarrow> mock_room w j"
  by (simp add: mock_room_def)

lemma mock_upload_chunks:
  assumes "mock_ready s" and "mock_room (gw_world s) (length ds)" and "mock_holds (gw_world s) n es"
  shows "\<exists>s'. upload_chunks mock_metadata (mock_storage H) H n ds s = Some (Ok (), s') \<and> mock_ready s' \<and>
    mock_holds (gw_world s') n (es @ ds) \<and> others_kept n (gw_world s) (gw_world s') \<and>
    (\<forall>k. mock_room (gw_world s) (length ds + k) \<longrightarrow> mock_room (gw_world s') k)"
  using assms
proof (induction ds arbitrary: s es)
  case Nil
  then have "n \<in> set (hm_keys (mk_objects (gw_world s)))"
    by (auto simp: mock_holds_def dest!: map_of_SomeD intro: rev_image_eqI)
  with Nil show ?case by (simp add: ret_def others_kept_def)
next
  case (Cons d ds)
  let ?w = "mock_stored n d (compute_checksum H d) (gw_world s)"
  obtain s1 where s1: "upload_chunk mock_metadata (mock_storage H) H n d s = Some (Ok (), s1)" "mock_ready s1" "gw_world s1 = ?w"
    using mock_upload_chunk [OF Cons.prems(1), of H n d] Cons.prems(2) by (auto intro: mock_room_mono)
  have "mock_room ?w (length ds)" using Cons.prems(2) by (intro mock_stored_room) simp
  moreover have "mock_holds ?w n (es @ [d])"
    using Cons.prems by (intro mock_stored_holds) (auto intro: mock_room_mono)
  ultimately obtain s2 where "upload_chunks mock_metadata (mock_storage H) H n ds s1 = Some (Ok (), s2)" "mock_ready s2"
    "mock_holds (gw_world s2) n (es @ d # ds)" "others_kept n ?w (gw_world s2)"
    "\<forall>k. mock_room ?w (length ds + k) \<longrightarrow> mock_room (gw_world s2) k"
    using Cons.IH [of s1 "es @ [d]"] s1(2,3) by auto
  moreover have "others_kept n (gw_world s) ?w"
    using Cons.prems by (intro mock_stored_other) (auto intro: mock_room_mono)
  moreover have "mock_room ?w (length ds + k)" if "mock_room (gw_world s) (length (d # ds) + k)" for k
    using that by (intro mock_stored_room) simp
  ultimately show ?case using s1(1) others_kept_trans by (auto simp: try_or_run(1))
qed

lemma mock_query:
  assumes "mock_ready s"
  shows "query_chunk_size mock_metadata (mock_storage H) err s = Some (Ok (unat (mf_chunk_size (mk_factory (gw_world s)))), s)"
  using assms by (cases "mk_nodes (gw_world s)")
    (auto simp: query_chunk_size_def mock_ready_def try_or_def bnd_def gw_call_def ret_def
      mock_list_storage_nodes_def mock_connect_def mock_get_chunk_size_def)

lemma mock_put_twice:
  assumes r: "mock_ready s" and nm: "validate_object_name alnum n = Ok ()" and b64: "dec payload = Some data"
    and small: "length data \<le> MAX_OBJECT_SIZE" and known: "hm_contains (mk_objects (gw_world s)) n"
  shows "\<exists>s'. handle_put_object mock_metadata (mock_storage H) H alnum dec n payload s = Some (Err CONFLICT, s')"
proof -
  have "0 < unat (mf_chunk_size (mk_factory (gw_world s)))"
    using r by (simp add: mock_ready_def word_gt_0_no unat_gt_0 word_neq_0_conv)
  moreover have "gw_call (mock_put_object c n) s = Some (Err Code_AlreadyExists, s)" for c
    using r known by (simp add: gw_call_def mock_put_object_def mock_ready_def)
  ultimately show ?thesis
    using small by (simp add: handle_put_object_def nm b64 try_or_run mock_query [OF r] count_fail_def fail_def
        gw_metric_upd_def bnd_def ret_def)
qed

lemma mock_put:
  assumes r: "mock_ready s" and nm: "validate_object_name alnum n = Ok ()" and b64: "dec payload = Some data"
    and small: "length data \<le> MAX_OBJECT_SIZE" and fresh: "hm_get (mk_objects (gw_world s)) n = None"
    and room: "mock_room (gw_world s) (length data)"
  shows "\<exists>s' ds. handle_put_object mock_metadata (mock_storage H) H alnum dec n payload s = Some (Ok (length data), s') \<and>
    mock_ready s' \<and> mock_holds (gw_world s') n ds \<and> concat ds = data \<and> others_kept n (gw_world s) (gw_world s') \<and>
    (\<forall>k. mock_room (gw_world s) (length data + k) \<longrightarrow> mock_room (gw_world s') k)"
proof -
  let ?w = "gw_world s" and ?z = "unat (mf_chunk_size (mk_factory (gw_world s)))"
  let ?cs = "slice_chunks ?z data"
  let ?w1 = "on_metadata (mm_objects_update (hm_insert n \<lparr>so_checksum = compute_checksum H data, so_chunk_ids = []\<rparr>)) ?w"
  have z: "0 < ?z" using r by (simp add: mock_ready_def word_gt_0_no unat_gt_0 word_neq_0_conv)
  have len: "length ?cs \<le> length data"
  proof -
    have "length cs \<le> length (concat cs)" if "\<forall>c \<in> set cs. c \<noteq> []" for cs :: "bytes list"
      using that
    proof (induction cs)
      case (Cons c cs)
      then have "1 \<le> length c" by (cases c) auto
      with Cons show ?case by simp
    qed simp
    then show ?thesis using slice_chunks_size [OF z] concat_slice_chunks [of ?z data] by metis
  qed
  note q = mock_query [OF r, of H]
  have p: "gw_call (mock_put_object (compute_checksum H data) n) s = Some (Ok (), s\<lparr>gw_world := ?w1\<rparr>)"
    using r fresh by (simp add: gw_call_def mock_put_object_def mock_ready_def)
  have "mock_ready (s\<lparr>gw_world := ?w1\<rparr>)" "mock_room ?w1 (length ?cs)" "mock_holds ?w1 n []"
    using r room len by (auto simp: mock_ready_def mock_room_def mock_holds_def on_metadata_def)
  then obtain s2 where s2: "upload_chunks mock_metadata (mock_storage H) H n ?cs (s\<lparr>gw_world := ?w1\<rparr>) = Some (Ok (), s2)"
    "mock_ready s2" "mock_holds (gw_world s2) n ?cs"
    "others_kept n ?w1 (gw_world s2)" "\<forall>k. mock_room ?w1 (length ?cs + k) \<longrightarrow> mock_room (gw_world s2) k"
    using mock_upload_chunks [of "s\<lparr>gw_world := ?w1\<rparr>" ?cs n "[]" H] by auto
  obtain s3 where s3: "upload_done ''object'' (length data) s2 = Some (Ok (length data), s3)" "gw_world s3 = gw_world s2" "mock_ready s3"
    using s2(2) by (auto simp: upload_done_def bnd_def gw_metric_upd_def ret_def mock_ready_def)
  have "handle_put_object mock_metadata (mock_storage H) H alnum dec n payload s = Some (Ok (length data), s3)"
    using z small by (simp add: handle_put_object_def nm b64 try_or_run(1) q p s2(1) s3(1) split: result.split)
  moreover have "others_kept n ?w ?w1"
    by (auto simp: others_kept_def on_metadata_def mock_chunk_def hm_keys_insert)
  then have "others_kept n ?w (gw_world s3)" using others_kept_trans s2(4) s3(2) by metis
  moreover have "mock_room (gw_world s3) k" if "mock_room ?w (length data + k)" for k
    using that s2(5) s3(2) len by (auto simp: mock_room_def on_metadata_def)
  moreover have "mock_holds (gw_world s3) n ?cs" "concat ?cs = data"
    using s2(3) s3(2) by (simp_all add: concat_slice_chunks)
  ultimately show ?thesis using s3(3) by blast
qed

section \<open>Downloads\<close>

lemma mock_nodes_head:
  "mk_nodes w \<noteq> [] \<Longrightarrow> mock_nodes_of w [msn_id (hd (mk_nodes w))] = [hd (mk_nodes w)]"
  by (cases "mk_nodes w") (simp_all add: mock_nodes_of_def List.map_filter_def)

text \<open>The answer for an object the mock holds: its chunks in order, each on the first node.\<close>

lemma mock_chunks_held:
  assumes "list_all2 (mock_chunk w) is ds" and "mk_nodes w \<noteq> []"
  shows "list_all2 (\<lambda>c d. hm_get (mk_blobs w) (pc_id c) = Some d \<and> pc_storage_nodes c = [hd (mk_nodes w)])
    (mock_chunks_of w is) ds"
  using assms(1)
proof (induction rule: list_all2_induct)
  case Nil
  show ?case by (simp add: mock_chunks_of_def List.map_filter_def)
next
  case (Cons i "is" d ds)
  then show ?case
    using mock_nodes_head [OF assms(2)] by (auto simp: mock_chunks_of_def List.map_filter_def mock_chunk_def)
qed

lemma mock_read_replicas:
  assumes r: "mock_ready s" and b: "hm_get (mk_blobs (gw_world s)) i = Some d"
  shows "\<exists>s'. read_replicas (mock_storage H) i [nd] s = Some (Ok d, s') \<and> mock_ready s' \<and> gw_world s' = gw_world s"
proof -
  obtain cl s1 where s1: "get_or_connect (mock_storage H) (msn_address nd) s = Some (Ok cl, s1)" "mock_ready s1"
    "gw_world s1 = gw_world s" "\<not> mn_fail_read cl" using mock_get_or_connect [OF r] by blast
  have "gw_call (retry_with_backoff 2 (mock_read_chunk H cl i)) s1 =
      Some (Ok (i, d, h_finalize H (h_update H (h_new H) d)), s1)"
    using retry_first [of "mock_read_chunk H cl i" "gw_world s1"] b s1(3,4) by (simp add: gw_call_def mock_read_chunk_def)
  then show ?thesis using s1 by (auto simp: try_or_run(1) ret_def)
qed

lemma mock_join_reads:
  assumes "list_all2 (\<lambda>c d. hm_get (mk_blobs (gw_world s)) (pc_id c) = Some d \<and> pc_storage_nodes c = [nd]) cs ds"
    and "mock_ready s"
  shows "\<exists>s'. join_reads (mock_storage H) cs s = Some (map Ok ds, s') \<and> mock_ready s' \<and> gw_world s' = gw_world s"
  using assms
proof (induction cs arbitrary: s ds)
  case Nil
  then show ?case by (simp add: ret_def)
next
  case (Cons c cs)
  then obtain d ds' where ds: "ds = d # ds'" "hm_get (mk_blobs (gw_world s)) (pc_id c) = Some d" "pc_storage_nodes c = [nd]"
    "list_all2 (\<lambda>c d. hm_get (mk_blobs (gw_world s)) (pc_id c) = Some d \<and> pc_storage_nodes c = [nd]) cs ds'"
    by (auto simp: list_all2_Cons1)
  obtain s1 where s1: "read_replicas (mock_storage H) (pc_id c) [nd] s = Some (Ok d, s1)" "mock_ready s1" "gw_world s1 = gw_world s"
    using mock_read_replicas [OF Cons.prems(2) ds(2)] by blast
  then obtain s2 where "join_reads (mock_storage H) cs s1 = Some (map Ok ds', s2)" "mock_ready s2" "gw_world s2 = gw_world s1"
    using Cons.IH [of s1 ds'] ds(4) by auto
  then show ?case using s1 ds by (simp add: bnd_run ret_def)
qed

lemma mock_stream_body:
  assumes "list_all2 (\<lambda>c d. hm_get (mk_blobs (gw_world s)) (pc_id c) = Some d \<and> pc_storage_nodes c = [nd]) cs ds"
    and "mock_ready s"
  shows "\<exists>s'. stream_body (mock_storage H) cs s = Some (map Ok ds, s') \<and> mock_ready s' \<and> gw_world s' = gw_world s"
  using assms
proof (induction cs arbitrary: s ds)
  case Nil
  then show ?case by (simp add: ret_def)
next
  case (Cons c cs)
  then obtain d ds' where ds: "ds = d # ds'" "hm_get (mk_blobs (gw_world s)) (pc_id c) = Some d" "pc_storage_nodes c = [nd]"
    "list_all2 (\<lambda>c d. hm_get (mk_blobs (gw_world s)) (pc_id c) = Some d \<and> pc_storage_nodes c = [nd]) cs ds'"
    by (auto simp: list_all2_Cons1)
  obtain s1 where s1: "read_replicas (mock_storage H) (pc_id c) [nd] s = Some (Ok d, s1)" "mock_ready s1" "gw_world s1 = gw_world s"
    using mock_read_replicas [OF Cons.prems(2) ds(2)] by blast
  then obtain s2 where "stream_body (mock_storage H) cs s1 = Some (map Ok ds', s2)" "mock_ready s2" "gw_world s2 = gw_world s1"
    using Cons.IH [of s1 ds'] ds(4) by auto
  then show ?case using s1 ds by (simp add: try_or_run(1) bnd_run ret_def)
qed

lemma mock_get:
  assumes r: "mock_ready s" and nm: "validate_object_name alnum n = Ok ()" and h: "mock_holds (gw_world s) n ds"
  shows "\<exists>s'. handle_get_object mock_metadata (mock_storage H) alnum enc n s = Some (Ok (enc (concat ds)), s') \<and>
    mock_ready s' \<and> gw_world s' = gw_world s"
proof -
  obtain ob where ob: "hm_get (mk_objects (gw_world s)) n = Some ob" "list_all2 (mock_chunk (gw_world s)) (so_chunk_ids ob) ds"
    using h unfolding mock_holds_def by blast
  let ?cs = "mock_chunks_of (gw_world s) (so_chunk_ids ob)"
  have g: "gw_call (mock_get_object n) s = Some (Ok \<lparr>go_checksum = so_checksum ob, go_chunks = ?cs\<rparr>, s)"
    using ob(1) by (simp add: gw_call_def mock_get_object_def)
  have "mk_nodes (gw_world s) \<noteq> []" using r by (simp add: mock_ready_def)
  then obtain s1 where s1: "join_reads (mock_storage H) ?cs s = Some (map Ok ds, s1)" "mock_ready s1" "gw_world s1 = gw_world s"
    using mock_join_reads [OF mock_chunks_held [OF ob(2)] r] by blast
  then show ?thesis
    using nm g by (auto simp: handle_get_object_def try_or_run(1) bnd_run s1(1) concat_results_Ok gw_metric_upd_def
        bnd_def ret_def mock_ready_def)
qed

lemma mock_get_stream:
  assumes r: "mock_ready s" and nm: "validate_object_name alnum n = Ok ()" and h: "mock_holds (gw_world s) n ds"
  shows "\<exists>cs s1 s2. handle_get_object_stream mock_metadata (mock_storage H) alnum n s = Some (Ok cs, s1) \<and>
    stream_body (mock_storage H) cs s1 = Some (map Ok ds, s2) \<and> mock_ready s2 \<and> gw_world s2 = gw_world s"
proof -
  obtain ob where ob: "hm_get (mk_objects (gw_world s)) n = Some ob" "list_all2 (mock_chunk (gw_world s)) (so_chunk_ids ob) ds"
    using h unfolding mock_holds_def by blast
  let ?cs = "mock_chunks_of (gw_world s) (so_chunk_ids ob)"
  have g: "gw_call (mock_get_object n) s = Some (Ok \<lparr>go_checksum = so_checksum ob, go_chunks = ?cs\<rparr>, s)"
    using ob(1) by (simp add: gw_call_def mock_get_object_def)
  obtain s1 where s1: "handle_get_object_stream mock_metadata (mock_storage H) alnum n s = Some (Ok ?cs, s1)"
    "mock_ready s1" "gw_world s1 = gw_world s"
    using nm g r by (auto simp: handle_get_object_stream_def try_or_run(1) gw_metric_upd_def bnd_def ret_def mock_ready_def)
  have "mk_nodes (gw_world s1) \<noteq> []" using s1(2) by (simp add: mock_ready_def)
  then show ?thesis using mock_stream_body [OF mock_chunks_held s1(2)] ob(2) s1 by (metis (no_types, lifting))
qed

lemma mock_get_missing:
  assumes "validate_object_name alnum n = Ok ()" and "hm_get (mk_objects (gw_world s)) n = None"
  shows "\<exists>s'. handle_get_object mock_metadata (mock_storage H) alnum enc n s = Some (Err NOT_FOUND, s')"
    "\<exists>s'. handle_get_object_stream mock_metadata (mock_storage H) alnum n s = Some (Err NOT_FOUND, s')"
    "\<exists>s'. handle_delete_object mock_metadata (mock_storage H) alnum n s = Some (Err NOT_FOUND, s')"
proof -
  have g: "gw_call (mock_get_object n) s = Some (Err Code_NotFound, s)"
    using assms(2) by (simp add: gw_call_def mock_get_object_def)
  show "\<exists>s'. handle_get_object mock_metadata (mock_storage H) alnum enc n s = Some (Err NOT_FOUND, s')"
    "\<exists>s'. handle_get_object_stream mock_metadata (mock_storage H) alnum n s = Some (Err NOT_FOUND, s')"
    "\<exists>s'. handle_delete_object mock_metadata (mock_storage H) alnum n s = Some (Err NOT_FOUND, s')"
    using assms(1) by (simp_all add: handle_get_object_def handle_get_object_stream_def handle_delete_object_def
        try_or_run(2) g count_fail_def gw_metric_upd_def fail_def bnd_def ret_def)
qed

section \<open>Deletions\<close>

text \<open>Deleting chunks leaves the objects alone.\<close>

abbreviation same_objects :: "mock \<Rightarrow> mock \<Rightarrow> bool" where
  "same_objects w w' \<equiv> mk_objects w' = mk_objects w"

lemma mock_delete_at:
  assumes r: "mock_ready s"
  shows "\<exists>s'. delete_at (mock_storage H) i a s = Some (True, s') \<and> mock_ready s' \<and> same_objects (gw_world s) (gw_world s')"
proof -
  obtain cl s1 where s1: "get_or_connect (mock_storage H) a s = Some (Ok cl, s1)" "mock_ready s1" "gw_world s1 = gw_world s"
    using mock_get_or_connect [OF r] by blast
  have "gw_call (retry_with_backoff 2 (mock_remove_chunk cl i)) s1 =
      Some (Ok i, s1\<lparr>gw_world := on_blobs (hm_remove i) (gw_world s1)\<rparr>)"
    using retry_first [of "mock_remove_chunk cl i" "gw_world s1"] by (simp add: gw_call_def mock_remove_chunk_def)
  then show ?thesis using s1 by (auto simp: delete_at_def try_or_run(1) ret_def mock_ready_def on_blobs_def)
qed

lemma mock_join_deletes:
  "mock_ready s \<Longrightarrow> \<exists>bs s'. join_deletes (mock_storage H) ts s = Some (bs, s') \<and> mock_ready s' \<and>
     same_objects (gw_world s) (gw_world s')"
proof (induction ts arbitrary: s)
  case Nil
  then show ?case by (simp add: ret_def)
next
  case (Cons t ts)
  obtain i a where t: "t = (i, a)" by fastforce
  obtain s1 where s1: "delete_at (mock_storage H) i a s = Some (True, s1)" "mock_ready s1" "same_objects (gw_world s) (gw_world s1)"
    using mock_delete_at [OF Cons.prems] by blast
  obtain bs s2 where "join_deletes (mock_storage H) ts s1 = Some (bs, s2)" "mock_ready s2" "same_objects (gw_world s1) (gw_world s2)"
    using Cons.IH [OF s1(2)] by blast
  then show ?case using s1 by (auto simp: t bnd_run ret_def)
qed

lemma mock_delete_meta:
  "mock_ready s \<Longrightarrow> \<exists>s'. delete_meta_chunks mock_metadata cs s = Some ((), s') \<and> mock_ready s' \<and>
     same_objects (gw_world s) (gw_world s')"
proof (induction cs arbitrary: s)
  case Nil
  then show ?case by (simp add: ret_def)
next
  case (Cons c cs)
  let ?w = "on_metadata (mm_chunks_update (hm_remove (pc_id c))) (gw_world s)"
  have c: "gw_call (mock_delete_chunk (pc_id c)) s = Some (Ok (), s\<lparr>gw_world := ?w\<rparr>)"
    by (simp add: gw_call_def mock_delete_chunk_def)
  have "mock_ready (s\<lparr>gw_world := ?w\<rparr>)" using Cons.prems by (simp add: mock_ready_def on_metadata_def)
  then obtain s2 where "delete_meta_chunks mock_metadata cs (s\<lparr>gw_world := ?w\<rparr>) = Some ((), s2)" "mock_ready s2"
    "same_objects ?w (gw_world s2)" using Cons.IH [of "s\<lparr>gw_world := ?w\<rparr>"] by auto
  then show ?case by (auto simp: bnd_run c on_metadata_def)
qed

lemma mock_delete:
  assumes r: "mock_ready s" and nm: "validate_object_name alnum n = Ok ()" and ob: "hm_get (mk_objects (gw_world s)) n \<noteq> None"
  shows "\<exists>s'. handle_delete_object mock_metadata (mock_storage H) alnum n s = Some (Ok (), s') \<and> mock_ready s' \<and>
    mk_objects (gw_world s') = hm_remove n (mk_objects (gw_world s))"
proof -
  obtain ob where ob: "hm_get (mk_objects (gw_world s)) n = Some ob" using ob by blast
  let ?cs = "mock_chunks_of (gw_world s) (so_chunk_ids ob)"
  have g: "gw_call (mock_get_object n) s = Some (Ok \<lparr>go_checksum = so_checksum ob, go_chunks = ?cs\<rparr>, s)"
    using ob by (simp add: gw_call_def mock_get_object_def)
  obtain bs s1 where s1: "join_deletes (mock_storage H) (delete_targets ?cs) s = Some (bs, s1)" "mock_ready s1"
    "same_objects (gw_world s) (gw_world s1)" using mock_join_deletes [OF r] by blast
  obtain s2 where s2: "delete_meta_chunks mock_metadata ?cs s1 = Some ((), s2)" "mock_ready s2"
    "same_objects (gw_world s1) (gw_world s2)" using mock_delete_meta [OF s1(2)] by blast
  have o: "mk_objects (gw_world s2) = mk_objects (gw_world s)"
    using s1(3) s2(3) by simp
  let ?s3 = "s2\<lparr>gw_world := on_metadata (mm_objects_update (hm_remove n)) (gw_world s2)\<rparr>"
  have d: "gw_call (mock_delete_object n) s2 = Some (Ok (), ?s3)"
    using ob o by (simp add: gw_call_def mock_delete_object_def)
  have "\<exists>s'. handle_delete_object mock_metadata (mock_storage H) alnum n s = Some (Ok (), s') \<and> mock_ready s' \<and>
      gw_world s' = gw_world ?s3"
    using nm g s2(2) by (auto simp: handle_delete_object_def try_or_run(1) bnd_run s1(1) bnd_run s2(1) d
        gw_metric_upd_def bnd_def ret_def mock_ready_def on_metadata_def)
  then show ?thesis using o by (auto simp: on_metadata_def)
qed

section \<open>Listing\<close>

lemma mock_list_chunks:
  assumes "list_all2 (\<lambda>c d. hm_get (mk_blobs (gw_world s)) (pc_id c) = Some d \<and> pc_storage_nodes c = [nd]) cs ds"
  shows "\<exists>L. list_chunks (mock_storage H) enc cs s = Some (Ok L, s)"
  using assms
proof (induction cs arbitrary: ds)
  case Nil
  show ?case by (simp add: ret_def)
next
  case (Cons c cs)
  then obtain d ds' where d: "hm_get (mk_blobs (gw_world s)) (pc_id c) = Some d" "pc_storage_nodes c = [nd]"
    "list_all2 (\<lambda>c d. hm_get (mk_blobs (gw_world s)) (pc_id c) = Some d \<and> pc_storage_nodes c = [nd]) cs ds'"
    by (auto simp: list_all2_Cons1)
  obtain L where L: "list_chunks (mock_storage H) enc cs s = Some (Ok L, s)" using Cons.IH [OF d(3)] by blast
  obtain cl where cl: "mock_connect (msn_address nd) (gw_world s) = Some (Ok cl, gw_world s)" "\<not> mn_fail_read cl"
    by (simp add: mock_connect_def)
  have "gw_call (mock_connect (msn_address nd)) s = Some (Ok cl, s)" using cl by (simp add: gw_call_def)
  moreover have "gw_call (mock_read_chunk H cl (pc_id c)) s =
      Some (Ok (pc_id c, d, h_finalize H (h_update H (h_new H) d)), s)"
    using cl d by (simp add: gw_call_def mock_read_chunk_def)
  ultimately show ?case using d(2) L by (simp add: try_or_run(1) ret_def)
qed

lemma mock_list_all:
  assumes "mk_nodes (gw_world s) \<noteq> []"
    and "\<forall>(m, ob) \<in> set obs. \<exists>ds. list_all2 (mock_chunk (gw_world s)) (so_chunk_ids ob) ds"
  shows "\<exists>L. list_all_objects (mock_storage H) enc (map (\<lambda>(name, ob). \<lparr>po_name = name, po_checksum = so_checksum ob,
       po_chunks = mock_chunks_of (gw_world s) (so_chunk_ids ob), po_total_size = 0\<rparr>) obs) s = Some (Ok L, s) \<and>
     map lo_name L = map fst obs"
  using assms(2)
proof (induction obs)
  case Nil
  show ?case by (simp add: ret_def)
next
  case (Cons p obs)
  obtain m ob ds where p: "p = (m, ob)" "list_all2 (mock_chunk (gw_world s)) (so_chunk_ids ob) ds"
    using Cons.prems by fastforce
  obtain L1 where "list_chunks (mock_storage H) enc (mock_chunks_of (gw_world s) (so_chunk_ids ob)) s = Some (Ok L1, s)"
    using mock_list_chunks [OF mock_chunks_held [OF p(2) assms(1)]] by blast
  with Cons p(1) show ?case by (auto simp: try_or_def bnd_def ret_def)
qed

lemma mock_list:
  assumes r: "mock_ready s" and inv: "hm_invar (mk_objects (gw_world s))"
    and held: "\<And>m. hm_contains (mk_objects (gw_world s)) m \<Longrightarrow> \<exists>ds. mock_holds (gw_world s) m ds"
  shows "\<exists>L s'. handle_list_objects mock_metadata (mock_storage H) enc s = Some (Ok L, s') \<and>
    map lo_name L = hm_keys (mk_objects (gw_world s))"
proof -
  have "\<exists>ds. list_all2 (mock_chunk (gw_world s)) (so_chunk_ids ob) ds" if "(m, ob) \<in> set (mk_objects (gw_world s))" for m ob
  proof -
    have "hm_get (mk_objects (gw_world s)) m = Some ob" using inv that by simp
    then show ?thesis using held [of m] by (auto simp: mock_holds_def)
  qed
  then have "\<forall>(m, ob) \<in> set (mk_objects (gw_world s)). \<exists>ds. list_all2 (mock_chunk (gw_world s)) (so_chunk_ids ob) ds"
    by blast
  moreover have "mk_nodes (gw_world s) \<noteq> []" using r by (simp add: mock_ready_def)
  ultimately obtain L where L: "list_all_objects (mock_storage H) enc (map (\<lambda>(name, ob). \<lparr>po_name = name, po_checksum = so_checksum ob,
       po_chunks = mock_chunks_of (gw_world s) (so_chunk_ids ob), po_total_size = 0\<rparr>) (mk_objects (gw_world s))) s = Some (Ok L, s)"
     "map lo_name L = hm_keys (mk_objects (gw_world s))"
    using mock_list_all [of s "mk_objects (gw_world s)" H enc] by blast
  then show ?thesis
    by (auto simp: handle_list_objects_def try_or_def bnd_def gw_call_def mock_list_objects_def gw_metric_upd_def ret_def)
qed

end
