(* ===== verification/Testing.thy ===== *)
theory Testing
  imports Clients
begin

text \<open>
  How the repository's unit tests are read here: a test is an action on the state it sets up, which
  has no value when an assertion fails, an \<open>unwrap\<close> meets an error or the code panics. Tests of what
  third-party code does alone (JSON, base64, the metrics registry), and assertions on the text of a
  message, are left out. The CRC-32 hasher is instantiated with the IEEE polynomial.
\<close>

definition assert_that :: "bool \<Rightarrow> ('s, unit) act" where
  "assert_that b s = (if b then Some ((), s) else None)"

text \<open>\<open>unwrap\<close> and \<open>unwrap_err\<close>.\<close>

definition expect_ok :: "('s, ('a, 'e) result) act \<Rightarrow> ('s, 'a) act" where
  "expect_ok m = try_or m (\<lambda>_ _. None) ret"

definition expect_err :: "('s, ('a, 'e) result) act \<Rightarrow> ('s, 'e) act" where
  "expect_err m = try_or m ret (\<lambda>_ _. None)"

text \<open>A read of the state, a call that always returns, and an assertion on the state.\<close>

definition ask :: "('s \<Rightarrow> 'a) \<Rightarrow> ('s, 'a) act" where
  "ask f s = Some (f s, s)"

definition call :: "('s \<Rightarrow> 'a \<times> 's) \<Rightarrow> ('s, 'a) act" where
  "call f s = Some (f s)"

definition check :: "('s \<Rightarrow> bool) \<Rightarrow> ('s, unit) act" where
  "check P s = (if P s then Some ((), s) else None)"

definition passes :: "('s, 'a) act \<Rightarrow> 's \<Rightarrow> bool" where
  "passes t s \<longleftrightarrow> t s \<noteq> None"

abbreviation then_do :: "('s, 'a) act \<Rightarrow> ('s, 'b) act \<Rightarrow> ('s, 'b) act" where
  "then_do m n \<equiv> bnd m (\<lambda>_. n)"

abbreviation fails_with :: "('s, 'a io) act \<Rightarrow> io_error_kind \<Rightarrow> ('s, unit) act" where
  "fails_with m e \<equiv> bnd (expect_err m) (\<lambda>kind. assert_that (kind = e))"

text \<open>\<open>unwrap\<close> of an option, and a call of code that may panic.\<close>

definition expect_some :: "('s, 'a option) act \<Rightarrow> ('s, 'a) act" where
  "expect_some m s = (case m s of Some (Some x, s') \<Rightarrow> Some (x, s') | _ \<Rightarrow> None)"

definition exec_call :: "('s \<Rightarrow> 'a exec \<times> 's) \<Rightarrow> ('s, 'a) act" where
  "exec_call f s = (case f s of (Panic, _) \<Rightarrow> None | (Ret r, s') \<Rightarrow> Some (r, s'))"

text \<open>A byte string literal.\<close>

definition lit :: "string \<Rightarrow> bytes" where
  "lit s = map of_char s"

lemma length_lit [simp]: "length (lit s) = length s"
  by (simp add: lit_def)

lemma lit_Nil_iff [simp]: "lit s = [] \<longleftrightarrow> s = []"
  by (simp add: lit_def)

named_theorems test_steps \<open>one step of a test\<close>

lemma passes_bnd [test_steps]:
  "passes (bnd m f) s \<longleftrightarrow> (\<exists>x s'. m s = Some (x, s') \<and> passes (f x) s')"
  by (auto simp: passes_def bnd_def split: option.split)

lemma passes_ret [test_steps]: "passes (ret x) s"
  by (simp add: passes_def ret_def)

lemma assert_step [test_steps]: "assert_that b s = Some (x, s') \<longleftrightarrow> b \<and> s' = s"
  by (auto simp: assert_that_def)

lemma check_step [test_steps]: "check P s = Some (x, s') \<longleftrightarrow> P s \<and> s' = s"
  by (auto simp: check_def)

lemma ask_step [test_steps]: "ask f s = Some (x, s') \<longleftrightarrow> x = f s \<and> s' = s"
  by (auto simp: ask_def)

lemma call_step [test_steps]: "call f s = Some (x, s') \<longleftrightarrow> f s = (x, s')"
  by (auto simp: call_def)

lemma expect_ok_step [test_steps]: "expect_ok m s = Some (v, s') \<longleftrightarrow> m s = Some (Ok v, s')"
  by (auto simp: expect_ok_def try_or_Some)

lemma expect_err_step [test_steps]: "expect_err m s = Some (e, s') \<longleftrightarrow> m s = Some (Err e, s')"
  by (auto simp: expect_err_def try_or_Some)

lemma expect_some_step [test_steps]: "expect_some m s = Some (x, s') \<longleftrightarrow> m s = Some (Some x, s')"
  by (auto simp: expect_some_def split: option.splits)

lemma exec_call_step [test_steps]: "exec_call f s = Some (r, s') \<longleftrightarrow> f s = (Ret r, s')"
  by (auto simp: exec_call_def split: prod.splits exec.splits)

lemma passes_last [test_steps]:
  "passes (assert_that b) s \<longleftrightarrow> b" "passes (check P) s \<longleftrightarrow> P s"
  "passes (expect_ok m) s \<longleftrightarrow> (\<exists>v s'. m s = Some (Ok v, s'))"
  "passes (expect_err m) s \<longleftrightarrow> (\<exists>e s'. m s = Some (Err e, s'))"
  by (auto simp: passes_def assert_that_def check_def expect_ok_def expect_err_def try_or_def bnd_def ret_def
      split: option.split result.split)

section \<open>CRC-32\<close>

definition crc_bit :: "nat \<Rightarrow> nat" where
  "crc_bit c = (if odd c then xor (c div 2) 0xEDB88320 else c div 2)"

definition crc_byte :: "nat \<Rightarrow> u8 \<Rightarrow> nat" where
  "crc_byte c b = crc_bit (crc_bit (crc_bit (crc_bit (crc_bit (crc_bit (crc_bit (crc_bit (xor c (unat b)))))))))"

definition ieee_crc :: "nat crc32" where
  "ieee_crc = \<lparr>h_new = 0xFFFFFFFF, h_update = foldl crc_byte, h_finalize = (\<lambda>c. of_nat (xor c 0xFFFFFFFF))\<rparr>"

lemma ieee_crc_streams: "crc_streams ieee_crc"
  by (simp add: crc_streams_def ieee_crc_def)

lemmas crc_eval = compute_checksum_def ieee_crc_def lit_def crc_byte_def crc_bit_def

lemma ieee_crc_hello_world: "compute_checksum ieee_crc (lit ''hello world'') = 222957957"
  by (simp add: crc_eval)

end
