(* ===== verification/HandlerTests.thy ===== *)
theory HandlerTests
  imports MocksCorrect Testing
begin

text \<open>
  The unit tests of the gateway's handlers (\<^verbatim>\<open>api-gateway/src/handlers.rs\<close>), each as an action on the
  state it creates, and the proof that the modelled handlers pass them. Base64, JSON, the Unicode
  table and the CRC are third-party: \<open>documented\<close> states what the tests rely on.
\<close>

section \<open>What the tests use\<close>

record 'h third_party =
  tp_crc :: "'h crc32"
  tp_alphanumeric :: "nat \<Rightarrow> bool"
  tp_encode :: "bytes \<Rightarrow> string"
  tp_decode :: "string \<Rightarrow> bytes option"
  tp_to_json :: "string \<Rightarrow> bytes"
  tp_from_json :: "bytes \<Rightarrow> string option"

text \<open>The Unicode table on ASCII; what is encoded decodes to itself; a blank is not base64.\<close>

definition documented :: "'h third_party \<Rightarrow> bool" where
  "documented T \<longleftrightarrow>
     (\<forall>c < 128. tp_alphanumeric T c \<longleftrightarrow> 48 \<le> c \<and> c \<le> 57 \<or> 65 \<le> c \<and> c \<le> 90 \<or> 97 \<le> c \<and> c \<le> 122) \<and>
     (\<forall>b. tp_decode T (tp_encode T b) = Some b) \<and> (\<forall>s. CHR '' '' \<in> set s \<longrightarrow> tp_decode T s = None) \<and>
     (\<forall>s. tp_from_json T (tp_to_json T s) = Some s)"

definition create_test_state :: "(MockStorageNodeClient, mock) AppState" where
  "create_test_state =
     \<lparr>gw_connections = [], gw_metrics = (\<lambda>_. 0),
      gw_world = \<lparr>mk_metadata = MockMetadataClient_default, mk_factory = MockStorageNodeClientFactory_default\<rparr>\<rparr>"

type_synonym 'a gw_test = "((MockStorageNodeClient, mock) AppState, 'a) act"

abbreviation put_json :: "'h third_party \<Rightarrow> string \<Rightarrow> string \<Rightarrow> nat http gw_test" where
  "put_json T n payload \<equiv>
     handle_put_object mock_metadata (mock_storage (tp_crc T)) (tp_crc T) (tp_alphanumeric T) (tp_decode T) n payload"

abbreviation get_json :: "'h third_party \<Rightarrow> string \<Rightarrow> string http gw_test" where
  "get_json T n \<equiv> handle_get_object mock_metadata (mock_storage (tp_crc T)) (tp_alphanumeric T) (tp_encode T) n"

abbreviation get_stream :: "'h third_party \<Rightarrow> string \<Rightarrow> PMetaChunk list http gw_test" where
  "get_stream T n \<equiv> handle_get_object_stream mock_metadata (mock_storage (tp_crc T)) (tp_alphanumeric T) n"

abbreviation get_any :: "'h third_party \<Rightarrow> string \<Rightarrow> string option \<Rightarrow> download http gw_test" where
  "get_any T n accept \<equiv>
     handle_get_dispatch mock_metadata (mock_storage (tp_crc T)) (tp_alphanumeric T) (tp_encode T) n accept"

abbreviation delete_any :: "'h third_party \<Rightarrow> string \<Rightarrow> unit http gw_test" where
  "delete_any T n \<equiv> handle_delete_object mock_metadata (mock_storage (tp_crc T)) (tp_alphanumeric T) n"

abbreviation list_any :: "'h third_party \<Rightarrow> ListObjectsResponsePayload list http gw_test" where
  "list_any T \<equiv> handle_list_objects mock_metadata (mock_storage (tp_crc T)) (tp_encode T)"

abbreviation object_known :: "string \<Rightarrow> (MockStorageNodeClient, mock) AppState \<Rightarrow> bool" where
  "object_known n s \<equiv> hm_contains (mk_objects (gw_world s)) n"

text \<open>\<open>axum::body::to_bytes\<close> of a streamed reply: the bytes of the body, unless it ends by an error.\<close>

fun io_concat :: "bytes io list \<Rightarrow> bytes io" where
  "io_concat [] = Ok []"
| "io_concat (Err e # rs) = Err e"
| "io_concat (Ok b # rs) = (case io_concat rs of Err e \<Rightarrow> Err e | Ok bs \<Rightarrow> Ok (b @ bs))"

definition to_bytes_of :: "'h third_party \<Rightarrow> PMetaChunk list \<Rightarrow> bytes io gw_test" where
  "to_bytes_of T cs = bnd (stream_body (mock_storage (tp_crc T)) cs) (\<lambda>rs. ret (io_concat rs))"

section \<open>Tests of uploads\<close>

definition test_put_object_success :: "'h third_party \<Rightarrow> unit gw_test" where
  "test_put_object_success T =
     bnd (expect_ok (put_json T ''test-object'' (tp_encode T (lit ''hello world'')))) (\<lambda>decoded_bytes_len.
     bnd (assert_that (decoded_bytes_len = length (lit ''hello world''))) (\<lambda>_.
     check (object_known ''test-object'')))"

definition test_put_object_invalid_base64 :: "'h third_party \<Rightarrow> unit gw_test" where
  "test_put_object_invalid_base64 T =
     bnd (expect_err (put_json T ''test-object'' ''not valid base64!!!'')) (\<lambda>status. assert_that (status = BAD_REQUEST))"

text \<open>Clearing the nodes of the metadata client.\<close>

definition clear_nodes :: "unit gw_test" where
  "clear_nodes s = Some ((), s\<lparr>gw_world := on_metadata (mm_storage_nodes_update (\<lambda>_. [])) (gw_world s)\<rparr>)"

definition test_put_object_no_storage_nodes :: "'h third_party \<Rightarrow> unit gw_test" where
  "test_put_object_no_storage_nodes T =
     bnd clear_nodes (\<lambda>_.
     bnd (expect_err (put_json T ''test-object'' (tp_encode T (lit ''data'')))) (\<lambda>status.
     assert_that (status = INTERNAL_SERVER_ERROR)))"

definition test_put_object_duplicate_name :: "'h third_party \<Rightarrow> unit gw_test" where
  "test_put_object_duplicate_name T =
     bnd (expect_ok (put_json T ''duplicate-object'' (tp_encode T (lit ''data'')))) (\<lambda>_.
     bnd (expect_err (put_json T ''duplicate-object'' (tp_encode T (lit ''data'')))) (\<lambda>status.
     assert_that (status = CONFLICT)))"

section \<open>Tests of downloads\<close>

definition test_get_object_success :: "'h third_party \<Rightarrow> unit gw_test" where
  "test_get_object_success T =
     bnd (expect_ok (put_json T ''get-test-object'' (tp_encode T (lit ''hello world'')))) (\<lambda>_.
     bnd (expect_ok (get_json T ''get-test-object'')) (\<lambda>response.
     assert_that (tp_decode T response = Some (lit ''hello world''))))"

definition test_get_object_not_found :: "'h third_party \<Rightarrow> unit gw_test" where
  "test_get_object_not_found T =
     bnd (expect_err (get_json T ''nonexistent-object'')) (\<lambda>status. assert_that (status = NOT_FOUND))"

definition test_get_object_stream_success :: "'h third_party \<Rightarrow> unit gw_test" where
  "test_get_object_stream_success T =
     bnd (expect_ok (put_json T ''stream-get-test'' (tp_encode T (lit ''hello streaming world'')))) (\<lambda>_.
     bnd (expect_ok (get_stream T ''stream-get-test'')) (\<lambda>response.
     bnd (expect_ok (to_bytes_of T response)) (\<lambda>body_bytes.
     assert_that (body_bytes = lit ''hello streaming world''))))"

definition test_get_object_stream_not_found :: "'h third_party \<Rightarrow> unit gw_test" where
  "test_get_object_stream_not_found T =
     bnd (expect_err (get_stream T ''nonexistent'')) (\<lambda>status. assert_that (status = NOT_FOUND))"

definition test_get_object_stream_multi_chunk :: "'h third_party \<Rightarrow> unit gw_test" where
  "test_get_object_stream_multi_chunk T =
     bnd (expect_ok (put_json T ''multi-chunk-stream'' (tp_encode T (replicate 1024 0xAB)))) (\<lambda>_.
     bnd (expect_ok (get_stream T ''multi-chunk-stream'')) (\<lambda>response.
     bnd (expect_ok (to_bytes_of T response)) (\<lambda>body_bytes.
     assert_that (body_bytes = replicate 1024 0xAB))))"

section \<open>Tests of deletions, listings and round trips\<close>

definition test_delete_object_success :: "'h third_party \<Rightarrow> unit gw_test" where
  "test_delete_object_success T =
     bnd (expect_ok (put_json T ''delete-test-object'' (tp_encode T (lit ''data to delete'')))) (\<lambda>_.
     bnd (expect_ok (delete_any T ''delete-test-object'')) (\<lambda>_.
     check (\<lambda>s. \<not> object_known ''delete-test-object'' s)))"

definition test_delete_object_not_found :: "'h third_party \<Rightarrow> unit gw_test" where
  "test_delete_object_not_found T =
     bnd (expect_err (delete_any T ''nonexistent-delete-object'')) (\<lambda>status. assert_that (status = NOT_FOUND))"

definition test_list_objects_empty :: "'h third_party \<Rightarrow> unit gw_test" where
  "test_list_objects_empty T = bnd (expect_ok (list_any T)) (\<lambda>response. assert_that (response = []))"

definition test_list_objects_with_objects :: "'h third_party \<Rightarrow> unit gw_test" where
  "test_list_objects_with_objects T =
     bnd (put_json T ''object1'' (tp_encode T (lit ''data1''))) (\<lambda>_.
     bnd (put_json T ''object2'' (tp_encode T (lit ''data2''))) (\<lambda>_.
     bnd (expect_ok (list_any T)) (\<lambda>response.
     bnd (assert_that (length response = 2)) (\<lambda>_.
     assert_that (''object1'' \<in> set (map lo_name response) \<and> ''object2'' \<in> set (map lo_name response))))))"

text \<open>The round trip, for any name and data; the test's own are the instance below.\<close>

definition put_get_delete_roundtrip :: "'h third_party \<Rightarrow> string \<Rightarrow> bytes \<Rightarrow> unit gw_test" where
  "put_get_delete_roundtrip T object_name original_data =
     bnd (expect_ok (put_json T object_name (tp_encode T original_data))) (\<lambda>_.
     bnd (expect_ok (get_json T object_name)) (\<lambda>response.
     bnd (assert_that (tp_decode T response = Some original_data)) (\<lambda>_.
     bnd (expect_ok (delete_any T object_name)) (\<lambda>_.
     bnd (expect_err (get_json T object_name)) (\<lambda>_. ret ())))))"

definition test_put_get_delete_roundtrip :: "'h third_party \<Rightarrow> unit gw_test" where
  "test_put_get_delete_roundtrip T =
     put_get_delete_roundtrip T ''roundtrip-object'' (lit ''the quick brown fox jumps over the lazy dog'')"

section \<open>Tests of the dispatch\<close>

definition test_get_dispatch_json_accept :: "'h third_party \<Rightarrow> unit gw_test" where
  "test_get_dispatch_json_accept T =
     bnd (expect_ok (put_json T ''dispatch-get-json'' (tp_encode T (lit ''dispatch test data'')))) (\<lambda>_.
     bnd (expect_ok (get_any T ''dispatch-get-json'' (Some ''application/json''))) (\<lambda>response.
     assert_that (case response of Json_body _ \<Rightarrow> True | Streamed _ \<Rightarrow> False)))"

definition test_get_dispatch_stream_default :: "'h third_party \<Rightarrow> unit gw_test" where
  "test_get_dispatch_stream_default T =
     bnd (expect_ok (put_json T ''dispatch-get-stream'' (tp_encode T (lit ''stream dispatch test'')))) (\<lambda>_.
     bnd (expect_ok (get_any T ''dispatch-get-stream'' None)) (\<lambda>response.
     case response of
       Json_body _ \<Rightarrow> assert_that False
     | Streamed cs \<Rightarrow>
         bnd (expect_ok (to_bytes_of T cs)) (\<lambda>body_bytes. assert_that (body_bytes = lit ''stream dispatch test''))))"

definition test_put_dispatch_json_content_type :: "'h third_party \<Rightarrow> unit gw_test" where
  "test_put_dispatch_json_content_type T =
     bnd (expect_ok (handle_put_dispatch mock_metadata (mock_storage (tp_crc T)) (tp_crc T) (tp_alphanumeric T) (tp_decode T)
       ''dispatch-put-json'' (Some ''application/json'') None
       (Some (tp_to_json T (tp_encode T (lit ''json upload'')))) (tp_from_json T))) (\<lambda>_.
     check (object_known ''dispatch-put-json''))"

section \<open>Tests of the helpers\<close>

definition test_validate_object_name_valid :: "(nat \<Rightarrow> bool) \<Rightarrow> bool" where
  "test_validate_object_name_valid alnum \<longleftrightarrow>
     list_all (\<lambda>n. is_ok (validate_object_name alnum n))
       [''myobject'', ''my-object'', ''my_object'', ''my.object'', ''path/to/object'', ''a'']"

definition test_validate_object_name_empty :: "(nat \<Rightarrow> bool) \<Rightarrow> bool" where
  "test_validate_object_name_empty alnum \<longleftrightarrow> \<not> is_ok (validate_object_name alnum '''')"

definition test_validate_object_name_too_long :: "(nat \<Rightarrow> bool) \<Rightarrow> bool" where
  "test_validate_object_name_too_long alnum \<longleftrightarrow>
     \<not> is_ok (validate_object_name alnum (replicate (MAX_OBJECT_NAME_LENGTH + 1) (CHR ''a''))) \<and>
     is_ok (validate_object_name alnum (replicate MAX_OBJECT_NAME_LENGTH (CHR ''a'')))"

definition test_validate_object_name_invalid_characters :: "(nat \<Rightarrow> bool) \<Rightarrow> bool" where
  "test_validate_object_name_invalid_characters alnum \<longleftrightarrow>
     list_all (\<lambda>n. \<not> is_ok (validate_object_name alnum n)) [''my object'', ''my@object'', ''my#object'', ''my object!'']"

definition test_validate_object_name_slash_boundaries :: "(nat \<Rightarrow> bool) \<Rightarrow> bool" where
  "test_validate_object_name_slash_boundaries alnum \<longleftrightarrow>
     list_all (\<lambda>n. \<not> is_ok (validate_object_name alnum n)) [''/leading'', ''trailing/'', ''double//slash'']"

definition test_chunking_small_data_single_chunk :: bool where
  "test_chunking_small_data_single_chunk \<longleftrightarrow>
     (let chunks = slice_chunks 1024 (lit ''small data'') in length chunks = 1 \<and> chunks ! 0 = lit ''small data'')"

definition test_chunking_exact_multiple :: bool where
  "test_chunking_exact_multiple \<longleftrightarrow>
     (let chunks = slice_chunks 512 (replicate 1024 (0 :: u8)) in
      length chunks = 2 \<and> length (chunks ! 0) = 512 \<and> length (chunks ! 1) = 512)"

definition test_chunking_with_remainder :: bool where
  "test_chunking_with_remainder \<longleftrightarrow>
     (let chunks = slice_chunks 300 (replicate 1000 (0 :: u8)) in
      length chunks = 4 \<and> length (chunks ! 0) = 300 \<and> length (chunks ! 1) = 300 \<and> length (chunks ! 2) = 300 \<and>
      length (chunks ! 3) = 100)"

definition test_chunking_reassembly :: bool where
  "test_chunking_reassembly \<longleftrightarrow>
     concat (slice_chunks 10 (lit ''the quick brown fox jumps over the lazy dog'')) =
       lit ''the quick brown fox jumps over the lazy dog''"

definition test_checksum_consistent_across_chunking :: "'h crc32 \<Rightarrow> bool" where
  "test_checksum_consistent_across_chunking H \<longleftrightarrow>
     (let data = lit ''test data for checksum verification''; chunks = slice_chunks 10 data in
      compute_checksum H data = compute_checksum H (concat chunks) \<and>
      list_all (\<lambda>c. compute_checksum H c \<noteq> compute_checksum H data) chunks)"

definition test_compute_checksum_deterministic :: "'h crc32 \<Rightarrow> bool" where
  "test_compute_checksum_deterministic H \<longleftrightarrow>
     (let data = lit ''hello world''; checksum1 = compute_checksum H data; checksum2 = compute_checksum H data in
      checksum1 = checksum2)"

definition test_compute_checksum_large_data :: "'h crc32 \<Rightarrow> bool" where
  "test_compute_checksum_large_data H \<longleftrightarrow>
     (let data = replicate (1024 * 1024) 0xAB; checksum = compute_checksum H data in checksum = compute_checksum H data)"

definition test_compute_checksum_different_data_produces_different_checksum :: "'h crc32 \<Rightarrow> bool" where
  "test_compute_checksum_different_data_produces_different_checksum H \<longleftrightarrow>
     compute_checksum H (lit ''hello'') \<noteq> compute_checksum H (lit ''world'')"

definition test_compute_checksum_empty_data :: "'h crc32 \<Rightarrow> bool" where
  "test_compute_checksum_empty_data H \<longleftrightarrow> compute_checksum H (lit '''') = 0"

section \<open>The tests pass\<close>

lemma documentedD:
  assumes "documented T"
  shows "c < 128 \<Longrightarrow> tp_alphanumeric T c \<longleftrightarrow> 48 \<le> c \<and> c \<le> 57 \<or> 65 \<le> c \<and> c \<le> 90 \<or> 97 \<le> c \<and> c \<le> 122"
    and "tp_decode T (tp_encode T b) = Some b" and "CHR '' '' \<in> set s \<Longrightarrow> tp_decode T s = None"
    and "tp_from_json T (tp_to_json T s) = Some s"
  using assms unfolding documented_def by blast+

text \<open>The code points of an ASCII text are its bytes.\<close>

lemma utf8_ascii: "list_all (\<lambda>c. of_char c < (128 :: nat)) s \<Longrightarrow> utf8_chars s = map of_char s"
  by (induction s) (simp_all add: Let_def)

lemma valid_ascii_name:
  assumes "documented T" and "n \<noteq> []" and "length n \<le> 1024"
    and "list_all (\<lambda>c. let k = of_char c :: nat in 45 \<le> k \<and> k \<le> 46 \<or> 48 \<le> k \<and> k \<le> 57 \<or> 65 \<le> k \<and> k \<le> 90 \<or> k = 95 \<or> 97 \<le> k \<and> k \<le> 122) n"
  shows "validate_object_name (tp_alphanumeric T) n = Ok ()"
proof -
  have c: "(of_char c :: nat) < 128 \<and> name_char (tp_alphanumeric T) (of_char c) \<and> c \<noteq> CHR ''/''" if "c \<in> set n" for c
    using assms(4) that documentedD(1) [OF assms(1), of "of_char c"]
    by (auto simp: list_all_iff Let_def name_char_def)
  have "\<not> starts_with n ''/''" "last n \<noteq> CHR ''/''" using assms(2) c by (cases n; force)+
  moreover have "\<not> str_contains m ''//''" if "set m \<subseteq> set n" for m
    using that by (induction m) (auto simp: c)
  ultimately show ?thesis
    using assms(2,3) c by (simp add: validate_object_name_def MAX_OBJECT_NAME_LENGTH_def utf8_ascii list_all_iff)
qed

lemma test_state_ready: "mock_ready create_test_state"
  by (simp add: mock_ready_def create_test_state_def MockMetadataClient_default_def MockStorageNodeClientFactory_default_def)

lemma test_state_empty: "mk_objects (gw_world create_test_state) = []"
  by (simp add: create_test_state_def MockMetadataClient_default_def)

lemma test_state_room: "k \<le> 2 * MAX_OBJECT_SIZE \<Longrightarrow> mock_room (gw_world create_test_state) k"
  by (simp add: mock_room_def create_test_state_def MockMetadataClient_default_def MAX_OBJECT_SIZE_def)

text \<open>The first upload of a test.\<close>

lemma test_upload:
  assumes "documented T" and "validate_object_name (tp_alphanumeric T) n = Ok ()" and "length data \<le> MAX_OBJECT_SIZE"
  obtains s' ds where "put_json T n (tp_encode T data) create_test_state = Some (Ok (length data), s')" "mock_ready s'"
    "mock_holds (gw_world s') n ds" "concat ds = data" "hm_keys (mk_objects (gw_world s')) = [n]"
    "mock_room (gw_world s') MAX_OBJECT_SIZE"
proof -
  have "mock_room (gw_world create_test_state) (length data)"
    "mock_room (gw_world create_test_state) (length data + MAX_OBJECT_SIZE)"
    using assms(3) by (simp_all add: test_state_room)
  then obtain s' ds where "put_json T n (tp_encode T data) create_test_state = Some (Ok (length data), s')"
    "mock_ready s'" "mock_holds (gw_world s') n ds" "concat ds = data"
    "others_kept n (gw_world create_test_state) (gw_world s')" "mock_room (gw_world s') MAX_OBJECT_SIZE"
    using mock_put [where s = create_test_state and n = n and alnum = "tp_alphanumeric T" and dec = "tp_decode T"
        and payload = "tp_encode T data" and data = data and H = "tp_crc T"]
      test_state_ready test_state_empty assms documentedD(2) by fastforce
  then show ?thesis using that test_state_empty by (simp add: others_kept_def)
qed

lemma holds_known: "mock_holds w n ds \<Longrightarrow> hm_contains (mk_objects w) n"
  by (auto simp: mock_holds_def)

lemma io_concat_Ok: "io_concat (map Ok bs) = Ok (concat bs)"
  by (induction bs) auto

text \<open>The steps of a test after its upload.\<close>

lemma get_step:
  assumes "documented T" and "mock_ready s" and "validate_object_name (tp_alphanumeric T) n = Ok ()" and "mock_holds (gw_world s) n ds"
  shows "\<exists>s'. get_json T n s = Some (Ok (tp_encode T (concat ds)), s') \<and> mock_ready s' \<and> gw_world s' = gw_world s"
    and "\<exists>cs s1 s2. get_stream T n s = Some (Ok cs, s1) \<and> to_bytes_of T cs s1 = Some (Ok (concat ds), s2) \<and>
      mock_ready s2 \<and> gw_world s2 = gw_world s"
proof -
  show "\<exists>s'. get_json T n s = Some (Ok (tp_encode T (concat ds)), s') \<and> mock_ready s' \<and> gw_world s' = gw_world s"
    by (rule mock_get [OF assms(2-4)])
  obtain cs s1 s2 where "get_stream T n s = Some (Ok cs, s1)" "stream_body (mock_storage (tp_crc T)) cs s1 = Some (map Ok ds, s2)"
    "mock_ready s2" "gw_world s2 = gw_world s" using mock_get_stream [OF assms(2-4), of "tp_crc T"] by blast
  then show "\<exists>cs s1 s2. get_stream T n s = Some (Ok cs, s1) \<and> to_bytes_of T cs s1 = Some (Ok (concat ds), s2) \<and>
      mock_ready s2 \<and> gw_world s2 = gw_world s"
    by (auto simp: to_bytes_of_def bnd_run ret_def io_concat_Ok)
qed

lemma roundtrip_passes:
  assumes doc: "documented T" and nm: "validate_object_name (tp_alphanumeric T) n = Ok ()" and "length data \<le> MAX_OBJECT_SIZE"
    and "mock_ready s" and "hm_get (mk_objects (gw_world s)) n = None" and "mock_room (gw_world s) (length data)"
  shows "passes (put_get_delete_roundtrip T n data) s"
proof -
  obtain s1 ds where s1: "put_json T n (tp_encode T data) s = Some (Ok (length data), s1)" "mock_ready s1"
    "mock_holds (gw_world s1) n ds" "concat ds = data"
    using mock_put [OF assms(4) nm _ assms(3,5,6), of "tp_decode T" "tp_encode T data" "tp_crc T"] documentedD(2) [OF doc] by blast
  obtain s2 where s2: "get_json T n s1 = Some (Ok (tp_encode T data), s2)" "mock_ready s2" "gw_world s2 = gw_world s1"
    using get_step(1) [OF doc s1(2) nm s1(3)] s1(4) by blast
  obtain s3 where s3: "delete_any T n s2 = Some (Ok (), s3)" "mk_objects (gw_world s3) = hm_remove n (mk_objects (gw_world s2))"
    using mock_delete [OF s2(2) nm, of "tp_crc T"] holds_known [OF s1(3)] s2(3) by metis
  then obtain s4 where "get_json T n s3 = Some (Err NOT_FOUND, s4)"
    using mock_get_missing(1) [OF nm, of s3 "tp_crc T" "tp_encode T"] by auto
  then show ?thesis
    using s1(1) s2(1) s3(1) documentedD(2) [OF doc] by (auto simp: put_get_delete_roundtrip_def test_steps)
qed

lemma valid_test_names:
  assumes "documented T"
  shows "validate_object_name (tp_alphanumeric T) ''test-object'' = Ok ()"
    "validate_object_name (tp_alphanumeric T) ''duplicate-object'' = Ok ()"
    "validate_object_name (tp_alphanumeric T) ''get-test-object'' = Ok ()"
    "validate_object_name (tp_alphanumeric T) ''nonexistent-object'' = Ok ()"
    "validate_object_name (tp_alphanumeric T) ''stream-get-test'' = Ok ()"
    "validate_object_name (tp_alphanumeric T) ''nonexistent'' = Ok ()"
    "validate_object_name (tp_alphanumeric T) ''multi-chunk-stream'' = Ok ()"
    "validate_object_name (tp_alphanumeric T) ''delete-test-object'' = Ok ()"
    "validate_object_name (tp_alphanumeric T) ''nonexistent-delete-object'' = Ok ()"
    "validate_object_name (tp_alphanumeric T) ''object1'' = Ok ()"
    "validate_object_name (tp_alphanumeric T) ''object2'' = Ok ()"
    "validate_object_name (tp_alphanumeric T) ''roundtrip-object'' = Ok ()"
    "validate_object_name (tp_alphanumeric T) ''dispatch-get-json'' = Ok ()"
    "validate_object_name (tp_alphanumeric T) ''dispatch-get-stream'' = Ok ()"
    "validate_object_name (tp_alphanumeric T) ''dispatch-put-json'' = Ok ()"
  by (rule valid_ascii_name [OF assms]; simp)+

lemma upload_tests_pass:
  assumes doc: "documented T"
  shows "passes (test_put_object_success T) create_test_state"
    "passes (test_put_object_invalid_base64 T) create_test_state"
    "passes (test_put_object_no_storage_nodes T) create_test_state"
    "passes (test_put_object_duplicate_name T) create_test_state"
proof -
  show "passes (test_put_object_success T) create_test_state"
    by (rule test_upload [OF doc valid_test_names(1) [OF doc], of "lit ''hello world''"])
      (auto simp: test_put_object_success_def test_steps MAX_OBJECT_SIZE_def)
  show "passes (test_put_object_invalid_base64 T) create_test_state"
    using valid_test_names(1) [OF doc] documentedD(3) [OF doc, of "''not valid base64!!!''"]
    by (simp add: test_put_object_invalid_base64_def test_steps handle_put_object_def count_fail_def fail_def gw_metric_upd_def
        bnd_def ret_def)
  show "passes (test_put_object_no_storage_nodes T) create_test_state"
    using valid_test_names(1) [OF doc] documentedD(2) [OF doc]
    by (simp add: test_put_object_no_storage_nodes_def test_steps clear_nodes_def handle_put_object_def query_chunk_size_def
        mock_list_storage_nodes_def on_metadata_def create_test_state_def MockMetadataClient_default_def MAX_OBJECT_SIZE_def
        gw_call_def try_or_def count_fail_def fail_def gw_metric_upd_def bnd_def ret_def)
  obtain s1 ds where "put_json T ''duplicate-object'' (tp_encode T (lit ''data'')) create_test_state = Some (Ok (length (lit ''data'')), s1)"
    "mock_ready s1" "mock_holds (gw_world s1) ''duplicate-object'' ds"
    by (rule test_upload [OF doc valid_test_names(2) [OF doc], of "lit ''data''"]) (auto simp: MAX_OBJECT_SIZE_def)
  then show "passes (test_put_object_duplicate_name T) create_test_state"
    using mock_put_twice [of s1 "tp_alphanumeric T" "''duplicate-object''" "tp_decode T" "tp_encode T (lit ''data'')" "lit ''data''" "tp_crc T"]
      valid_test_names(2) [OF doc] documentedD(2) [OF doc] holds_known
    by (auto simp: test_put_object_duplicate_name_def test_steps MAX_OBJECT_SIZE_def)
qed

lemma download_tests_pass:
  assumes doc: "documented T"
  shows "passes (test_get_object_success T) create_test_state"
    "passes (test_get_object_not_found T) create_test_state"
    "passes (test_get_object_stream_success T) create_test_state"
    "passes (test_get_object_stream_not_found T) create_test_state"
    "passes (test_get_object_stream_multi_chunk T) create_test_state"
proof -
  note nm = valid_test_names [OF doc]
  show "passes (test_get_object_success T) create_test_state"
  proof (rule test_upload [OF doc nm(3), of "lit ''hello world''"])
    fix s1 ds assume s1: "put_json T ''get-test-object'' (tp_encode T (lit ''hello world'')) create_test_state = Some (Ok (length (lit ''hello world'')), s1)"
      "mock_ready s1" "mock_holds (gw_world s1) ''get-test-object'' ds" "concat ds = lit ''hello world''"
    then show ?thesis using get_step(1) [OF doc s1(2) nm(3) s1(3)] documentedD(2) [OF doc]
      by (auto simp: test_get_object_success_def test_steps)
  qed (simp add: MAX_OBJECT_SIZE_def)
  show "passes (test_get_object_not_found T) create_test_state"
    using mock_get_missing(1) [OF nm(4), of create_test_state "tp_crc T" "tp_encode T"]
    by (auto simp: test_get_object_not_found_def test_steps test_state_empty)
  show "passes (test_get_object_stream_success T) create_test_state"
  proof (rule test_upload [OF doc nm(5), of "lit ''hello streaming world''"])
    fix s1 ds assume s1: "put_json T ''stream-get-test'' (tp_encode T (lit ''hello streaming world'')) create_test_state = Some (Ok (length (lit ''hello streaming world'')), s1)"
      "mock_ready s1" "mock_holds (gw_world s1) ''stream-get-test'' ds" "concat ds = lit ''hello streaming world''"
    then show ?thesis using get_step(2) [OF doc s1(2) nm(5) s1(3)]
      by (fastforce simp: test_get_object_stream_success_def test_steps)
  qed (simp add: MAX_OBJECT_SIZE_def)
  show "passes (test_get_object_stream_not_found T) create_test_state"
    using mock_get_missing(2) [OF nm(6), of create_test_state "tp_crc T"]
    by (auto simp: test_get_object_stream_not_found_def test_steps test_state_empty)
  show "passes (test_get_object_stream_multi_chunk T) create_test_state"
  proof (rule test_upload [OF doc nm(7), of "replicate 1024 0xAB"])
    fix s1 ds assume s1: "put_json T ''multi-chunk-stream'' (tp_encode T (replicate 1024 0xAB)) create_test_state = Some (Ok (length (replicate 1024 (0xAB :: u8))), s1)"
      "mock_ready s1" "mock_holds (gw_world s1) ''multi-chunk-stream'' ds" "concat ds = replicate 1024 0xAB"
    then show ?thesis using get_step(2) [OF doc s1(2) nm(7) s1(3)]
      by (fastforce simp: test_get_object_stream_multi_chunk_def test_steps)
  qed (simp add: MAX_OBJECT_SIZE_def)
qed

lemma list_empty: "\<exists>s'. list_any T create_test_state = Some (Ok [], s')"
  by (simp add: handle_list_objects_def mock_list_objects_def create_test_state_def MockMetadataClient_default_def
      gw_call_def try_or_def bnd_def ret_def gw_metric_upd_def)

lemma deletion_and_listing_tests_pass:
  assumes doc: "documented T"
  shows "passes (test_delete_object_success T) create_test_state"
    "passes (test_delete_object_not_found T) create_test_state"
    "passes (test_list_objects_empty T) create_test_state"
    "passes (test_list_objects_with_objects T) create_test_state"
    "passes (test_put_get_delete_roundtrip T) create_test_state"
proof -
  note nm = valid_test_names [OF doc]
  show "passes (test_delete_object_success T) create_test_state"
  proof (rule test_upload [OF doc nm(8), of "lit ''data to delete''"])
    fix s1 ds assume s1: "put_json T ''delete-test-object'' (tp_encode T (lit ''data to delete'')) create_test_state = Some (Ok (length (lit ''data to delete'')), s1)"
      "mock_ready s1" "mock_holds (gw_world s1) ''delete-test-object'' ds"
    then show ?thesis using mock_delete [OF s1(2) nm(8) holds_known [OF s1(3)], of "tp_crc T"]
      by (auto simp: test_delete_object_success_def test_steps)
  qed (simp add: MAX_OBJECT_SIZE_def)
  show "passes (test_delete_object_not_found T) create_test_state"
    using mock_get_missing(3) [OF nm(9), of create_test_state "tp_crc T"]
    by (auto simp: test_delete_object_not_found_def test_steps test_state_empty)
  show "passes (test_list_objects_empty T) create_test_state"
    using list_empty by (auto simp: test_list_objects_empty_def test_steps)
  show "passes (test_list_objects_with_objects T) create_test_state"
  proof (rule test_upload [OF doc nm(10), of "lit ''data1''"])
    fix s1 ds assume s1: "put_json T ''object1'' (tp_encode T (lit ''data1'')) create_test_state = Some (Ok (length (lit ''data1'')), s1)"
      "mock_ready s1" "mock_holds (gw_world s1) ''object1'' ds" "hm_keys (mk_objects (gw_world s1)) = [''object1'']"
      "mock_room (gw_world s1) MAX_OBJECT_SIZE"
    have "hm_get (mk_objects (gw_world s1)) ''object2'' = None" using s1(4) by (simp add: map_of_eq_None_iff flip: set_map)
    moreover have "mock_room (gw_world s1) (length (lit ''data2''))" using s1(5) by (rule mock_room_mono) (simp add: MAX_OBJECT_SIZE_def)
    moreover have "length (lit ''data2'') \<le> MAX_OBJECT_SIZE" by (simp add: MAX_OBJECT_SIZE_def)
    ultimately obtain s2 es where s2: "put_json T ''object2'' (tp_encode T (lit ''data2'')) s1 = Some (Ok (length (lit ''data2'')), s2)"
      "mock_ready s2" "mock_holds (gw_world s2) ''object2'' es" "others_kept ''object2'' (gw_world s1) (gw_world s2)"
      using mock_put [OF s1(2) nm(11), where dec = "tp_decode T" and payload = "tp_encode T (lit ''data2'')"
          and H = "tp_crc T"] documentedD(2) [OF doc] by blast
    have keys: "hm_keys (mk_objects (gw_world s2)) = [''object1'', ''object2'']" using s2(4) s1(4) by (simp add: others_kept_def)
    have "mock_holds (gw_world s2) ''object1'' ds"
      using s1(3) s2(4) by (auto simp: mock_holds_def others_kept_def elim!: list_all2_mono)
    then have held: "\<exists>ds. mock_holds (gw_world s2) m ds" if "hm_contains (mk_objects (gw_world s2)) m" for m
      using that s2(3) keys by (auto simp: map_of_eq_None_iff simp flip: set_map)
    obtain L s3 where L: "list_any T s2 = Some (Ok L, s3)" "map lo_name L = [''object1'', ''object2'']"
      using mock_list [OF s2(2) _ held] keys by fastforce
    then have "length L = 2" by (metis length_map length_Cons list.size(3) numeral_2_eq_2)
    then show ?thesis using s1(1) s2(1) L by (simp add: test_list_objects_with_objects_def test_steps flip: set_map)
  qed (simp add: MAX_OBJECT_SIZE_def)
  show "passes (test_put_get_delete_roundtrip T) create_test_state"
    unfolding test_put_get_delete_roundtrip_def
    by (rule roundtrip_passes [OF doc nm(12)])
      (simp_all add: test_state_ready test_state_empty test_state_room MAX_OBJECT_SIZE_def)
qed

lemma dispatch_tests_pass:
  assumes doc: "documented T"
  shows "passes (test_get_dispatch_json_accept T) create_test_state"
    "passes (test_get_dispatch_stream_default T) create_test_state"
    "passes (test_put_dispatch_json_content_type T) create_test_state"
proof -
  note nm = valid_test_names [OF doc]
  show "passes (test_get_dispatch_json_accept T) create_test_state"
  proof (rule test_upload [OF doc nm(13), of "lit ''dispatch test data''"])
    fix s1 ds assume s1: "put_json T ''dispatch-get-json'' (tp_encode T (lit ''dispatch test data'')) create_test_state = Some (Ok (length (lit ''dispatch test data'')), s1)"
      "mock_ready s1" "mock_holds (gw_world s1) ''dispatch-get-json'' ds"
    obtain s2 where "get_json T ''dispatch-get-json'' s1 = Some (Ok (tp_encode T (concat ds)), s2)"
      using get_step(1) [OF doc s1(2) nm(13) s1(3)] by blast
    then show ?thesis using s1(1)
      by (simp add: test_get_dispatch_json_accept_def test_steps handle_get_dispatch_def try_or_run(1) ret_def)
  qed (simp add: MAX_OBJECT_SIZE_def)
  show "passes (test_get_dispatch_stream_default T) create_test_state"
  proof (rule test_upload [OF doc nm(14), of "lit ''stream dispatch test''"])
    fix s1 ds assume s1: "put_json T ''dispatch-get-stream'' (tp_encode T (lit ''stream dispatch test'')) create_test_state = Some (Ok (length (lit ''stream dispatch test'')), s1)"
      "mock_ready s1" "mock_holds (gw_world s1) ''dispatch-get-stream'' ds" "concat ds = lit ''stream dispatch test''"
    obtain cs s2 s3 where "get_stream T ''dispatch-get-stream'' s1 = Some (Ok cs, s2)"
      "to_bytes_of T cs s2 = Some (Ok (lit ''stream dispatch test''), s3)"
      using get_step(2) [OF doc s1(2) nm(14) s1(3)] s1(4) by metis
    then show ?thesis using s1(1)
      by (simp add: test_get_dispatch_stream_default_def test_steps handle_get_dispatch_def try_or_run(1) ret_def)
  qed (simp add: MAX_OBJECT_SIZE_def)
  show "passes (test_put_dispatch_json_content_type T) create_test_state"
  proof (rule test_upload [OF doc nm(15), of "lit ''json upload''"])
    fix s1 ds assume s1: "put_json T ''dispatch-put-json'' (tp_encode T (lit ''json upload'')) create_test_state = Some (Ok (length (lit ''json upload'')), s1)"
      "mock_holds (gw_world s1) ''dispatch-put-json'' ds"
    then show ?thesis using documentedD(4) [OF doc] holds_known [OF s1(2)]
      by (simp add: test_put_dispatch_json_content_type_def test_steps handle_put_dispatch_def)
  qed (simp add: MAX_OBJECT_SIZE_def)
qed

section \<open>The tests of the helpers pass\<close>

lemma utf8_replicate_a: "utf8_chars (replicate k (CHR ''a'')) = replicate k 97"
  by (subst utf8_ascii) (simp_all add: list_all_iff)

lemma name_tests_pass:
  assumes doc: "documented T"
  shows "test_validate_object_name_valid (tp_alphanumeric T)" "test_validate_object_name_empty (tp_alphanumeric T)"
    "test_validate_object_name_too_long (tp_alphanumeric T)" "test_validate_object_name_invalid_characters (tp_alphanumeric T)"
    "test_validate_object_name_slash_boundaries (tp_alphanumeric T)"
proof -
  note alnum = documentedD(1) [OF doc]
  show "test_validate_object_name_valid (tp_alphanumeric T)"
    by (simp add: test_validate_object_name_valid_def validate_object_name_def MAX_OBJECT_NAME_LENGTH_def name_char_def Let_def alnum)
  show "test_validate_object_name_empty (tp_alphanumeric T)"
    by (simp add: test_validate_object_name_empty_def validate_object_name_def)
  show "test_validate_object_name_invalid_characters (tp_alphanumeric T)"
    by (simp add: test_validate_object_name_invalid_characters_def validate_object_name_def MAX_OBJECT_NAME_LENGTH_def name_char_def
        Let_def alnum)
  show "test_validate_object_name_slash_boundaries (tp_alphanumeric T)"
    by (simp add: test_validate_object_name_slash_boundaries_def validate_object_name_def)
  have "validate_object_name (tp_alphanumeric T) (replicate 1024 (CHR ''a'')) = Ok ()"
    by (rule valid_ascii_name [OF doc]) (simp_all add: list_all_iff)
  then show "test_validate_object_name_too_long (tp_alphanumeric T)"
    by (simp add: test_validate_object_name_too_long_def MAX_OBJECT_NAME_LENGTH_def)
      (simp add: validate_object_name_def MAX_OBJECT_NAME_LENGTH_def)
qed

lemma slice_replicate:
  "0 < n \<Longrightarrow> n \<le> k \<Longrightarrow> slice_chunks n (replicate k x) = replicate n x # slice_chunks n (replicate (k - n) x)"
  by (subst slice_chunks_full) (simp_all add: min_def)

lemma chunking_tests_pass:
  "test_chunking_small_data_single_chunk" "test_chunking_exact_multiple" "test_chunking_with_remainder"
  "test_chunking_reassembly"
proof -
  show "test_chunking_small_data_single_chunk"
    by (simp add: test_chunking_small_data_single_chunk_def slice_chunks_short)
  show "test_chunking_exact_multiple"
    by (simp add: test_chunking_exact_multiple_def slice_replicate)
  show "test_chunking_with_remainder"
    by (simp add: test_chunking_with_remainder_def slice_replicate slice_chunks_short)
  show "test_chunking_reassembly"
    by (simp add: test_chunking_reassembly_def concat_slice_chunks)
qed

lemma checksum_tests_pass:
  "test_checksum_consistent_across_chunking ieee_crc"
  "test_compute_checksum_different_data_produces_different_checksum ieee_crc"
  "test_compute_checksum_empty_data ieee_crc" "test_compute_checksum_deterministic H" "test_compute_checksum_large_data H"
proof -
  show "test_compute_checksum_deterministic H" "test_compute_checksum_large_data H"
    unfolding test_compute_checksum_deterministic_def test_compute_checksum_large_data_def Let_def by (rule refl)+
  show "test_checksum_consistent_across_chunking ieee_crc"
    unfolding test_checksum_consistent_across_chunking_def Let_def concat_slice_chunks by (simp add: crc_eval)
  show "test_compute_checksum_different_data_produces_different_checksum ieee_crc"
    by (simp add: test_compute_checksum_different_data_produces_different_checksum_def crc_eval)
  show "test_compute_checksum_empty_data ieee_crc"
    by (simp add: test_compute_checksum_empty_data_def crc_eval)
qed

section \<open>Properties\<close>

definition handler_tests :: "'h third_party \<Rightarrow> unit gw_test list" where
  "handler_tests T =
     [test_put_object_success T, test_put_object_invalid_base64 T, test_put_object_no_storage_nodes T,
      test_put_object_duplicate_name T, test_get_object_success T, test_get_object_not_found T,
      test_delete_object_success T, test_delete_object_not_found T, test_list_objects_empty T,
      test_list_objects_with_objects T, test_put_get_delete_roundtrip T, test_get_object_stream_success T,
      test_get_object_stream_not_found T, test_get_object_stream_multi_chunk T, test_get_dispatch_json_accept T,
      test_get_dispatch_stream_default T, test_put_dispatch_json_content_type T]"

text \<open>A codec to run the tests with: two letters for each byte.\<close>

definition pair_encode :: "bytes \<Rightarrow> string" where
  "pair_encode bs = concat (map (\<lambda>b. [char_of (97 + unat b div 16), char_of (97 + unat b mod 16)]) bs)"

fun pair_decode :: "string \<Rightarrow> bytes option" where
  "pair_decode [] = Some []"
| "pair_decode [c] = None"
| "pair_decode (c # d # s) =
     (if c = CHR '' '' \<or> d = CHR '' '' then None
      else map_option (\<lambda>bs. of_nat ((of_char c - 97) * 16 + (of_char d - 97)) # bs) (pair_decode s))"

definition ascii_third_party :: "nat third_party" where
  "ascii_third_party =
     \<lparr>tp_crc = ieee_crc, tp_alphanumeric = (\<lambda>c. 48 \<le> c \<and> c \<le> 57 \<or> 65 \<le> c \<and> c \<le> 90 \<or> 97 \<le> c \<and> c \<le> 122),
      tp_encode = pair_encode, tp_decode = pair_decode, tp_to_json = lit, tp_from_json = (\<lambda>bs. Some (map (char_of \<circ> unat) bs))\<rparr>"

lemma pair_decode_encode: "pair_decode (pair_encode bs) = Some bs"
proof (induction bs)
  case Nil
  show ?case by (simp add: pair_encode_def)
next
  case (Cons b bs)
  have b: "unat b < 256" using unsigned_less [of b] by simp
  then have c: "of_char (char_of (97 + unat b div 16) :: char) = 97 + unat b div 16"
    "of_char (char_of (97 + unat b mod 16) :: char) = 97 + unat b mod 16" by (simp_all add: div_less_iff_less_mult)
  have ne: "char_of (97 + k :: nat) \<noteq> CHR '' ''" if "k < 100" for k
  proof
    assume "char_of (97 + k) = CHR '' ''"
    then have "of_char (char_of (97 + k) :: char) = (32 :: nat)" by simp
    then show False using that by simp
  qed
  have "unat b div 16 < 100" "unat b mod 16 < 100" using b by (auto intro: order.strict_trans2 [of _ 16])
  then show ?case using Cons.IH c ne by (simp add: pair_encode_def)
qed

lemma pair_decode_blank: "CHR '' '' \<in> set s \<Longrightarrow> pair_decode s = None"
  by (induction s rule: pair_decode.induct) auto

lemma char_of_lit: "map (char_of \<circ> unat) (lit s) = s"
proof -
  have "char_of (unat (of_char c :: u8)) = c" for c
  proof -
    have "unat (of_char c :: u8) = of_char c"
      using nat_of_char_less_256 [of c] by (subst of_nat_of_char [symmetric]) (simp only: unsigned_of_nat take_bit_eq_mod, simp)
    then show ?thesis by simp
  qed
  then show ?thesis by (simp add: lit_def comp_def)
qed

lemma ascii_documented: "documented ascii_third_party"
  by (simp add: documented_def ascii_third_party_def pair_decode_encode pair_decode_blank char_of_lit)



lemma handler_tests_pass: "documented T \<Longrightarrow> list_all (\<lambda>t. passes t create_test_state) (handler_tests T)"
  by (simp add: handler_tests_def upload_tests_pass download_tests_pass deletion_and_listing_tests_pass dispatch_tests_pass)

end
