(* ===== verification/ReplicationTests.thy ===== *)
theory ReplicationTests
  imports Replication Testing
begin

text \<open>
  The unit tests of the replication service (\<^verbatim>\<open>replication-service/src/main.rs\<close>) and the mock clients
  they use. The operations of the mock the cycle does not call are \<open>unimplemented!\<close>: they panic.
\<close>

section \<open>The mocks\<close>

record MockReplMetadata =
  rm_storage_nodes :: "MetaStorageNode list"
  rm_under_replicated_chunks :: "UnderReplicatedChunk list"
  rm_node_addresses :: "(u64, string) hashmap"
  rm_replicas_added :: "(u64 \<times> u64) list"

definition MockReplMetadata_default :: MockReplMetadata where
  "MockReplMetadata_default =
     \<lparr>rm_storage_nodes = [\<lparr>msn_id = 1, msn_address = ''http://node1:3000''\<rparr>, \<lparr>msn_id = 2, msn_address = ''http://node2:3000''\<rparr>],
      rm_under_replicated_chunks = [],
      rm_node_addresses = [(1, ''http://node1:3000''), (2, ''http://node2:3000'')],
      rm_replicas_added = []\<rparr>"

record MockReplFactory =
  rf_chunks :: "(u64, bytes) hashmap"
  rf_free_slots :: u64

definition MockReplFactory_default :: MockReplFactory where
  "MockReplFactory_default = \<lparr>rf_chunks = [], rf_free_slots = 10\<rparr>"

record repl_mock =
  rk_metadata :: MockReplMetadata
  rk_factory :: MockReplFactory

definition unimplemented :: "('w, 'a) act" where
  "unimplemented w = None"

definition repl_mock_metadata :: "repl_mock MetadataClient" where
  "repl_mock_metadata =
     \<lparr>mcl_list_storage_nodes = (\<lambda>w. Some (Ok (rm_storage_nodes (rk_metadata w)), w)),
      mcl_put_object = (\<lambda>_ _. unimplemented), mcl_get_object = (\<lambda>_. unimplemented),
      mcl_delete_object = (\<lambda>_. unimplemented), mcl_allocate_chunk = (\<lambda>_ _. unimplemented),
      mcl_confirm_chunk = (\<lambda>_ _ _ _. unimplemented), mcl_list_objects = unimplemented,
      mcl_delete_chunk = (\<lambda>_. unimplemented), mcl_put_chunk = (\<lambda>_ _. unimplemented),
      mcl_put_storage_node = (\<lambda>_. unimplemented), mcl_get_chunk = (\<lambda>_. unimplemented),
      mcl_get_storage_node = (\<lambda>i w.
        (case hm_get (rm_node_addresses (rk_metadata w)) i of
           Some address \<Rightarrow> Some (Ok address, w)
         | None \<Rightarrow> Some (Err Code_NotFound, w))),
      mcl_delete_storage_node = (\<lambda>_. unimplemented),
      mcl_list_under_replicated_chunks = (\<lambda>_ w. Some (Ok (rm_under_replicated_chunks (rk_metadata w)), w)),
      mcl_add_chunk_replica = (\<lambda>i n w.
        Some (Ok (), w\<lparr>rk_metadata := (rk_metadata w)\<lparr>rm_replicas_added := rm_replicas_added (rk_metadata w) @ [(i, n)]\<rparr>\<rparr>)),
      mcl_update_object_checksum = (\<lambda>_ _ _. unimplemented)\<rparr>"

text \<open>A client is the number of free slots it was made with; its chunks are the factory's.\<close>

definition set_chunks :: "((u64, bytes) hashmap \<Rightarrow> (u64, bytes) hashmap) \<Rightarrow> repl_mock \<Rightarrow> repl_mock" where
  "set_chunks f w = w\<lparr>rk_factory := rf_chunks_update f (rk_factory w)\<rparr>"

definition repl_mock_storage :: "(u64, repl_mock) StorageNodeClient" where
  "repl_mock_storage =
     \<lparr>ncl_connect = (\<lambda>_ w. Some (Ok (rf_free_slots (rk_factory w)), w)),
      ncl_get_chunk_size = (\<lambda>_. unimplemented),
      ncl_write_chunk = (\<lambda>_ i bs w. Some (Ok i, set_chunks (hm_insert i bs) w)),
      ncl_read_chunk = (\<lambda>_ i w.
        (case hm_get (rf_chunks (rk_factory w)) i of
           Some bs \<Rightarrow> Some (Ok (i, bs, 0), w)
         | None \<Rightarrow> Some (Err Code_NotFound, w))),
      ncl_delete_chunk = (\<lambda>_ i w. Some (Ok i, set_chunks (hm_remove i) w)),
      ncl_get_free_chunks = (\<lambda>free_slots. ret (Ok free_slots)),
      ncl_check_health = (\<lambda>_. unimplemented)\<rparr>"

section \<open>The tests\<close>

text \<open>A test runs one cycle on its clients and looks at the metrics and the replicas added.\<close>

definition repl_state :: "MockReplMetadata \<Rightarrow> MockReplFactory \<Rightarrow> 'g \<Rightarrow> ('g, repl_mock) ReplState" where
  "repl_state metadata factory g =
     \<lparr>rp_metrics = (\<lambda>_. 0), rp_rng = g, rp_world = \<lparr>rk_metadata = metadata, rk_factory = factory\<rparr>\<rparr>"

definition after_cycle ::
  "'h crc32 \<Rightarrow> 'g rand \<Rightarrow> nat \<Rightarrow> MockReplMetadata \<Rightarrow> MockReplFactory \<Rightarrow> (('g, repl_mock) ReplState \<Rightarrow> bool) \<Rightarrow> 'g \<Rightarrow> bool" where
  "after_cycle H R max_chunks metadata factory asserts g \<longleftrightarrow>
     passes (bnd (run_replication_cycle repl_mock_metadata repl_mock_storage H R max_chunks) (\<lambda>_. check asserts))
       (repl_state metadata factory g)"

definition test_no_under_replicated_chunks :: "'h crc32 \<Rightarrow> 'g rand \<Rightarrow> 'g \<Rightarrow> bool" where
  "test_no_under_replicated_chunks H R =
     after_cycle H R 100 MockReplMetadata_default MockReplFactory_default
       (\<lambda>s. rp_metrics s Rp_replication_runs_total = 1 \<and> rp_metrics s Rp_chunks_replicated_total = 0)"

definition test_replicates_under_replicated_chunk :: "'h crc32 \<Rightarrow> 'g rand \<Rightarrow> 'g \<Rightarrow> bool" where
  "test_replicates_under_replicated_chunk H R =
     after_cycle H R 100
       (MockReplMetadata_default\<lparr>rm_under_replicated_chunks :=
          [\<lparr>ur_chunk_id = 42, ur_checksum = 222957957, ur_storage_node_ids = [1]\<rparr>]\<rparr>)
       \<lparr>rf_chunks = [(42, lit ''hello world'')], rf_free_slots = 10\<rparr>
       (\<lambda>s. rp_metrics s Rp_chunks_replicated_total = 1 \<and> rm_replicas_added (rk_metadata (rp_world s)) = [(42, 2)])"

definition test_skips_chunk_when_no_eligible_nodes :: "'h crc32 \<Rightarrow> 'g rand \<Rightarrow> 'g \<Rightarrow> bool" where
  "test_skips_chunk_when_no_eligible_nodes H R =
     after_cycle H R 100
       (MockReplMetadata_default\<lparr>rm_storage_nodes := [\<lparr>msn_id = 1, msn_address = ''http://node1:3000''\<rparr>],
          rm_under_replicated_chunks := [\<lparr>ur_chunk_id = 42, ur_checksum = 12345, ur_storage_node_ids = [1]\<rparr>]\<rparr>)
       MockReplFactory_default (\<lambda>s. rp_metrics s Rp_chunks_replicated_total = 0)"

definition test_skips_chunk_when_no_free_space :: "'h crc32 \<Rightarrow> 'g rand \<Rightarrow> 'g \<Rightarrow> bool" where
  "test_skips_chunk_when_no_free_space H R =
     after_cycle H R 100
       (MockReplMetadata_default\<lparr>rm_under_replicated_chunks :=
          [\<lparr>ur_chunk_id = 42, ur_checksum = 2918445923, ur_storage_node_ids = [1]\<rparr>]\<rparr>)
       \<lparr>rf_chunks = [(42, lit ''data'')], rf_free_slots = 0\<rparr> (\<lambda>s. rp_metrics s Rp_chunks_replicated_total = 0)"

definition test_rate_limiting_respects_max_chunks_per_cycle :: "'h crc32 \<Rightarrow> 'g rand \<Rightarrow> 'g \<Rightarrow> bool" where
  "test_rate_limiting_respects_max_chunks_per_cycle H R =
     after_cycle H R 1
       (MockReplMetadata_default\<lparr>rm_under_replicated_chunks :=
          [\<lparr>ur_chunk_id = 1, ur_checksum = 1472867494, ur_storage_node_ids = [1]\<rparr>,
           \<lparr>ur_chunk_id = 2, ur_checksum = 3468918044, ur_storage_node_ids = [1]\<rparr>,
           \<lparr>ur_chunk_id = 3, ur_checksum = 3116649866, ur_storage_node_ids = [1]\<rparr>]\<rparr>)
       \<lparr>rf_chunks = [(1, lit ''data1''), (2, lit ''data2''), (3, lit ''data3'')], rf_free_slots = 10\<rparr>
       (\<lambda>s. rp_metrics s Rp_chunks_replicated_total = 1 \<and> rp_metrics s Rp_chunks_skipped_rate_limit = 2)"

definition test_no_storage_nodes_available :: "'h crc32 \<Rightarrow> 'g rand \<Rightarrow> 'g \<Rightarrow> bool" where
  "test_no_storage_nodes_available H R =
     after_cycle H R 100
       (MockReplMetadata_default\<lparr>rm_storage_nodes := [],
          rm_under_replicated_chunks := [\<lparr>ur_chunk_id = 42, ur_checksum = 12345, ur_storage_node_ids = [1]\<rparr>]\<rparr>)
       MockReplFactory_default (\<lambda>s. rp_metrics s Rp_chunks_replicated_total = 0)"

definition test_chunk_with_no_source_nodes_skipped :: "'h crc32 \<Rightarrow> 'g rand \<Rightarrow> 'g \<Rightarrow> bool" where
  "test_chunk_with_no_source_nodes_skipped H R =
     after_cycle H R 100
       (MockReplMetadata_default\<lparr>rm_under_replicated_chunks :=
          [\<lparr>ur_chunk_id = 42, ur_checksum = 12345, ur_storage_node_ids = []\<rparr>]\<rparr>)
       MockReplFactory_default (\<lambda>s. rp_metrics s Rp_chunks_replicated_total = 0)"

definition test_metrics_updated_correctly :: "'h crc32 \<Rightarrow> 'g rand \<Rightarrow> 'g \<Rightarrow> bool" where
  "test_metrics_updated_correctly H R =
     after_cycle H R 100 MockReplMetadata_default MockReplFactory_default
       (\<lambda>s. rp_metrics s Rp_replication_runs_total = 1 \<and> rp_metrics s Rp_under_replicated_chunks = 0)"

definition replication_tests :: "'h crc32 \<Rightarrow> 'g rand \<Rightarrow> ('g \<Rightarrow> bool) list" where
  "replication_tests H R =
     [test_no_under_replicated_chunks H R, test_replicates_under_replicated_chunk H R,
      test_skips_chunk_when_no_eligible_nodes H R, test_skips_chunk_when_no_free_space H R,
      test_rate_limiting_respects_max_chunks_per_cycle H R, test_no_storage_nodes_available H R,
      test_chunk_with_no_source_nodes_skipped H R, test_metrics_updated_correctly H R]"

section \<open>The tests pass\<close>

text \<open>For every random generator that chooses within the range, with the CRC of the test data.\<close>

lemmas cycle_defs = after_cycle_def repl_state_def run_replication_cycle_def replicate_chunk_def choose_target_def has_space_def
  fetch_source_def store_target_def skip_chunk_def inc_failure_def rp_call_def rp_metric_upd_def
  repl_mock_metadata_def repl_mock_storage_def MockReplMetadata_default_def MockReplFactory_default_def
  metric_add_def metric_set_def try_or_def bnd_def ret_def passes_def check_def Let_def

definition in_range :: "'g rand \<Rightarrow> bool" where
  "in_range R \<longleftrightarrow> (\<forall>n g. 0 < n \<longrightarrow> fst (rand_choose R n g) < n)"

lemma choose_only:
  assumes "in_range R"
  obtains g' where "rand_choose R (Suc 0) g = (0, g')"
proof -
  have "fst (rand_choose R (Suc 0) g) < Suc 0" using assms unfolding in_range_def by blast
  then show ?thesis using that by (cases "rand_choose R (Suc 0) g") simp
qed

lemma crc_test_data:
  "compute_checksum ieee_crc (lit ''hello world'') = 222957957" "compute_checksum ieee_crc (lit ''data1'') = 1472867494"
  by (simp_all add: crc_eval)

text \<open>A chunk held by node 1 goes to node 2, the only other one.\<close>

lemma replicates_pass:
  assumes "in_range R"
  shows "test_replicates_under_replicated_chunk ieee_crc R g" "test_skips_chunk_when_no_free_space H R g"
    "test_rate_limiting_respects_max_chunks_per_cycle ieee_crc R g"
proof -
  obtain g' where g: "rand_choose R (Suc 0) g = (0, g')" by (rule choose_only [OF assms])
  show "test_replicates_under_replicated_chunk ieee_crc R g"
    by (simp add: test_replicates_under_replicated_chunk_def cycle_defs g crc_test_data set_chunks_def)
  show "test_skips_chunk_when_no_free_space H R g"
    by (simp add: test_skips_chunk_when_no_free_space_def cycle_defs g)
  show "test_rate_limiting_respects_max_chunks_per_cycle ieee_crc R g"
    by (simp add: test_rate_limiting_respects_max_chunks_per_cycle_def cycle_defs g crc_test_data set_chunks_def)
qed

lemma skips_pass:
  assumes "in_range R"
  shows "test_no_under_replicated_chunks H R g" "test_skips_chunk_when_no_eligible_nodes H R g"
    "test_no_storage_nodes_available H R g" "test_metrics_updated_correctly H R g"
  by (simp_all add: test_no_under_replicated_chunks_def test_skips_chunk_when_no_eligible_nodes_def
      test_no_storage_nodes_available_def test_metrics_updated_correctly_def cycle_defs)

lemma no_source_passes: "test_chunk_with_no_source_nodes_skipped H R g"
  by (cases "rand_choose R (Suc (Suc 0)) g") (simp add: test_chunk_with_no_source_nodes_skipped_def cycle_defs)

lemma replication_tests_pass:
  assumes "in_range R"
  shows "list_all (\<lambda>t. t g) (replication_tests ieee_crc R)"
  by (simp add: replication_tests_def replicates_pass [OF assms] skips_pass [OF assms] no_source_passes)

end
