(* ===== verification/TextCodec.thy ===== *)
theory TextCodec
  imports MetadataStore
begin

text \<open>
  A text codec for the persistent state: the numbers of the state in decimal, each ended by a
  comma, lists and texts preceded by their length. It stands in for the JSON codec where a theorem
  about any codec is applied to a concrete one; \<open>text_roundtrip\<close> shows that it has the round trip the
  store relies on, for every state.
\<close>

section \<open>Numbers\<close>

definition put_text :: "string \<Rightarrow> nat list" where
  "put_text s = length s # map of_char s"

definition put_all :: "('a \<Rightarrow> nat list) \<Rightarrow> 'a list \<Rightarrow> nat list" where
  "put_all f xs = length xs # concat (map f xs)"

definition put_object_tokens :: "string \<times> MetaObject \<Rightarrow> nat list" where
  "put_object_tokens p = put_text (fst p) @ put_text (mo_name (snd p)) @ [unat (mo_checksum (snd p))] @
     put_all (\<lambda>i. [unat i]) (mo_chunks (snd p)) @ [unat (mo_total_size (snd p))]"

definition put_chunk_tokens :: "u64 \<times> MetaChunk \<Rightarrow> nat list" where
  "put_chunk_tokens p = [unat (fst p), unat (mc_id (snd p))] @ put_text (mc_object_name (snd p)) @ [unat (mc_checksum (snd p))] @
     put_all (\<lambda>i. [unat i]) (mc_storage_nodes (snd p)) @ [if mc_status (snd p) = Pending then 0 else 1]"

definition state_tokens :: "PersistentState \<Rightarrow> nat list" where
  "state_tokens ps = unat (ps_version ps) # put_all put_object_tokens (ps_objects ps) @ put_all put_chunk_tokens (ps_chunks ps)"

text \<open>Parsers take a value off the front of the tokens.\<close>

definition get_num :: "nat list \<Rightarrow> nat \<times> nat list" where
  "get_num ts = (hd ts, tl ts)"

definition get_text :: "nat list \<Rightarrow> string \<times> nat list" where
  "get_text ts = (map char_of (take (hd ts) (tl ts)), drop (hd ts) (tl ts))"

fun get_many :: "(nat list \<Rightarrow> 'a \<times> nat list) \<Rightarrow> nat \<Rightarrow> nat list \<Rightarrow> 'a list \<times> nat list" where
  "get_many p 0 ts = ([], ts)"
| "get_many p (Suc k) ts = (case p ts of (x, ts') \<Rightarrow> case get_many p k ts' of (xs, ts'') \<Rightarrow> (x # xs, ts''))"

definition get_all :: "(nat list \<Rightarrow> 'a \<times> nat list) \<Rightarrow> nat list \<Rightarrow> 'a list \<times> nat list" where
  "get_all p ts = get_many p (hd ts) (tl ts)"

definition get_object_tokens :: "nat list \<Rightarrow> (string \<times> MetaObject) \<times> nat list" where
  "get_object_tokens ts =
     (case get_text ts of (k, t1) \<Rightarrow> case get_text t1 of (n, t2) \<Rightarrow> case get_num t2 of (c, t3) \<Rightarrow>
      case get_all get_num t3 of (is, t4) \<Rightarrow> case get_num t4 of (z, t5) \<Rightarrow>
        ((k, \<lparr>mo_name = n, mo_checksum = of_nat c, mo_chunks = map of_nat is, mo_total_size = of_nat z\<rparr>), t5))"

definition get_chunk_tokens :: "nat list \<Rightarrow> (u64 \<times> MetaChunk) \<times> nat list" where
  "get_chunk_tokens ts =
     (case get_num ts of (k, t1) \<Rightarrow> case get_num t1 of (i, t2) \<Rightarrow> case get_text t2 of (n, t3) \<Rightarrow> case get_num t3 of (c, t4) \<Rightarrow>
      case get_all get_num t4 of (ns, t5) \<Rightarrow> case get_num t5 of (s, t6) \<Rightarrow>
        ((of_nat k, \<lparr>mc_id = of_nat i, mc_object_name = n, mc_checksum = of_nat c, mc_storage_nodes = map of_nat ns,
          mc_status = (if s = 0 then Pending else Confirmed)\<rparr>), t6))"

definition tokens_state :: "nat list \<Rightarrow> PersistentState" where
  "tokens_state ts =
     (case get_num ts of (v, t1) \<Rightarrow> case get_all get_object_tokens t1 of (objs, t2) \<Rightarrow>
      case get_all get_chunk_tokens t2 of (chs, _) \<Rightarrow> \<lparr>ps_version = of_nat v, ps_objects = objs, ps_chunks = chs\<rparr>)"

lemma get_num_put [simp]: "get_num (n # ts) = (n, ts)"
  by (simp add: get_num_def)

lemma get_text_put [simp]: "get_text (put_text s @ ts) = (s, ts)"
  by (simp add: get_text_def put_text_def comp_def)

lemma get_many_put:
  assumes "\<And>x ts. p (f x @ ts) = (g x, ts)"
  shows "get_many p (length xs) (concat (map f xs) @ ts) = (map g xs, ts)"
  using assms by (induction xs) auto

lemma get_all_put:
  assumes "\<And>x ts. p (f x @ ts) = (g x, ts)"
  shows "get_all p (put_all f xs @ ts) = (map g xs, ts)"
  using get_many_put [OF assms] by (simp add: get_all_def put_all_def)

lemma get_words_put [simp]: "get_all get_num (put_all (\<lambda>i. [unat (i :: u64)]) is @ ts) = (map unat is, ts)"
  by (rule get_all_put) simp

lemma get_object_put: "get_object_tokens (put_object_tokens p @ ts) = (p, ts)"
  by (cases p) (simp add: get_object_tokens_def put_object_tokens_def comp_def)

lemma get_chunk_put: "get_chunk_tokens (put_chunk_tokens p @ ts) = (p, ts)"
  by (cases p; cases "mc_status (snd p)") (simp_all add: get_chunk_tokens_def put_chunk_tokens_def comp_def)

lemma tokens_state_tokens: "tokens_state (state_tokens ps) = ps"
  using get_all_put [of get_object_tokens put_object_tokens "\<lambda>p. p", OF get_object_put]
    get_all_put [of get_chunk_tokens put_chunk_tokens "\<lambda>p. p" "ps_chunks ps" "[]", OF get_chunk_put]
  by (simp add: tokens_state_def state_tokens_def)

section \<open>Text\<close>

definition text_ser :: json_ser where
  "text_ser ps = Some (concat (map (\<lambda>n. show_nat n @ '','') (state_tokens ps)))"

definition text_de :: json_de where
  "text_de s = Some (tokens_state (map (\<lambda>d. case parse_digits 0 d of Some n \<Rightarrow> n | None \<Rightarrow> 0) (butlast (str_split (CHR '','') s))))"

lemma comma_not_digit: "CHR '','' \<notin> set (show_nat n)"
proof
  assume "CHR '','' \<in> set (show_nat n)"
  then obtain d where "d < 10" "CHR '','' = char_of (48 + d :: nat)" using show_nat_digits by blast
  then have "of_char (CHR '','') = (48 + d) mod (256 :: nat)" by (metis of_char_of take_bit_eq_mod of_char_mod_256)
  moreover have "(48 + d) mod 256 = 48 + d" using \<open>d < 10\<close> by simp
  ultimately show False by simp
qed

lemma str_split_piece: "c \<notin> set d \<Longrightarrow> str_split c (d @ c # s) = d # str_split c s"
  by (induction d) (auto split: list.split)

lemma text_tokens:
  "map (\<lambda>d. case parse_digits 0 d of Some n \<Rightarrow> n | None \<Rightarrow> 0)
     (butlast (str_split (CHR '','') (concat (map (\<lambda>n. show_nat n @ '','') ts)))) = ts"
proof (induction ts)
  case (Cons t ts)
  then show ?case using str_split_piece [OF comma_not_digit] by (simp add: parse_show_nat)
qed simp

lemma text_roundtrip:
  assumes "text_ser ps = Some j"
  shows "j \<noteq> [] \<and> text_de j = Some ps"
proof
  have j: "j = concat (map (\<lambda>n. show_nat n @ '','') (state_tokens ps))" using assms by (simp add: text_ser_def)
  show "j \<noteq> []" by (simp add: j state_tokens_def)
  show "text_de j = Some ps" unfolding j text_de_def text_tokens by (simp add: tokens_state_tokens)
qed

lemma text_json: "json_roundtrip text_ser text_de"
  using text_roundtrip unfolding json_roundtrip_def by metis

end
