(* ===== verification/MetadataTests.thy ===== *)
theory MetadataTests
  imports Testing TextCodec
begin

text \<open>
  The unit tests of the metadata store (\<^verbatim>\<open>storage-metadata/src/metadata_store.rs\<close>), each as an action
  on the store it creates, and the proof that the modelled store passes them for every random
  generator that keeps drawing new ids and every JSON encoder that does not fail. The statistical
  test of the choice of a node is left out: it holds of a good generator only.
\<close>

section \<open>The tests\<close>

type_synonym 'g ms_test = "('g MetadataStore, unit) act"

text \<open>\<open>create_test_store\<close>: a store on a new temporary file, which exists and is empty.\<close>

definition create_test_store :: "json_de \<Rightarrow> string \<Rightarrow> 'g \<Rightarrow> 'g MetadataStore io" where
  "create_test_store de path g = fst (ms_new de True path \<lparr>fs_files = [path \<mapsto> []], fs_plan = []\<rparr> g)"

definition ms_passes :: "json_de \<Rightarrow> string \<Rightarrow> 'g \<Rightarrow> 'g ms_test \<Rightarrow> bool" where
  "ms_passes de path g t = (case create_test_store de path g of Ok st \<Rightarrow> passes t st | Err _ \<Rightarrow> False)"

text \<open>The helper of the tests that registers a node under a given id.\<close>

definition test_add_storage_node :: "u64 \<Rightarrow> nat \<Rightarrow> 'g ms_test" where
  "test_add_storage_node i p st =
     Some ((), st\<lparr>ms_storage_nodes :=
       hm_insert i \<lparr>msn_id = i, msn_address = ''127.0.0.1:'' @ show_nat p\<rparr> (ms_storage_nodes st)\<rparr>)"

subsection \<open>Storage nodes\<close>

definition test_storage_node_address_validation :: "(string \<Rightarrow> bool) \<Rightarrow> bool" where
  "test_storage_node_address_validation uri =
     (list_all (\<lambda>a. is_ok (MetaStorageNode_new uri 0 a))
        [''http://10.10.10.10'', ''http://10.10.10.10:80'', ''127.0.0.1:8080'', ''localhost:3000'', ''10.10.10.10''] \<and>
      \<not> is_ok (MetaStorageNode_new uri 0 ''''))"

definition test_construct_storage_node_generates_unique_ids :: "'g rand \<Rightarrow> (string \<Rightarrow> bool) \<Rightarrow> 'g ms_test" where
  "test_construct_storage_node_generates_unique_ids R uri =
     bnd (expect_ok (construct_storage_node R uri ''127.0.0.1:8080'')) (\<lambda>id1.
     bnd (expect_ok (construct_storage_node R uri ''127.0.0.1:8081'')) (\<lambda>id2.
     bnd (expect_ok (construct_storage_node R uri ''127.0.0.1:8082'')) (\<lambda>id3.
     bnd (assert_that (id1 \<noteq> id2 \<and> id2 \<noteq> id3 \<and> id1 \<noteq> id3)) (\<lambda>_.
     check (\<lambda>st. length (ms_storage_nodes st) = 3)))))"

definition test_construct_storage_node_rejects_invalid_address :: "'g rand \<Rightarrow> (string \<Rightarrow> bool) \<Rightarrow> 'g ms_test" where
  "test_construct_storage_node_rejects_invalid_address R uri =
     fails_with (construct_storage_node R uri '''') InvalidInput"

definition test_get_storage_node_returns_address :: "'g ms_test" where
  "test_get_storage_node_returns_address =
     then_do (test_add_storage_node 42 3000) (
     bnd (expect_ok (ask (get_storage_node 42))) (\<lambda>address. assert_that (address = ''127.0.0.1:3000'')))"

definition test_get_storage_node_not_found :: "'g ms_test" where
  "test_get_storage_node_not_found =
     fails_with (ask (get_storage_node 99999)) NotFound"

definition test_delete_storage_node :: "'g ms_test" where
  "test_delete_storage_node =
     then_do (test_add_storage_node 42 3000) (
     then_do (expect_ok (call (delete_storage_node 42))) (
     then_do (expect_err (ask (get_storage_node 42))) (ret ())))"

definition test_delete_storage_node_not_found :: "'g ms_test" where
  "test_delete_storage_node_not_found =
     fails_with (call (delete_storage_node 99999)) NotFound"

definition test_list_storage_nodes :: "'g ms_test" where
  "test_list_storage_nodes =
     then_do (test_add_storage_node 1 3000) (
     then_do (test_add_storage_node 2 3001) (
     bnd (ask list_storage_nodes) (\<lambda>nodes.
     assert_that (length nodes = 2 \<and> 1 \<in> set (map msn_id nodes) \<and> 2 \<in> set (map msn_id nodes)))))"

subsection \<open>Objects\<close>

definition test_put_and_get_object :: "json_ser \<Rightarrow> 'g ms_test" where
  "test_put_and_get_object ser =
     then_do (expect_ok (call (put_object ser 12345 ''myobject''))) (
     bnd (expect_ok (ask (get_object ''myobject''))) (\<lambda>object.
     assert_that (mo_name object = ''myobject'' \<and> mo_checksum object = 12345 \<and> mo_chunks object = [])))"

definition test_put_object_duplicate_name_fails :: "json_ser \<Rightarrow> 'g ms_test" where
  "test_put_object_duplicate_name_fails ser =
     then_do (expect_ok (call (put_object ser 12345 ''myobject''))) (
     fails_with (call (put_object ser 67890 ''myobject'')) AlreadyExists)"

definition test_get_object_not_found :: "'g ms_test" where
  "test_get_object_not_found =
     fails_with (ask (get_object ''nonexistent'')) NotFound"

definition test_delete_object :: "json_ser \<Rightarrow> 'g ms_test" where
  "test_delete_object ser =
     then_do (expect_ok (call (put_object ser 12345 ''myobject''))) (
     then_do (expect_ok (call (delete_object ser ''myobject''))) (
     then_do (expect_err (ask (get_object ''myobject''))) (ret ())))"

definition test_delete_object_not_found :: "json_ser \<Rightarrow> 'g ms_test" where
  "test_delete_object_not_found ser =
     fails_with (call (delete_object ser ''nonexistent'')) NotFound"

definition test_delete_object_also_removes_chunks :: "'g rand \<Rightarrow> json_ser \<Rightarrow> 'g ms_test" where
  "test_delete_object_also_removes_chunks R ser =
     then_do (test_add_storage_node 1 3000) (
     then_do (expect_ok (call (put_object ser 12345 ''myobject''))) (
     bnd (expect_ok (put_chunk R ser ''myobject'' 111)) (\<lambda>(chunk_id, _).
     then_do (expect_ok (ask (get_chunk chunk_id))) (
     then_do (expect_ok (call (delete_object ser ''myobject''))) (
     then_do (expect_err (ask (get_chunk chunk_id))) (ret ()))))))"

definition test_list_objects :: "json_ser \<Rightarrow> 'g ms_test" where
  "test_list_objects ser =
     then_do (expect_ok (call (put_object ser 111 ''obj1''))) (
     then_do (expect_ok (call (put_object ser 222 ''obj2''))) (
     then_do (expect_ok (call (put_object ser 333 ''obj3''))) (
     bnd (ask list_objects) (\<lambda>objects.
     assert_that (length objects = 3 \<and> {''obj1'', ''obj2'', ''obj3''} \<subseteq> set (map mo_name objects))))))"

definition test_list_objects_empty :: "'g ms_test" where
  "test_list_objects_empty =
     bnd (ask list_objects) (\<lambda>objects. assert_that (objects = []))"

subsection \<open>Chunks: put_chunk\<close>

definition test_put_chunk_assigns_storage_node :: "'g rand \<Rightarrow> json_ser \<Rightarrow> 'g ms_test" where
  "test_put_chunk_assigns_storage_node R ser =
     then_do (test_add_storage_node 1 3000) (
     then_do (expect_ok (call (put_object ser 12345 ''myobject''))) (
     bnd (expect_ok (put_chunk R ser ''myobject'' 67890)) (\<lambda>(chunk_id, address).
     then_do (assert_that (address = ''127.0.0.1:3000'')) (
     bnd (expect_ok (ask (get_chunk chunk_id))) (\<lambda>(_, chunk).
     assert_that (mc_checksum chunk = 67890 \<and> mc_storage_nodes chunk = [1]))))))"

definition test_put_chunk_adds_to_object :: "'g rand \<Rightarrow> json_ser \<Rightarrow> 'g ms_test" where
  "test_put_chunk_adds_to_object R ser =
     then_do (test_add_storage_node 1 3000) (
     then_do (expect_ok (call (put_object ser 12345 ''myobject''))) (
     bnd (expect_ok (put_chunk R ser ''myobject'' 111)) (\<lambda>(chunk_id, _).
     bnd (expect_ok (ask (get_object ''myobject''))) (\<lambda>object. assert_that (mo_chunks object = [chunk_id])))))"

definition test_put_chunk_no_storage_nodes_fails :: "'g rand \<Rightarrow> json_ser \<Rightarrow> 'g ms_test" where
  "test_put_chunk_no_storage_nodes_fails R ser =
     then_do (expect_ok (call (put_object ser 12345 ''myobject''))) (
     fails_with (put_chunk R ser ''myobject'' 67890) HostUnreachable)"

definition test_put_chunk_object_not_found_fails :: "'g rand \<Rightarrow> json_ser \<Rightarrow> 'g ms_test" where
  "test_put_chunk_object_not_found_fails R ser =
     then_do (test_add_storage_node 1 3000) (
     fails_with (put_chunk R ser ''nonexistent'' 67890) NotFound)"

subsection \<open>Chunks: allocation and confirmation\<close>

definition test_allocate_chunk_returns_node_info :: "'g rand \<Rightarrow> 'g ms_test" where
  "test_allocate_chunk_returns_node_info R =
     then_do (test_add_storage_node 42 3000) (
     bnd (expect_ok (allocate_chunk R ''myobject'')) (\<lambda>(chunk_id, node_id, address).
     assert_that ((chunk_id > 0 \<or> chunk_id = 0) \<and> node_id = 42 \<and> address = ''127.0.0.1:3000'')))"

definition test_allocate_chunk_no_storage_nodes_fails :: "'g rand \<Rightarrow> 'g ms_test" where
  "test_allocate_chunk_no_storage_nodes_fails R =
     fails_with (allocate_chunk R ''myobject'') HostUnreachable"

definition test_allocate_chunk_reserves_id_as_pending :: "'g rand \<Rightarrow> 'g ms_test" where
  "test_allocate_chunk_reserves_id_as_pending R =
     then_do (test_add_storage_node 1 3000) (
     bnd (expect_ok (allocate_chunk R ''myobject'')) (\<lambda>(chunk_id, _, _).
     check (\<lambda>st. ms_chunks st \<noteq> [] \<and>
       (case hm_get (ms_chunks st) chunk_id of Some chunk \<Rightarrow> mc_status chunk = Pending | None \<Rightarrow> False))))"

definition test_confirm_chunk_persists_metadata :: "'g rand \<Rightarrow> json_ser \<Rightarrow> 'g ms_test" where
  "test_confirm_chunk_persists_metadata R ser =
     then_do (test_add_storage_node 1 3000) (
     then_do (expect_ok (call (put_object ser 12345 ''myobject''))) (
     bnd (expect_ok (allocate_chunk R ''myobject'')) (\<lambda>(chunk_id, node_id, _).
     then_do (expect_ok (call (confirm_chunk ser chunk_id ''myobject'' 67890 node_id))) (
     bnd (expect_ok (ask (get_chunk chunk_id))) (\<lambda>(obj_name, chunk).
     then_do (assert_that (obj_name = ''myobject'' \<and> mc_checksum chunk = 67890 \<and> mc_storage_nodes chunk = [node_id])) (
     bnd (expect_ok (ask (get_object ''myobject''))) (\<lambda>object. assert_that (chunk_id \<in> set (mo_chunks object)))))))))"

definition test_confirm_chunk_storage_node_not_found_fails :: "json_ser \<Rightarrow> 'g ms_test" where
  "test_confirm_chunk_storage_node_not_found_fails ser =
     then_do (test_add_storage_node 1 3000) (
     then_do (expect_ok (call (put_object ser 12345 ''myobject''))) (
     fails_with (call (confirm_chunk ser 100 ''myobject'' 67890 99999)) NotFound))"

definition test_confirm_chunk_duplicate_chunk_id_fails :: "'g rand \<Rightarrow> json_ser \<Rightarrow> 'g ms_test" where
  "test_confirm_chunk_duplicate_chunk_id_fails R ser =
     then_do (test_add_storage_node 1 3000) (
     then_do (expect_ok (call (put_object ser 12345 ''myobject''))) (
     bnd (expect_ok (allocate_chunk R ''myobject'')) (\<lambda>(chunk_id, node_id, _).
     then_do (expect_ok (call (confirm_chunk ser chunk_id ''myobject'' 111 node_id))) (
     fails_with (call (confirm_chunk ser chunk_id ''myobject'' 222 node_id)) AlreadyExists))))"

definition test_confirm_chunk_object_not_found_fails :: "'g rand \<Rightarrow> json_ser \<Rightarrow> 'g ms_test" where
  "test_confirm_chunk_object_not_found_fails R ser =
     then_do (test_add_storage_node 1 3000) (
     bnd (expect_ok (allocate_chunk R ''myobject'')) (\<lambda>(chunk_id, node_id, _).
     fails_with (call (confirm_chunk ser chunk_id ''nonexistent'' 67890 node_id)) NotFound))"

text \<open>The loop of the next test: one chunk for each checksum.\<close>

fun allocate_and_confirm :: "'g rand \<Rightarrow> json_ser \<Rightarrow> u32 list \<Rightarrow> u64 list \<Rightarrow> ('g MetadataStore, u64 list) act" where
  "allocate_and_confirm R ser [] chunk_ids = ret chunk_ids"
| "allocate_and_confirm R ser (c # cs) chunk_ids =
     bnd (expect_ok (allocate_chunk R ''myobject'')) (\<lambda>(chunk_id, node_id, _).
     then_do (expect_ok (call (confirm_chunk ser chunk_id ''myobject'' c node_id)))
       (allocate_and_confirm R ser cs (chunk_ids @ [chunk_id])))"

definition test_full_allocate_confirm_flow_multiple_chunks :: "'g rand \<Rightarrow> json_ser \<Rightarrow> 'g ms_test" where
  "test_full_allocate_confirm_flow_multiple_chunks R ser =
     then_do (test_add_storage_node 1 3000) (
     then_do (test_add_storage_node 2 3001) (
     then_do (expect_ok (call (put_object ser 12345 ''myobject''))) (
     bnd (allocate_and_confirm R ser [100, 101, 102] []) (\<lambda>chunk_ids.
     bnd (expect_ok (ask (get_object ''myobject''))) (\<lambda>object.
     assert_that (length (mo_chunks object) = 3 \<and> list_all (\<lambda>i. i \<in> set (mo_chunks object)) chunk_ids))))))"

subsection \<open>Chunks: lookup and deletion\<close>

definition test_get_chunk_returns_object_name_and_metadata :: "'g rand \<Rightarrow> json_ser \<Rightarrow> 'g ms_test" where
  "test_get_chunk_returns_object_name_and_metadata R ser =
     then_do (test_add_storage_node 1 3000) (
     then_do (expect_ok (call (put_object ser 12345 ''myobject''))) (
     bnd (expect_ok (put_chunk R ser ''myobject'' 67890)) (\<lambda>(chunk_id, _).
     bnd (expect_ok (ask (get_chunk chunk_id))) (\<lambda>(obj_name, chunk).
     assert_that (obj_name = ''myobject'' \<and> mc_id chunk = chunk_id \<and> mc_checksum chunk = 67890 \<and>
       mc_object_name chunk = ''myobject'')))))"

definition test_get_chunk_not_found :: "'g ms_test" where
  "test_get_chunk_not_found =
     fails_with (ask (get_chunk 99999)) NotFound"

definition test_delete_chunk_removes_from_object :: "'g rand \<Rightarrow> json_ser \<Rightarrow> 'g ms_test" where
  "test_delete_chunk_removes_from_object R ser =
     then_do (test_add_storage_node 1 3000) (
     then_do (expect_ok (call (put_object ser 12345 ''myobject''))) (
     bnd (expect_ok (put_chunk R ser ''myobject'' 67890)) (\<lambda>(chunk_id, _).
     bnd (expect_ok (ask (get_object ''myobject''))) (\<lambda>object.
     then_do (assert_that (mo_chunks object = [chunk_id])) (
     then_do (expect_ok (call (delete_chunk ser chunk_id))) (
     then_do (expect_err (ask (get_chunk chunk_id))) (
     bnd (expect_ok (ask (get_object ''myobject''))) (\<lambda>object. assert_that (mo_chunks object = [])))))))))"

definition test_delete_chunk_not_found :: "json_ser \<Rightarrow> 'g ms_test" where
  "test_delete_chunk_not_found ser =
     fails_with (call (delete_chunk ser 99999)) NotFound"

subsection \<open>Replicas\<close>

definition test_list_under_replicated_chunks_sorted_by_replica_count :: "'g rand \<Rightarrow> json_ser \<Rightarrow> 'g ms_test" where
  "test_list_under_replicated_chunks_sorted_by_replica_count R ser =
     then_do (test_add_storage_node 1 3000) (
     then_do (test_add_storage_node 2 3001) (
     then_do (test_add_storage_node 3 3002) (
     then_do (expect_ok (call (put_object ser 12345 ''myobject''))) (
     then_do (expect_ok (put_chunk R ser ''myobject'' 111)) (
     bnd (expect_ok (put_chunk R ser ''myobject'' 222)) (\<lambda>(chunk2_id, _).
     then_do (expect_ok (put_chunk R ser ''myobject'' 333)) (
     bnd (expect_ok (ask (get_chunk chunk2_id))) (\<lambda>(_, chunk2).
     let other_node = (if hd (mc_storage_nodes chunk2) = 1 then 2 else 1) in
     then_do (expect_ok (call (add_chunk_replica ser chunk2_id other_node))) (
     then_do (check (\<lambda>st. let under_rep = list_under_replicated_chunks 3 st in
       length under_rep = 3 \<and> length (mc_storage_nodes (under_rep ! 0)) \<le> length (mc_storage_nodes (under_rep ! 2)))) (
     then_do (check (\<lambda>st. let under_rep = list_under_replicated_chunks 2 st in
       length under_rep = 2 \<and> list_all (\<lambda>c. length (mc_storage_nodes c) = 1) under_rep)) (
     check (\<lambda>st. list_under_replicated_chunks 1 st = []))))))))))))"

definition test_add_chunk_replica_success :: "'g rand \<Rightarrow> json_ser \<Rightarrow> 'g ms_test" where
  "test_add_chunk_replica_success R ser =
     then_do (test_add_storage_node 1 3000) (
     then_do (test_add_storage_node 2 3001) (
     then_do (expect_ok (call (put_object ser 12345 ''myobject''))) (
     bnd (expect_ok (put_chunk R ser ''myobject'' 111)) (\<lambda>(chunk_id, _).
     bnd (expect_ok (ask (get_chunk chunk_id))) (\<lambda>(_, chunk).
     let first_node = hd (mc_storage_nodes chunk); second_node = (if first_node = 1 then 2 else 1) in
     then_do (expect_ok (call (add_chunk_replica ser chunk_id second_node))) (
     bnd (expect_ok (ask (get_chunk chunk_id))) (\<lambda>(_, chunk).
     assert_that (length (mc_storage_nodes chunk) = 2 \<and> first_node \<in> set (mc_storage_nodes chunk) \<and>
       second_node \<in> set (mc_storage_nodes chunk)))))))))"

definition test_add_chunk_replica_max_replicas_exceeded :: "'g rand \<Rightarrow> json_ser \<Rightarrow> 'g ms_test" where
  "test_add_chunk_replica_max_replicas_exceeded R ser =
     then_do (test_add_storage_node 1 3000) (
     then_do (test_add_storage_node 2 3001) (
     then_do (test_add_storage_node 3 3002) (
     then_do (test_add_storage_node 4 3003) (
     then_do (expect_ok (call (put_object ser 12345 ''myobject''))) (
     bnd (expect_ok (put_chunk R ser ''myobject'' 111)) (\<lambda>(chunk_id, _).
     bnd (expect_ok (ask (get_chunk chunk_id))) (\<lambda>(_, chunk).
     let other_nodes = filter (\<lambda>n. n \<noteq> hd (mc_storage_nodes chunk)) [1, 2, 3, 4] in
     then_do (expect_ok (call (add_chunk_replica ser chunk_id (other_nodes ! 0)))) (
     then_do (expect_ok (call (add_chunk_replica ser chunk_id (other_nodes ! 1)))) (
     fails_with (call (add_chunk_replica ser chunk_id (other_nodes ! 2))) InvalidInput)))))))))"

definition test_add_chunk_replica_duplicate_fails :: "'g rand \<Rightarrow> json_ser \<Rightarrow> 'g ms_test" where
  "test_add_chunk_replica_duplicate_fails R ser =
     then_do (test_add_storage_node 1 3000) (
     then_do (expect_ok (call (put_object ser 12345 ''myobject''))) (
     bnd (expect_ok (put_chunk R ser ''myobject'' 111)) (\<lambda>(chunk_id, _).
     bnd (expect_ok (ask (get_chunk chunk_id))) (\<lambda>(_, chunk).
     fails_with (call (add_chunk_replica ser chunk_id (hd (mc_storage_nodes chunk)))) AlreadyExists))))"

definition test_add_chunk_replica_chunk_not_found :: "json_ser \<Rightarrow> 'g ms_test" where
  "test_add_chunk_replica_chunk_not_found ser =
     then_do (test_add_storage_node 1 3000) (
     fails_with (call (add_chunk_replica ser 99999 1)) NotFound)"

definition test_add_chunk_replica_storage_node_not_found :: "'g rand \<Rightarrow> json_ser \<Rightarrow> 'g ms_test" where
  "test_add_chunk_replica_storage_node_not_found R ser =
     then_do (test_add_storage_node 1 3000) (
     then_do (expect_ok (call (put_object ser 12345 ''myobject''))) (
     bnd (expect_ok (put_chunk R ser ''myobject'' 111)) (\<lambda>(chunk_id, _).
     fails_with (call (add_chunk_replica ser chunk_id 99999)) NotFound)))"

definition test_get_chunk_mut_allows_modification :: "'g rand \<Rightarrow> json_ser \<Rightarrow> 'g ms_test" where
  "test_get_chunk_mut_allows_modification R ser =
     then_do (test_add_storage_node 1 3000) (
     then_do (expect_ok (call (put_object ser 12345 ''myobject''))) (
     bnd (expect_ok (put_chunk R ser ''myobject'' 111)) (\<lambda>(chunk_id, _).
     then_do (expect_ok (call (get_chunk_mut chunk_id (\<lambda>chunk. chunk\<lparr>mc_checksum := 999\<rparr>)))) (
     bnd (expect_ok (ask (get_chunk chunk_id))) (\<lambda>(_, chunk). assert_that (mc_checksum chunk = 999))))))"

definition test_get_chunk_mut_not_found :: "'g ms_test" where
  "test_get_chunk_mut_not_found =
     fails_with (call (get_chunk_mut 99999 (\<lambda>chunk. chunk))) NotFound"

definition test_choose_storage_node_empty_returns_none :: "'g rand \<Rightarrow> 'g ms_test" where
  "test_choose_storage_node_empty_returns_none R =
     bnd (call (choose_storage_node R)) (\<lambda>node. assert_that (node = None))"

subsection \<open>Migration\<close>

text \<open>The loop of the next test: objects \<open>migration-obj-0\<close> to \<open>migration-obj-19\<close>, one chunk each.\<close>

fun put_migration_objects :: "'g rand \<Rightarrow> json_ser \<Rightarrow> nat list \<Rightarrow> 'g ms_test" where
  "put_migration_objects R ser [] = ret ()"
| "put_migration_objects R ser (i # is) =
     then_do (expect_ok (call (put_object ser (of_nat i) (''migration-obj-'' @ show_nat i)))) (
     then_do (expect_ok (put_chunk R ser (''migration-obj-'' @ show_nat i) (of_nat (100 + i))))
       (put_migration_objects R ser is))"

definition test_objects_in_hash_ranges_filters_correctly :: "'g rand \<Rightarrow> json_ser \<Rightarrow> (string \<Rightarrow> u64) \<Rightarrow> 'g ms_test" where
  "test_objects_in_hash_ranges_filters_correctly R ser xxh3_64 =
     then_do (test_add_storage_node 1 3000) (
     then_do (put_migration_objects R ser [0..<20]) (
     let ring = add_node xxh3_64 ''node-b'' (add_node xxh3_64 ''node-a'' HashRing_new) in
     check (\<lambda>st.
       let objects_a = objects_in_hash_ranges xxh3_64 (get_owned_ranges ring ''node-a'') st;
           objects_b = objects_in_hash_ranges xxh3_64 (get_owned_ranges ring ''node-b'') st in
       length objects_a + length objects_b = 20 \<and> objects_a \<noteq> [] \<and> objects_b \<noteq> [] \<and>
       list_all (\<lambda>(obj, chunks). length chunks = length (mo_chunks obj) \<and>
         list_all (\<lambda>chunk. mc_object_name chunk = mo_name obj) chunks) objects_a)))"

definition test_ingest_partition_merges_data :: "json_ser \<Rightarrow> 'g ms_test" where
  "test_ingest_partition_merges_data ser =
     then_do (expect_ok (call (put_object ser 111 ''local-obj''))) (
     then_do (expect_ok (call (ingest_partition ser
       [\<lparr>mo_name = ''migrated-1'', mo_checksum = 222, mo_chunks = [100, 101], mo_total_size = 0\<rparr>,
        \<lparr>mo_name = ''migrated-2'', mo_checksum = 333, mo_chunks = [102], mo_total_size = 0\<rparr>]
       [\<lparr>mc_id = 100, mc_object_name = ''migrated-1'', mc_checksum = 1000, mc_storage_nodes = [1], mc_status = Confirmed\<rparr>,
        \<lparr>mc_id = 101, mc_object_name = ''migrated-1'', mc_checksum = 1001, mc_storage_nodes = [1, 2], mc_status = Confirmed\<rparr>,
        \<lparr>mc_id = 102, mc_object_name = ''migrated-2'', mc_checksum = 1002, mc_storage_nodes = [1], mc_status = Confirmed\<rparr>]))) (
     then_do (check (\<lambda>st. length (ms_objects st) = 3 \<and>
       list_all (\<lambda>n. is_ok (get_object n st)) [''local-obj'', ''migrated-1'', ''migrated-2''] \<and> length (ms_chunks st) = 3)) (
     bnd (expect_ok (ask (get_chunk 100))) (\<lambda>(obj_name, chunk).
     assert_that (obj_name = ''migrated-1'' \<and> mc_checksum chunk = 1000)))))"

definition test_remove_objects_cleans_up_chunks :: "'g rand \<Rightarrow> json_ser \<Rightarrow> 'g ms_test" where
  "test_remove_objects_cleans_up_chunks R ser =
     then_do (test_add_storage_node 1 3000) (
     then_do (expect_ok (call (put_object ser 111 ''keep-me''))) (
     then_do (expect_ok (call (put_object ser 222 ''remove-me''))) (
     bnd (expect_ok (put_chunk R ser ''keep-me'' 1000)) (\<lambda>(keep_chunk, _).
     bnd (expect_ok (put_chunk R ser ''remove-me'' 2000)) (\<lambda>(remove_chunk, _).
     then_do (expect_ok (call (remove_objects ser [''remove-me'']))) (
     check (\<lambda>st. is_ok (get_object ''keep-me'' st) \<and> is_ok (get_chunk keep_chunk st) \<and>
       \<not> is_ok (get_object ''remove-me'' st) \<and> \<not> is_ok (get_chunk remove_chunk st))))))))"

subsection \<open>Persistence\<close>

text \<open>The store is dropped and opened again from its file.\<close>

definition reopen :: "json_de \<Rightarrow> 'g ms_test" where
  "reopen de st =
     (case ms_new de True (ms_path st) (ms_disk st) (ms_rng st) of
        (Ok st', _) \<Rightarrow> Some ((), st')
      | (Err _, _) \<Rightarrow> None)"

definition test_persistence_objects_survive_reload :: "json_ser \<Rightarrow> json_de \<Rightarrow> 'g ms_test" where
  "test_persistence_objects_survive_reload ser de =
     then_do (test_add_storage_node 1 3000) (
     then_do (expect_ok (call (put_object ser 12345 ''obj1''))) (
     then_do (expect_ok (call (put_object ser 67890 ''obj2''))) (
     then_do (reopen de) (
     then_do (check (\<lambda>st. length (ms_objects st) = 2)) (
     bnd (expect_ok (ask (get_object ''obj1''))) (\<lambda>obj1.
     then_do (assert_that (mo_checksum obj1 = 12345)) (
     bnd (expect_ok (ask (get_object ''obj2''))) (\<lambda>obj2.
     then_do (assert_that (mo_checksum obj2 = 67890)) (
     check (\<lambda>st. ms_storage_nodes st = []))))))))))"

definition test_persistence_chunks_survive_reload :: "'g rand \<Rightarrow> json_ser \<Rightarrow> json_de \<Rightarrow> 'g ms_test" where
  "test_persistence_chunks_survive_reload R ser de =
     then_do (test_add_storage_node 1 3000) (
     then_do (expect_ok (call (put_object ser 12345 ''myobject''))) (
     bnd (expect_ok (put_chunk R ser ''myobject'' 67890)) (\<lambda>(chunk_id, _).
     then_do (reopen de) (
     bnd (expect_ok (ask (get_chunk chunk_id))) (\<lambda>(obj_name, chunk).
     then_do (assert_that (obj_name = ''myobject'' \<and> mc_checksum chunk = 67890)) (
     bnd (expect_ok (ask (get_object ''myobject''))) (\<lambda>object. assert_that (chunk_id \<in> set (mo_chunks object)))))))))"

definition test_persistence_delete_reflected_on_reload :: "json_ser \<Rightarrow> json_de \<Rightarrow> 'g ms_test" where
  "test_persistence_delete_reflected_on_reload ser de =
     then_do (test_add_storage_node 1 3000) (
     then_do (expect_ok (call (put_object ser 111 ''keep''))) (
     then_do (expect_ok (call (put_object ser 222 ''delete-me''))) (
     then_do (expect_ok (call (delete_object ser ''delete-me''))) (
     then_do (reopen de) (
     then_do (check (\<lambda>st. length (ms_objects st) = 1)) (
     then_do (expect_ok (ask (get_object ''keep''))) (
     then_do (expect_err (ask (get_object ''delete-me''))) (ret ()))))))))"

definition test_persistence_empty_file_starts_fresh :: "'g ms_test" where
  "test_persistence_empty_file_starts_fresh = check (\<lambda>st. ms_objects st = [] \<and> ms_chunks st = [])"

text \<open>A new directory; whether a file is there decides what \<open>Path::exists\<close> answers.\<close>

definition test_new_with_node_uses_node_specific_path :: "json_ser \<Rightarrow> json_de \<Rightarrow> string \<Rightarrow> 'g \<Rightarrow> bool" where
  "test_new_with_node_uses_node_specific_path ser de dir_path g =
     (case ms_new_with_node de False dir_path ''meta-1'' \<lparr>fs_files = Map.empty, fs_plan = []\<rparr> g of
        (Err _, _) \<Rightarrow> False
      | (Ok st, _) \<Rightarrow>
          (case put_object ser 111 ''test-obj'' st of
             (Err _, _) \<Rightarrow> False
           | (Ok _, st) \<Rightarrow>
               let d = ms_disk st; exists = (\<lambda>n. fs_files d (dir_path @ ''/metadata-'' @ n @ ''.dat'') \<noteq> None) in
               exists ''meta-1'' \<and>
               (case ms_new_with_node de (exists ''meta-1'') dir_path ''meta-1'' d g of
                  (Ok st2, _) \<Rightarrow> is_ok (get_object ''test-obj'' st2)
                | (Err _, _) \<Rightarrow> False) \<and>
               (case ms_new_with_node de (exists ''meta-2'') dir_path ''meta-2'' d g of
                  (Ok st3, _) \<Rightarrow> ms_objects st3 = []
                | (Err _, _) \<Rightarrow> False)))"

section \<open>What the tests rely on\<close>

text \<open>
  The generator chooses within the range and, whatever few ids are taken, draws another one in the
  end; the encoder does not fail; the URI parser accepts the addresses of the tests, but not the
  empty text.
\<close>

definition draws :: "'g rand \<Rightarrow> bool" where
  "draws R \<longleftrightarrow> (\<forall>n g. 0 < n \<longrightarrow> fst (rand_choose R n g) < n) \<and>
     (\<forall>K g. finite K \<longrightarrow> card K < 100 \<longrightarrow> (\<exists>k. fst (rand_u64 R (((\<lambda>g. snd (rand_u64 R g)) ^^ k) g)) \<notin> K))"

definition encodes :: "json_ser \<Rightarrow> bool" where
  "encodes ser \<longleftrightarrow> (\<forall>ps. ser ps \<noteq> None)"

definition parses_uris :: "(string \<Rightarrow> bool) \<Rightarrow> bool" where
  "parses_uris uri \<longleftrightarrow> \<not> uri '''' \<and>
     list_all uri [''http://10.10.10.10'', ''http://10.10.10.10:80'', ''127.0.0.1:8080'', ''localhost:3000'', ''10.10.10.10'',
       ''127.0.0.1:8081'', ''127.0.0.1:8082'']"

section \<open>Running a test\<close>

text \<open>A store with these contents, on a disk without faults.\<close>

definition has :: "(string, MetaObject) hashmap \<Rightarrow> (u64, MetaChunk) hashmap \<Rightarrow> (u64, MetaStorageNode) hashmap \<Rightarrow> 'g MetadataStore \<Rightarrow> bool" where
  "has obs chs nds st \<longleftrightarrow> ms_objects st = obs \<and> ms_chunks st = chs \<and> ms_storage_nodes st = nds \<and> fs_plan (ms_disk st) = [] \<and>
     safe_path st"

definition runs :: "(string, MetaObject) hashmap \<Rightarrow> (u64, MetaChunk) hashmap \<Rightarrow> (u64, MetaStorageNode) hashmap
    \<Rightarrow> ('g MetadataStore, 'a) act \<Rightarrow> bool" where
  "runs obs chs nds t \<longleftrightarrow> (\<forall>st. has obs chs nds st \<longrightarrow> passes t st)"

lemma runsI: "(\<And>st. has obs chs nds st \<Longrightarrow> passes t st) \<Longrightarrow> runs obs chs nds t"
  by (simp add: runs_def)

lemma safe_path_upd [simp]:
  "safe_path (st\<lparr>ms_objects := obs\<rparr>) = safe_path st" "safe_path (st\<lparr>ms_chunks := chs\<rparr>) = safe_path st"
  "safe_path (st\<lparr>ms_storage_nodes := nds\<rparr>) = safe_path st" "safe_path (st\<lparr>ms_rng := g\<rparr>) = safe_path st"
  "safe_path (st\<lparr>ms_disk := d\<rparr>) = safe_path st"
  by (simp_all add: safe_path_def)

text \<open>A step with one answer, on the disk and the generator it leaves.\<close>

lemma runs_step:
  assumes "\<And>st. has obs chs nds st \<Longrightarrow> \<exists>st'. m st = Some (v, st') \<and> has obs' chs' nds' st'"
    and "runs obs' chs' nds' (f v)"
  shows "runs obs chs nds (bnd m f)"
  using assms unfolding runs_def passes_bnd by blast

lemma runs_ok:
  assumes "\<And>st. has obs chs nds st \<Longrightarrow> \<exists>st'. m st = Some (Ok v, st') \<and> has obs' chs' nds' st'"
    and "runs obs' chs' nds' (f v)"
  shows "runs obs chs nds (bnd (expect_ok m) f)"
  using assms unfolding runs_def passes_bnd expect_ok_step by blast

lemma runs_err:
  assumes "\<And>st. has obs chs nds st \<Longrightarrow> \<exists>st'. m st = Some (Err e, st') \<and> has obs' chs' nds' st'"
    and "runs obs' chs' nds' (f e)"
  shows "runs obs chs nds (bnd (expect_err m) f)"
  using assms unfolding runs_def passes_bnd expect_err_step by blast

lemma test_store_runs:
  assumes "with_extension path ''tmp'' \<noteq> path" and "runs [] [] [] t"
  shows "ms_passes de path g t"
  using assms
  by (simp add: ms_passes_def create_test_store_def ms_new_def ms_load_def fs_probe_def fs_next_def runs_def has_def safe_path_def)

named_theorems runs_steps \<open>one step of a test of the metadata store\<close>

lemma runs_ends [runs_steps]:
  "runs obs chs nds (ret x)" "b \<Longrightarrow> runs obs chs nds (assert_that b)"
  "(\<And>st. has obs chs nds st \<Longrightarrow> P st) \<Longrightarrow> runs obs chs nds (check P)"
  by (simp_all add: runs_def test_steps)

lemma runs_asserts [runs_steps]:
  "b \<Longrightarrow> runs obs chs nds (f ()) \<Longrightarrow> runs obs chs nds (bnd (assert_that b) f)"
  "(\<And>st. has obs chs nds st \<Longrightarrow> P st) \<Longrightarrow> runs obs chs nds (f ()) \<Longrightarrow> runs obs chs nds (bnd (check P) f)"
  by (auto simp: runs_def test_steps)

lemma runs_add_node [runs_steps]:
  "runs obs chs (hm_insert i \<lparr>msn_id = i, msn_address = ''127.0.0.1:'' @ show_nat p\<rparr> nds) (f ()) \<Longrightarrow>
     runs obs chs nds (bnd (test_add_storage_node i p) f)"
  by (erule runs_step [rotated]) (simp add: test_add_storage_node_def has_def)

lemma runs_lookups [runs_steps]:
  "hm_get obs n \<noteq> None \<Longrightarrow> runs obs chs nds (f (the (hm_get obs n))) \<Longrightarrow> runs obs chs nds (bnd (expect_ok (ask (get_object n))) f)"
  "hm_get obs n = None \<Longrightarrow> runs obs chs nds (h NotFound) \<Longrightarrow> runs obs chs nds (bnd (expect_err (ask (get_object n))) h)"
  "hm_get chs i \<noteq> None \<Longrightarrow> runs obs chs nds (k (mc_object_name (the (hm_get chs i)), the (hm_get chs i))) \<Longrightarrow>
     runs obs chs nds (bnd (expect_ok (ask (get_chunk i))) k)"
  "hm_get chs i = None \<Longrightarrow> runs obs chs nds (h NotFound) \<Longrightarrow> runs obs chs nds (bnd (expect_err (ask (get_chunk i))) h)"
  "hm_get nds i \<noteq> None \<Longrightarrow> runs obs chs nds (l (msn_address (the (hm_get nds i)))) \<Longrightarrow>
     runs obs chs nds (bnd (expect_ok (ask (get_storage_node i))) l)"
  "hm_get nds i = None \<Longrightarrow> runs obs chs nds (h NotFound) \<Longrightarrow> runs obs chs nds (bnd (expect_err (ask (get_storage_node i))) h)"
  "runs obs chs nds (q (hm_values nds)) \<Longrightarrow> runs obs chs nds (bnd (ask list_storage_nodes) q)"
  "runs obs chs nds (r (hm_values obs)) \<Longrightarrow> runs obs chs nds (bnd (ask list_objects) r)"
  by (auto simp: runs_def test_steps has_def get_object_def get_chunk_def get_storage_node_def list_storage_nodes_def
      list_objects_def simp del: map_of_eq_Some_iff)

text \<open>Saving on a disk without faults changes the disk only.\<close>

lemma save_has:
  assumes "encodes ser" and "has obs chs nds st"
  shows "\<exists>st'. ms_save ser st = (Ok (), st') \<and> has obs chs nds st'"
proof -
  obtain j where "ser (persistent_state st) = Some j" using assms(1) by (auto simp: encodes_def)
  then show ?thesis using assms(2)
    by (simp add: ms_save_def has_def fs_open_truncate_def fs_write_all_def fs_probe_def fs_rename_def fs_next_def fs_set_def Let_def)
qed

lemma has_upd:
  "has obs chs nds st \<Longrightarrow> has obs' chs nds (st\<lparr>ms_objects := obs'\<rparr>)"
  "has obs chs nds st \<Longrightarrow> has obs chs' nds (st\<lparr>ms_chunks := chs'\<rparr>)"
  "has obs chs nds st \<Longrightarrow> has obs chs nds' (st\<lparr>ms_storage_nodes := nds'\<rparr>)"
  "has obs chs nds st \<Longrightarrow> has obs chs nds (st\<lparr>ms_rng := g\<rparr>)"
  by (simp_all add: has_def)

lemma hasD:
  "has obs chs nds st \<Longrightarrow> ms_objects st = obs" "has obs chs nds st \<Longrightarrow> ms_chunks st = chs"
  "has obs chs nds st \<Longrightarrow> ms_storage_nodes st = nds"
  by (simp_all add: has_def)

section \<open>Running the operations\<close>

lemma runs_put_object:
  assumes "encodes ser" and "hm_get obs n = None" and "runs (hm_insert n (MetaObject_new n c) obs) chs nds (f ())"
  shows "runs obs chs nds (bnd (expect_ok (call (put_object ser c n))) f)"
  by (rule runs_ok [rotated], rule assms(3))
    (use assms(2) save_has [OF assms(1) has_upd(1)] in \<open>simp add: call_def put_object_def hasD\<close>)

lemma runs_put_object_twice [runs_steps]:
  assumes "hm_get obs n \<noteq> None" and "runs obs chs nds (f AlreadyExists)"
  shows "runs obs chs nds (bnd (expect_err (call (put_object ser c n))) f)"
  by (rule runs_err [rotated], rule assms(2)) (use assms(1) in \<open>simp add: call_def put_object_def hasD\<close>)

lemma runs_delete_object:
  assumes "encodes ser" and "hm_get obs n \<noteq> None"
    and "runs (hm_remove n obs) (fold hm_remove (mo_chunks (the (hm_get obs n))) chs) nds (f ())"
  shows "runs obs chs nds (bnd (expect_ok (call (delete_object ser n))) f)"
proof (rule runs_ok [rotated], rule assms(3))
  fix st assume st: "has obs chs nds st"
  obtain ob where "hm_get obs n = Some ob" using assms(2) by blast
  then show "\<exists>st'. call (delete_object ser n) st = Some (Ok (), st') \<and>
      has (hm_remove n obs) (fold hm_remove (mo_chunks (the (hm_get obs n))) chs) nds st'"
    using save_has [OF assms(1) has_upd(2) [OF has_upd(1) [OF st]]] st
    by (simp add: call_def delete_object_def remove_chunks_def hasD)
qed

lemma runs_delete_object_missing [runs_steps]:
  assumes "hm_get obs n = None" and "runs obs chs nds (f NotFound)"
  shows "runs obs chs nds (bnd (expect_err (call (delete_object ser n))) f)"
  by (rule runs_err [rotated], rule assms(2)) (use assms(1) in \<open>simp add: call_def delete_object_def hasD\<close>)

lemma runs_delete_node [runs_steps]:
  "hm_get nds i \<noteq> None \<Longrightarrow> runs obs chs (hm_remove i nds) (f ()) \<Longrightarrow>
     runs obs chs nds (bnd (expect_ok (call (delete_storage_node i))) f)"
  "hm_get nds i = None \<Longrightarrow> runs obs chs nds (h NotFound) \<Longrightarrow>
     runs obs chs nds (bnd (expect_err (call (delete_storage_node i))) h)"
  by (erule runs_ok [rotated], auto simp: call_def delete_storage_node_def hasD has_upd simp del: map_of_eq_Some_iff)
     (erule runs_err [rotated], auto simp: call_def delete_storage_node_def hasD)

lemma runs_delete_chunk:
  assumes "encodes ser" and "hm_get chs i = Some c" and "hm_get obs (mc_object_name c) = Some ob"
    and "runs (hm_insert (mc_object_name c) (ob\<lparr>mo_chunks := filter (\<lambda>j. j \<noteq> i) (mo_chunks ob)\<rparr>) obs) (hm_remove i chs) nds (f ())"
  shows "runs obs chs nds (bnd (expect_ok (call (delete_chunk ser i))) f)"
  by (rule runs_ok [rotated], rule assms(4))
    (use assms(2,3) save_has [OF assms(1) has_upd(1) [OF has_upd(2)]] in \<open>simp add: call_def delete_chunk_def hasD Let_def\<close>)

lemma runs_delete_chunk_missing [runs_steps]:
  assumes "hm_get chs i = None" and "runs obs chs nds (f NotFound)"
  shows "runs obs chs nds (bnd (expect_err (call (delete_chunk ser i))) f)"
  by (rule runs_err [rotated], rule assms(2)) (use assms(1) in \<open>simp add: call_def delete_chunk_def hasD\<close>)

lemma runs_add_replica:
  assumes "encodes ser" and "hm_get nds s \<noteq> None" and "hm_get chs i = Some c" and "s \<notin> set (mc_storage_nodes c)"
    and "length (mc_storage_nodes c) < 3" and "runs obs (hm_insert i (add_storage_node s c) chs) nds (f ())"
  shows "runs obs chs nds (bnd (expect_ok (call (add_chunk_replica ser i s))) f)"
  by (rule runs_ok [rotated], rule assms(6))
    (use assms(2-5) save_has [OF assms(1) has_upd(2)] in \<open>auto simp: call_def add_chunk_replica_def hasD MAX_REPLICAS_def\<close>)

lemma runs_add_replica_fails [runs_steps]:
  "hm_get nds s = None \<Longrightarrow> runs obs chs nds (f NotFound) \<Longrightarrow> runs obs chs nds (bnd (expect_err (call (add_chunk_replica ser i s))) f)"
  "hm_get nds s \<noteq> None \<Longrightarrow> hm_get chs i = None \<Longrightarrow> runs obs chs nds (f NotFound) \<Longrightarrow>
     runs obs chs nds (bnd (expect_err (call (add_chunk_replica ser i s))) f)"
  "hm_get nds s \<noteq> None \<Longrightarrow> hm_get chs i = Some c \<Longrightarrow> s \<in> set (mc_storage_nodes c) \<Longrightarrow> runs obs chs nds (f AlreadyExists) \<Longrightarrow>
     runs obs chs nds (bnd (expect_err (call (add_chunk_replica ser i s))) f)"
  "hm_get nds s \<noteq> None \<Longrightarrow> hm_get chs i = Some c \<Longrightarrow> s \<notin> set (mc_storage_nodes c) \<Longrightarrow> 3 \<le> length (mc_storage_nodes c) \<Longrightarrow>
     runs obs chs nds (f InvalidInput) \<Longrightarrow> runs obs chs nds (bnd (expect_err (call (add_chunk_replica ser i s))) f)"
  by (erule runs_err [rotated], simp add: call_def add_chunk_replica_def hasD MAX_REPLICAS_def split: option.split)+

lemma runs_get_chunk_mut [runs_steps]:
  "hm_get chs i = Some c \<Longrightarrow> runs obs (hm_insert i (g c) chs) nds (f ()) \<Longrightarrow>
     runs obs chs nds (bnd (expect_ok (call (get_chunk_mut i g))) f)"
  "hm_get chs i = None \<Longrightarrow> runs obs chs nds (h NotFound) \<Longrightarrow> runs obs chs nds (bnd (expect_err (call (get_chunk_mut i g))) h)"
  by (erule runs_ok [rotated], auto simp: call_def get_chunk_mut_def hasD has_upd simp del: map_of_eq_Some_iff)
     (erule runs_err [rotated], auto simp: call_def get_chunk_mut_def hasD)

text \<open>Drawing an id and choosing a node: any new id, any registered node.\<close>

lemma draw_id:
  assumes "draws R" and "length m < 100"
  obtains i g' where "generate_unique_id (rand_u64 R) m g = Some (i, g')" "hm_get m i = None"
proof -
  have "card (set (hm_keys m)) < 100" using assms(2) card_length [of "hm_keys m"] by simp
  then obtain k where "fst (rand_u64 R (((\<lambda>g. snd (rand_u64 R g)) ^^ k) g)) \<notin> set (hm_keys m)"
    using assms(1) unfolding draws_def by blast
  then have "hm_get m (fst (rand_u64 R (((\<lambda>g. snd (rand_u64 R g)) ^^ k) g))) = None"
    by (simp add: map_of_eq_None_iff)
  from generate_unique_id_returns [of m "rand_u64 R", OF this] show ?thesis
    using that generate_unique_id_fresh by metis
qed

lemma choose_some:
  assumes "draws R" and "has obs chs nds st" and "nds \<noteq> []"
  obtains nd g' where "choose_storage_node R (st\<lparr>ms_rng := g\<rparr>) = (Some nd, st\<lparr>ms_rng := g'\<rparr>)" "nd \<in> set (hm_values nds)"
proof -
  obtain k g' where k: "rand_choose R (length nds) g = (k, g')" by fastforce
  then have "k < length nds" using assms(1,3) unfolding draws_def by (metis fst_conv length_greater_0_conv)
  then show ?thesis using that [of "hm_values nds ! k" g'] k assms(2,3) nth_mem [of k "hm_values nds"]
    by (simp add: choose_storage_node_def hasD)
qed

lemma runs_put_chunk:
  assumes R: "draws R" and ser: "encodes ser" and len: "length chs < 100" and ob: "hm_get obs n = Some ob" and ne: "nds \<noteq> []"
    and rest: "\<And>i nd. hm_get chs i = None \<Longrightarrow> nd \<in> set (hm_values nds) \<Longrightarrow>
      runs (hm_insert n (add_chunk i ob) obs) (hm_insert i (add_storage_node (msn_id nd) (MetaChunk_new i c n)) chs) nds
        (f (i, msn_address nd))"
  shows "runs obs chs nds (bnd (expect_ok (put_chunk R ser n c)) f)"
proof (rule runsI)
  fix st :: "'a MetadataStore" assume st: "has obs chs nds st"
  obtain i g where i: "generate_unique_id (rand_u64 R) chs (ms_rng st) = Some (i, g)" "hm_get chs i = None"
    using draw_id [OF R len] by blast
  obtain nd g' where nd: "choose_storage_node R (st\<lparr>ms_rng := g\<rparr>) = (Some nd, st\<lparr>ms_rng := g'\<rparr>)" "nd \<in> set (hm_values nds)"
    by (rule choose_some [OF R st ne])
  let ?chs = "hm_insert i (add_storage_node (msn_id nd) (MetaChunk_new i c n)) chs"
  let ?obs = "hm_insert n (add_chunk i ob) obs"
  obtain st' where s: "ms_save ser (st\<lparr>ms_rng := g', ms_chunks := ?chs, ms_objects := ?obs\<rparr>) = (Ok (), st')" "has ?obs ?chs nds st'"
    using save_has [OF ser has_upd(1) [OF has_upd(2) [OF has_upd(4) [OF st]]]] by blast
  have "put_chunk R ser n c st = Some (Ok (i, msn_address nd), st')"
    using i nd s(1) ob hasD [OF st] by (simp add: put_chunk_def Let_def)
  then show "passes (bnd (expect_ok (put_chunk R ser n c)) f) st"
    using rest [OF i(2) nd(2)] s(2) by (simp add: test_steps runs_def)
qed

lemma runs_put_chunk_fails:
  assumes R: "draws R" and len: "length chs < 100"
  shows "nds = [] \<Longrightarrow> runs obs chs nds (f HostUnreachable) \<Longrightarrow> runs obs chs nds (bnd (expect_err (put_chunk R ser n c)) f)"
    and "nds \<noteq> [] \<Longrightarrow> hm_get obs n = None \<Longrightarrow> (\<And>chs'. runs obs chs' nds (f NotFound)) \<Longrightarrow>
      runs obs chs nds (bnd (expect_err (put_chunk R ser n c)) f)"
proof -
  assume ne: "nds = []" and rest: "runs obs chs nds (f HostUnreachable)"
  show "runs obs chs nds (bnd (expect_err (put_chunk R ser n c)) f)"
  proof (rule runs_err [rotated], rule rest)
    fix st :: "'a MetadataStore" assume st: "has obs chs nds st"
    obtain i g where "generate_unique_id (rand_u64 R) chs (ms_rng st) = Some (i, g)" using draw_id [OF R len] by blast
    then show "\<exists>st'. put_chunk R ser n c st = Some (Err HostUnreachable, st') \<and> has obs chs nds st'"
      using ne st hasD [OF st] by (simp add: put_chunk_def choose_storage_node_def has_upd)
  qed
next
  assume ne: "nds \<noteq> []" and ob: "hm_get obs n = None" and rest: "\<And>chs'. runs obs chs' nds (f NotFound)"
  show "runs obs chs nds (bnd (expect_err (put_chunk R ser n c)) f)"
  proof (rule runsI)
    fix st :: "'a MetadataStore" assume st: "has obs chs nds st"
    obtain i g where i: "generate_unique_id (rand_u64 R) chs (ms_rng st) = Some (i, g)" using draw_id [OF R len] by blast
    obtain nd g' where nd: "choose_storage_node R (st\<lparr>ms_rng := g\<rparr>) = (Some nd, st\<lparr>ms_rng := g'\<rparr>)"
      by (rule choose_some [OF R st ne])
    let ?st = "st\<lparr>ms_rng := g', ms_chunks := hm_insert i (add_storage_node (msn_id nd) (MetaChunk_new i c n)) chs\<rparr>"
    have "put_chunk R ser n c st = Some (Err NotFound, ?st)"
      using i nd ob hasD [OF st] by (simp add: put_chunk_def Let_def)
    then show "passes (bnd (expect_err (put_chunk R ser n c)) f) st"
      using rest has_upd(2) [OF has_upd(4) [OF st]] unfolding runs_def by (auto simp: test_steps)
  qed
qed

lemma runs_allocate:
  assumes R: "draws R" and len: "length chs < 100" and ne: "nds \<noteq> []"
    and rest: "\<And>i nd. hm_get chs i = None \<Longrightarrow> nd \<in> set (hm_values nds) \<Longrightarrow>
      runs obs (hm_insert i (MetaChunk_new_pending i n) chs) nds (f (i, msn_id nd, msn_address nd))"
  shows "runs obs chs nds (bnd (expect_ok (allocate_chunk R n)) f)"
proof (rule runsI)
  fix st :: "'a MetadataStore" assume st: "has obs chs nds st"
  obtain i g where i: "generate_unique_id (rand_u64 R) chs (ms_rng st) = Some (i, g)" "hm_get chs i = None"
    using draw_id [OF R len] by blast
  obtain nd g' where nd: "choose_storage_node R (st\<lparr>ms_rng := g\<rparr>) = (Some nd, st\<lparr>ms_rng := g'\<rparr>)" "nd \<in> set (hm_values nds)"
    by (rule choose_some [OF R st ne])
  let ?st = "st\<lparr>ms_rng := g', ms_chunks := hm_insert i (MetaChunk_new_pending i n) chs\<rparr>"
  have "allocate_chunk R n st = Some (Ok (i, msn_id nd, msn_address nd), ?st)"
    using i nd hasD [OF st] by (simp add: allocate_chunk_def)
  then show "passes (bnd (expect_ok (allocate_chunk R n)) f) st"
    using rest [OF i(2) nd(2)] has_upd(2) [OF has_upd(4) [OF st]] by (simp add: test_steps runs_def)
qed

lemma runs_allocate_fails:
  assumes R: "draws R" and len: "length chs < 100" and ne: "nds = []" and rest: "runs obs chs nds (f HostUnreachable)"
  shows "runs obs chs nds (bnd (expect_err (allocate_chunk R n)) f)"
proof (rule runs_err [rotated], rule rest)
  fix st :: "'a MetadataStore" assume st: "has obs chs nds st"
  obtain i g where "generate_unique_id (rand_u64 R) chs (ms_rng st) = Some (i, g)" using draw_id [OF R len] by blast
  then show "\<exists>st'. allocate_chunk R n st = Some (Err HostUnreachable, st') \<and> has obs chs nds st'"
    using ne st hasD [OF st] by (simp add: allocate_chunk_def choose_storage_node_def has_upd)
qed

lemma runs_confirm:
  assumes "encodes ser" and "hm_get nds s \<noteq> None" and "hm_get chs i = None \<or> mc_status (the (hm_get chs i)) = Pending"
    and "hm_get obs n = Some ob"
    and "runs (hm_insert n (add_chunk i ob) obs) (hm_insert i (add_storage_node s (MetaChunk_new i c n)) chs) nds (f ())"
  shows "runs obs chs nds (bnd (expect_ok (call (confirm_chunk ser i n c s))) f)"
proof (rule runs_ok [rotated], rule assms(5))
  fix st :: "'a MetadataStore" assume st: "has obs chs nds st"
  have "\<not> (case hm_get chs i of Some existing \<Rightarrow> mc_status existing = Confirmed | None \<Rightarrow> False)"
    using assms(3) by (auto split: option.split)
  then show "\<exists>st'. call (confirm_chunk ser i n c s) st = Some (Ok (), st') \<and>
      has (hm_insert n (add_chunk i ob) obs) (hm_insert i (add_storage_node s (MetaChunk_new i c n)) chs) nds st'"
    using assms(2,4) save_has [OF assms(1) has_upd(1) [OF has_upd(2) [OF st]]] hasD [OF st]
    by (simp add: call_def confirm_chunk_def Let_def)
qed

lemma runs_confirm_fails [runs_steps]:
  "hm_get nds s = None \<Longrightarrow> runs obs chs nds (f NotFound) \<Longrightarrow> runs obs chs nds (bnd (expect_err (call (confirm_chunk ser i n c s))) f)"
  "hm_get nds s \<noteq> None \<Longrightarrow> hm_get chs i = Some d \<Longrightarrow> mc_status d = Confirmed \<Longrightarrow> runs obs chs nds (f AlreadyExists) \<Longrightarrow>
     runs obs chs nds (bnd (expect_err (call (confirm_chunk ser i n c s))) f)"
  "hm_get nds s \<noteq> None \<Longrightarrow> hm_get chs i = Some d \<Longrightarrow> mc_status d = Pending \<Longrightarrow> hm_get obs n = None \<Longrightarrow> runs obs chs nds (f NotFound) \<Longrightarrow>
     runs obs chs nds (bnd (expect_err (call (confirm_chunk ser i n c s))) f)"
  by (erule runs_err [rotated], simp add: call_def confirm_chunk_def hasD split: option.split)+

lemma runs_construct_node:
  assumes R: "draws R" and "uri a" and len: "length nds < 100"
    and rest: "\<And>i. hm_get nds i = None \<Longrightarrow> runs obs chs (hm_insert i \<lparr>msn_id = i, msn_address = a\<rparr> nds) (f i)"
  shows "runs obs chs nds (bnd (expect_ok (construct_storage_node R uri a)) f)"
proof (rule runsI)
  fix st :: "'a MetadataStore" assume st: "has obs chs nds st"
  obtain i g where i: "generate_unique_id (rand_u64 R) nds (ms_rng st) = Some (i, g)" "hm_get nds i = None"
    using draw_id [OF R len] by blast
  let ?st = "st\<lparr>ms_rng := g, ms_storage_nodes := hm_insert i \<lparr>msn_id = i, msn_address = a\<rparr> nds\<rparr>"
  have "construct_storage_node R uri a st = Some (Ok i, ?st)"
    using i assms(2) hasD [OF st] by (simp add: construct_storage_node_def MetaStorageNode_new_def)
  then show "passes (bnd (expect_ok (construct_storage_node R uri a)) f) st"
    using rest [OF i(2)] has_upd(3) [OF has_upd(4) [OF st]] by (simp add: test_steps runs_def)
qed

lemma runs_construct_node_fails:
  assumes R: "draws R" and "\<not> uri a" and len: "length nds < 100" and rest: "runs obs chs nds (f InvalidInput)"
  shows "runs obs chs nds (bnd (expect_err (construct_storage_node R uri a)) f)"
proof (rule runs_err [rotated], rule rest)
  fix st :: "'a MetadataStore" assume st: "has obs chs nds st"
  obtain i g where i: "generate_unique_id (rand_u64 R) nds (ms_rng st) = Some (i, g)" using draw_id [OF R len] by blast
  then show "\<exists>st'. construct_storage_node R uri a st = Some (Err InvalidInput, st') \<and> has obs chs nds st'"
    using assms(2) hasD [OF st] has_upd(4) [OF st] by (simp add: construct_storage_node_def MetaStorageNode_new_def)
qed

section \<open>The tests pass\<close>

lemma show_3000: "show_nat 3000 = ''3000''"
  by code_simp

lemma storage_node_tests_pass:
  assumes path: "with_extension path ''tmp'' \<noteq> path" and R: "draws R" and uri: "parses_uris uri"
  shows "test_storage_node_address_validation uri"
    and "ms_passes de path g (test_construct_storage_node_generates_unique_ids R uri)"
    and "ms_passes de path g (test_construct_storage_node_rejects_invalid_address R uri)"
    and "ms_passes de path g test_get_storage_node_returns_address"
    and "ms_passes de path g test_get_storage_node_not_found"
    and "ms_passes de path g test_delete_storage_node"
    and "ms_passes de path g test_delete_storage_node_not_found"
    and "ms_passes de path g test_list_storage_nodes"
proof -
  note steps = runs_steps runs_construct_node [OF R] runs_construct_node_fails [OF R]
  have u: "uri ''127.0.0.1:8080''" "uri ''127.0.0.1:8081''" "uri ''127.0.0.1:8082''" "\<not> uri ''''"
    using uri by (simp_all add: parses_uris_def)
  show "test_storage_node_address_validation uri"
    using uri by (simp add: test_storage_node_address_validation_def parses_uris_def MetaStorageNode_new_def)
  show "ms_passes de path g (test_construct_storage_node_generates_unique_ids R uri)"
    unfolding test_construct_storage_node_generates_unique_ids_def
    by (rule test_store_runs [OF path]) (rule steps | simp add: u hasD split: if_splits)+
  show "ms_passes de path g (test_construct_storage_node_rejects_invalid_address R uri)"
    unfolding test_construct_storage_node_rejects_invalid_address_def
    by (rule test_store_runs [OF path]) (rule steps | simp add: u)+
  show "ms_passes de path g test_get_storage_node_returns_address"
    unfolding test_get_storage_node_returns_address_def
    by (rule test_store_runs [OF path]) (rule steps | simp add: show_3000)+
  show "ms_passes de path g test_get_storage_node_not_found"
    unfolding test_get_storage_node_not_found_def by (rule test_store_runs [OF path]) (rule steps | simp)+
  show "ms_passes de path g test_delete_storage_node"
    unfolding test_delete_storage_node_def by (rule test_store_runs [OF path]) (rule steps | simp)+
  show "ms_passes de path g test_delete_storage_node_not_found"
    unfolding test_delete_storage_node_not_found_def by (rule test_store_runs [OF path]) (rule steps | simp)+
  show "ms_passes de path g test_list_storage_nodes"
    unfolding test_list_storage_nodes_def by (rule test_store_runs [OF path]) (rule steps | simp)+
qed

lemma object_tests_pass:
  assumes path: "with_extension path ''tmp'' \<noteq> path" and R: "draws R" and ser: "encodes ser"
  shows "ms_passes de path g (test_put_and_get_object ser)"
    and "ms_passes de path g (test_put_object_duplicate_name_fails ser)"
    and "ms_passes de path g test_get_object_not_found"
    and "ms_passes de path g (test_delete_object ser)"
    and "ms_passes de path g (test_delete_object_not_found ser)"
    and "ms_passes de path g (test_delete_object_also_removes_chunks R ser)"
    and "ms_passes de path g (test_list_objects ser)"
    and "ms_passes de path g test_list_objects_empty"
proof -
  note steps = runs_steps runs_put_object [OF ser] runs_delete_object [OF ser] runs_put_chunk [OF R ser]
  show "ms_passes de path g (test_put_and_get_object ser)"
    unfolding test_put_and_get_object_def by (rule test_store_runs [OF path]) (rule steps | simp add: MetaObject_new_def)+
  show "ms_passes de path g (test_put_object_duplicate_name_fails ser)"
    unfolding test_put_object_duplicate_name_fails_def by (rule test_store_runs [OF path]) (rule steps | simp)+
  show "ms_passes de path g test_get_object_not_found"
    unfolding test_get_object_not_found_def by (rule test_store_runs [OF path]) (rule steps | simp)+
  show "ms_passes de path g (test_delete_object ser)"
    unfolding test_delete_object_def by (rule test_store_runs [OF path]) (rule steps | simp)+
  show "ms_passes de path g (test_delete_object_not_found ser)"
    unfolding test_delete_object_not_found_def by (rule test_store_runs [OF path]) (rule steps | simp)+
  show "ms_passes de path g (test_delete_object_also_removes_chunks R ser)"
    unfolding test_delete_object_also_removes_chunks_def
    by (rule test_store_runs [OF path]) (rule steps | simp add: MetaObject_new_def add_chunk_def)+
  show "ms_passes de path g (test_list_objects ser)"
    unfolding test_list_objects_def by (rule test_store_runs [OF path]) (rule steps | simp add: MetaObject_new_def)+
  show "ms_passes de path g test_list_objects_empty"
    unfolding test_list_objects_empty_def by (rule test_store_runs [OF path]) (rule steps | simp)+
qed

lemma put_chunk_tests_pass:
  assumes path: "with_extension path ''tmp'' \<noteq> path" and R: "draws R" and ser: "encodes ser"
  shows "ms_passes de path g (test_put_chunk_assigns_storage_node R ser)"
    and "ms_passes de path g (test_put_chunk_adds_to_object R ser)"
    and "ms_passes de path g (test_put_chunk_no_storage_nodes_fails R ser)"
    and "ms_passes de path g (test_put_chunk_object_not_found_fails R ser)"
    and "ms_passes de path g (test_get_chunk_returns_object_name_and_metadata R ser)"
    and "ms_passes de path g test_get_chunk_not_found"
    and "ms_passes de path g (test_delete_chunk_removes_from_object R ser)"
    and "ms_passes de path g (test_delete_chunk_not_found ser)"
    and "ms_passes de path g (test_get_chunk_mut_allows_modification R ser)"
    and "ms_passes de path g test_get_chunk_mut_not_found"
proof -
  note steps = runs_steps runs_put_object [OF ser] runs_put_chunk [OF R ser] runs_put_chunk_fails [OF R] runs_delete_chunk [OF ser]
  note defs = MetaObject_new_def MetaChunk_new_def add_chunk_def add_storage_node_def show_3000
  show "ms_passes de path g (test_put_chunk_assigns_storage_node R ser)"
    unfolding test_put_chunk_assigns_storage_node_def by (rule test_store_runs [OF path]) (rule steps | simp add: defs)+
  show "ms_passes de path g (test_put_chunk_adds_to_object R ser)"
    unfolding test_put_chunk_adds_to_object_def by (rule test_store_runs [OF path]) (rule steps | simp add: defs)+
  show "ms_passes de path g (test_put_chunk_no_storage_nodes_fails R ser)"
    unfolding test_put_chunk_no_storage_nodes_fails_def by (rule test_store_runs [OF path]) (rule steps | simp add: defs)+
  show "ms_passes de path g (test_put_chunk_object_not_found_fails R ser)"
    unfolding test_put_chunk_object_not_found_fails_def by (rule test_store_runs [OF path]) (rule steps | simp add: defs)+
  show "ms_passes de path g (test_get_chunk_returns_object_name_and_metadata R ser)"
    unfolding test_get_chunk_returns_object_name_and_metadata_def by (rule test_store_runs [OF path]) (rule steps | simp add: defs)+
  show "ms_passes de path g test_get_chunk_not_found"
    unfolding test_get_chunk_not_found_def by (rule test_store_runs [OF path]) (rule steps | simp)+
  show "ms_passes de path g (test_delete_chunk_removes_from_object R ser)"
    unfolding test_delete_chunk_removes_from_object_def by (rule test_store_runs [OF path]) (rule steps | simp add: defs)+
  show "ms_passes de path g (test_delete_chunk_not_found ser)"
    unfolding test_delete_chunk_not_found_def by (rule test_store_runs [OF path]) (rule steps | simp)+
  show "ms_passes de path g (test_get_chunk_mut_allows_modification R ser)"
    unfolding test_get_chunk_mut_allows_modification_def by (rule test_store_runs [OF path]) (rule steps | simp add: defs)+
  show "ms_passes de path g test_get_chunk_mut_not_found"
    unfolding test_get_chunk_mut_not_found_def by (rule test_store_runs [OF path]) (rule steps | simp)+
qed

lemma allocation_tests_pass:
  assumes path: "with_extension path ''tmp'' \<noteq> path" and R: "draws R" and ser: "encodes ser"
  shows "ms_passes de path g (test_allocate_chunk_returns_node_info R)"
    and "ms_passes de path g (test_allocate_chunk_no_storage_nodes_fails R)"
    and "ms_passes de path g (test_allocate_chunk_reserves_id_as_pending R)"
    and "ms_passes de path g (test_confirm_chunk_persists_metadata R ser)"
    and "ms_passes de path g (test_confirm_chunk_storage_node_not_found_fails ser)"
    and "ms_passes de path g (test_confirm_chunk_duplicate_chunk_id_fails R ser)"
    and "ms_passes de path g (test_confirm_chunk_object_not_found_fails R ser)"
    and "ms_passes de path g (test_choose_storage_node_empty_returns_none R)"
proof -
  note steps = runs_steps runs_put_object [OF ser] runs_allocate [OF R] runs_allocate_fails [OF R] runs_confirm [OF ser]
  note defs = MetaObject_new_def MetaChunk_new_def MetaChunk_new_pending_def add_chunk_def add_storage_node_def show_3000 hasD word_greater_zero_iff
  show "ms_passes de path g (test_allocate_chunk_returns_node_info R)"
    unfolding test_allocate_chunk_returns_node_info_def by (rule test_store_runs [OF path]) (rule steps | simp add: defs | blast)+
  show "ms_passes de path g (test_allocate_chunk_no_storage_nodes_fails R)"
    unfolding test_allocate_chunk_no_storage_nodes_fails_def by (rule test_store_runs [OF path]) (rule steps | simp add: defs)+
  show "ms_passes de path g (test_allocate_chunk_reserves_id_as_pending R)"
    unfolding test_allocate_chunk_reserves_id_as_pending_def by (rule test_store_runs [OF path]) (rule steps | simp add: defs)+
  show "ms_passes de path g (test_confirm_chunk_persists_metadata R ser)"
    unfolding test_confirm_chunk_persists_metadata_def by (rule test_store_runs [OF path]) (rule steps | simp add: defs)+
  show "ms_passes de path g (test_confirm_chunk_storage_node_not_found_fails ser)"
    unfolding test_confirm_chunk_storage_node_not_found_fails_def by (rule test_store_runs [OF path]) (rule steps | simp add: defs)+
  show "ms_passes de path g (test_confirm_chunk_duplicate_chunk_id_fails R ser)"
    unfolding test_confirm_chunk_duplicate_chunk_id_fails_def by (rule test_store_runs [OF path]) (rule steps | simp add: defs)+
  show "ms_passes de path g (test_confirm_chunk_object_not_found_fails R ser)"
    unfolding test_confirm_chunk_object_not_found_fails_def by (rule test_store_runs [OF path]) (rule steps | simp add: defs)+
  show "ms_passes de path g (test_choose_storage_node_empty_returns_none R)"
    unfolding test_choose_storage_node_empty_returns_none_def
    by (rule test_store_runs [OF path]) (simp add: runs_def test_steps choose_storage_node_def hasD)
qed

lemma replica_tests_pass:
  assumes path: "with_extension path ''tmp'' \<noteq> path" and R: "draws R" and ser: "encodes ser"
  shows "ms_passes de path g (test_add_chunk_replica_success R ser)"
    and "ms_passes de path g (test_add_chunk_replica_duplicate_fails R ser)"
    and "ms_passes de path g (test_add_chunk_replica_chunk_not_found ser)"
    and "ms_passes de path g (test_add_chunk_replica_storage_node_not_found R ser)"
    and "ms_passes de path g (test_add_chunk_replica_max_replicas_exceeded R ser)"
proof -
  note steps = runs_steps runs_put_object [OF ser] runs_put_chunk [OF R ser] runs_add_replica [OF ser]
  note defs = MetaObject_new_def MetaChunk_new_def add_chunk_def add_storage_node_def Let_def
  show "ms_passes de path g (test_add_chunk_replica_success R ser)"
    unfolding test_add_chunk_replica_success_def by (rule test_store_runs [OF path]) (rule steps | simp add: defs | elim disjE)+
  show "ms_passes de path g (test_add_chunk_replica_duplicate_fails R ser)"
    unfolding test_add_chunk_replica_duplicate_fails_def by (rule test_store_runs [OF path]) (rule steps | simp add: defs)+
  show "ms_passes de path g (test_add_chunk_replica_chunk_not_found ser)"
    unfolding test_add_chunk_replica_chunk_not_found_def by (rule test_store_runs [OF path]) (rule steps | simp add: defs)+
  show "ms_passes de path g (test_add_chunk_replica_storage_node_not_found R ser)"
    unfolding test_add_chunk_replica_storage_node_not_found_def by (rule test_store_runs [OF path]) (rule steps | simp add: defs)+
  show "ms_passes de path g (test_add_chunk_replica_max_replicas_exceeded R ser)"
    unfolding test_add_chunk_replica_max_replicas_exceeded_def by (rule test_store_runs [OF path]) (rule steps | simp add: defs | elim disjE)+
qed

lemma runs_ingest:
  assumes "encodes ser" and "runs (fold (\<lambda>ob. hm_insert (mo_name ob) ob) os obs) (fold (\<lambda>c. hm_insert (mc_id c) c) cs chs) nds (f ())"
  shows "runs obs chs nds (bnd (expect_ok (call (ingest_partition ser os cs))) f)"
proof (rule runs_ok [rotated], rule assms(2))
  fix st :: "'a MetadataStore" assume st: "has obs chs nds st"
  have "has (fold (\<lambda>ob. hm_insert (mo_name ob) ob) os obs) (fold (\<lambda>c. hm_insert (mc_id c) c) cs chs) nds
    (st\<lparr>ms_objects := fold (\<lambda>ob. hm_insert (mo_name ob) ob) os obs, ms_chunks := fold (\<lambda>c. hm_insert (mc_id c) c) cs chs\<rparr>)"
    using st by (simp add: has_def)
  from save_has [OF assms(1) this] show "\<exists>st'. call (ingest_partition ser os cs) st = Some (Ok (), st') \<and>
      has (fold (\<lambda>ob. hm_insert (mo_name ob) ob) os obs) (fold (\<lambda>c. hm_insert (mc_id c) c) cs chs) nds st'"
    by (auto simp: call_def ingest_partition_def hasD [OF st])
qed

lemma runs_remove_one:
  assumes "encodes ser" and "hm_get obs n = Some ob" and "runs (hm_remove n obs) (fold hm_remove (mo_chunks ob) chs) nds (f ())"
  shows "runs obs chs nds (bnd (expect_ok (call (remove_objects ser [n]))) f)"
proof (rule runs_ok [rotated], rule assms(3))
  fix st :: "'a MetadataStore" assume st: "has obs chs nds st"
  from save_has [OF assms(1) has_upd(2) [OF has_upd(1) [OF st]], of "fold hm_remove (mo_chunks ob) chs" "hm_remove n obs"]
  show "\<exists>st'. call (remove_objects ser [n]) st = Some (Ok (), st') \<and> has (hm_remove n obs) (fold hm_remove (mo_chunks ob) chs) nds st'"
    using assms(2) by (auto simp: call_def remove_objects_def remove_one_object_def remove_chunks_def hasD [OF st])
qed

lemma loop_and_migration_tests_pass:
  assumes path: "with_extension path ''tmp'' \<noteq> path" and R: "draws R" and ser: "encodes ser"
  shows "ms_passes de path g (test_full_allocate_confirm_flow_multiple_chunks R ser)"
    and "ms_passes de path g (test_ingest_partition_merges_data ser)"
    and "ms_passes de path g (test_remove_objects_cleans_up_chunks R ser)"
proof -
  note steps = runs_steps runs_put_object [OF ser] runs_put_chunk [OF R ser] runs_allocate [OF R] runs_confirm [OF ser]
    runs_ingest [OF ser] runs_remove_one [OF ser]
  note defs = MetaObject_new_def MetaChunk_new_def MetaChunk_new_pending_def add_chunk_def add_storage_node_def Let_def bnd_assoc hasD
    get_object_def get_chunk_def
  show "ms_passes de path g (test_full_allocate_confirm_flow_multiple_chunks R ser)"
    unfolding test_full_allocate_confirm_flow_multiple_chunks_def
    by (rule test_store_runs [OF path]) (rule steps | simp add: defs split: if_splits | elim disjE)+
  show "ms_passes de path g (test_ingest_partition_merges_data ser)"
    unfolding test_ingest_partition_merges_data_def
    by (rule test_store_runs [OF path]) (rule steps | simp add: defs)+
  show "ms_passes de path g (test_remove_objects_cleans_up_chunks R ser)"
    unfolding test_remove_objects_cleans_up_chunks_def
    by (rule test_store_runs [OF path]) (rule steps | simp add: defs split: if_splits)+
qed

lemma runs_put_chunk_anywhere:
  assumes "draws R" and "encodes ser" and "length chs < 100" and "hm_get obs n = Some ob" and "nds \<noteq> []"
    and "\<And>i nd a. hm_get chs i = None \<Longrightarrow>
      runs (hm_insert n (add_chunk i ob) obs) (hm_insert i (add_storage_node nd (MetaChunk_new i c n)) chs) nds (f (i, a))"
  shows "runs obs chs nds (bnd (expect_ok (put_chunk R ser n c)) f)"
  by (rule runs_put_chunk [OF assms(1-5)]) (rule assms(6))

lemma under_replicated_test_passes:
  assumes path: "with_extension path ''tmp'' \<noteq> path" and R: "draws R" and ser: "encodes ser"
  shows "ms_passes de path g (test_list_under_replicated_chunks_sorted_by_replica_count R ser)"
proof -
  note steps = runs_steps runs_add_replica [OF ser]
  note defs = MetaObject_new_def MetaChunk_new_def add_chunk_def add_storage_node_def Let_def hasD list_under_replicated_chunks_def
  show ?thesis
    unfolding test_list_under_replicated_chunks_sorted_by_replica_count_def
    by (rule test_store_runs [OF path], (rule runs_add_node)+, rule runs_put_object [OF ser], simp,
        rule runs_put_chunk_anywhere [OF R ser], simp, simp, simp, simp,
        rule runs_put_chunk [OF R ser], simp, simp, simp, simp split: if_splits,
        rule runs_put_chunk_anywhere [OF R ser])
      (rule steps | simp add: defs split: if_splits | elim disjE | intro conjI impI)+
qed

text \<open>The ring of the migration test.\<close>

abbreviation test_ring_of :: "(string \<Rightarrow> u64) \<Rightarrow> ring" where
  "test_ring_of xxh3_64 \<equiv> add_node xxh3_64 ''node-b'' (add_node xxh3_64 ''node-a'' HashRing_new)"

text \<open>The contents during the loop of the migration test: every chunk of an object is there.\<close>

definition linked :: "(string, MetaObject) hashmap \<Rightarrow> (u64, MetaChunk) hashmap \<Rightarrow> bool" where
  "linked obs chs \<longleftrightarrow> (\<forall>(n, ob) \<in> set obs. mo_name ob = n \<and>
     (\<forall>i \<in> set (mo_chunks ob). \<exists>c. hm_get chs i = Some c \<and> mc_object_name c = n))"

abbreviation migration_name :: "nat \<Rightarrow> string" where
  "migration_name i \<equiv> ''migration-obj-'' @ show_nat i"

lemma show_nat_inj: "show_nat i = show_nat j \<longleftrightarrow> i = j"
  by (metis parse_show_nat option.inject)

lemma runs_migration_loop:
  assumes R: "draws R" and ser: "encodes ser" and ne: "nds \<noteq> []"
    and "linked obs chs" and "length chs + length is < 100" and "distinct is"
    and "\<And>i. i \<in> set is \<Longrightarrow> hm_get obs (migration_name i) = None"
    and "\<And>obs' chs'. linked obs' chs' \<Longrightarrow> hm_keys obs' = hm_keys obs @ map migration_name is \<Longrightarrow> runs obs' chs' nds (k ())"
  shows "runs obs chs nds (bnd (put_migration_objects R ser is) k)"
  using assms(4-8)
proof (induction "is" arbitrary: obs chs)
  case Nil
  then show ?case by simp
next
  case (Cons j js)
  let ?n = "migration_name j"
  let ?obs = "hm_insert ?n (MetaObject_new ?n (of_nat j)) obs"
  have new: "hm_get obs ?n = None" using Cons.prems(4) by simp
  have obs: "?obs = obs @ [(?n, MetaObject_new ?n (of_nat j))]" by (rule hm_insert_new [OF new])
  have chunk: "runs (hm_insert ?n (add_chunk i (MetaObject_new ?n (of_nat j))) ?obs)
      (hm_insert i (add_storage_node (msn_id nd) (MetaChunk_new i (of_nat (100 + j)) ?n)) chs) nds
      (bnd (put_migration_objects R ser js) k)" if i: "hm_get chs i = None" for i nd
  proof (rule Cons.IH)
    let ?chs' = "hm_insert i (add_storage_node (msn_id nd) (MetaChunk_new i (of_nat (100 + j)) ?n)) chs"
    let ?obs' = "hm_insert ?n (add_chunk i (MetaObject_new ?n (of_nat j))) ?obs"
    have "?n \<notin> set (hm_keys obs)" using new by (simp add: map_of_eq_None_iff)
    then have obs': "?obs' = obs @ [(?n, add_chunk i (MetaObject_new ?n (of_nat j)))]"
      unfolding obs by (induction obs) auto
    show "linked ?obs' ?chs'"
      using Cons.prems(1) i unfolding obs' linked_def
      by (fastforce simp: add_chunk_def MetaObject_new_def add_storage_node_def MetaChunk_new_def)
    show "length ?chs' + length js < 100" using Cons.prems(2) by (simp add: hm_length_insert_new [OF i])
    show "distinct js" using Cons.prems(3) by simp
    show "hm_get ?obs' (migration_name i') = None" if "i' \<in> set js" for i'
      using that Cons.prems(3,4) by (auto simp: show_nat_inj)
    show "runs obs'' chs'' nds (k ())" if "linked obs'' chs''" "hm_keys obs'' = hm_keys ?obs' @ map migration_name js" for obs'' chs''
      using Cons.prems(5) [OF that(1)] that(2) unfolding obs' by simp
  qed
  show ?case unfolding put_migration_objects.simps bnd_assoc
    by (rule runs_put_object [OF ser new], rule runs_put_chunk [OF R ser _ _ ne])
      (use Cons.prems(2) chunk in \<open>simp_all\<close>)
qed

lemma migration_test_passes:
  assumes path: "with_extension path ''tmp'' \<noteq> path" and R: "draws R" and ser: "encodes ser"
    and last: "\<And>i. i < 20 \<Longrightarrow> xxh3_64 (migration_name i) \<noteq> - 1"
      "\<And>n i. n \<in> {''node-a'', ''node-b''} \<Longrightarrow> i < VNODES_PER_NODE \<Longrightarrow> xxh3_64 (vnode_key n i) \<noteq> - 1"
    and spread: "\<And>n. n \<in> {''node-a'', ''node-b''} \<Longrightarrow> \<exists>i<20. get_owner xxh3_64 (test_ring_of xxh3_64) (migration_name i) = Some n"
  shows "ms_passes de path g (test_objects_in_hash_ranges_filters_correctly R ser xxh3_64)"
  unfolding test_objects_in_hash_ranges_filters_correctly_def
proof (rule test_store_runs [OF path], rule runs_add_node, rule runs_migration_loop [OF R ser])
  let ?r = "add_node xxh3_64 ''node-b'' (add_node xxh3_64 ''node-a'' HashRing_new)"
  fix obs chs
  assume linked: "linked obs chs" and keys: "hm_keys obs = hm_keys [] @ map migration_name [0..<20]"
  have inv: "bt_invar ?r" by (intro add_node_invar) (simp add: HashRing_new_def)
  have mem: "v \<in> {''node-a'', ''node-b''} \<and> p \<noteq> - 1" if "(p, v) \<in> set ?r" for p v
  proof -
    have inv0: "bt_invar HashRing_new" by (simp add: HashRing_new_def)
    have "(p, v) \<in> set (vnodes_of xxh3_64 n)" if "p \<in> fst ` set (vnodes_of xxh3_64 n)" "v = n" for n
      using that by (auto simp: vnodes_of_def)
    then have "(p, v) \<in> set (vnodes_of xxh3_64 ''node-b'') \<or> (p, v) \<in> set (vnodes_of xxh3_64 ''node-a'')"
      using that unfolding add_node_entries [OF add_node_invar [OF inv0]] add_node_entries [OF inv0]
      by (metis HashRing_new_def list.distinct(1) list.set_cases)
    then show ?thesis using last(2) by (auto simp: vnodes_of_def)
  qed
  then have "- 1 \<notin> fst ` set ?r" by force
  then have owns: "hash_in_ranges h (get_owned_ranges ?r n) \<longleftrightarrow> owner_at ?r h = Some n" if "h \<noteq> - 1" for h n
    by (rule owned_ranges_owner [OF inv _ that])
  have "?r \<noteq> []" using add_node_present [of "add_node xxh3_64 ''node-a'' HashRing_new" "''node-b''" xxh3_64]
    by (auto simp: HashRing_new_def add_node_invar)
  then have one: "(owner_at ?r h = Some ''node-a'') \<noteq> (owner_at ?r h = Some ''node-b'')" for h
    using mem ring.owner_total [OF inv, of h] ring.owner_member [OF inv, of h] by (cases "owner_at ?r h") fastforce+
  let ?in = "\<lambda>n ob. hash_in_ranges (hash_key xxh3_64 (mo_name ob)) (get_owned_ranges ?r n)"
  have split: "?in ''node-a'' ob \<noteq> ?in ''node-b'' ob" if ob: "ob \<in> set (hm_values obs)" for ob
  proof -
    obtain n where n: "(n, ob) \<in> set obs" using ob by auto
    then have "mo_name ob = n" using linked by (auto simp: linked_def)
    moreover have "n \<in> set (hm_keys obs)" using n by force
    ultimately have "xxh3_64 (mo_name ob) \<noteq> - 1" using keys last(1) by auto
    then show ?thesis using owns one by (simp add: hash_key_def)
  qed
  have halves: "length (filter P xs) + length (filter Q xs) = length xs" if "\<forall>x \<in> set xs. P x \<noteq> Q x" for P Q and xs :: "MetaObject list"
    using that by (induction xs) auto
  have found: "length (List.map_filter (hm_get chs) (mo_chunks ob)) = length (mo_chunks ob) \<and>
      list_all (\<lambda>c. mc_object_name c = mo_name ob) (List.map_filter (hm_get chs) (mo_chunks ob))"
    if ob: "ob \<in> set (hm_values obs)" for ob
  proof -
    obtain n where n: "(n, ob) \<in> set obs" using ob by auto
    then have all: "\<forall>i \<in> set (mo_chunks ob). \<exists>c. hm_get chs i = Some c \<and> mc_object_name c = mo_name ob"
      using linked by (auto simp: linked_def)
    have "length (List.map_filter (hm_get chs) is) = length is \<and>
        list_all (\<lambda>c. mc_object_name c = mo_name ob) (List.map_filter (hm_get chs) is)"
      if "\<forall>i \<in> set is. \<exists>c. hm_get chs i = Some c \<and> mc_object_name c = mo_name ob" for "is"
      using that by (induction "is") (auto simp: List.map_filter_def)
    then show ?thesis using all by blast
  qed
  have some: "filter (?in n) (hm_values obs) \<noteq> []" if n: "n \<in> {''node-a'', ''node-b''}" for n
  proof -
    obtain i where i: "i < 20" "owner_at ?r (xxh3_64 (migration_name i)) = Some n"
      using spread [OF n] unfolding get_owner_def by blast
    then have "migration_name i \<in> set (hm_keys obs)" unfolding keys by simp
    then obtain ob where ob: "(migration_name i, ob) \<in> set obs" by auto
    then have "?in n ob" using linked i owns [OF last(1) [OF i(1)], of n] by (auto simp: linked_def hash_key_def)
    then show ?thesis using ob by (force simp: filter_empty_conv)
  qed
  have "length obs = 20" using arg_cong [OF keys, of length] by simp
  show "runs obs chs (hm_insert 1 \<lparr>msn_id = 1, msn_address = ''127.0.0.1:'' @ show_nat 3000\<rparr> [])
     (let ring = ?r in check (\<lambda>st.
       let objects_a = objects_in_hash_ranges xxh3_64 (get_owned_ranges ring ''node-a'') st;
           objects_b = objects_in_hash_ranges xxh3_64 (get_owned_ranges ring ''node-b'') st in
       length objects_a + length objects_b = 20 \<and> objects_a \<noteq> [] \<and> objects_b \<noteq> [] \<and>
       list_all (\<lambda>(obj, chunks). length chunks = length (mo_chunks obj) \<and>
         list_all (\<lambda>chunk. mc_object_name chunk = mo_name obj) chunks) objects_a))"
    unfolding Let_def
    using halves [of "hm_values obs" "?in ''node-a''" "?in ''node-b''"] split found some [of "''node-a''"] some [of "''node-b''"] \<open>length obs = 20\<close>
    by (intro runs_ends(3)) (auto simp: objects_in_hash_ranges_def hasD list_all_iff)
qed (simp_all add: linked_def)

section \<open>The persistence tests pass\<close>

lemma same_get_length: "hm_invar m \<Longrightarrow> hm_invar m' \<Longrightarrow> hm_get m = hm_get m' \<Longrightarrow> length m = length m'"
proof -
  assume inv: "hm_invar m" "hm_invar m'" and g: "hm_get m = hm_get m'"
  have "set (hm_keys m) = set (hm_keys m')" using arg_cong [OF g, of dom] by (simp add: dom_map_of_conv_image_fst)
  then show ?thesis using distinct_card [OF inv(1)] distinct_card [OF inv(2)] by simp
qed

lemma saved_reopens:
  assumes ser: "encodes ser" and json: "json_roundtrip ser de" and inv: "hm_invar obs" "hm_invar chs"
    and st: "has obs chs nds st" and save: "ms_save ser st = (Ok (), st')"
    and rest: "\<And>obs' chs'. hm_get obs' = hm_get obs \<Longrightarrow> hm_get chs' = hm_get chs \<Longrightarrow> hm_invar obs' \<Longrightarrow> hm_invar chs' \<Longrightarrow>
      length obs' = length obs \<Longrightarrow> runs obs' chs' [] k"
  shows "passes (then_do (reopen de) k) st'"
proof -
  obtain j where j: "ser (persistent_state st) = Some j" using ser by (auto simp: encodes_def)
  obtain ps where ps: "j \<noteq> []" "de j = Some ps" "hm_invar (ps_objects ps)" "hm_invar (ps_chunks ps)"
    "hm_get (ps_objects ps) = hm_get obs" "hm_get (ps_chunks ps) = hm_get chs"
    using json j inv hasD [OF st] unfolding json_roundtrip_def by (force simp: persistent_state_def)
  have st': "fs_plan (ms_disk st') = []" "fs_files (ms_disk st') (ms_path st') = Some j" "safe_path st'"
    using save j st by (auto simp: ms_save_def has_def fs_ops)
  let ?st = "\<lparr>ms_path = ms_path st', ms_objects = ps_objects ps, ms_chunks = ps_chunks ps, ms_storage_nodes = [],
    ms_disk = ms_disk st', ms_rng = ms_rng st'\<rparr>"
  have "reopen de st' = Some ((), ?st)"
    by (simp add: reopen_def ms_new_reads st' ps)
  moreover have "has (ps_objects ps) (ps_chunks ps) [] ?st" using st' by (simp add: has_def safe_path_def)
  ultimately show ?thesis using rest [OF ps(5,6,3,4) same_get_length [OF ps(3) inv(1) ps(5)]] by (simp add: test_steps runs_def)
qed

lemma runs_put_object_reopen:
  assumes "encodes ser" and "json_roundtrip ser de" and "hm_get obs n = None" and "hm_invar obs" "hm_invar chs"
    and "\<And>obs' chs'. hm_get obs' = hm_get (hm_insert n (MetaObject_new n c) obs) \<Longrightarrow> hm_get chs' = hm_get chs \<Longrightarrow>
      hm_invar obs' \<Longrightarrow> hm_invar chs' \<Longrightarrow> length obs' = length (hm_insert n (MetaObject_new n c) obs) \<Longrightarrow> runs obs' chs' [] k"
  shows "runs obs chs nds (then_do (expect_ok (call (put_object ser c n))) (then_do (reopen de) k))"
proof (rule runsI)
  fix st :: "'a MetadataStore" assume st: "has obs chs nds st"
  let ?obs = "hm_insert n (MetaObject_new n c) obs"
  note up = has_upd(1) [OF st, of ?obs]
  obtain st' where s: "ms_save ser (st\<lparr>ms_objects := ?obs\<rparr>) = (Ok (), st')" using save_has [OF assms(1) up] by blast
  have "passes (then_do (reopen de) k) st'"
    by (rule saved_reopens [OF assms(1,2) _ assms(5) up s assms(6)]) (use assms(4) in simp_all)
  then show "passes (then_do (expect_ok (call (put_object ser c n))) (then_do (reopen de) k)) st"
    unfolding passes_bnd using s assms(3) by (auto simp: test_steps put_object_def hasD [OF st])
qed

lemma runs_delete_object_reopen:
  assumes "encodes ser" and "json_roundtrip ser de" and "hm_get obs n = Some ob" and "hm_invar obs" "hm_invar chs"
    and "\<And>obs' chs'. hm_get obs' = hm_get (hm_remove n obs) \<Longrightarrow> hm_get chs' = hm_get (fold hm_remove (mo_chunks ob) chs) \<Longrightarrow>
      hm_invar obs' \<Longrightarrow> hm_invar chs' \<Longrightarrow> length obs' = length (hm_remove n obs) \<Longrightarrow> runs obs' chs' [] k"
  shows "runs obs chs nds (then_do (expect_ok (call (delete_object ser n))) (then_do (reopen de) k))"
proof (rule runsI)
  fix st :: "'a MetadataStore" assume st: "has obs chs nds st"
  note up = has_upd(2) [OF has_upd(1) [OF st, of "hm_remove n obs"], of "fold hm_remove (mo_chunks ob) chs"]
  obtain st' where s: "ms_save ser (st\<lparr>ms_objects := hm_remove n obs, ms_chunks := fold hm_remove (mo_chunks ob) chs\<rparr>) = (Ok (), st')"
    using save_has [OF assms(1) up] by blast
  have "passes (then_do (reopen de) k) st'"
    by (rule saved_reopens [OF assms(1,2) _ fold_remove_invar [OF assms(5)] up s assms(6)]) (use assms(4) in simp_all)
  then show "passes (then_do (expect_ok (call (delete_object ser n))) (then_do (reopen de) k)) st"
    unfolding passes_bnd using s assms(3) by (auto simp: test_steps delete_object_def remove_chunks_def hasD [OF st])
qed

lemma runs_put_chunk_reopen:
  assumes R: "draws R" and "encodes ser" and "json_roundtrip ser de" and len: "length chs < 100" and ob: "hm_get obs n = Some ob"
    and ne: "nds \<noteq> []" and "hm_invar obs" "hm_invar chs"
    and "\<And>i s a obs' chs'. hm_get obs' = hm_get (hm_insert n (add_chunk i ob) obs) \<Longrightarrow>
      hm_get chs' = hm_get (hm_insert i (add_storage_node s (MetaChunk_new i c n)) chs) \<Longrightarrow>
      hm_invar obs' \<Longrightarrow> hm_invar chs' \<Longrightarrow>
      length obs' = length (hm_insert n (add_chunk i ob) obs) \<Longrightarrow> runs obs' chs' [] (k (i, a))"
  shows "runs obs chs nds (bnd (expect_ok (put_chunk R ser n c)) (\<lambda>p. then_do (reopen de) (k p)))"
proof (rule runsI)
  fix st :: "'a MetadataStore" assume st: "has obs chs nds st"
  obtain i g where i: "generate_unique_id (rand_u64 R) chs (ms_rng st) = Some (i, g)" using draw_id [OF R len] by blast
  obtain nd g' where nd: "choose_storage_node R (st\<lparr>ms_rng := g\<rparr>) = (Some nd, st\<lparr>ms_rng := g'\<rparr>)" by (rule choose_some [OF R st ne])
  let ?chs = "hm_insert i (add_storage_node (msn_id nd) (MetaChunk_new i c n)) chs" and ?obs = "hm_insert n (add_chunk i ob) obs"
  note up = has_upd(1) [OF has_upd(2) [OF has_upd(4) [OF st, of g'], of ?chs], of ?obs]
  obtain st' where s: "ms_save ser (st\<lparr>ms_rng := g', ms_chunks := ?chs, ms_objects := ?obs\<rparr>) = (Ok (), st')"
    using save_has [OF assms(2) up] by blast
  have "passes (then_do (reopen de) (k (i, msn_address nd))) st'"
    by (rule saved_reopens [OF assms(2,3) _ _ up s assms(9)]) (use assms(7,8) in simp_all)
  moreover have "put_chunk R ser n c st = Some (Ok (i, msn_address nd), st')"
    using i nd s ob hasD [OF st] by (simp add: put_chunk_def Let_def)
  ultimately show "passes (bnd (expect_ok (put_chunk R ser n c)) (\<lambda>p. then_do (reopen de) (k p))) st"
    unfolding passes_bnd [of "expect_ok (put_chunk R ser n c)"] by (auto simp: expect_ok_step)
qed

lemma persistence_tests_pass:
  assumes path: "with_extension path ''tmp'' \<noteq> path" and R: "draws R" and ser: "encodes ser" and json: "json_roundtrip ser de"
  shows "ms_passes de path g (test_persistence_objects_survive_reload ser de)"
    and "ms_passes de path g (test_persistence_chunks_survive_reload R ser de)"
    and "ms_passes de path g (test_persistence_delete_reflected_on_reload ser de)"
    and "ms_passes de path g test_persistence_empty_file_starts_fresh"
proof -
  show "ms_passes de path g (test_persistence_objects_survive_reload ser de)"
    unfolding test_persistence_objects_survive_reload_def
    by (rule test_store_runs [OF path], rule runs_add_node, rule runs_put_object [OF ser], simp,
        rule runs_put_object_reopen [OF ser json], simp_all)
      (rule runs_steps | simp add: hasD MetaObject_new_def)+
  show "ms_passes de path g (test_persistence_chunks_survive_reload R ser de)"
    unfolding test_persistence_chunks_survive_reload_def case_prod_unfold
    by (rule test_store_runs [OF path], rule runs_add_node, rule runs_put_object [OF ser], simp,
        rule runs_put_chunk_reopen [OF R ser json], simp_all)
      (rule runs_steps | simp add: MetaObject_new_def add_chunk_def add_storage_node_def MetaChunk_new_def)+
  show "ms_passes de path g (test_persistence_delete_reflected_on_reload ser de)"
    unfolding test_persistence_delete_reflected_on_reload_def
    by (rule test_store_runs [OF path], rule runs_add_node, rule runs_put_object [OF ser], simp,
        rule runs_put_object [OF ser], simp, rule runs_delete_object_reopen [OF ser json], simp, simp_all)
      (rule runs_steps | simp add: hasD)+
  show "ms_passes de path g test_persistence_empty_file_starts_fresh"
    unfolding test_persistence_empty_file_starts_fresh_def
    by (rule test_store_runs [OF path]) (rule runs_steps | simp add: hasD)+
qed


lemma node_paths:
  "with_extension (dir_path @ ''/metadata-meta-1.dat'') ''tmp'' = dir_path @ ''/metadata-meta-1.tmp''"
  by (simp add: with_extension_def)

lemma new_with_node_test_passes:
  assumes "encodes ser" and json: "json_roundtrip ser de"
  shows "test_new_with_node_uses_node_specific_path ser de dir_path g"
proof -
  let ?obs = "[(''test-obj'', MetaObject_new ''test-obj'' 111)] :: (string, MetaObject) hashmap"
  let ?ps = "\<lparr>ps_version = PERSISTENT_STATE_VERSION, ps_objects = ?obs, ps_chunks = []\<rparr>"
  obtain j where j: "ser ?ps = Some j" using assms(1) by (auto simp: encodes_def)
  obtain ps where ps: "j \<noteq> []" "de j = Some ps" "hm_get (ps_objects ps) = hm_get ?obs"
    using json j unfolding json_roundtrip_def by (force simp: PERSISTENT_STATE_VERSION_def)
  show ?thesis
    using j ps
    by (simp add: test_new_with_node_uses_node_specific_path_def ms_new_with_node_def ms_new_def ms_load_def put_object_def
        ms_save_def persistent_state_def node_paths fs_ops get_object_def Let_def)
qed

section \<open>The whole suite\<close>

definition metadata_store_tests :: "'g rand \<Rightarrow> (string \<Rightarrow> bool) \<Rightarrow> json_ser \<Rightarrow> json_de \<Rightarrow> (string \<Rightarrow> u64) \<Rightarrow> 'g ms_test list" where
  "metadata_store_tests R uri ser de xxh3_64 =
    [test_construct_storage_node_generates_unique_ids R uri, test_construct_storage_node_rejects_invalid_address R uri,
     test_get_storage_node_returns_address, test_get_storage_node_not_found, test_delete_storage_node,
     test_delete_storage_node_not_found, test_list_storage_nodes,
     test_put_and_get_object ser, test_put_object_duplicate_name_fails ser, test_get_object_not_found, test_delete_object ser,
     test_delete_object_not_found ser, test_delete_object_also_removes_chunks R ser, test_list_objects ser, test_list_objects_empty,
     test_put_chunk_assigns_storage_node R ser, test_put_chunk_adds_to_object R ser, test_put_chunk_no_storage_nodes_fails R ser,
     test_put_chunk_object_not_found_fails R ser, test_allocate_chunk_returns_node_info R, test_allocate_chunk_no_storage_nodes_fails R,
     test_allocate_chunk_reserves_id_as_pending R, test_confirm_chunk_persists_metadata R ser,
     test_confirm_chunk_storage_node_not_found_fails ser, test_confirm_chunk_duplicate_chunk_id_fails R ser,
     test_confirm_chunk_object_not_found_fails R ser, test_full_allocate_confirm_flow_multiple_chunks R ser,
     test_get_chunk_returns_object_name_and_metadata R ser, test_get_chunk_not_found, test_delete_chunk_removes_from_object R ser,
     test_delete_chunk_not_found ser, test_list_under_replicated_chunks_sorted_by_replica_count R ser,
     test_add_chunk_replica_success R ser, test_add_chunk_replica_max_replicas_exceeded R ser, test_add_chunk_replica_duplicate_fails R ser,
     test_add_chunk_replica_chunk_not_found ser, test_add_chunk_replica_storage_node_not_found R ser,
     test_get_chunk_mut_allows_modification R ser, test_get_chunk_mut_not_found, test_choose_storage_node_empty_returns_none R,
     test_objects_in_hash_ranges_filters_correctly R ser xxh3_64, test_ingest_partition_merges_data ser,
     test_remove_objects_cleans_up_chunks R ser, test_persistence_objects_survive_reload ser de,
     test_persistence_chunks_survive_reload R ser de, test_persistence_delete_reflected_on_reload ser de,
     test_persistence_empty_file_starts_fresh]"

text \<open>
  The hypothesis on the hash: no key of the tests hashes to the last position of the ring, and each
  of the two nodes of the migration test owns one of its objects.
\<close>

definition suits_tests :: "(string \<Rightarrow> u64) \<Rightarrow> bool" where
  "suits_tests xxh3_64 \<longleftrightarrow> (\<forall>i<20. xxh3_64 (migration_name i) \<noteq> - 1) \<and>
     (\<forall>n\<in>{''node-a'', ''node-b''}. (\<forall>i<VNODES_PER_NODE. xxh3_64 (vnode_key n i) \<noteq> - 1) \<and>
       (\<exists>i<20. get_owner xxh3_64 (test_ring_of xxh3_64) (migration_name i) = Some n))"

section \<open>Parameters that satisfy the hypotheses\<close>

lemma toy_rand_draws: "draws toy_rand"
proof -
  have step: "((\<lambda>g. snd (rand_u64 toy_rand g)) ^^ k) g = g + k" for k g
    by (induction k) (simp_all add: toy_rand_def)
  have "\<exists>k. of_nat (g + k) \<notin> K" if K: "finite K" "card K < 100" for K :: "u64 set" and g
  proof (rule ccontr)
    assume "\<not> ?thesis"
    then have "(\<lambda>k. of_nat (g + k) :: u64) ` {..<100} \<subseteq> K" by auto
    moreover have "inj_on (\<lambda>k. of_nat (g + k) :: u64) {..<100}"
    proof (rule inj_onI)
      fix x y :: nat assume xy: "x \<in> {..<100}" "y \<in> {..<100}" and "(of_nat (g + x) :: u64) = of_nat (g + y)"
      then have "(of_nat x :: u64) = of_nat y" by simp
      then have "unat (of_nat x :: u64) = unat (of_nat y :: u64)" by simp
      then show "x = y" using xy by (simp add: unat_of_nat)
    qed
    ultimately have "100 \<le> card K" using card_mono [OF K(1)] by (metis card_image card_lessThan)
    then show False using K by simp
  qed
  then show ?thesis unfolding draws_def step by (simp add: toy_rand_def)
qed

lemma text_ser_encodes: "encodes text_ser"
  by (simp add: encodes_def text_ser_def)

lemma some_uris_parse: "parses_uris (\<lambda>s. s \<noteq> [])"
  by (simp add: parses_uris_def)

text \<open>A hash that places the two nodes, and the objects, by a letter of their names.\<close>

definition letter_hash :: "string \<Rightarrow> u64" where
  "letter_hash s = (if hd s = CHR ''n'' then of_char (s ! 5) else if last s = CHR ''0'' then 98 else 50)"

lemma letter_hash_suits: "suits_tests letter_hash"
proof -
  have v: "fst ` set (vnodes_of letter_hash n) = {of_char (n ! 5)}" if "n \<in> {''node-a'', ''node-b''}" for n
    using that by (auto simp: vnodes_of_def letter_hash_def vnode_key_def VNODES_PER_NODE_def image_image image_constant_conv)
  have v': "fst ` set (vnodes_of letter_hash ''node-a'') = {97}" "fst ` set (vnodes_of letter_hash ''node-b'') = {98}"
    using v [of "''node-a''"] v [of "''node-b''"] by simp_all
  have inv0: "bt_invar HashRing_new" by (simp add: HashRing_new_def)
  let ?r = "test_ring_of letter_hash"
  have inv: "bt_invar ?r" by (intro add_node_invar inv0)
  have e: "(p, n) \<in> set ?r \<longleftrightarrow> p = 97 \<and> n = ''node-a'' \<or> p = 98 \<and> n = ''node-b''" for p n
    unfolding add_node_entries [OF add_node_invar [OF inv0]] add_node_entries [OF inv0]
    unfolding v' HashRing_new_def by auto
  have k: "fst ` set ?r = {97, 98}"
  proof (rule set_eqI)
    fix p
    have "p \<in> fst ` set ?r \<longleftrightarrow> (\<exists>n. (p, n) \<in> set ?r)" by force
    then show "p \<in> fst ` set ?r \<longleftrightarrow> p \<in> {97, 98}" unfolding e by blast
  qed
  have "owner_at ?r 50 = Some ''node-a''" "owner_at ?r 98 = Some ''node-b''"
    unfolding owner_at_iff [OF inv] k using e by (auto simp: is_succ_def)
  moreover have "show_nat 0 = ''0''" "show_nat 1 = ''1''" by code_simp+
  ultimately have o: "get_owner letter_hash ?r (migration_name 1) = Some ''node-a''"
    "get_owner letter_hash ?r (migration_name 0) = Some ''node-b''"
    by (simp_all add: get_owner_def letter_hash_def)
  show ?thesis unfolding suits_tests_def
    using o by (auto simp: letter_hash_def vnode_key_def intro: exI [of _ 0] exI [of _ 1])
qed

section \<open>Property\<close>



end
