(* ===== verification/RingTests.thy ===== *)
theory RingTests
  imports Cluster Testing
begin

text \<open>
  The unit tests of \<^verbatim>\<open>storage-metadata/src/hash_ring.rs\<close> and \<^verbatim>\<open>storage-metadata/src/chunk_index.rs\<close>. A
  test of the ring is a function of the hash. The tests that measure how evenly the real hash
  spreads keys are reduced to the number of keys each node gets: everything else they assert, and
  that they do not panic, holds for every hash.
\<close>

section \<open>The tests of the ring\<close>

abbreviation ring_of :: "(string \<Rightarrow> u64) \<Rightarrow> string list \<Rightarrow> ring" where
  "ring_of xxh3_64 ns \<equiv> fold (add_node xxh3_64) ns HashRing_new"

text \<open>The keys \<open>format!("prefix{}", i)\<close> of a loop.\<close>

definition numbered :: "string \<Rightarrow> nat \<Rightarrow> string list" where
  "numbered prefix n = map (\<lambda>i. prefix @ show_nat i) [0..<n]"

definition test_empty_ring_returns_none :: "(string \<Rightarrow> u64) \<Rightarrow> bool" where
  "test_empty_ring_returns_none xxh3_64 \<longleftrightarrow>
     (let ring = HashRing_new in get_owner xxh3_64 ring ''any_key'' = None \<and> ring_is_empty ring)"

definition test_single_node_owns_everything :: "(string \<Rightarrow> u64) \<Rightarrow> bool" where
  "test_single_node_owns_everything xxh3_64 \<longleftrightarrow>
     (let ring = add_node xxh3_64 ''node-1'' HashRing_new in
      get_owner xxh3_64 ring ''key-a'' = Some ''node-1'' \<and> get_owner xxh3_64 ring ''key-z'' = Some ''node-1'' \<and>
      get_owner xxh3_64 ring ''any-random-key'' = Some ''node-1'' \<and> node_count ring = 1)"

definition test_consistent_hashing_deterministic :: "(string \<Rightarrow> u64) \<Rightarrow> bool" where
  "test_consistent_hashing_deterministic xxh3_64 \<longleftrightarrow>
     (let ring = ring_of xxh3_64 [''node-1'', ''node-2'', ''node-3''];
          owner1 = get_owner xxh3_64 ring ''test-key''; owner2 = get_owner xxh3_64 ring ''test-key'' in
      owner1 = owner2)"

text \<open>A counter or a list for each owner, \<open>entry(owner).or_default()\<close>; a key without owner panics.\<close>

definition entry_or :: "'k \<Rightarrow> 'v \<Rightarrow> ('v \<Rightarrow> 'v) \<Rightarrow> ('k, 'v) hashmap \<Rightarrow> ('k, 'v) hashmap" where
  "entry_or k d f m = hm_insert k (f (case hm_get m k of Some v \<Rightarrow> v | None \<Rightarrow> d)) m"

fun by_owner :: "(string \<Rightarrow> string option) \<Rightarrow> 'v \<Rightarrow> (string \<Rightarrow> 'v \<Rightarrow> 'v) \<Rightarrow> string list \<Rightarrow> (string, 'v) hashmap
    \<Rightarrow> (string, 'v) hashmap option" where
  "by_owner own d step [] m = Some m"
| "by_owner own d step (key # keys) m =
     (case own key of
        None \<Rightarrow> None
      | Some owner \<Rightarrow> by_owner own d step keys (entry_or owner d (step key) m))"

definition test_distribution_across_nodes :: "(string \<Rightarrow> u64) \<Rightarrow> bool" where
  "test_distribution_across_nodes xxh3_64 \<longleftrightarrow>
     (let ring = ring_of xxh3_64 [''node-1'', ''node-2'', ''node-3''] in
      case by_owner (get_owner xxh3_64 ring) (0 :: nat) (\<lambda>_ count. count + 1) (numbered ''object-'' 1000) [] of
        None \<Rightarrow> False
      | Some counts \<Rightarrow> length counts = 3 \<and> list_all (\<lambda>(_, count). 150 < count) counts)"

text \<open>The percentage of changed keys, between 10 and 60 of 1000 keys, as their number.\<close>

definition test_add_node_minimal_redistribution :: "(string \<Rightarrow> u64) \<Rightarrow> bool" where
  "test_add_node_minimal_redistribution xxh3_64 \<longleftrightarrow>
     (let ring = ring_of xxh3_64 [''node-1'', ''node-2''];
          keys = numbered ''key-'' 1000;
          original_owners = map (get_owner xxh3_64 ring) keys;
          ring = add_node xxh3_64 ''node-3'' ring;
          new_owners = map (get_owner xxh3_64 ring) keys;
          changed = length (filter (\<lambda>(a, b). a \<noteq> b) (zip original_owners new_owners)) in
      10 * length keys < changed * 100 \<and> changed * 100 < 60 * length keys)"

definition test_remove_node :: "(string \<Rightarrow> u64) \<Rightarrow> bool" where
  "test_remove_node xxh3_64 \<longleftrightarrow>
     (let ring = ring_of xxh3_64 [''node-1'', ''node-2'', ''node-3'']; ring' = remove_node ''node-2'' ring in
      node_count ring = 3 \<and> node_count ring' = 2 \<and>
      list_all (\<lambda>key. get_owner xxh3_64 ring' key \<in> {Some ''node-1'', Some ''node-3''}) (numbered ''key-'' 100))"

definition test_get_owned_ranges_covers_ring :: "(string \<Rightarrow> u64) \<Rightarrow> bool" where
  "test_get_owned_ranges_covers_ring xxh3_64 \<longleftrightarrow>
     (let ring = ring_of xxh3_64 [''node-1'', ''node-2''] in
      get_owned_ranges ring ''node-1'' \<noteq> [] \<and> get_owned_ranges ring ''node-2'' \<noteq> [])"

definition test_nodes_returns_all_unique_ids :: "(string \<Rightarrow> u64) \<Rightarrow> bool" where
  "test_nodes_returns_all_unique_ids xxh3_64 \<longleftrightarrow>
     (let ring = ring_of xxh3_64 [''node-a'', ''node-b'', ''node-c''] in
      sort (ring_nodes ring) = [''node-a'', ''node-b'', ''node-c''])"

definition test_hash_key_deterministic :: "(string \<Rightarrow> u64) \<Rightarrow> bool" where
  "test_hash_key_deterministic xxh3_64 \<longleftrightarrow>
     hash_key xxh3_64 ''test'' = hash_key xxh3_64 ''test'' \<and> hash_key xxh3_64 ''test'' \<noteq> hash_key xxh3_64 ''different''"

definition test_hash_in_ranges_normal_range :: bool where
  "test_hash_in_ranges_normal_range \<longleftrightarrow>
     hash_in_ranges 10 [(10, 20)] \<and> hash_in_ranges 15 [(10, 20)] \<and> \<not> hash_in_ranges 20 [(10, 20)] \<and>
     \<not> hash_in_ranges 5 [(10, 20)]"

definition test_hash_in_ranges_multiple :: bool where
  "test_hash_in_ranges_multiple \<longleftrightarrow>
     (let ranges = [(10, 20), (50, 60)] in
      hash_in_ranges 15 ranges \<and> hash_in_ranges 55 ranges \<and> \<not> hash_in_ranges 30 ranges)"

definition test_three_node_cluster_simulation :: "(string \<Rightarrow> u64) \<Rightarrow> bool" where
  "test_three_node_cluster_simulation xxh3_64 \<longleftrightarrow>
     (let ring = ring_of xxh3_64 [''meta-1'', ''meta-2'', ''meta-3''] in
      case by_owner (get_owner xxh3_64 ring) [] (\<lambda>name objects. objects @ [name]) (numbered ''object-'' 100) [] of
        None \<Rightarrow> False
      | Some ownership \<Rightarrow>
          length ownership = 3 \<and> list_all (\<lambda>(_, objects). objects \<noteq> []) ownership \<and>
          (let ring = add_node xxh3_64 ''meta-4'' ring in
           case by_owner (get_owner xxh3_64 ring) [] (\<lambda>name objects. objects @ [name]) (numbered ''object-'' 100) [] of
             None \<Rightarrow> False
           | Some new_ownership \<Rightarrow>
               (case hm_get new_ownership ''meta-4'' of None \<Rightarrow> False | Some objects \<Rightarrow> 5 < length objects) \<and>
               sum_list (map length (hm_values new_ownership)) = 100))"

definition test_owned_ranges_cover_all_keys :: "(string \<Rightarrow> u64) \<Rightarrow> bool" where
  "test_owned_ranges_cover_all_keys xxh3_64 \<longleftrightarrow>
     (let ring = ring_of xxh3_64 [''node-1'', ''node-2'', ''node-3''];
          ranges_1 = get_owned_ranges ring ''node-1'';
          ranges_2 = get_owned_ranges ring ''node-2'';
          ranges_3 = get_owned_ranges ring ''node-3'' in
      list_all (\<lambda>key.
        let hash = hash_key xxh3_64 key;
            matches = [(''node-1'', hash_in_ranges hash ranges_1), (''node-2'', hash_in_ranges hash ranges_2),
              (''node-3'', hash_in_ranges hash ranges_3)];
            matched = map fst (filter snd matches) in
        case get_owner xxh3_64 ring key of
          None \<Rightarrow> False
        | Some owner \<Rightarrow> length matched = 1 \<and> matched ! 0 = owner) (numbered ''test-key-'' 200))"

text \<open>The keys that moved from each of the two nodes; another old owner panics.\<close>

fun moved_keys :: "(string \<Rightarrow> string option) \<Rightarrow> (string \<Rightarrow> string option) \<Rightarrow> string list \<Rightarrow> nat \<times> nat \<Rightarrow> (nat \<times> nat) option" where
  "moved_keys before after [] c = Some c"
| "moved_keys before after (key # keys) (moved_from_1, moved_from_2) =
     (case after key of
        None \<Rightarrow> None
      | Some new_owner \<Rightarrow>
          if new_owner = ''new-node'' then
            (case before key of
               None \<Rightarrow> None
             | Some old_owner \<Rightarrow>
                 if old_owner = ''existing-1'' then moved_keys before after keys (moved_from_1 + 1, moved_from_2)
                 else if old_owner = ''existing-2'' then moved_keys before after keys (moved_from_1, moved_from_2 + 1)
                 else None)
          else moved_keys before after keys (moved_from_1, moved_from_2))"

definition test_migration_range_computation :: "(string \<Rightarrow> u64) \<Rightarrow> bool" where
  "test_migration_range_computation xxh3_64 \<longleftrightarrow>
     (let ring_before = ring_of xxh3_64 [''existing-1'', ''existing-2''];
          ring_after = ring_of xxh3_64 [''existing-1'', ''existing-2'', ''new-node''] in
      get_owned_ranges ring_after ''new-node'' \<noteq> [] \<and>
      (case moved_keys (get_owner xxh3_64 ring_before) (get_owner xxh3_64 ring_after) (numbered ''obj-'' 500) (0, 0) of
         None \<Rightarrow> False
       | Some (moved_from_1, moved_from_2) \<Rightarrow> 0 < moved_from_1 \<and> 0 < moved_from_2))"

section \<open>The tests of the chunk index\<close>

definition ci_test_insert_and_get :: bool where
  "ci_test_insert_and_get \<longleftrightarrow>
     (let idx = ci_insert 2 ''obj-b'' (ci_insert 1 ''obj-a'' ChunkIndex_new) in
      ci_get 1 idx = Some ''obj-a'' \<and> ci_get 2 idx = Some ''obj-b'' \<and> ci_get 3 idx = None)"

definition ci_test_remove :: bool where
  "ci_test_remove \<longleftrightarrow>
     (let (r, idx) = ci_remove 1 (ci_insert 1 ''obj-a'' ChunkIndex_new) in
      r = Some ''obj-a'' \<and> ci_get 1 idx = None \<and> fst (ci_remove 1 idx) = None)"

definition ci_test_bulk_insert :: bool where
  "ci_test_bulk_insert \<longleftrightarrow>
     (let idx = ci_bulk_insert [(1, ''obj-a''), (2, ''obj-b''), (3, ''obj-a'')] ChunkIndex_new in
      ci_len idx = 3 \<and> ci_get 1 idx = Some ''obj-a'' \<and> ci_get 2 idx = Some ''obj-b'')"

definition ci_test_remove_by_objects :: bool where
  "ci_test_remove_by_objects \<longleftrightarrow>
     (let idx = ci_bulk_insert [(1, ''obj-a''), (2, ''obj-b''), (3, ''obj-a''), (4, ''obj-c'')] ChunkIndex_new;
          idx = ci_remove_by_objects [''obj-a''] idx in
      ci_len idx = 2 \<and> ci_get 1 idx = None \<and> ci_get 2 idx = Some ''obj-b'' \<and> ci_get 3 idx = None \<and>
      ci_get 4 idx = Some ''obj-c'')"

definition ci_test_entries :: bool where
  "ci_test_entries \<longleftrightarrow>
     (let idx = ci_insert 2 ''obj-b'' (ci_insert 1 ''obj-a'' ChunkIndex_new);
          entries = sort_key fst (ci_entries idx) in
      length entries = 2 \<and> entries ! 0 = (1, ''obj-a'') \<and> entries ! 1 = (2, ''obj-b''))"

definition ci_test_multi_node_chunk_index_sync :: bool where
  "ci_test_multi_node_chunk_index_sync \<longleftrightarrow>
     (let node_1 = ci_insert 101 ''obj-a'' (ci_insert 100 ''obj-a'' ChunkIndex_new);
          node_2 = ci_insert 200 ''obj-b'' ChunkIndex_new;
          node_3 = ChunkIndex_new;
          entries_1 = ci_entries node_1;
          node_2 = ci_bulk_insert entries_1 node_2;
          node_3 = ci_bulk_insert entries_1 node_3;
          entries_2 = ci_entries node_2;
          node_1 = ci_bulk_insert entries_2 node_1;
          node_3 = ci_bulk_insert entries_2 node_3 in
      ci_len node_1 = 3 \<and> ci_len node_2 = 3 \<and> ci_len node_3 = 3 \<and>
      list_all (\<lambda>node. ci_get 100 node = Some ''obj-a'' \<and> ci_get 101 node = Some ''obj-a'' \<and> ci_get 200 node = Some ''obj-b'')
        [node_1, node_2, node_3])"

definition ci_test_migration_chunk_index_update :: bool where
  "ci_test_migration_chunk_index_update \<longleftrightarrow>
     (let existing_node = ci_bulk_insert [(1, ''obj-x''), (2, ''obj-x''), (3, ''obj-x''), (4, ''obj-y''), (5, ''obj-y'')] ChunkIndex_new;
          new_node = ci_insert 5 ''obj-y'' (ci_insert 4 ''obj-y'' ChunkIndex_new);
          existing_node = ci_bulk_insert (ci_entries new_node) existing_node in
      ci_len existing_node = 5 \<and> ci_len new_node = 2 \<and> ci_len (ci_bulk_insert (ci_entries existing_node) new_node) = 5)"

lemma chunk_index_tests_pass:
  "ci_test_insert_and_get" "ci_test_remove" "ci_test_bulk_insert" "ci_test_remove_by_objects" "ci_test_entries"
  "ci_test_multi_node_chunk_index_sync" "ci_test_migration_chunk_index_update"
  by code_simp+

section \<open>Lemmas\<close>

lemma ring_of_invar [simp]: "bt_invar (ring_of x ns)"
  by (rule ring.invar_joins) (simp add: HashRing_new_def)

text \<open>No position is a vnode of two nodes.\<close>

definition apart :: "(string \<Rightarrow> u64) \<Rightarrow> string list \<Rightarrow> bool" where
  "apart x ns \<longleftrightarrow> (\<forall>n\<in>set ns. \<forall>m\<in>set ns. fst ` set (vnodes_of x n) \<inter> fst ` set (vnodes_of x m) \<noteq> {} \<longrightarrow> n = m)"

lemma ring_of_entries:
  "apart x ns \<Longrightarrow> (p, v) \<in> set (ring_of x ns) \<longleftrightarrow> v \<in> set ns \<and> p \<in> fst ` set (vnodes_of x v)"
proof (induction ns rule: rev_induct)
  case Nil
  then show ?case by (simp add: HashRing_new_def)
next
  case (snoc n ns)
  have a: "apart x ns" using snoc.prems by (simp add: apart_def)
  have u: "v = n" if "p \<in> fst ` set (vnodes_of x n)" "v \<in> set ns" "p \<in> fst ` set (vnodes_of x v)"
  proof -
    have "v \<in> set (ns @ [n])" "n \<in> set (ns @ [n])" using that by simp_all
    moreover have "fst ` set (vnodes_of x v) \<inter> fst ` set (vnodes_of x n) \<noteq> {}" using that by blast
    ultimately show ?thesis using snoc.prems unfolding apart_def by blast
  qed
  have e: "(p, v) \<in> set (ring_of x (ns @ [n])) \<longleftrightarrow> (if p \<in> fst ` set (vnodes_of x n) then v = n
      else v \<in> set ns \<and> p \<in> fst ` set (vnodes_of x v))"
    using add_node_entries [OF ring_of_invar, of p v x n x ns] snoc.IH [OF a] by simp
  show ?case unfolding e using u by (cases "v = n") (simp_all, blast)
qed

lemma ring_of_members: "apart x ns \<Longrightarrow> set (hm_values (ring_of x ns)) = set ns"
proof -
  assume a: "apart x ns"
  have "v \<in> set (hm_values (ring_of x ns)) \<longleftrightarrow> (\<exists>p. (p, v) \<in> set (ring_of x ns))" for v by force
  moreover have "\<exists>p. p \<in> fst ` set (vnodes_of x v)" for v using vnodes_of_not_Nil [of x v] by (cases "vnodes_of x v") auto
  ultimately show ?thesis unfolding ring_of_entries [OF a] by blast
qed

lemma ring_of_values_subset: "set (hm_values (ring_of x ns)) \<subseteq> set ns"
proof (induction ns rule: rev_induct)
  case (snoc n ns)
  then show ?case using ring.members_join [OF ring_of_invar [of x ns], of x n]
    by (simp del: set_map) (blast dest: subsetD)
qed (simp add: HashRing_new_def)

lemma ring_of_owner:
  assumes "ns \<noteq> []" shows "\<exists>n\<in>set ns. get_owner x (ring_of x ns) key = Some n"
proof -
  obtain ms n where ns: "ns = ms @ [n]" using assms by (cases ns rule: rev_cases) auto
  have "n \<in> set (hm_values (ring_of x ns))" unfolding ns using ring.join_member [OF ring_of_invar [of x ms]] by simp
  then have "get_owner x (ring_of x ns) key \<noteq> None"
    unfolding get_owner_def using ring.owner_total [OF ring_of_invar [of x ns]] by auto
  then show ?thesis
    unfolding get_owner_def using ring.owner_member [OF ring_of_invar [of x ns]] ring_of_values_subset [of x ns] by blast
qed

lemma owned_ranges_not_Nil: "n \<in> set (hm_values r) \<Longrightarrow> get_owned_ranges r n \<noteq> []"
proof -
  assume "n \<in> set (hm_values r)"
  then obtain i where i: "i < length r" "snd (r ! i) = n" by (auto simp: in_set_conv_nth)
  have "vnode_ranges r i \<noteq> []" by (simp add: vnode_ranges_def Let_def)
  moreover have "r \<noteq> []" using i by auto
  ultimately show ?thesis using i by (auto simp: get_owned_ranges_def concat_eq_Nil_conv intro!: bexI [of _ i])
qed


lemma ring_nodes_count: "bt_invar r \<Longrightarrow> node_count r = card (set (hm_values r))"
  using distinct_card [OF sorted_remdups_adj_distinct [OF sorted_sort], of "hm_values r"] by (simp add: node_count_def)

section \<open>The tests of the ring pass\<close>

lemma ring_structure_tests_pass:
  shows "test_empty_ring_returns_none x" and "test_single_node_owns_everything x"
    and "test_consistent_hashing_deterministic x" and "test_hash_in_ranges_normal_range" and "test_hash_in_ranges_multiple"
    and "test_hash_key_deterministic x \<longleftrightarrow> x ''test'' \<noteq> x ''different''"
proof -
  show "test_empty_ring_returns_none x"
    by (simp add: test_empty_ring_returns_none_def get_owner_def owner_at_def HashRing_new_def ring_is_empty_def)
  have "apart x [''node-1'']" by (simp add: apart_def)
  then have "node_count (ring_of x [''node-1'']) = 1"
    using ring_nodes_count [OF ring_of_invar [of x "[''node-1'']"]] ring_of_members by fastforce
  moreover have "get_owner x (ring_of x [''node-1'']) key = Some ''node-1''" for key
    using ring_of_owner [of "[''node-1'']" x key] by auto
  ultimately show "test_single_node_owns_everything x"
    by (simp add: test_single_node_owns_everything_def)
  show "test_consistent_hashing_deterministic x" by (simp add: test_consistent_hashing_deterministic_def)
  show "test_hash_in_ranges_normal_range" "test_hash_in_ranges_multiple" by code_simp+
  show "test_hash_key_deterministic x \<longleftrightarrow> x ''test'' \<noteq> x ''different''"
    by (simp add: test_hash_key_deterministic_def hash_key_def)
qed

lemma ring_membership_tests_pass:
  shows "apart x [''node-1'', ''node-2'', ''node-3''] \<Longrightarrow> test_remove_node x"
    and "apart x [''node-1'', ''node-2''] \<Longrightarrow> test_get_owned_ranges_covers_ring x"
    and "apart x [''node-a'', ''node-b'', ''node-c''] \<Longrightarrow> test_nodes_returns_all_unique_ids x"
proof -
  assume a: "apart x [''node-1'', ''node-2'', ''node-3'']"
  let ?r = "ring_of x [''node-1'', ''node-2'', ''node-3'']"
  have m: "set (hm_values ?r) = {''node-1'', ''node-2'', ''node-3''}" using ring_of_members [OF a] by simp
  have m': "set (hm_values (remove_node ''node-2'' ?r)) = {''node-1'', ''node-3''}"
    unfolding ring.members_leave [OF ring_of_invar] m by (simp add: insert_Diff_if)
  note inv' = ring.invar_leave [OF ring_of_invar [of x "[''node-1'', ''node-2'', ''node-3'']"], of "''node-2''"]
  have c: "node_count ?r = 3" "node_count (remove_node ''node-2'' ?r) = 2"
    unfolding ring_nodes_count [OF ring_of_invar] ring_nodes_count [OF inv'] m m' by simp_all
  have "get_owner x (remove_node ''node-2'' ?r) key \<in> {Some ''node-1'', Some ''node-3''}" for key
    using ring.owner_total [OF inv', of "x key"] ring.owner_member [OF inv', of "x key"] m' unfolding get_owner_def by fastforce
  then show "test_remove_node x" using c unfolding test_remove_node_def Let_def list_all_iff by blast
next
  assume a: "apart x [''node-1'', ''node-2'']"
  show "test_get_owned_ranges_covers_ring x"
    using ring_of_members [OF a] unfolding test_get_owned_ranges_covers_ring_def Let_def
    by (intro conjI owned_ranges_not_Nil) simp_all
next
  assume a: "apart x [''node-a'', ''node-b'', ''node-c'']"
  let ?ns = "[''node-a'', ''node-b'', ''node-c'']"
  have "set (ring_nodes (ring_of x ?ns)) = set ?ns" "sorted (ring_nodes (ring_of x ?ns))" "distinct (ring_nodes (ring_of x ?ns))"
    using ring_of_members [OF a] by (simp_all add: ring_nodes_def sorted_remdups_adj sorted_remdups_adj_distinct)
  moreover have "sorted ?ns" "distinct ?ns" by simp_all
  ultimately have "ring_nodes (ring_of x ?ns) = ?ns" by (metis sorted_distinct_set_unique)
  then show "test_nodes_returns_all_unique_ids x" by (simp add: test_nodes_returns_all_unique_ids_def)
qed


text \<open>No position of a vnode and no key is the last position.\<close>

definition off_last :: "(string \<Rightarrow> u64) \<Rightarrow> string list \<Rightarrow> string list \<Rightarrow> bool" where
  "off_last x ns keys \<longleftrightarrow> (\<forall>n\<in>set ns. - 1 \<notin> fst ` set (vnodes_of x n)) \<and> (\<forall>key\<in>set keys. x key \<noteq> - 1)"

lemma ring_of_positions: "(p, v) \<in> set (ring_of x ns) \<Longrightarrow> \<exists>n\<in>set ns. p \<in> fst ` set (vnodes_of x n)"
proof (induction ns rule: rev_induct)
  case Nil
  then show ?case by (simp add: HashRing_new_def)
next
  case (snoc n ns)
  have "p \<in> fst ` set (vnodes_of x n) \<or> (p, v) \<in> set (ring_of x ns)"
    using snoc.prems add_node_entries [OF ring_of_invar, of p v x n x ns] by (auto split: if_splits)
  then show ?case using snoc.IH by auto
qed

lemma owned_ranges_test_passes:
  assumes "off_last x [''node-1'', ''node-2'', ''node-3''] (numbered ''test-key-'' 200)"
  shows "test_owned_ranges_cover_all_keys x"
proof -
  let ?ns = "[''node-1'', ''node-2'', ''node-3'']"
  let ?r = "ring_of x ?ns"
  have last: "- 1 \<notin> fst ` set ?r"
  proof
    assume "- 1 \<in> fst ` set ?r"
    then obtain v where "(- 1, v) \<in> set ?r" unfolding image_iff by (metis prod.collapse)
    then show False using ring_of_positions [of "- 1" v x ?ns] assms unfolding off_last_def by blast
  qed
  have one: "\<exists>owner. get_owner x ?r key = Some owner \<and>
      map fst (filter snd [(''node-1'', hash_in_ranges (x key) (get_owned_ranges ?r ''node-1'')),
        (''node-2'', hash_in_ranges (x key) (get_owned_ranges ?r ''node-2'')),
        (''node-3'', hash_in_ranges (x key) (get_owned_ranges ?r ''node-3''))]) = [owner]"
    if "x key \<noteq> - 1" for key
  proof -
    obtain owner where o: "get_owner x ?r key = Some owner" "owner \<in> set ?ns" using ring_of_owner [of ?ns x key] by blast
    have "hash_in_ranges (x key) (get_owned_ranges ?r n) \<longleftrightarrow> n = owner" for n
      using owned_ranges_owner [OF ring_of_invar last that, of n] o(1) by (auto simp: get_owner_def)
    then show ?thesis using o by (auto simp del: fold_simps)
  qed
  show ?thesis
    unfolding test_owned_ranges_cover_all_keys_def Let_def list_all_iff hash_key_def
  proof
    fix key assume "key \<in> set (numbered ''test-key-'' 200)"
    then have "x key \<noteq> - 1" using assms unfolding off_last_def by blast
    from one [OF this] show "case get_owner x ?r key of None \<Rightarrow> False
      | Some owner \<Rightarrow> length (map fst (filter snd [(''node-1'', hash_in_ranges (x key) (get_owned_ranges ?r ''node-1'')),
          (''node-2'', hash_in_ranges (x key) (get_owned_ranges ?r ''node-2'')),
          (''node-3'', hash_in_ranges (x key) (get_owned_ranges ?r ''node-3''))])) = 1 \<and>
        map fst (filter snd [(''node-1'', hash_in_ranges (x key) (get_owned_ranges ?r ''node-1'')),
          (''node-2'', hash_in_ranges (x key) (get_owned_ranges ?r ''node-2'')),
          (''node-3'', hash_in_ranges (x key) (get_owned_ranges ?r ''node-3''))]) ! 0 = owner"
      by (auto simp del: fold_simps filter.simps)
  qed
qed

section \<open>The tests of the distribution\<close>

text \<open>The number of keys a node gets.\<close>

definition share :: "(string \<Rightarrow> string option) \<Rightarrow> string list \<Rightarrow> string \<Rightarrow> nat" where
  "share own keys n = length (filter (\<lambda>key. own key = Some n) keys)"

lemma by_owner_fold:
  "\<forall>key\<in>set keys. own key \<noteq> None \<Longrightarrow>
   by_owner own d step keys m = Some (fold (\<lambda>key. entry_or (the (own key)) d (step key)) keys m)"
  by (induction keys arbitrary: m) auto

lemma entry_or_get:
  "hm_get (entry_or k d f m) k' = (if k' = k then Some (f (case hm_get m k of Some v \<Rightarrow> v | None \<Rightarrow> d)) else hm_get m k')"
  by (simp add: entry_or_def update_conv)

lemma by_owner_invar: "hm_invar m \<Longrightarrow> hm_invar (fold (\<lambda>key. entry_or (the (own key)) d (step key)) keys m)"
  by (induction keys arbitrary: m) (simp_all add: entry_or_def)

lemma by_owner_get:
  "\<forall>key\<in>set keys. own key \<noteq> None \<Longrightarrow>
   hm_get (fold (\<lambda>key. entry_or (the (own key)) d (step key)) keys []) n =
     (if Some n \<in> own ` set keys then Some (fold step (filter (\<lambda>key. own key = Some n) keys) d) else None)"
proof (induction keys rule: rev_induct)
  case (snoc key keys)
  obtain w where w: "own key = Some w" using snoc.prems by auto
  have e: "filter (\<lambda>key. own key = Some n) keys = []" if "Some n \<notin> own ` set keys"
    using that by (metis (mono_tags, lifting) filter_False image_eqI)
  have ih: "hm_get (fold (\<lambda>key. entry_or (the (own key)) d (step key)) keys []) n =
     (if Some n \<in> own ` set keys then Some (fold step (filter (\<lambda>key. own key = Some n) keys) d) else None)"
    using snoc by simp
  show ?case
  proof (cases "n = w")
    case True
    then show ?thesis using ih e by (cases "Some n \<in> own ` set keys") (simp_all add: entry_or_get w)
  next
    case False
    then show ?thesis using ih by (simp add: entry_or_get w)
  qed
qed simp

text \<open>
  Grouping keys by owner when every key has one: an entry for every node with a key, holding the
  result of the steps for its keys.
\<close>

lemma by_owner_groups:
  assumes "\<forall>key\<in>set keys. own key \<noteq> None" and "by_owner own d step keys [] = Some m"
  shows "hm_invar m" and "hm_get m n = (if share own keys n = 0 then None
      else Some (fold step (filter (\<lambda>key. own key = Some n) keys) d))"
    and "set (hm_keys m) = {n. 0 < share own keys n}"
proof -
  have m: "m = fold (\<lambda>key. entry_or (the (own key)) d (step key)) keys []"
    using by_owner_fold [OF assms(1), of d step "[]"] assms(2) by simp
  show "hm_invar m" unfolding m by (rule by_owner_invar) simp
  show g: "hm_get m n = (if share own keys n = 0 then None
      else Some (fold step (filter (\<lambda>key. own key = Some n) keys) d))" for n
    unfolding m by_owner_get [OF assms(1)] share_def by (auto simp: image_iff filter_empty_conv)
  have "n \<in> set (hm_keys m) \<longleftrightarrow> 0 < share own keys n" for n
    using map_of_eq_None_iff [of m n] unfolding g by (simp split: if_splits)
  then show "set (hm_keys m) = {n. 0 < share own keys n}" by blast
qed

lemma by_owner_total: "\<forall>key\<in>set keys. own key \<noteq> None \<Longrightarrow> \<exists>m. by_owner own d step keys [] = Some m"
  by (simp add: by_owner_fold)

lemma fold_count: "fold (\<lambda>_ c. c + 1) xs (d :: nat) = d + length xs"
  by (induction xs arbitrary: d) simp_all

lemma fold_collect: "fold (\<lambda>x ys. ys @ [x]) xs d = d @ xs"
  by (induction xs arbitrary: d) simp_all

lemma share_sum:
  "finite S \<Longrightarrow> \<forall>key\<in>set keys. \<exists>n\<in>S. own key = Some n \<Longrightarrow> (\<Sum>n\<in>S. share own keys n) = length keys"
proof (induction keys)
  case (Cons key keys)
  obtain w where w: "w \<in> S" "own key = Some w" using Cons.prems by auto
  have s: "share own (key # keys) n = share own keys n + (if n = w then 1 else 0)" for n
    using w by (simp add: share_def)
  show ?case unfolding s sum.distrib using Cons w by simp
qed (simp add: share_def)

lemma groups_of_nodes:
  assumes own: "\<forall>key\<in>set keys. \<exists>n\<in>S. own key = Some n" and S: "finite S" and "by_owner own d step keys [] = Some m"
  shows "length m = card S \<longleftrightarrow> (\<forall>n\<in>S. 0 < share own keys n)"
    and "list_all (\<lambda>(_, v). P v) m \<longleftrightarrow>
      (\<forall>n\<in>S. 0 < share own keys n \<longrightarrow> P (fold step (filter (\<lambda>key. own key = Some n) keys) d))"
proof -
  have o: "\<forall>key\<in>set keys. own key \<noteq> None" using own by auto
  note g = by_owner_groups [OF o assms(3)]
  have sub: "n \<in> S" if pos: "0 < share own keys n" for n
  proof -
    obtain key where "key \<in> set keys" "own key = Some n" using pos by (auto simp: share_def filter_empty_conv)
    then show ?thesis using own by auto
  qed
  have "length m = card {n. 0 < share own keys n}" using distinct_card [OF g(1)] g(3) by simp
  moreover have "card {n. 0 < share own keys n} = card S \<longleftrightarrow> {n. 0 < share own keys n} = S"
    using card_subset_eq [OF S, of "{n. 0 < share own keys n}"] sub by auto
  ultimately show "length m = card S \<longleftrightarrow> (\<forall>n\<in>S. 0 < share own keys n)" using sub by auto
  have e: "(n, v) \<in> set m \<longleftrightarrow> hm_get m n = Some v" for n v using g(1) by simp
  show "list_all (\<lambda>(_, v). P v) m \<longleftrightarrow>
      (\<forall>n\<in>S. 0 < share own keys n \<longrightarrow> P (fold step (filter (\<lambda>key. own key = Some n) keys) d))"
  proof -
    have "list_all (\<lambda>(_, v). P v) m \<longleftrightarrow> (\<forall>n v. hm_get m n = Some v \<longrightarrow> P v)" unfolding list_all_iff e [symmetric] by auto
    then show ?thesis unfolding g(2) using sub by (metis less_not_refl option.inject option.distinct(1) gr0I)
  qed
qed

lemma owned: "\<forall>key\<in>A. \<exists>n\<in>S. own key = Some n \<Longrightarrow> \<forall>key\<in>A. own key \<noteq> None"
  by auto

lemma ring_of_owners: "ns \<noteq> [] \<Longrightarrow> \<forall>key\<in>A. \<exists>n\<in>set ns. get_owner x (ring_of x ns) key = Some n"
  using ring_of_owner by blast

lemma large_shares:
  "(\<forall>n\<in>S. 0 < f n) \<and> (\<forall>n\<in>S. 0 < f n \<longrightarrow> k < f n) \<longleftrightarrow> (\<forall>n\<in>S. k < f n)" for f :: "'a \<Rightarrow> nat"
  by fastforce

lemma distribution_test:
  "test_distribution_across_nodes x \<longleftrightarrow>
     (\<forall>n\<in>{''node-1'', ''node-2'', ''node-3''}.
        150 < share (get_owner x (ring_of x [''node-1'', ''node-2'', ''node-3''])) (numbered ''object-'' 1000) n)"
proof -
  let ?ns = "[''node-1'', ''node-2'', ''node-3'']"
  let ?own = "get_owner x (ring_of x ?ns)" and ?keys = "numbered ''object-'' 1000"
  have own: "\<forall>key\<in>set ?keys. \<exists>n\<in>set ?ns. ?own key = Some n" by (rule ring_of_owners) simp
  obtain m where m: "by_owner ?own (0 :: nat) (\<lambda>_ c. c + 1) ?keys [] = Some m"
    by (rule exE [OF by_owner_total [OF owned [OF own]]])
  note g = groups_of_nodes [OF own finite_set m]
  have "card (set ?ns) = 3" by simp
  with g(1) have "length m = 3 \<longleftrightarrow> (\<forall>n\<in>set ?ns. 0 < share ?own ?keys n)" by metis
  moreover have "list_all (\<lambda>(_, c). 150 < c) m \<longleftrightarrow> (\<forall>n\<in>set ?ns. 0 < share ?own ?keys n \<longrightarrow> 150 < share ?own ?keys n)"
    using g(2) [of "\<lambda>c. 150 < c"] unfolding fold_count add_0 share_def .
  moreover have "test_distribution_across_nodes x \<longleftrightarrow> length m = 3 \<and> list_all (\<lambda>(_, c). 150 < c) m"
    unfolding test_distribution_across_nodes_def Let_def m option.case ..
  ultimately have "test_distribution_across_nodes x \<longleftrightarrow> (\<forall>n\<in>set ?ns. 150 < share ?own ?keys n)"
    by (simp only: large_shares)
  then show ?thesis by (simp only: list.set)
qed

lemma redistribution_test:
  "test_add_node_minimal_redistribution x \<longleftrightarrow>
     (let moved = share (get_owner x (ring_of x [''node-1'', ''node-2'', ''node-3''])) (numbered ''key-'' 1000) ''node-3'' in
      100 < moved \<and> moved < 600)"
proof -
  let ?r = "ring_of x [''node-1'', ''node-2'']" and ?keys = "numbered ''key-'' 1000"
  let ?r' = "add_node x ''node-3'' ?r"
  have k: "get_owner x ?r key \<noteq> get_owner x ?r' key \<longleftrightarrow> get_owner x ?r' key = Some ''node-3''" for key
  proof -
    have "get_owner x ?r key \<noteq> Some ''node-3''"
      using ring_of_owner [of "[''node-1'', ''node-2'']" x key] by auto
    then show ?thesis using ring.join_minimal [OF ring_of_invar [of x "[''node-1'', ''node-2'']"], of x "''node-3''" "x key"]
      unfolding get_owner_def by metis
  qed
  have "length (filter (\<lambda>(a, b). a \<noteq> b) (zip (map (get_owner x ?r) ?keys) (map (get_owner x ?r') ?keys))) =
      share (get_owner x ?r') ?keys ''node-3''"
    unfolding zip_map_map zip_same_conv_map filter_map length_map share_def comp_def map_map split k ..
  moreover have "length ?keys = 1000" by (simp add: numbered_def)
  moreover have "ring_of x [''node-1'', ''node-2'', ''node-3''] = ?r'" by simp
  ultimately show ?thesis
    unfolding test_add_node_minimal_redistribution_def Let_def by (simp only:) linarith
qed

text \<open>Together with that every key is owned: the lists of the simulation hold all of the keys.\<close>

lemma groups_total:
  assumes own: "\<forall>key\<in>set keys. \<exists>n\<in>S. own key = Some n" and S: "finite S"
    and m: "by_owner own [] (\<lambda>key ks. ks @ [key]) keys [] = Some m"
  shows "sum_list (map length (hm_values m)) = length keys"
proof -
  note g = by_owner_groups [OF owned [OF own] m]
  have v: "hm_get m n = Some ks \<Longrightarrow> length ks = share own keys n" for n ks
    by (auto simp: g(2) fold_collect share_def split: if_splits)
  have "(n, ks) \<in> set m \<Longrightarrow> length ks = share own keys n" for n ks using v g(1) by simp
  then have "map length (hm_values m) = map (share own keys) (hm_keys m)" by auto
  then have "sum_list (map length (hm_values m)) = (\<Sum>n\<in>set (hm_keys m). share own keys n)"
    using g(1) by (simp only: sum_list_distinct_conv_sum_set)
  also have "\<dots> = (\<Sum>n\<in>S. share own keys n)"
  proof (rule sum.mono_neutral_left [OF S])
    show "set (hm_keys m) \<subseteq> S"
    proof
      fix n assume "n \<in> set (hm_keys m)"
      then have "0 < share own keys n" using g(3) by simp
      then obtain key where "key \<in> set keys" "own key = Some n" by (auto simp: share_def filter_empty_conv)
      then show "n \<in> S" using own by auto
    qed
    show "\<forall>n\<in>S - set (hm_keys m). share own keys n = 0" using g(3) by simp
  qed
  finally show ?thesis using share_sum [OF S own] by simp
qed

lemma simulation_test:
  "test_three_node_cluster_simulation x \<longleftrightarrow>
     (\<forall>n\<in>{''meta-1'', ''meta-2'', ''meta-3''}.
        0 < share (get_owner x (ring_of x [''meta-1'', ''meta-2'', ''meta-3''])) (numbered ''object-'' 100) n) \<and>
     5 < share (get_owner x (ring_of x [''meta-1'', ''meta-2'', ''meta-3'', ''meta-4''])) (numbered ''object-'' 100) ''meta-4''"
proof -
  let ?ns = "[''meta-1'', ''meta-2'', ''meta-3'']" and ?ns' = "[''meta-1'', ''meta-2'', ''meta-3'', ''meta-4'']"
  let ?own = "get_owner x (ring_of x ?ns)" and ?own' = "get_owner x (ring_of x ?ns')" and ?keys = "numbered ''object-'' 100"
  have own: "\<forall>key\<in>set ?keys. \<exists>n\<in>set ?ns. ?own key = Some n" and own': "\<forall>key\<in>set ?keys. \<exists>n\<in>set ?ns'. ?own' key = Some n"
    by (rule ring_of_owners; simp)+
  obtain m where m: "by_owner ?own [] (\<lambda>key ks. ks @ [key]) ?keys [] = Some m"
    by (rule exE [OF by_owner_total [OF owned [OF own]]])
  obtain m' where m': "by_owner ?own' [] (\<lambda>key ks. ks @ [key]) ?keys [] = Some m'"
    by (rule exE [OF by_owner_total [OF owned [OF own']]])
  note g = groups_of_nodes [OF own finite_set m] and g' = by_owner_groups [OF owned [OF own'] m']
  have "card (set ?ns) = 3" by simp
  with g(1) have len: "length m = 3 \<longleftrightarrow> (\<forall>n\<in>set ?ns. 0 < share ?own ?keys n)" by metis
  have ne: "list_all (\<lambda>(_, objects). objects \<noteq> []) m"
    unfolding g(2) fold_collect append_Nil share_def by (simp only: length_greater_0_conv simp_thms) blast
  have four: "(case hm_get m' ''meta-4'' of None \<Rightarrow> False | Some objects \<Rightarrow> 5 < length objects) \<longleftrightarrow> 5 < share ?own' ?keys ''meta-4''"
    unfolding g'(2) fold_collect append_Nil by (auto simp: share_def)
  have tot: "sum_list (map length (hm_values m')) = 100"
    unfolding groups_total [OF own' finite_set m'] by (simp add: numbered_def)
  have r: "add_node x ''meta-4'' (ring_of x ?ns) = ring_of x ?ns'" by simp
  show ?thesis
    unfolding test_three_node_cluster_simulation_def Let_def r m m' option.case len four tot using ne
    by (simp only: list.set simp_thms)
qed

lemma moved_keys_counts:
  assumes "\<forall>key\<in>set keys. after key \<noteq> None"
    and "\<forall>key\<in>set keys. before key = Some ''existing-1'' \<or> before key = Some ''existing-2''"
  shows "moved_keys before after keys (a, b) =
    Some (a + share before (filter (\<lambda>key. after key = Some ''new-node'') keys) ''existing-1'',
          b + share before (filter (\<lambda>key. after key = Some ''new-node'') keys) ''existing-2'')"
  using assms by (induction keys arbitrary: a b) (auto simp: share_def)

lemma migration_test:
  "test_migration_range_computation x \<longleftrightarrow>
     (let moved = filter (\<lambda>key. get_owner x (ring_of x [''existing-1'', ''existing-2'', ''new-node'']) key = Some ''new-node'')
            (numbered ''obj-'' 500) in
      0 < share (get_owner x (ring_of x [''existing-1'', ''existing-2''])) moved ''existing-1'' \<and>
      0 < share (get_owner x (ring_of x [''existing-1'', ''existing-2''])) moved ''existing-2'')"
proof -
  let ?ns = "[''existing-1'', ''existing-2'']" and ?ns' = "[''existing-1'', ''existing-2'', ''new-node'']"
  let ?before = "get_owner x (ring_of x ?ns)" and ?after = "get_owner x (ring_of x ?ns')" and ?keys = "numbered ''obj-'' 500"
  have "ring_of x ?ns' = add_node x ''new-node'' (ring_of x ?ns)" by simp
  then have "get_owned_ranges (ring_of x ?ns') ''new-node'' \<noteq> []"
    using owned_ranges_not_Nil [OF ring.join_member [OF ring_of_invar [of x ?ns]]] by metis
  moreover have a: "\<forall>key\<in>set ?keys. ?after key \<noteq> None" by (rule owned [OF ring_of_owners]) simp
  moreover have "\<exists>n\<in>set ?ns. ?before key = Some n" for key by (rule ring_of_owner) simp
  then have b: "\<forall>key\<in>set ?keys. ?before key = Some ''existing-1'' \<or> ?before key = Some ''existing-2''" by simp
  ultimately show ?thesis
    unfolding test_migration_range_computation_def Let_def moved_keys_counts [OF a b] option.case split add_0 by (simp only: simp_thms)
qed

text \<open>The hypotheses hold for a hash that tells the names of the nodes apart.\<close>

definition sixth_letter :: "string \<Rightarrow> u64" where
  "sixth_letter s = of_char (s ! 5)"

lemma sixth_letter_vnodes: "length n = 6 \<Longrightarrow> fst ` set (vnodes_of sixth_letter n) = {of_char (n ! 5)}"
  by (auto simp: vnodes_of_def sixth_letter_def vnode_key_def nth_append image_image VNODES_PER_NODE_def intro!: image_eqI [of _ _ 0])

lemma sixth_letter_apart:
  "apart sixth_letter [''node-1'', ''node-2'', ''node-3'']"
  "off_last sixth_letter [''node-1'', ''node-2'', ''node-3''] (numbered ''test-key-'' 200)"
  by (auto simp: apart_def off_last_def sixth_letter_vnodes numbered_def sixth_letter_def nth_append simp del: upt_Suc upt_rec_numeral)

lemma ring_tests_pass_example: "test_remove_node sixth_letter" "test_owned_ranges_cover_all_keys sixth_letter"
  by (rule ring_membership_tests_pass owned_ranges_test_passes sixth_letter_apart)+

end
