(* ===== verification/StorageTests.thy ===== *)
theory StorageTests
  imports StorageNode Testing
begin

text \<open>
  The unit tests of the storage node: \<^verbatim>\<open>storage-node/src/chunk_store.rs\<close> and \<^verbatim>\<open>config.rs\<close>. A test of
  the store is an action on the store it opens on a new file, without faults of the disk, and is
  shown to pass by what the refinement of the store to a bounded map says of each call, so no slot
  of 8 MiB is ever evaluated.
\<close>

section \<open>The tests of the header and of slots\<close>

type_synonym file_test = "(os_file, unit) act"

definition test_chunk_header_serialization_roundtrip :: bool where
  "test_chunk_header_serialization_roundtrip \<longleftrightarrow>
     (let header = ChunkHeader_new 12345 0xDEADBEEF 1024; restored = from_bytes (to_bytes header) in
      magic restored = MAGIC \<and> hid restored = 12345 \<and> checksum restored = 0xDEADBEEF \<and> data_len restored = 1024)"

definition test_chunk_header_magic_is_correct :: bool where
  "test_chunk_header_magic_is_correct \<longleftrightarrow> magic (ChunkHeader_new 0 0 0) = 0x43484B01"

definition test_chunk_header_size_includes_alignment_padding :: bool where
  "test_chunk_header_size_includes_alignment_padding \<longleftrightarrow>
     CHUNK_HEADER_SIZE = 24 \<and> length (to_bytes (ChunkHeader_new 0 0 0)) = 24"

definition test_compute_checksum_deterministic :: "'h crc32 \<Rightarrow> bool" where
  "test_compute_checksum_deterministic H \<longleftrightarrow>
     (let data = lit ''hello world''; checksum1 = compute_checksum H data; checksum2 = compute_checksum H data in
      checksum1 = checksum2)"

definition test_compute_checksum_different_data_different_checksum :: "'h crc32 \<Rightarrow> bool" where
  "test_compute_checksum_different_data_different_checksum H \<longleftrightarrow>
     compute_checksum H (lit ''hello'') \<noteq> compute_checksum H (lit ''world'')"

definition test_compute_checksum_empty_data :: "'h crc32 \<Rightarrow> bool" where
  "test_compute_checksum_empty_data H \<longleftrightarrow> compute_checksum H (lit '''') = 0"

text \<open>A new file of some slots, and the calls on it.\<close>

definition on_new_file :: "u64 \<Rightarrow> file_test \<Rightarrow> bool" where
  "on_new_file len t =
     (case open_call empty_file of
        (Err _, _) \<Rightarrow> False
      | (Ok _, f) \<Rightarrow> (case set_len f len of (Err _, _) \<Rightarrow> False | (Ok _, f) \<Rightarrow> passes t f))"

abbreviation write_at :: "u64 \<Rightarrow> ChunkHeader \<Rightarrow> bytes \<Rightarrow> (os_file, unit io) act" where
  "write_at s header data \<equiv> exec_call (\<lambda>f. write_chunk_at f s header data False)"

abbreviation read_at :: "u64 \<Rightarrow> (os_file, (ChunkHeader \<times> bytes) io) act" where
  "read_at s \<equiv> call (\<lambda>f. read_chunk_optimized f s)"

abbreviation header_of :: "'h crc32 \<Rightarrow> u64 \<Rightarrow> bytes \<Rightarrow> ChunkHeader" where
  "header_of H i data \<equiv> ChunkHeader_new i (compute_checksum H data) (of_nat (length data))"

definition test_write_and_read_chunk_with_buffer :: "'h crc32 \<Rightarrow> bool" where
  "test_write_and_read_chunk_with_buffer H =
     on_new_file (of_nat SLOT_SIZE) (
       let data = lit ''test data for write/read''; header = header_of H 42 data in
       then_do (expect_ok (write_at 0 header data)) (
       bnd (expect_ok (read_at 0)) (\<lambda>(read_header, read_data).
       assert_that (read_header = header \<and> read_data = data))))"

definition test_read_chunk_header_only :: "'h crc32 \<Rightarrow> bool" where
  "test_read_chunk_header_only H =
     on_new_file (of_nat SLOT_SIZE) (
       let data = lit ''some data'' in
       then_do (expect_ok (write_at 0 (header_of H 99 data) data)) (
       bnd (expect_ok (call (\<lambda>f. read_chunk_header f 0))) (\<lambda>read_header.
       assert_that (magic read_header = MAGIC \<and> hid read_header = 99 \<and> checksum read_header = compute_checksum H data \<and>
         data_len read_header = of_nat (length data)))))"

definition test_read_chunk_optimized_returns_exact_data_size :: "'h crc32 \<Rightarrow> bool" where
  "test_read_chunk_optimized_returns_exact_data_size H =
     on_new_file (of_nat SLOT_SIZE) (
       let data = replicate 100 0xAB in
       then_do (expect_ok (write_at 0 (header_of H 1 data) data)) (
       bnd (expect_ok (read_at 0)) (\<lambda>(_, read_data).
       assert_that (length read_data = 100 \<and> read_data = data))))"

definition test_read_empty_slot_returns_empty_data :: bool where
  "test_read_empty_slot_returns_empty_data =
     on_new_file (of_nat SLOT_SIZE) (
       bnd (expect_ok (read_at 0)) (\<lambda>(header, data).
       assert_that (magic header \<noteq> MAGIC \<and> data = [])))"

definition test_write_to_different_slots :: "'h crc32 \<Rightarrow> bool" where
  "test_write_to_different_slots H =
     on_new_file (of_nat (SLOT_SIZE * 3)) (
       let data1 = lit ''slot zero data''; data2 = lit ''slot one data''; data3 = lit ''slot two data'' in
       then_do (expect_ok (write_at 0 (header_of H 100 data1) data1)) (
       then_do (expect_ok (write_at 1 (header_of H 101 data2) data2)) (
       then_do (expect_ok (write_at 2 (header_of H 102 data3) data3)) (
       bnd (expect_ok (read_at 0)) (\<lambda>(h0, d0).
       bnd (expect_ok (read_at 1)) (\<lambda>(h1, d1).
       bnd (expect_ok (read_at 2)) (\<lambda>(h2, d2).
       assert_that (hid h0 = 100 \<and> d0 = data1 \<and> hid h1 = 101 \<and> d1 = data2 \<and> hid h2 = 102 \<and> d2 = data3))))))))"

section \<open>The tests of the store\<close>

type_synonym store_test = "(chunk_store, unit) act"

definition on_new_store :: "u64 \<Rightarrow> store_test \<Rightarrow> bool" where
  "on_new_store n t =
     (case cs_open empty_file (Some n) ChunkStoreOptions_default of
        (Err _, _) \<Rightarrow> False
      | (Ok st, _) \<Rightarrow> passes t st)"

abbreviation put :: "'h crc32 \<Rightarrow> u64 \<Rightarrow> string \<Rightarrow> (chunk_store, unit io) act" where
  "put H i s \<equiv> exec_call (cs_put_chunk H i (lit s))"

abbreviation fetch :: "'h crc32 \<Rightarrow> u64 \<Rightarrow> (chunk_store, (bytes \<times> u32) io) act" where
  "fetch H i \<equiv> exec_call (cs_get_chunk H i)"

abbreviation remove :: "u64 \<Rightarrow> (chunk_store, unit io) act" where
  "remove i \<equiv> exec_call (cs_delete_chunk i)"

abbreviation free_is :: "u64 \<Rightarrow> store_test" where
  "free_is n \<equiv> check (\<lambda>st. cs_free_slots st = n)"

abbreviation reads :: "'h crc32 \<Rightarrow> u64 \<Rightarrow> string \<Rightarrow> store_test" where
  "reads H i s \<equiv> bnd (expect_ok (fetch H i)) (\<lambda>(data, _). assert_that (data = lit s))"

text \<open>The file is there once the store is open: \<open>open\<close> returns the store.\<close>

definition test_chunkstore_open_creates_file :: bool where
  "test_chunkstore_open_creates_file = on_new_store 1 (ret ())"

definition test_chunkstore_preallocates_slots :: bool where
  "test_chunkstore_preallocates_slots =
     on_new_store 4 (then_do (free_is 4) (check (\<lambda>st. flen (store_file st) = SLOT_SIZE * 4)))"

definition test_chunkstore_get_chunk_size :: bool where
  "test_chunkstore_get_chunk_size = on_new_store 1 (check (\<lambda>st. get_chunk_size st = of_nat SLOT_DATA_SIZE))"

definition test_chunkstore_put_and_get_chunk :: "'h crc32 \<Rightarrow> bool" where
  "test_chunkstore_put_and_get_chunk H =
     on_new_store 2 (
       then_do (expect_ok (put H 42 ''hello world'')) (
       bnd (expect_ok (fetch H 42)) (\<lambda>(retrieved, checksum).
       assert_that (retrieved = lit ''hello world'' \<and> checksum = compute_checksum H (lit ''hello world'')))))"

definition test_chunkstore_put_chunk_decrements_free_slots :: "'h crc32 \<Rightarrow> bool" where
  "test_chunkstore_put_chunk_decrements_free_slots H =
     on_new_store 3 (
       then_do (free_is 3) (
       then_do (expect_ok (put H 1 ''data'')) (
       then_do (free_is 2) (
       then_do (expect_ok (put H 2 ''more'')) (free_is 1)))))"

definition test_chunkstore_put_chunk_duplicate_id_fails :: "'h crc32 \<Rightarrow> bool" where
  "test_chunkstore_put_chunk_duplicate_id_fails H =
     on_new_store 2 (
       then_do (expect_ok (put H 100 ''first'')) (
       then_do (fails_with (put H 100 ''second'') AlreadyExists) (reads H 100 ''first'')))"

definition test_chunkstore_put_chunk_storage_full :: "'h crc32 \<Rightarrow> bool" where
  "test_chunkstore_put_chunk_storage_full H =
     on_new_store 2 (
       then_do (expect_ok (put H 1 ''first'')) (
       then_do (expect_ok (put H 2 ''second'')) (fails_with (put H 3 ''third'') StorageFull)))"

definition test_chunkstore_get_chunk_not_found :: "'h crc32 \<Rightarrow> bool" where
  "test_chunkstore_get_chunk_not_found H = on_new_store 1 (fails_with (fetch H 99999) NotFound)"

definition test_chunkstore_delete_chunk :: "'h crc32 \<Rightarrow> bool" where
  "test_chunkstore_delete_chunk H =
     on_new_store 2 (
       then_do (expect_ok (put H 42 ''data to delete'')) (
       then_do (free_is 1) (
       then_do (expect_ok (remove 42)) (
       then_do (free_is 2) (
       then_do (expect_err (fetch H 42)) (ret ()))))))"

definition test_chunkstore_delete_chunk_not_found_is_ok :: bool where
  "test_chunkstore_delete_chunk_not_found_is_ok = on_new_store 1 (expect_ok (remove 99999))"

definition test_chunkstore_delete_frees_slot_for_reuse :: "'h crc32 \<Rightarrow> bool" where
  "test_chunkstore_delete_frees_slot_for_reuse H =
     on_new_store 1 (
       then_do (expect_ok (put H 1 ''first'')) (
       then_do (expect_err (put H 2 ''second'')) (
       then_do (expect_ok (remove 1)) (
       then_do (expect_ok (put H 2 ''second'')) (reads H 2 ''second'')))))"

text \<open>The store is dropped and its file is opened again, which leaves the index empty.\<close>

definition open_again :: "u64 \<Rightarrow> store_test" where
  "open_again n st =
     (case cs_open (store_file st) (Some n) ChunkStoreOptions_default of
        (Err _, _) \<Rightarrow> None
      | (Ok st', _) \<Rightarrow> Some ((), st'))"

abbreviation recover :: "'h crc32 \<Rightarrow> (chunk_store, unit io) act" where
  "recover H \<equiv> exec_call (cs_recover_index H False)"

abbreviation indexed :: "nat \<Rightarrow> store_test" where
  "indexed n \<equiv> check (\<lambda>st. length (index st) = n)"

definition test_chunkstore_recover_index_after_writes :: "'h crc32 \<Rightarrow> bool" where
  "test_chunkstore_recover_index_after_writes H =
     on_new_store 4 (
       then_do (expect_ok (put H 100 ''chunk one'')) (
       then_do (expect_ok (put H 200 ''chunk two'')) (
       then_do (expect_ok (put H 300 ''chunk three'')) (
       then_do (open_again 4) (
       then_do (indexed 0) (
       then_do (expect_ok (recover H)) (
       then_do (indexed 3) (
       bnd (expect_ok (fetch H 100)) (\<lambda>(d1, _).
       bnd (expect_ok (fetch H 200)) (\<lambda>(d2, _).
       bnd (expect_ok (fetch H 300)) (\<lambda>(d3, _).
       assert_that (d1 = lit ''chunk one'' \<and> d2 = lit ''chunk two'' \<and> d3 = lit ''chunk three''))))))))))))"

definition test_chunkstore_recover_index_updates_free_slots :: "'h crc32 \<Rightarrow> bool" where
  "test_chunkstore_recover_index_updates_free_slots H =
     on_new_store 4 (
       then_do (expect_ok (put H 1 ''a'')) (
       then_do (expect_ok (put H 2 ''b'')) (
       then_do (open_again 4) (
       then_do (expect_ok (recover H)) (free_is 2)))))"

definition test_chunkstore_recover_index_empty_file :: "'h crc32 \<Rightarrow> bool" where
  "test_chunkstore_recover_index_empty_file H =
     on_new_store 4 (then_do (expect_ok (recover H)) (then_do (indexed 0) (free_is 4)))"

definition test_chunkstore_recover_index_with_deleted_chunks :: "'h crc32 \<Rightarrow> bool" where
  "test_chunkstore_recover_index_with_deleted_chunks H =
     on_new_store 4 (
       then_do (expect_ok (put H 1 ''keep'')) (
       then_do (expect_ok (put H 2 ''delete me'')) (
       then_do (expect_ok (put H 3 ''also keep'')) (
       then_do (expect_ok (remove 2)) (
       then_do (open_again 4) (
       then_do (expect_ok (recover H)) (indexed 2)))))))"

definition test_chunkstore_put_empty_data :: "'h crc32 \<Rightarrow> bool" where
  "test_chunkstore_put_empty_data H =
     on_new_store 1 (
       then_do (expect_ok (put H 1 '''')) (
       bnd (expect_ok (fetch H 1)) (\<lambda>(data, checksum). assert_that (data = [] \<and> checksum = 0))))"

definition test_chunkstore_put_max_size_data :: "'h crc32 \<Rightarrow> bool" where
  "test_chunkstore_put_max_size_data H =
     on_new_store 1 (
       let data = replicate SLOT_DATA_SIZE 0x42 in
       then_do (expect_ok (exec_call (cs_put_chunk H 1 data))) (
       bnd (expect_ok (fetch H 1)) (\<lambda>(retrieved, _).
       assert_that (length retrieved = SLOT_DATA_SIZE \<and> retrieved = data))))"

definition test_chunkstore_multiple_operations_sequence :: "'h crc32 \<Rightarrow> bool" where
  "test_chunkstore_multiple_operations_sequence H =
     on_new_store 3 (
       then_do (expect_ok (put H 1 ''first'')) (
       bnd (expect_ok (fetch H 1)) (\<lambda>(d, _).
       then_do (assert_that (d = lit ''first'')) (
       then_do (expect_ok (remove 1)) (
       then_do (expect_err (fetch H 1)) (
       then_do (expect_ok (put H 2 ''second'')) (
       then_do (expect_ok (put H 3 ''third'')) (
       bnd (expect_ok (fetch H 2)) (\<lambda>(d2, _).
       bnd (expect_ok (fetch H 3)) (\<lambda>(d3, _).
       assert_that (d2 = lit ''second'' \<and> d3 = lit ''third'')))))))))))"

abbreviation take_slot :: "(chunk_store, u64) act" where
  "take_slot \<equiv> expect_some (call find_slot)"

abbreviation no_slot :: store_test where
  "no_slot \<equiv> bnd (call find_slot) (\<lambda>slot. assert_that (slot = None))"

definition test_find_slot_returns_unique_indices :: bool where
  "test_find_slot_returns_unique_indices =
     on_new_store 3 (
       bnd take_slot (\<lambda>idx1. bnd take_slot (\<lambda>idx2. bnd take_slot (\<lambda>idx3.
       assert_that (idx1 \<noteq> idx2 \<and> idx2 \<noteq> idx3 \<and> idx1 \<noteq> idx3 \<and> idx1 < 3 \<and> idx2 < 3 \<and> idx3 < 3)))))"

definition test_find_slot_returns_none_when_full :: bool where
  "test_find_slot_returns_none_when_full =
     on_new_store 2 (then_do take_slot (then_do take_slot no_slot))"

definition test_clear_slot_makes_slot_available :: bool where
  "test_clear_slot_makes_slot_available =
     on_new_store 1 (
       bnd take_slot (\<lambda>idx.
       then_do no_slot (
       then_do (expect_ok (exec_call (clear_slot idx))) (
       bnd take_slot (\<lambda>idx2. assert_that (idx = idx2))))))"

section \<open>The tests of the configuration\<close>

text \<open>
  The text of the YAML files of the tests. What serde makes of them is a hypothesis: the fields of
  the file and the defaults of the others.
\<close>

definition config_file :: "string list \<Rightarrow> string" where
  "config_file addresses =
     concat (map (\<lambda>l. l @ [char_of (10 :: nat)])
       ([[], ''metadata-addresses:''] @ map (\<lambda>a. ''  - '' @ a) addresses @
        [''port: 3000'', ''metrics-port: 9092'', ''chunk-store-path: '' @ CHR 0x22 # ''chunkstore.dat'' @ [CHR 0x22]]))"

definition reads_configs :: "(string \<Rightarrow> StorageNodeConfig option) \<Rightarrow> bool" where
  "reads_configs from_yaml \<longleftrightarrow>
     (\<forall>addresses \<in> {[''http://localhost:3001''], [''localhost:3001'', ''http://metadata:3001'']}.
        from_yaml (config_file addresses) = Some (StorageNodeConfig_default\<lparr>metadata_addresses := addresses,
          port := 3000, metrics_port := 9092, chunk_store_path := ''chunkstore.dat''\<rparr>))"

abbreviation cleared :: "(string \<Rightarrow> string option) \<Rightarrow> string \<Rightarrow> string option" where
  "cleared env \<equiv> env(''METADATA_URLS'' := None, ''GRPC_PORT'' := None, ''METRICS_PORT'' := None)"

definition test_load_valid_config :: "(string \<Rightarrow> StorageNodeConfig option) \<Rightarrow> (string \<Rightarrow> string option) \<Rightarrow> bool" where
  "test_load_valid_config from_yaml env \<longleftrightarrow>
     (case load from_yaml (cleared env) (Ok (config_file [''http://localhost:3001''])) of
        Err _ \<Rightarrow> False
      | Ok config \<Rightarrow> metadata_addresses config = [''http://localhost:3001''] \<and> port config = 3000 \<and>
          metrics_port config = 9092 \<and> chunk_store_path config = ''chunkstore.dat'')"

definition test_default_values :: bool where
  "test_default_values \<longleftrightarrow>
     (let config = StorageNodeConfig_default in
      metadata_addresses config = [''http://localhost:3001''] \<and> port config = 3000 \<and>
      metrics_port config = 9092 \<and> chunk_store_path config = ''chunkstore.dat'')"

definition test_validation_empty_addresses :: bool where
  "test_validation_empty_addresses \<longleftrightarrow>
     (case validate (StorageNodeConfig_default\<lparr>metadata_addresses := []\<rparr>) of
        Err e \<Rightarrow> str_contains e ''cannot be empty'' | Ok _ \<Rightarrow> False)"

definition test_validation_zero_port :: bool where
  "test_validation_zero_port \<longleftrightarrow>
     (case validate (StorageNodeConfig_default\<lparr>port := 0\<rparr>) of
        Err e \<Rightarrow> str_contains e ''port cannot be 0'' | Ok _ \<Rightarrow> False)"

definition test_validation_zero_metrics_port :: bool where
  "test_validation_zero_metrics_port \<longleftrightarrow>
     (case validate (StorageNodeConfig_default\<lparr>metrics_port := 0\<rparr>) of
        Err e \<Rightarrow> str_contains e ''metrics-port cannot be 0'' | Ok _ \<Rightarrow> False)"

definition test_address_normalization :: "(string \<Rightarrow> StorageNodeConfig option) \<Rightarrow> (string \<Rightarrow> string option) \<Rightarrow> bool" where
  "test_address_normalization from_yaml env \<longleftrightarrow>
     (case load from_yaml (cleared env) (Ok (config_file [''localhost:3001'', ''http://metadata:3001''])) of
        Err _ \<Rightarrow> False
      | Ok config \<Rightarrow> metadata_addresses config = [''http://localhost:3001'', ''http://metadata:3001''])"

definition test_env_override_metadata_urls :: "(string \<Rightarrow> StorageNodeConfig option) \<Rightarrow> (string \<Rightarrow> string option) \<Rightarrow> bool" where
  "test_env_override_metadata_urls from_yaml env \<longleftrightarrow>
     (case load from_yaml ((cleared env)(''METADATA_URLS'' := Some ''http://server1:3001,http://server2:3001''))
        (Ok (config_file [''http://localhost:3001''])) of
        Err _ \<Rightarrow> False
      | Ok config \<Rightarrow> metadata_addresses config = [''http://server1:3001'', ''http://server2:3001''])"

definition test_env_override_ports :: "(string \<Rightarrow> StorageNodeConfig option) \<Rightarrow> (string \<Rightarrow> string option) \<Rightarrow> bool" where
  "test_env_override_ports from_yaml env \<longleftrightarrow>
     (case load from_yaml ((cleared env)(''GRPC_PORT'' := Some ''4000'', ''METRICS_PORT'' := Some ''9999''))
        (Ok (config_file [''http://localhost:3001''])) of
        Err _ \<Rightarrow> False
      | Ok config \<Rightarrow> port config = 4000 \<and> metrics_port config = 9999)"

lemma env_override_known:
  "env var = None \<Longrightarrow> env_override env var parse upd c = c"
  "env var = Some s \<Longrightarrow> parse s = Some v \<Longrightarrow> env_override env var parse upd c = upd v c"
  by (simp_all add: env_override_def)

text \<open>The overrides of the options leave the addresses, the ports and the path.\<close>

lemma env_override_frame:
  assumes "\<And>v c. metadata_addresses (upd v c) = metadata_addresses c \<and> port (upd v c) = port c \<and>
    metrics_port (upd v c) = metrics_port c \<and> chunk_store_path (upd v c) = chunk_store_path c"
  shows "metadata_addresses (env_override env var parse upd c) = metadata_addresses c"
    and "port (env_override env var parse upd c) = port c"
    and "metrics_port (env_override env var parse upd c) = metrics_port c"
    and "chunk_store_path (env_override env var parse upd c) = chunk_store_path c"
  using assms by (auto simp: env_override_def split: option.split)

lemma config_tests_pass:
  assumes "reads_configs from_yaml"
  shows "test_load_valid_config from_yaml env" and "test_default_values" and "test_validation_empty_addresses"
    and "test_validation_zero_port" and "test_validation_zero_metrics_port" and "test_address_normalization from_yaml env"
    and "test_env_override_metadata_urls from_yaml env" and "test_env_override_ports from_yaml env"
proof -
  let ?a = "[''http://localhost:3001'']" and ?b = "[''localhost:3001'', ''http://metadata:3001'']"
  have y: "from_yaml (config_file ?a) = Some (StorageNodeConfig_default\<lparr>metadata_addresses := ?a,
      port := 3000, metrics_port := 9092, chunk_store_path := ''chunkstore.dat''\<rparr>)"
    "from_yaml (config_file ?b) = Some (StorageNodeConfig_default\<lparr>metadata_addresses := ?b,
      port := 3000, metrics_port := 9092, chunk_store_path := ''chunkstore.dat''\<rparr>)"
    using assms unfolding reads_configs_def by blast+
  show "test_default_values" "test_validation_empty_addresses" "test_validation_zero_port" "test_validation_zero_metrics_port"
    by code_simp+
  note eval = load_def y apply_env_overrides_def env_override_known env_override_frame Let_def normalize_address_def validate_def StorageNodeConfig_default_def
    str_trim_def is_ascii_space_def parse_uint_def digit_value_def
  show "test_load_valid_config from_yaml env"
    by (simp add: test_load_valid_config_def eval)
  show "test_address_normalization from_yaml env"
    by (simp add: test_address_normalization_def eval)
  show "test_env_override_metadata_urls from_yaml env"
    by (simp add: test_env_override_metadata_urls_def eval)
  show "test_env_override_ports from_yaml env"
    by (simp add: test_env_override_ports_def eval)
qed

section \<open>The tests of slots pass\<close>

lemma header_and_checksum_tests_pass:
  "test_chunk_header_serialization_roundtrip" "test_chunk_header_magic_is_correct"
  "test_chunk_header_size_includes_alignment_padding" "test_compute_checksum_deterministic H"
  "test_compute_checksum_different_data_different_checksum ieee_crc" "test_compute_checksum_empty_data ieee_crc"
proof -
  show "test_compute_checksum_different_data_different_checksum ieee_crc" "test_compute_checksum_empty_data ieee_crc"
    by (simp_all add: test_compute_checksum_different_data_different_checksum_def test_compute_checksum_empty_data_def crc_eval)
qed (simp_all add: test_chunk_header_serialization_roundtrip_def from_to_bytes test_chunk_header_magic_is_correct_def
    test_chunk_header_size_includes_alignment_padding_def test_compute_checksum_deterministic_def ChunkHeader_new_def MAGIC_def)

text \<open>A file of \<open>n\<close> slots, on a disk without faults, with this data in these slots.\<close>

definition slots :: "'h crc32 \<Rightarrow> nat \<Rightarrow> (u64 \<Rightarrow> (u64 \<times> bytes) option) \<Rightarrow> os_file \<Rightarrow> bool" where
  "slots H n m f \<longleftrightarrow> fplan f = [] \<and> flen f = n * SLOT_SIZE \<and>
     (\<forall>s. unat s < n \<longrightarrow> (case m s of None \<Rightarrow> slot_header f s = from_bytes (replicate 24 0) | Some (i, data) \<Rightarrow> holds H f s i data))"

lemma slots_range: "slots H n m f \<Longrightarrow> n < 1000 \<Longrightarrow> unat s < n \<Longrightarrow>
    slot_base s + SLOT_SIZE \<le> flen f \<and> slot_base s + SLOT_SIZE < 2 ^ 64"
  by (simp add: slots_def slot_base_def SLOT_SIZE_eq)

lemma slots_write:
  assumes f: "slots H n m f" and n: "n < 1000" "unat s < n" and fits: "length data \<le> SLOT_DATA_SIZE"
  shows "\<exists>f'. write_chunk_at f s (header_of H i data) data False = (Ret (Ok ()), f') \<and> slots H n (m(s \<mapsto> (i, data))) f'"
proof -
  obtain r f' where w: "write_chunk_at f s (header_of H i data) data False = (r, f')" by fastforce
  note rng = slots_range [OF f n]
  have e: "changes_only s f f'" "r = Ret (Ok ())" "holds H f' s i data" "fplan f' = []"
    using write_chunk_at_effect [OF w conjunct1 [OF rng] conjunct2 [OF rng] fits] f by (auto simp: slots_def)
  have "flen f' = flen f" using e(1) by (simp add: changes_only_def)
  moreover have "slot_header f' t = slot_header f t" "holds H f' t j d = holds H f t j d" if "t \<noteq> s" for t j d
    using slot_header_other [OF e(1) that] holds_other_slot [OF e(1) that] by simp_all
  ultimately have "slots H n (m(s \<mapsto> (i, data))) f'"
    using f e(3,4) unfolding slots_def by (auto split: option.splits)
  then show ?thesis using w e(2) by blast
qed

lemma slots_read:
  assumes f: "slots H n m f" and n: "n < 1000" "unat s < n"
  shows "read_chunk_header f s = (Ok (slot_header f s), f)"
    and "m s = Some (i, data) \<Longrightarrow> slot_header f s = header_of H i data \<and> read_chunk_optimized f s = (Ok (header_of H i data, data), f)"
    and "m s = None \<Longrightarrow> \<exists>h. magic h \<noteq> MAGIC \<and> read_chunk_optimized f s = (Ok (h, []), f)"
proof -
  note rng = slots_range [OF f n] and plan = f [unfolded slots_def, THEN conjunct1]
  show h: "read_chunk_header f s = (Ok (slot_header f s), f)"
    using read_chunk_header_effect(2) [OF _ conjunct2 [OF rng] plan conjunct1 [OF rng]] by (cases "read_chunk_header f s") auto
  show "m s = Some (i, data) \<Longrightarrow> slot_header f s = header_of H i data \<and> read_chunk_optimized f s = (Ok (header_of H i data, data), f)"
  proof -
    assume "m s = Some (i, data)"
    then have hd: "holds H f s i data" using f n(2) by (fastforce simp: slots_def split: option.splits)
    have "slot_header f s = header_of H i data" using hd by (simp add: holds_def)
    moreover have "read_chunk_optimized f s = (Ok (slot_header f s, slot_contents f s), f)"
      using read_chunk_optimized_effect(2) [OF _ conjunct2 [OF rng] _ plan conjunct1 [OF rng]] holds_contents [OF hd]
      by (cases "read_chunk_optimized f s") auto
    ultimately show ?thesis using holds_contents [OF hd] by simp
  qed
  show "m s = None \<Longrightarrow> \<exists>h. magic h \<noteq> MAGIC \<and> read_chunk_optimized f s = (Ok (h, []), f)"
    using h f n(2) zero_header_not_magic by (fastforce simp: slots_def read_chunk_optimized_def split: option.splits)
qed

lemma on_new_file_slots:
  assumes "n < 1000" and "\<And>f. slots H n Map.empty f \<Longrightarrow> passes t f"
  shows "on_new_file (of_nat (n * SLOT_SIZE)) t"
proof -
  let ?f = "empty_file\<lparr>flen := n * SLOT_SIZE\<rparr>"
  have "n * SLOT_SIZE < 2 ^ LENGTH(64)" using assms(1) by (simp add: SLOT_SIZE_eq)
  then have u: "unat (of_nat (n * SLOT_SIZE) :: u64) = n * SLOT_SIZE" by (rule of_nat_inverse [OF refl])
  have "slots H n Map.empty ?f"
    by (simp add: slots_def slot_header_def fslice_def empty_file_def map_replicate_const)
  moreover have "set_len empty_file (of_nat (n * SLOT_SIZE)) = (Ok (), ?f)"
    unfolding set_len.simps u by (simp add: empty_file_def)
  ultimately show ?thesis using assms(2) by (simp add: on_new_file_def del: set_len.simps) (simp add: empty_file_def)
qed

definition file_runs :: "'h crc32 \<Rightarrow> nat \<Rightarrow> (u64 \<Rightarrow> (u64 \<times> bytes) option) \<Rightarrow> (os_file, 'a) act \<Rightarrow> bool" where
  "file_runs H n m t \<longleftrightarrow> (\<forall>f. slots H n m f \<longrightarrow> passes t f)"

lemma file_runs_new: "n < 1000 \<Longrightarrow> file_runs H n Map.empty t \<Longrightarrow> on_new_file (of_nat (n * SLOT_SIZE)) t"
  by (rule on_new_file_slots) (auto simp: file_runs_def)

lemma file_runs_write:
  assumes "n < 1000" and "unat s < n" and "length data \<le> SLOT_DATA_SIZE" and "file_runs H n (m(s \<mapsto> (i, data))) k"
  shows "file_runs H n m (then_do (expect_ok (write_at s (header_of H i data) data)) k)"
  unfolding file_runs_def
proof (intro allI impI)
  fix f assume f: "slots H n m f"
  show "passes (then_do (expect_ok (write_at s (header_of H i data) data)) k) f"
    using slots_write [OF f assms(1-3), of i] assms(4) by (auto simp: test_steps file_runs_def)
qed

lemma file_runs_read:
  assumes "n < 1000" and "unat s < n" and "m s = Some (i, data)" and "file_runs H n m (k (header_of H i data, data))"
  shows "file_runs H n m (bnd (expect_ok (read_at s)) k)"
  unfolding file_runs_def
proof (intro allI impI)
  fix f assume f: "slots H n m f"
  show "passes (bnd (expect_ok (read_at s)) k) f"
    using slots_read(2) [OF f assms(1-3)] f assms(4) by (auto simp: test_steps file_runs_def)
qed

lemma file_runs_read_header:
  assumes "n < 1000" and "unat s < n" and "m s = Some (i, data)" and "file_runs H n m (k (header_of H i data))"
  shows "file_runs H n m (bnd (expect_ok (call (\<lambda>f. read_chunk_header f s))) k)"
  unfolding file_runs_def
proof (intro allI impI)
  fix f assume f: "slots H n m f"
  show "passes (bnd (expect_ok (call (\<lambda>f. read_chunk_header f s))) k) f"
    using slots_read(1) [OF f assms(1,2)] slots_read(2) [OF f assms(1-3)] f assms(4) by (auto simp: test_steps file_runs_def)
qed

lemma file_runs_read_empty:
  assumes "n < 1000" and "unat s < n" and "m s = None" and "\<And>h. magic h \<noteq> MAGIC \<Longrightarrow> file_runs H n m (k (h, []))"
  shows "file_runs H n m (bnd (expect_ok (read_at s)) k)"
  unfolding file_runs_def
proof (intro allI impI)
  fix f assume f: "slots H n m f"
  show "passes (bnd (expect_ok (read_at s)) k) f"
    using slots_read(3) [OF f assms(1-3)] f assms(4) by (auto simp: test_steps file_runs_def)
qed

lemma file_runs_assert: "b \<Longrightarrow> file_runs H n m (assert_that b)"
  by (simp add: file_runs_def test_steps)

lemmas file_runs_steps = file_runs_write file_runs_read file_runs_read_header file_runs_read_empty file_runs_assert

lemma slot_tests_pass:
  "test_write_and_read_chunk_with_buffer H" "test_read_chunk_header_only H"
  "test_read_chunk_optimized_returns_exact_data_size H" "test_read_empty_slot_returns_empty_data" "test_write_to_different_slots H"
proof -
  have one: "of_nat SLOT_SIZE = (of_nat (1 * SLOT_SIZE) :: u64)"
    and three: "of_nat (SLOT_SIZE * 3) = (of_nat (3 * SLOT_SIZE) :: u64)" by (simp_all add: mult.commute)
  note hdr = ChunkHeader_new_def SLOT_DATA_SIZE_eq
  show "test_write_and_read_chunk_with_buffer H"
    unfolding test_write_and_read_chunk_with_buffer_def Let_def one
    by (rule file_runs_new [where H = H]) (rule file_runs_steps | simp add: hdr)+
  show "test_read_chunk_header_only H"
    unfolding test_read_chunk_header_only_def Let_def one
    by (rule file_runs_new [where H = H]) (rule file_runs_steps | simp add: hdr)+
  show "test_read_chunk_optimized_returns_exact_data_size H"
    unfolding test_read_chunk_optimized_returns_exact_data_size_def Let_def one
    by (rule file_runs_new [where H = H]) (rule file_runs_steps | simp add: hdr)+
  show "test_read_empty_slot_returns_empty_data"
    unfolding test_read_empty_slot_returns_empty_data_def one
    by (rule file_runs_new [where H = ieee_crc]) (rule file_runs_read_empty file_runs_assert | simp)+
  show "test_write_to_different_slots H"
    unfolding test_write_to_different_slots_def Let_def three
    by (rule file_runs_new [where H = H]) (rule file_runs_steps | simp add: hdr)+
qed

section \<open>The tests of the store pass\<close>

text \<open>A store of \<open>n\<close> slots with these chunks, on a disk without faults, that lost no slot.\<close>

definition stores :: "'h crc32 \<Rightarrow> u64 \<Rightarrow> (u64 \<Rightarrow> bytes option) \<Rightarrow> chunk_store \<Rightarrow> bool" where
  "stores H n m st \<longleftrightarrow> cs_good H st \<and> total_slots st = n \<and> chunks_of st = m"

definition store_runs :: "'h crc32 \<Rightarrow> u64 \<Rightarrow> (u64 \<Rightarrow> bytes option) \<Rightarrow> (chunk_store, 'a) act \<Rightarrow> bool" where
  "store_runs H n m t \<longleftrightarrow> (\<forall>st. stores H n m st \<longrightarrow> passes t st)"

lemma cs_open_fresh:
  assumes "unat n * SLOT_SIZE < 2 ^ 64"
  shows "\<exists>f. cs_open empty_file (Some n) opts = (Ok (fresh_store opts n), f)"
  using fresh_arena(1) [OF assms, where H = ieee_crc and opts = opts] by (auto simp: construct_def split: prod.splits result.splits)

lemma on_new_store_fresh:
  "unat n * SLOT_SIZE < 2 ^ 64 \<Longrightarrow> on_new_store n t \<longleftrightarrow> passes t (fresh_store ChunkStoreOptions_default n)"
  using cs_open_fresh [of n ChunkStoreOptions_default] by (auto simp: on_new_store_def)

lemma store_runs_new: "unat n * SLOT_SIZE < 2 ^ 64 \<Longrightarrow> store_runs H n Map.empty t \<Longrightarrow> on_new_store n t"
  using fresh_arena(2) [of n H ChunkStoreOptions_default] fresh_arena(3) [of n ChunkStoreOptions_default]
  by (simp add: on_new_store_fresh store_runs_def stores_def) (simp add: fresh_store_def)

lemma stores_op:
  assumes "stores H n m st" and "op_fits c" and "cs_op H c st = (a, st')"
  shows "\<exists>m'. spec_op H (unat n) c m = (a, m') \<and> stores H n m' st'"
  using cs_op_refines [of H st c a st'] cs_op_good [of H st c a st'] total_slots_const [of H st c a st'] assms
  by (auto simp: stores_def cs_good_def)

lemma store_runs_step:
  assumes "\<And>st. stores H n m st \<Longrightarrow> \<exists>x st'. t st = Some (x, st') \<and> stores H n m' st' \<and> store_runs H n m' (k x)"
  shows "store_runs H n m (bnd t k)"
  unfolding store_runs_def passes_bnd using assms unfolding store_runs_def by blast

lemma store_runs_put:
  assumes "length d \<le> SLOT_DATA_SIZE" and "m i = None" and "card (dom m) \<noteq> unat n" and "store_runs H n (m(i \<mapsto> d)) k"
  shows "store_runs H n m (then_do (expect_ok (exec_call (cs_put_chunk H i d))) k)"
proof (rule store_runs_step)
  fix st assume st: "stores H n m st"
  obtain r st' where p: "cs_put_chunk H i d st = (r, st')" by fastforce
  have "r = Ret (Ok ()) \<and> stores H n (m(i \<mapsto> d)) st'"
    using stores_op [OF st, of "OpPut i d"] p assms(1-3) by (auto simp: cs_fits_def split: if_splits)
  then show "\<exists>x st'. expect_ok (exec_call (cs_put_chunk H i d)) st = Some (x, st') \<and> stores H n (m(i \<mapsto> d)) st' \<and>
      store_runs H n (m(i \<mapsto> d)) k"
    using p assms(4) by (auto simp: test_steps)
qed

lemma store_runs_put_fails:
  assumes "length d \<le> SLOT_DATA_SIZE" and "if m i \<noteq> None then e = AlreadyExists else card (dom m) = unat n \<and> e = StorageFull"
    and "store_runs H n m (k e)"
  shows "store_runs H n m (bnd (expect_err (exec_call (cs_put_chunk H i d))) k)"
proof (rule store_runs_step)
  fix st assume st: "stores H n m st"
  obtain r st' where p: "cs_put_chunk H i d st = (r, st')" by fastforce
  have "r = Ret (Err e) \<and> stores H n m st'"
    using stores_op [OF st, of "OpPut i d"] p assms(1,2) by (auto simp: cs_fits_def split: if_splits)
  then show "\<exists>x st'. expect_err (exec_call (cs_put_chunk H i d)) st = Some (x, st') \<and> stores H n m st' \<and> store_runs H n m (k x)"
    using p assms(3) by (auto simp: test_steps)
qed

lemma store_runs_fetch:
  assumes "m i = Some d" and "store_runs H n m (k (d, compute_checksum H d))"
  shows "store_runs H n m (bnd (expect_ok (fetch H i)) k)"
proof (rule store_runs_step)
  fix st assume st: "stores H n m st"
  obtain r st' where p: "cs_get_chunk H i st = (r, st')" by fastforce
  have "r = Ret (Ok (d, compute_checksum H d)) \<and> stores H n m st'"
    using stores_op [OF st, of "OpGet i"] p assms(1) by auto
  then show "\<exists>x st'. expect_ok (fetch H i) st = Some (x, st') \<and> stores H n m st' \<and> store_runs H n m (k x)"
    using p assms(2) by (auto simp: test_steps)
qed

lemma store_runs_fetch_fails:
  assumes "m i = None" and "store_runs H n m (k NotFound)"
  shows "store_runs H n m (bnd (expect_err (fetch H i)) k)"
proof (rule store_runs_step)
  fix st assume st: "stores H n m st"
  obtain r st' where p: "cs_get_chunk H i st = (r, st')" by fastforce
  have "r = Ret (Err NotFound) \<and> stores H n m st'"
    using stores_op [OF st, of "OpGet i"] p assms(1) by auto
  then show "\<exists>x st'. expect_err (fetch H i) st = Some (x, st') \<and> stores H n m st' \<and> store_runs H n m (k x)"
    using p assms(2) by (auto simp: test_steps)
qed

lemma store_runs_remove:
  assumes "store_runs H n (m(i := None)) k"
  shows "store_runs H n m (then_do (expect_ok (remove i)) k)"
proof (rule store_runs_step)
  fix st assume st: "stores H n m st"
  obtain r st' where p: "cs_delete_chunk i st = (r, st')" by fastforce
  have "r = Ret (Ok ()) \<and> stores H n (m(i := None)) st'"
    using stores_op [OF st, of "OpDelete i"] p by auto
  then show "\<exists>x st'. expect_ok (remove i) st = Some (x, st') \<and> stores H n (m(i := None)) st' \<and> store_runs H n (m(i := None)) k"
    using p assms by (auto simp: test_steps)
qed

lemma stores_sizes:
  assumes "stores H n m st"
  shows "cs_free_slots st = of_nat (unat n - card (dom m))" and "length (index st) = card (dom m)"
    and "flen (store_file st) = unat n * SLOT_SIZE"
proof -
  have inv: "cs_invar H st" "cs_clean st" and st: "total_slots st = n" "chunks_of st = m"
    using assms by (auto simp: stores_def cs_good_def)
  have "length (free_slots st) = unat n - card (dom m)" using slots_add_up [OF inv] st by simp
  then show "cs_free_slots st = of_nat (unat n - card (dom m))" by (simp only: cs_free_slots_def)
  show "length (index st) = card (dom m)" using card_chunks [OF inv(1)] st by simp
  show "flen (store_file st) = unat n * SLOT_SIZE" using inv(1) st by (simp add: cs_invar_def)
qed

lemma store_runs_check:
  "(\<And>st. stores H n m st \<Longrightarrow> P st) \<Longrightarrow> store_runs H n m k \<Longrightarrow> store_runs H n m (then_do (check P) k)"
  "(\<And>st. stores H n m st \<Longrightarrow> P st) \<Longrightarrow> store_runs H n m (check P)"
  by (auto simp: store_runs_def test_steps)

lemma store_runs_ends:
  "b \<Longrightarrow> store_runs H n m (assert_that b)" "b \<Longrightarrow> store_runs H n m k \<Longrightarrow> store_runs H n m (then_do (assert_that b) k)"
  "store_runs H n m (ret ())"
  by (auto simp: store_runs_def test_steps)

lemma store_runs_last: "store_runs H n m (then_do t (ret ())) \<Longrightarrow> store_runs H n m t" for t :: store_test
  by (auto simp: store_runs_def passes_bnd) (metis not_None_eq old.prod.exhaust passes_def)

text \<open>Opening the file again and recovering the index restores the chunks.\<close>

lemma stores_reopen:
  assumes "stores H n m st"
  shows "\<exists>st0 st'. open_again n st = Some ((), st0) \<and> index st0 = [] \<and>
    cs_recover_index H False st0 = (Ret (Ok ()), st') \<and> stores H n m st'"
proof -
  have inv: "cs_invar H st" "cs_clean st" and plan: "fplan (store_file st) = []" and st: "total_slots st = n" "chunks_of st = m"
    using assms by (auto simp: stores_def cs_good_def cs_live_def)
  obtain st' where c: "construct H (Ok True) (store_file st) (Some n) ChunkStoreOptions_default = Ret (Ok st')" "stores H n m st'"
    using restart_same_chunks [OF inv refl refl plan, of ChunkStoreOptions_default] st by (auto simp: stores_def)
  have "unat n * SLOT_SIZE < 2 ^ 64" using inv(1) st by (simp add: cs_invar_def)
  note o = cs_open_no_faults [OF plan this, of ChunkStoreOptions_default]
  obtain st0 f where s: "cs_open (store_file st) (Some n) ChunkStoreOptions_default = (Ok st0, f)" "index st0 = []"
    unfolding o Let_def by simp
  then have "cs_recover_index H False st0 = (Ret (Ok ()), st')"
    using c(1) by (simp add: construct_def ChunkStoreOptions_default_def split: prod.splits exec.splits result.splits)
  then show ?thesis using s c(2) by (auto simp: open_again_def)
qed

lemma store_runs_reopen:
  assumes "store_runs H n m k"
  shows "store_runs H n m (then_do (open_again n) (then_do (expect_ok (recover H)) k))"
    and "store_runs H n m (then_do (open_again n) (then_do (indexed 0) (then_do (expect_ok (recover H)) k)))"
proof -
  have "passes (then_do (open_again n) (then_do (expect_ok (recover H)) k)) st \<and>
      passes (then_do (open_again n) (then_do (indexed 0) (then_do (expect_ok (recover H)) k))) st" if "stores H n m st" for st
    using stores_reopen [OF that] assms by (auto simp: store_runs_def test_steps)
  then show "store_runs H n m (then_do (open_again n) (then_do (expect_ok (recover H)) k))"
    "store_runs H n m (then_do (open_again n) (then_do (indexed 0) (then_do (expect_ok (recover H)) k)))"
    by (simp_all add: store_runs_def)
qed

lemma reopen_fresh:
  assumes "unat n * SLOT_SIZE < 2 ^ 64"
  shows "open_again n (fresh_store ChunkStoreOptions_default n) = Some ((), fresh_store ChunkStoreOptions_default n)"
  using cs_open_no_faults [OF _ assms, of "empty_file\<lparr>flen := unat n * SLOT_SIZE\<rparr>" ChunkStoreOptions_default]
  by (simp add: open_again_def fresh_store_def empty_file_def Let_def cong: if_cong)

lemma store_runs_assoc: "store_runs H n m (bnd t (\<lambda>x. bnd (f x) g)) \<Longrightarrow> store_runs H n m (bnd (bnd t f) g)"
  by (simp add: bnd_assoc)

lemmas store_runs_steps = store_runs_assoc store_runs_put store_runs_put_fails store_runs_fetch store_runs_fetch_fails store_runs_remove
  store_runs_ends store_runs_reopen

lemmas store_sizes = SLOT_SIZE_eq SLOT_DATA_SIZE_eq stores_sizes card_insert_if

lemma store_tests_pass:
  "test_chunkstore_open_creates_file" "test_chunkstore_preallocates_slots" "test_chunkstore_get_chunk_size"
  "test_chunkstore_put_and_get_chunk H" "test_chunkstore_put_chunk_decrements_free_slots H"
  "test_chunkstore_put_chunk_duplicate_id_fails H" "test_chunkstore_put_chunk_storage_full H"
  "test_chunkstore_get_chunk_not_found H"
proof -
  note new = store_runs_new [where H = H] and steps = store_runs_steps store_runs_check
  show "test_chunkstore_open_creates_file" unfolding test_chunkstore_open_creates_file_def
    by (rule new) (rule steps | simp add: store_sizes)+
  show "test_chunkstore_preallocates_slots" unfolding test_chunkstore_preallocates_slots_def
    by (rule new) (rule steps | simp add: store_sizes)+
  show "test_chunkstore_get_chunk_size" unfolding test_chunkstore_get_chunk_size_def
    by (rule new) (rule steps | simp add: store_sizes get_chunk_size_def)+
  show "test_chunkstore_put_and_get_chunk H" unfolding test_chunkstore_put_and_get_chunk_def
    by (rule new) (rule steps | simp add: store_sizes)+
  show "test_chunkstore_put_chunk_decrements_free_slots H" unfolding test_chunkstore_put_chunk_decrements_free_slots_def
    by (rule new) (rule steps | simp add: store_sizes)+
  show "test_chunkstore_put_chunk_duplicate_id_fails H" unfolding test_chunkstore_put_chunk_duplicate_id_fails_def
    by (rule new) (rule steps | simp add: store_sizes)+
  show "test_chunkstore_put_chunk_storage_full H" unfolding test_chunkstore_put_chunk_storage_full_def
    by (rule new) (rule steps | simp add: store_sizes)+
  show "test_chunkstore_get_chunk_not_found H" unfolding test_chunkstore_get_chunk_not_found_def
    by (rule new) (rule steps | simp add: store_sizes)+
qed

lemma deletion_tests_pass:
  "test_chunkstore_delete_chunk H" "test_chunkstore_delete_chunk_not_found_is_ok"
  "test_chunkstore_delete_frees_slot_for_reuse H" "test_chunkstore_multiple_operations_sequence H"
proof -
  note new = store_runs_new [where H = H] and steps = store_runs_steps store_runs_check
  show "test_chunkstore_delete_chunk H" unfolding test_chunkstore_delete_chunk_def
    by (rule new) (rule steps | simp add: store_sizes)+
  show "test_chunkstore_delete_chunk_not_found_is_ok" unfolding test_chunkstore_delete_chunk_not_found_is_ok_def
    by (rule new, simp add: store_sizes, rule store_runs_last) (rule steps | simp add: store_sizes)+
  show "test_chunkstore_delete_frees_slot_for_reuse H" unfolding test_chunkstore_delete_frees_slot_for_reuse_def
    by (rule new) (rule steps | simp add: store_sizes)+
  show "test_chunkstore_multiple_operations_sequence H" unfolding test_chunkstore_multiple_operations_sequence_def
    by (rule new) (rule steps | simp add: store_sizes)+
qed

lemma recovery_tests_pass:
  "test_chunkstore_recover_index_after_writes H" "test_chunkstore_recover_index_updates_free_slots H"
  "test_chunkstore_recover_index_empty_file H" "test_chunkstore_recover_index_with_deleted_chunks H"
proof -
  note new = store_runs_new [where H = H] and steps = store_runs_steps store_runs_check
  show "test_chunkstore_recover_index_after_writes H" unfolding test_chunkstore_recover_index_after_writes_def
    by (rule new) (rule steps | simp add: store_sizes)+
  show "test_chunkstore_recover_index_updates_free_slots H" unfolding test_chunkstore_recover_index_updates_free_slots_def
    by (rule new) (rule steps | simp add: store_sizes)+
  show "test_chunkstore_recover_index_with_deleted_chunks H" unfolding test_chunkstore_recover_index_with_deleted_chunks_def
    by (rule new) (rule steps | simp add: store_sizes)+
  have n: "unat (4 :: u64) * SLOT_SIZE < 2 ^ 64" by (simp add: SLOT_SIZE_eq)
  let ?st = "fresh_store ChunkStoreOptions_default 4"
  have st: "stores H 4 Map.empty ?st" using fresh_arena(2) [OF n] fresh_arena(3) [OF n] by (simp add: stores_def fresh_store_def)
  then obtain st' where st': "cs_recover_index H False ?st = (Ret (Ok ()), st')" "stores H 4 Map.empty st'"
    using stores_reopen [OF st] reopen_fresh [OF n] by auto
  have "cs_free_slots st' = 4" "index st' = []" using stores_sizes(1,2) [OF st'(2)] by simp_all
  then show "test_chunkstore_recover_index_empty_file H"
    using st'(1) by (simp add: test_chunkstore_recover_index_empty_file_def on_new_store_fresh [OF n] test_steps)
qed

lemma edge_case_tests_pass:
  "compute_checksum H [] = 0 \<Longrightarrow> test_chunkstore_put_empty_data H" "test_chunkstore_put_max_size_data H"
proof -
  note new = store_runs_new [where H = H] and steps = store_runs_steps store_runs_check
  show "test_chunkstore_put_empty_data H" if "compute_checksum H [] = 0" unfolding test_chunkstore_put_empty_data_def
    by (rule new) (rule steps | simp add: store_sizes that lit_def)+
  show "test_chunkstore_put_max_size_data H" unfolding test_chunkstore_put_max_size_data_def Let_def
  proof (rule new)
    show "unat (1 :: u64) * SLOT_SIZE < 2 ^ 64" by (simp add: SLOT_SIZE_eq)
    show "store_runs H 1 Map.empty (then_do (expect_ok (exec_call (cs_put_chunk H 1 (replicate SLOT_DATA_SIZE 66))))
       (bnd (expect_ok (fetch H 1)) (\<lambda>(retrieved, _). assert_that (length retrieved = SLOT_DATA_SIZE \<and> retrieved = replicate SLOT_DATA_SIZE 66))))"
      by (rule store_runs_put, simp, simp, simp, rule store_runs_fetch, simp) (simp add: store_runs_ends)
  qed
qed

lemma slot_allocation_tests_pass:
  "test_find_slot_returns_unique_indices" "test_find_slot_returns_none_when_full" "test_clear_slot_makes_slot_available"
proof -
  have n: "unat (3 :: u64) * SLOT_SIZE < 2 ^ 64" "unat (2 :: u64) * SLOT_SIZE < 2 ^ 64" "unat (1 :: u64) * SLOT_SIZE < 2 ^ 64"
    by (simp_all add: SLOT_SIZE_eq)
  note slots = find_slot_def fresh_store_def clear_slot_def upt_conv_Cons
  show "test_find_slot_returns_unique_indices"
    by (simp add: test_find_slot_returns_unique_indices_def on_new_store_fresh [OF n(1)] test_steps slots)
  show "test_find_slot_returns_none_when_full"
    by (simp add: test_find_slot_returns_none_when_full_def on_new_store_fresh [OF n(2)] test_steps slots)
  show "test_clear_slot_makes_slot_available"
    by (simp add: test_clear_slot_makes_slot_available_def on_new_store_fresh [OF n(3)] bnd_assoc test_steps slots)
qed

text \<open>All of them, with the CRC-32 of the program.\<close>

lemma storage_tests_pass:
  "list_all (\<lambda>t. t) [test_chunkstore_open_creates_file, test_chunkstore_preallocates_slots, test_chunkstore_get_chunk_size,
     test_chunkstore_put_and_get_chunk ieee_crc, test_chunkstore_put_chunk_decrements_free_slots ieee_crc,
     test_chunkstore_put_chunk_duplicate_id_fails ieee_crc, test_chunkstore_put_chunk_storage_full ieee_crc,
     test_chunkstore_get_chunk_not_found ieee_crc, test_chunkstore_delete_chunk ieee_crc,
     test_chunkstore_delete_chunk_not_found_is_ok, test_chunkstore_delete_frees_slot_for_reuse ieee_crc,
     test_chunkstore_recover_index_after_writes ieee_crc, test_chunkstore_recover_index_updates_free_slots ieee_crc,
     test_chunkstore_recover_index_empty_file ieee_crc, test_chunkstore_recover_index_with_deleted_chunks ieee_crc,
     test_chunkstore_put_empty_data ieee_crc, test_chunkstore_put_max_size_data ieee_crc,
     test_chunkstore_multiple_operations_sequence ieee_crc, test_find_slot_returns_unique_indices,
     test_find_slot_returns_none_when_full, test_clear_slot_makes_slot_available]"
proof -
  have "compute_checksum ieee_crc [] = 0" by (simp add: crc_eval)
  then show ?thesis
    by (simp only: list.pred_inject store_tests_pass deletion_tests_pass recovery_tests_pass edge_case_tests_pass
        slot_allocation_tests_pass simp_thms)
qed

end
