(* ===== verification/Metrics.thy ===== *)
theory Metrics
  imports Gateway Replication MetadataService StorageNode
begin

text \<open>
  The registration of the metrics of the four services (\<^verbatim>\<open>metrics.rs\<close> of each): \<open>Metrics::new\<close> adds
  descriptions to the registry of the process. The model of each service keeps the values of its
  counters and gauges; \<open>series\<close> says under which name and labels a value is exposed, and no two of
  them share a series. How \<open>encode\<close> of the prometheus crate prints a registry is third-party code;
  used of it is that it adds the suffix \<open>_total\<close> to the name of a counter. Buckets of histograms are
  in units of 100 microseconds.
\<close>

section \<open>Registries\<close>

datatype metric_type = Counter | Gauge | Histogram "nat list"

record registration =
  reg_name :: string
  reg_help :: string
  reg_labels :: "string list"
  reg_type :: metric_type

type_synonym registry = "registration list"

definition register :: "string \<Rightarrow> string \<Rightarrow> string list \<Rightarrow> metric_type \<Rightarrow> registry \<Rightarrow> registry" where
  "register name help labels type registry =
     registry @ [\<lparr>reg_name = name, reg_help = help, reg_labels = labels, reg_type = type\<rparr>]"

text \<open>The names of the labels, as derived from the fields.\<close>

definition gw_RequestLabels :: "string list" where
  "gw_RequestLabels = [''method'', ''endpoint'', ''status'']"

definition gw_OperationLabels :: "string list" where
  "gw_OperationLabels = [''operation'']"

definition FailureLabels :: "string list" where
  "FailureLabels = [''error_type'']"

definition sn_RpcLabels :: "string list" where
  "sn_RpcLabels = [''method'', ''status'']"

definition sn_OperationLabels :: "string list" where
  "sn_OperationLabels = [''operation'']"

definition md_RpcLabels :: "string list" where
  "md_RpcLabels = [''method'', ''status'']"

definition gw_Metrics_new :: "registry \<Rightarrow> registry" where
  "gw_Metrics_new registry =
     (let r = register ''api_gateway_http_requests_total'' ''Total HTTP requests by method, endpoint, and status''
            gw_RequestLabels Counter registry;
          r = register ''api_gateway_http_request_duration_seconds'' ''HTTP request duration in seconds''
            gw_OperationLabels (Histogram [10, 50, 100, 250, 500, 1000, 2500, 5000, 10000, 25000, 50000, 100000]) r;
          r = register ''api_gateway_objects_uploaded'' ''Total number of objects uploaded'' [] Counter r;
          r = register ''api_gateway_objects_downloaded'' ''Total number of objects downloaded'' [] Counter r;
          r = register ''api_gateway_objects_deleted'' ''Total number of objects deleted'' [] Counter r;
          r = register ''api_gateway_bytes_uploaded'' ''Total bytes uploaded'' [] Counter r in
      register ''api_gateway_bytes_downloaded'' ''Total bytes downloaded'' [] Counter r)"

definition rp_Metrics_new :: "registry \<Rightarrow> registry" where
  "rp_Metrics_new registry =
     (let r = register ''replication_runs'' ''Total replication cycles run'' [] Counter registry;
          r = register ''replication_chunks_replicated'' ''Total chunks successfully replicated'' [] Counter r;
          r = register ''replication_failures'' ''Total replication failures by error type'' FailureLabels Counter r;
          r = register ''replication_duration_seconds'' ''Duration of replication cycles in seconds'' []
            (Histogram [10, 50, 100, 500, 1000, 5000, 10000, 50000, 100000, 300000, 600000]) r;
          r = register ''replication_under_replicated_chunks'' ''Current count of under-replicated chunks'' [] Gauge r in
      register ''replication_chunks_skipped_rate_limit'' ''Chunks skipped due to rate limit'' [] Counter r)"

definition sn_Metrics_new :: "registry \<Rightarrow> registry" where
  "sn_Metrics_new registry =
     (let r = register ''storage_node_grpc_requests'' ''Total gRPC requests by method and status'' sn_RpcLabels Counter registry;
          r = register ''storage_node_chunks_written'' ''Total chunks written'' [] Counter r;
          r = register ''storage_node_chunks_read'' ''Total chunks read'' [] Counter r;
          r = register ''storage_node_chunks_deleted'' ''Total chunks deleted'' [] Counter r;
          r = register ''storage_node_bytes_written'' ''Total bytes written'' [] Counter r;
          r = register ''storage_node_bytes_read'' ''Total bytes read'' [] Counter r;
          r = register ''storage_node_free_slots'' ''Number of free chunk slots'' [] Gauge r in
      register ''storage_node_operation_duration_seconds'' ''Operation duration in seconds'' sn_OperationLabels
        (Histogram [1, 5, 10, 50, 100, 250, 500, 1000, 2500, 5000, 10000]) r)"

definition md_Metrics_new :: "registry \<Rightarrow> registry" where
  "md_Metrics_new registry =
     (let r = register ''metadata_grpc_requests'' ''Total gRPC requests by method and status'' md_RpcLabels Counter registry;
          r = register ''metadata_objects'' ''Current number of objects stored'' [] Gauge r;
          r = register ''metadata_chunks'' ''Current number of chunks stored'' [] Gauge r;
          r = register ''metadata_storage_nodes'' ''Current number of registered storage nodes'' [] Gauge r;
          r = register ''metadata_health_checks'' ''Total health checks performed'' [] Counter r in
      register ''metadata_health_checks_failed'' ''Total failed health checks'' [] Counter r)"

section \<open>Series\<close>

text \<open>The name and the label values under which a value of the model is exposed, before the suffix.\<close>

fun gw_series :: "gw_metric \<Rightarrow> string \<times> string list" where
  "gw_series (Gw_http_requests_total m e s) = (''api_gateway_http_requests_total'', [m, e, s])"
| "gw_series Gw_objects_uploaded_total = (''api_gateway_objects_uploaded'', [])"
| "gw_series Gw_objects_downloaded_total = (''api_gateway_objects_downloaded'', [])"
| "gw_series Gw_objects_deleted_total = (''api_gateway_objects_deleted'', [])"
| "gw_series Gw_bytes_uploaded_total = (''api_gateway_bytes_uploaded'', [])"
| "gw_series Gw_bytes_downloaded_total = (''api_gateway_bytes_downloaded'', [])"

fun rp_series :: "rp_metric \<Rightarrow> string \<times> string list" where
  "rp_series Rp_replication_runs_total = (''replication_runs'', [])"
| "rp_series Rp_chunks_replicated_total = (''replication_chunks_replicated'', [])"
| "rp_series (Rp_replication_failures e) = (''replication_failures'', [e])"
| "rp_series Rp_under_replicated_chunks = (''replication_under_replicated_chunks'', [])"
| "rp_series Rp_chunks_skipped_rate_limit = (''replication_chunks_skipped_rate_limit'', [])"

fun sn_series :: "sn_metric \<Rightarrow> string \<times> string list" where
  "sn_series (Grpc_requests_total m s) = (''storage_node_grpc_requests'', [m, s])"
| "sn_series Chunks_written_total = (''storage_node_chunks_written'', [])"
| "sn_series Chunks_read_total = (''storage_node_chunks_read'', [])"
| "sn_series Chunks_deleted_total = (''storage_node_chunks_deleted'', [])"
| "sn_series Bytes_written_total = (''storage_node_bytes_written'', [])"
| "sn_series Bytes_read_total = (''storage_node_bytes_read'', [])"
| "sn_series Free_slots = (''storage_node_free_slots'', [])"

fun md_series :: "md_metric \<Rightarrow> string \<times> string list" where
  "md_series (Md_grpc_requests_total m s) = (''metadata_grpc_requests'', [m, s])"
| "md_series Md_objects_total = (''metadata_objects'', [])"
| "md_series Md_chunks_total = (''metadata_chunks'', [])"
| "md_series Md_storage_nodes_total = (''metadata_storage_nodes'', [])"
| "md_series Md_health_checks_total = (''metadata_health_checks'', [])"
| "md_series Md_health_checks_failed_total = (''metadata_health_checks_failed'', [])"

definition exposed_name :: "registration \<Rightarrow> string" where
  "exposed_name r = (case reg_type r of Counter \<Rightarrow> reg_name r @ ''_total'' | _ \<Rightarrow> reg_name r)"

definition registered :: "registry \<Rightarrow> string \<times> string list \<Rightarrow> bool" where
  "registered registry s \<longleftrightarrow> (\<exists>r \<in> set registry. reg_name r = fst s \<and> length (reg_labels r) = length (snd s))"

lemmas Metrics_new_defs = gw_Metrics_new_def rp_Metrics_new_def sn_Metrics_new_def md_Metrics_new_def register_def Let_def
  gw_RequestLabels_def gw_OperationLabels_def FailureLabels_def sn_RpcLabels_def sn_OperationLabels_def md_RpcLabels_def

text \<open>Every value the services count is registered, with its labels.\<close>

lemma values_are_registered:
  "registered (gw_Metrics_new r) (gw_series g)" "registered (rp_Metrics_new r) (rp_series p)"
  "registered (sn_Metrics_new r) (sn_series n)" "registered (md_Metrics_new r) (md_series d)"
proof -
  note defs = registered_def Metrics_new_defs
  show "registered (gw_Metrics_new r) (gw_series g)" by (cases g) (simp_all add: defs)
  show "registered (rp_Metrics_new r) (rp_series p)" by (cases p) (simp_all add: defs)
  show "registered (sn_Metrics_new r) (sn_series n)" by (cases n) (simp_all add: defs)
  show "registered (md_Metrics_new r) (md_series d)" by (cases d) (simp_all add: defs)
qed

text \<open>Two values never share a series.\<close>

lemma series_are_distinct: "inj gw_series" "inj rp_series" "inj sn_series" "inj md_series"
proof -
  show "inj gw_series"
  proof (rule injI)
    fix x y assume "gw_series x = gw_series y" then show "x = y" by (cases x; cases y; simp)
  qed
  show "inj rp_series"
  proof (rule injI)
    fix x y assume "rp_series x = rp_series y" then show "x = y" by (cases x; cases y; simp)
  qed
  show "inj sn_series"
  proof (rule injI)
    fix x y assume "sn_series x = sn_series y" then show "x = y" by (cases x; cases y; simp)
  qed
  show "inj md_series"
  proof (rule injI)
    fix x y assume "md_series x = md_series y" then show "x = y" by (cases x; cases y; simp)
  qed
qed

text \<open>The exposed names of all services together are distinct; one of them has the suffix twice.\<close>

lemma exposed_names_are_distinct:
  "distinct (map exposed_name (md_Metrics_new (sn_Metrics_new (rp_Metrics_new (gw_Metrics_new [])))))"
  by (simp add: exposed_name_def Metrics_new_defs)

lemma http_requests_has_suffix_twice:
  "''api_gateway_http_requests_total_total'' \<in> set (map exposed_name (gw_Metrics_new []))"
  by (simp add: exposed_name_def Metrics_new_defs)

end
