(* ===== verification/Wrappers.thy ===== *)
theory Wrappers
  imports Clients
begin

text \<open>
  The clients of the replication service, \<^verbatim>\<open>replication-service/src/clients.rs\<close>: each wraps the client
  that tonic generates, here a record of calls, and passes every call on to it. The limit of the
  message size set by \<open>connect\<close> is not modelled.
\<close>

definition RealMetadataClient :: "'w MetadataClient \<Rightarrow> 'w MetadataClient" where
  "RealMetadataClient inner =
     \<lparr>mcl_list_storage_nodes = mcl_list_storage_nodes inner,
      mcl_put_object = (\<lambda>checksum name. mcl_put_object inner checksum name),
      mcl_get_object = (\<lambda>name. mcl_get_object inner name),
      mcl_delete_object = (\<lambda>name. mcl_delete_object inner name),
      mcl_allocate_chunk = (\<lambda>name checksum. mcl_allocate_chunk inner name checksum),
      mcl_confirm_chunk = (\<lambda>i name checksum node. mcl_confirm_chunk inner i name checksum node),
      mcl_list_objects = mcl_list_objects inner,
      mcl_delete_chunk = (\<lambda>i. mcl_delete_chunk inner i),
      mcl_put_chunk = (\<lambda>name checksum. mcl_put_chunk inner name checksum),
      mcl_put_storage_node = (\<lambda>address. mcl_put_storage_node inner address),
      mcl_get_chunk = (\<lambda>i. mcl_get_chunk inner i),
      mcl_get_storage_node = (\<lambda>i. mcl_get_storage_node inner i),
      mcl_delete_storage_node = (\<lambda>i. mcl_delete_storage_node inner i),
      mcl_list_under_replicated_chunks = (\<lambda>n. mcl_list_under_replicated_chunks inner n),
      mcl_add_chunk_replica = (\<lambda>i node. mcl_add_chunk_replica inner i node),
      mcl_update_object_checksum = (\<lambda>name checksum size. mcl_update_object_checksum inner name checksum size)\<rparr>"

definition RealStorageNodeClient :: "('n, 'w) StorageNodeClient \<Rightarrow> ('n, 'w) StorageNodeClient" where
  "RealStorageNodeClient inner =
     \<lparr>ncl_connect = (\<lambda>address. ncl_connect inner address),
      ncl_get_chunk_size = (\<lambda>client. ncl_get_chunk_size inner client),
      ncl_write_chunk = (\<lambda>client i data. ncl_write_chunk inner client i data),
      ncl_read_chunk = (\<lambda>client i. ncl_read_chunk inner client i),
      ncl_delete_chunk = (\<lambda>client i. ncl_delete_chunk inner client i),
      ncl_get_free_chunks = (\<lambda>client. ncl_get_free_chunks inner client),
      ncl_check_health = (\<lambda>client. ncl_check_health inner client)\<rparr>"

text \<open>No wrapper mixes up two calls: what runs on the generated clients is what runs on the wrapped ones.\<close>

lemma wrappers_are_transparent: "RealMetadataClient inner = inner" "RealStorageNodeClient inner' = inner'"
  by (simp_all add: RealMetadataClient_def RealStorageNodeClient_def)

end
