(* ===== verification/Spec2Isabelle.thy ===== *)
theory Spec2Isabelle
  imports EndToEnd DeploymentProgress Startup MetadataCluster HandlerTests ReplicationTests MetadataTests RingTests StorageTests
    Metrics Wrappers
begin

text \<open>
  \<^bold>\<open>Verification of an object store.\<close>

  The program is a distributed object store in Rust. An HTTP \<^emph>\<open>gateway\<close> cuts an object into chunks,
  asks the \<^emph>\<open>metadata service\<close> where to put each of them, writes it to a \<^emph>\<open>storage node\<close> and confirms
  it; a download asks the metadata service for the chunks and their replicas and reads them. A
  storage node keeps chunks in the slots of one file. The metadata service keeps objects, chunks
  and replicas in memory with a JSON snapshot on disk; several of them form a cluster that divides
  the object names by consistent hashing and forwards requests to the owner of a name. The
  \<^emph>\<open>replication service\<close> periodically copies chunks that have fewer than three replicas.

  \<^bold>\<open>Theories and sources\<close> (paths under \<^verbatim>\<open>src/\<close>).

  \<^item> \<open>Prelude\<close>, \<open>RustStd\<close>: Rust's \<open>Result\<close>, panics, integers at their width, \<open>HashMap\<close> and \<open>BTreeMap\<close>
    as association lists behind the locale \<open>kv_map\<close>, metrics, the string functions the code uses.
  \<^item> \<open>FileIO\<close>: the file of a chunk store with its page cache and disk contents, and a plan of the
    answers of the operating system (short transfers, interruptions, errors);
    \<open>write_all_at\<close> and \<open>read_exact_at\<close> of \<^verbatim>\<open>storage-node/src/chunk_store.rs\<close>.
  \<^item> \<open>ChunkStore\<close>, \<open>ChunkRecovery\<close>: the rest of \<^verbatim>\<open>chunk_store.rs\<close>: header codec, slots, free list,
    put, get and delete of a chunk, \<open>open\<close>, \<open>recover_index\<close>, poisoned locks.
  \<^item> \<open>ChunkService\<close>: the contract of a holder of chunks (locales \<open>chunk_service\<close>,
    \<open>live_chunk_service\<close>), interpreted on the chunk store (\<open>cs\<close>) and on the gRPC service of a
    node (\<open>sn\<close>).
  \<^item> \<open>StorageNode\<close>: \<^verbatim>\<open>storage-node/src/main.rs\<close> (the handlers), \<^verbatim>\<open>config.rs\<close>, \<^verbatim>\<open>grpc_utils.rs\<close>.
  \<^item> \<open>HashRing\<close>: \<^verbatim>\<open>storage-metadata/src/hash_ring.rs\<close>, with the locale \<open>placement\<close>.
  \<^item> \<open>MetadataStore\<close>: \<^verbatim>\<open>storage-metadata/src/metadata_store.rs\<close>, with the locale \<open>journal\<close>.
  \<^item> \<open>Cluster\<close>: \<^verbatim>\<open>chunk_index.rs\<close>, \<^verbatim>\<open>cluster.rs\<close>, \<^verbatim>\<open>forwarding.rs\<close>.
  \<^item> \<open>MetadataService\<close>: the handlers and the health check of \<^verbatim>\<open>storage-metadata/src/main.rs\<close>,
    \<^verbatim>\<open>cluster_service.rs\<close> (the handlers peers call) and \<^verbatim>\<open>migration.rs\<close>.
  \<^item> \<open>MetadataCluster\<close>: several metadata services whose calls to each other reach the handlers of
    \<^verbatim>\<open>cluster_service.rs\<close> at the service with that address, with the locale \<open>object_cluster\<close>.
  \<^item> \<open>Clients\<close>: the client traits of \<^verbatim>\<open>protos/src/clients.rs\<close> as records of calls, the failover
    over the addresses of the metadata service.
  \<^item> \<open>Gateway\<close>: \<^verbatim>\<open>api-gateway/src/handlers.rs\<close> and the state, connection and routes of
    \<^verbatim>\<open>api-gateway/src/main.rs\<close>.
  \<^item> \<open>Replication\<close>: \<^verbatim>\<open>replication-service/src/main.rs\<close>.
  \<^item> \<open>Backend\<close>: what the gateway and the replication service rely on, as the abstract state
    \<open>cview\<close> and the locales \<open>backend\<close>, \<open>steady_backend\<close> (the metadata service can save) and
    \<open>live_backend\<close> (everything is healthy).
  \<^item> \<open>GatewayCorrect\<close>, \<open>GatewayRequests\<close>, \<open>ReplicationCorrect\<close>: the handlers, sequences of requests
    and the replication cycle over any such backend. \<open>ReplicationProgress\<close>: that a cycle gets
    somewhere, over a backend that answers (locale \<open>progress_backend\<close>).
  \<^item> \<open>Deployment\<close>, \<open>DeploymentProgress\<close>: the metadata service and the storage nodes of the earlier theories behind the
    clients (\<^verbatim>\<open>api-gateway/src/clients.rs\<close>, \<^verbatim>\<open>replication-service/src/clients.rs\<close>), and the
    interpretations \<open>net\<close>, \<open>netst\<close> and \<open>netpr\<close> of the backend locales on them.
  \<^item> \<open>Startup\<close>: \<open>main\<close> of the storage node, the metadata service and the replication service and
    \<open>app\<close> of the gateway up to the point of serving, on the environment, the files and the
    connections as arguments.
  \<^item> \<open>EndToEnd\<close>: what the clients of the whole store observe.
  \<^item> \<open>Metrics\<close>: the registration of the metrics of the four services (\<^verbatim>\<open>metrics.rs\<close> of each).
    \<open>Wrappers\<close>: \<^verbatim>\<open>replication-service/src/clients.rs\<close>, which passes every call on.
  \<^item> \<open>Mocks\<close>, \<open>MocksCorrect\<close>: the mock clients of \<^verbatim>\<open>api-gateway/src/clients.rs\<close> and what the handlers of the
    gateway do on them.
  \<^item> \<open>Testing\<close>: how a unit test is read (an action that has no value when an assertion fails or the
    code panics) and the CRC-32 of the program. \<open>TextCodec\<close>: a codec of snapshots that satisfies
    the hypothesis on JSON.
  \<^item> \<open>HandlerTests\<close>, \<open>ReplicationTests\<close>, \<open>MetadataTests\<close>, \<open>RingTests\<close>, \<open>StorageTests\<close>: the unit tests of
    \<^verbatim>\<open>api-gateway/src/handlers.rs\<close>, \<^verbatim>\<open>replication-service/src/main.rs\<close>,
    \<^verbatim>\<open>storage-metadata/src/metadata_store.rs\<close>, \<^verbatim>\<open>hash_ring.rs\<close> and \<^verbatim>\<open>chunk_index.rs\<close>, and
    \<^verbatim>\<open>storage-node/src/chunk_store.rs\<close> and \<^verbatim>\<open>config.rs\<close>.

  \<^bold>\<open>How code is modelled.\<close> A handler of a service takes its state to a reply and a new state; a
  reply is a value or a status code, an I/O result a value or an error kind, a panic a value of
  its own (\<open>exec\<close>). A \<open>std\<close> lock held during a panic is poisoned, as the flag of the state that every
  later operation tests. Handlers that take the store lock twice are two functions, so that other
  requests can run between them. The clients are actions (\<open>act\<close>): a call returns a value and a
  state, or \<open>None\<close> if it never returns.

  \<^bold>\<open>What is shown.\<close>

  \<^item> Chunk store: under every plan of I/O answers the invariant holds and each operation refines the
    map of chunks; without faults it answers every history like a bounded map; with the default
    options a crash loses nothing. An oversized write disables a node.
  \<^item> Storage node: acknowledged writes are read back, reads are never stale, deleted chunks stay
    deleted; retries; configuration.
  \<^item> Metadata store: an invariant on every reachable state, two-phase chunk writes, atomic saves,
    reload after save, drawing of unique ids, under-replication lists, failed saves.
  \<^item> Hash ring and cluster: only the keys that must move do, owned ranges are ownership except at the
    last position, membership, routing.
  \<^item> Metadata service: replies on every branch, the chunk index follows the objects, races of
    \<open>get_object\<close> with a deletion, migration, health checks, the effect of a restart.
  \<^item> Cluster of metadata services: whichever services the requests for objects are sent to, the
    answers are those of one map; a service that joins takes over the objects it owns.
  \<^item> Gateway: an acknowledged upload is downloaded unchanged after any other requests, a multipart
    upload is slicing of the body, a streamed download equals a JSON download, deletion, names,
    failed uploads.
  \<^item> Replication: a cycle only adds replicas and every object keeps its bytes; the loop recovers from
    the loss of its metadata service; a failed save leaves a dangling replica. On a healthy
    deployment two cycles bring every chunk to three replicas or one per node; a node registered
    twice stops them.
  \<^item> Processes: the service \<open>main\<close> starts on its snapshot continues the deployment, and a storage
    node that starts again on its file loses no object but is registered a second time.

  \<^item> Unit tests: the tests of the repository, read as actions on the model, pass, so the definitions do
    what the code was observed to do on these inputs. They pass for every random generator, encoder,
    hash and parser with the behaviour the test relies on, which is stated as a hypothesis and shown
    to be satisfiable; the tests that measure the distribution of the hash ring are reduced to the
    number of keys each node gets. The round-trip test of the gateway is proved for every name and
    all data.

  \<^bold>\<open>Loops and bounds.\<close> The loops of the code are recursions on lists or on the number of attempts it
  fixes itself: three attempts for a read, five rounds of reconnection (six for the gateway, whose
  counter is tested after it is decremented), three failures before the replication loop
  reconnects. Two loops may run forever and are \<open>partial_function (option)\<close>: the drawing of a
  unique id, shown to return once an unused id is drawn, and the flush loop of a multipart upload,
  shown to return for a positive chunk size. The positions of a ring and the ids are 64-bit words;
  offsets in the file wrap at 64 bits, and the size of a store is assumed to be below that.

  \<^bold>\<open>Code outside the repository\<close> is a parameter: CRC-32 (a record of three functions; where a
  checksum is streamed, that updating piecewise equals updating at once), the XXH3 hash of keys
  (arbitrary), JSON of the snapshot (where a reload matters, that parsing inverts printing), base64,
  the URI parser, the multipart and HTTP framework, the table of alphanumeric characters, the random
  generator (an index below the length), and the remote procedures of peers.

  \<^bold>\<open>Not modelled.\<close> Of the unit tests, those that run third-party code alone (JSON of the payloads,
  base64, the metrics registry), and the statistical test of the
  choice of a storage node. Tracing, logging, durations, and the text of the metrics; the
  listening sockets and HTTP servers, signal handling and the gossip protocol (its live nodes are an
  input of the membership tick); the overall request time-out and compression of the HTTP
  framework. Tasks joined by \<open>join_all\<close> run in the order of the list, and a handler of another process
  runs as one step. The deployment of the end-to-end properties has one metadata service, with or
  without a cluster layer that knows no other node, and any number of storage nodes; the cluster of
  several metadata services is covered by the properties of \<open>Cluster\<close>, \<open>MetadataService\<close> and
  \<open>MetadataCluster\<close>, the latter for the requests on objects.
\<close>

end
